(* ===== verification/Prelude.thy ===== *)
theory Prelude
  imports Main "HOL-Library.Word"
begin

text \<open>
  Shared vocabulary of the development: the machine-integer types of the code, a bind for
  computations that may fault, the ordered associative container \<open>std::map\<close> (a list of
  key/value pairs sorted by key, read through \<^const>\<open>map_of\<close>) and the generic lemmas the
  component theories use.  The collections \<open>model_defs\<close> and \<open>wire_simps\<close> gather the facts
  that the component proofs pass to the simplifier.
\<close>

unbundle bit_operations_syntax

named_theorems model_defs "definitions that are unfolded when an operation is evaluated"
named_theorems wire_simps "equations that compute wire images"

type_synonym u8 = "8 word"
type_synonym u16 = "16 word"
type_synonym u32 = "32 word"
type_synonym u64 = "64 word"
type_synonym bytes = "u8 list"

text \<open>Instants and durations of \<open>steady_clock\<close>, in nanoseconds.\<close>

type_synonym time = int

section \<open>Faulting computations\<close>

text \<open>
  A raise, or a step whose behaviour the C++ standard leaves undefined, is the left summand.
\<close>

definition try_bind :: "'e + 'a \<Rightarrow> ('a \<Rightarrow> 'e + 'b) \<Rightarrow> 'e + 'b" where
  "try_bind r k = (case r of Inl e \<Rightarrow> Inl e | Inr a \<Rightarrow> k a)"

lemma try_bind_simps [simp]:
  "try_bind (Inl e) k = Inl e"
  "try_bind (Inr a) k = k a"
  by (simp_all add: try_bind_def)

lemma try_bind_Inr_iff:
  "try_bind r k = Inr b \<longleftrightarrow> (\<exists>a. r = Inr a \<and> k a = Inr b)"
  by (cases r) simp_all

lemma try_bind_Inl_iff:
  "try_bind r k = Inl e \<longleftrightarrow> r = Inl e \<or> (\<exists>a. r = Inr a \<and> k a = Inl e)"
  by (cases r) simp_all

text \<open>The same result, with the fault as one of the caller's.\<close>

definition raise_as :: "('e \<Rightarrow> 'f) \<Rightarrow> 'e + 'a \<Rightarrow> 'f + 'a" where
  "raise_as c r = (case r of Inl e \<Rightarrow> Inl (c e) | Inr x \<Rightarrow> Inr x)"

lemma raise_as_simps [simp]:
  "raise_as c (Inl e) = Inl (c e)"
  "raise_as c (Inr a) = Inr a"
  by (simp_all add: raise_as_def)

section \<open>Ordered maps\<close>

type_synonym ('k, 'v) omap = "('k \<times> 'v) list"

primrec om_put :: "'k::linorder \<Rightarrow> 'v \<Rightarrow> ('k, 'v) omap \<Rightarrow> ('k, 'v) omap" where
  "om_put k v [] = [(k, v)]"
| "om_put k v (e # m) =
     (if fst e < k then e # om_put k v m
      else (k, v) # (if fst e = k then m else e # m))"

definition om_del :: "'k \<Rightarrow> ('k, 'v) omap \<Rightarrow> ('k, 'v) omap" where
  "om_del k m = filter (\<lambda>e. fst e \<noteq> k) m"

definition om_has :: "('k, 'v) omap \<Rightarrow> 'k \<Rightarrow> bool" where
  "om_has m k \<longleftrightarrow> map_of m k \<noteq> None"

text \<open>\<open>m[k]\<close> as a value: a missing key is value-initialised to \<open>d\<close>.\<close>

definition om_get :: "'v \<Rightarrow> ('k, 'v) omap \<Rightarrow> 'k \<Rightarrow> 'v" where
  "om_get d m k = (case map_of m k of None \<Rightarrow> d | Some v \<Rightarrow> v)"

definition om_wf :: "('k::linorder, 'v) omap \<Rightarrow> bool" where
  "om_wf m \<longleftrightarrow> sorted_wrt (<) (map fst m)"

lemma map_of_om_put [simp]: "map_of (om_put k v m) = (map_of m)(k \<mapsto> v)"
  by (induction m) (auto simp: fun_eq_iff)

lemma map_of_om_del [simp]: "map_of (om_del k m) = (map_of m)(k := None)"
  by (induction m) (auto simp: om_del_def fun_eq_iff)

lemma om_get_simps [simp]:
  "om_get d (om_put k v m) j = (if j = k then v else om_get d m j)"
  "om_get d (om_del k m) j = (if j = k then d else om_get d m j)"
  "om_get d [] j = d"
  by (simp_all add: om_get_def)

lemma om_has_simps [simp]:
  "om_has (om_put k v m) j \<longleftrightarrow> j = k \<or> om_has m j"
  "om_has (om_del k m) j \<longleftrightarrow> j \<noteq> k \<and> om_has m j"
  "\<not> om_has [] j"
  by (auto simp: om_has_def)

lemma set_om_put_fst [simp]: "fst ` set (om_put k v m) = insert k (fst ` set m)"
  by (induction m) auto

lemma in_om_put: "e \<in> set (om_put k v m) \<Longrightarrow> e = (k, v) \<or> e \<in> set m"
  by (induction m) (auto split: if_splits)

lemma om_wf_Nil [simp]: "om_wf []"
  by (simp add: om_wf_def)

lemma om_wf_Cons: "om_wf (e # m) \<longleftrightarrow> (\<forall>k \<in> fst ` set m. fst e < k) \<and> om_wf m"
  by (auto simp: om_wf_def)

lemma om_wf_put [simp]: "om_wf m \<Longrightarrow> om_wf (om_put k v m)"
  by (induction m) (auto simp: om_wf_Cons)

lemma om_wf_del [simp]: "om_wf m \<Longrightarrow> om_wf (om_del k m)"
  by (induction m) (auto simp: om_wf_Cons om_del_def)

lemma length_om_del_less: "om_has m k \<Longrightarrow> length (om_del k m) < length m"
  by (induction m) (auto simp: om_has_def om_del_def le_imp_less_Suc length_filter_le split: if_splits)

lemma om_wf_distinct: "om_wf m \<Longrightarrow> distinct (map fst m)"
  by (induction m) (auto simp: om_wf_Cons)

lemma map_of_rev_Cons:
  "map_of (rev (p # ps)) c =
    (if c \<in> fst ` set ps then map_of (rev ps) c else if c = fst p then Some (snd p) else None)"
proof (cases "map_of (rev ps) c")
  case None
  then have "c \<notin> fst ` set ps" by (simp add: map_of_eq_None_iff)
  with None show ?thesis by (cases p) (simp add: map_add_def)
next
  case (Some v)
  then have "c \<in> fst ` set ps" using map_of_SomeD[OF Some] by (force simp: image_iff)
  with Some show ?thesis by (cases p) (simp add: map_add_def)
qed

lemma last_is_nth: "k < length xs \<Longrightarrow> last xs = xs ! (length xs - 1)"
  by (cases xs rule: rev_cases) simp_all

section \<open>Word lemmas\<close>

lemma unat_sub_le: "b \<le> a \<Longrightarrow> unat (a - b) = unat a - unat (b :: 'a::len word)"
  by (rule unat_sub)

lemma unat_less_iff: "a < b \<longleftrightarrow> unat a < unat (b :: 'a::len word)"
  by (rule word_less_nat_alt)

lemma unat_le_iff: "a \<le> b \<longleftrightarrow> unat a \<le> unat (b :: 'a::len word)"
  by (rule word_le_nat_alt)

lemma bit_exp_word [simp]:
  "bit (2 ^ n :: 'a::len word) m \<longleftrightarrow> m = n \<and> n < LENGTH('a)"
  by (auto simp: bit_exp_iff)

end
