(* ===== verification/Endian.thy ===== *)
theory Endian
  imports Prelude
begin

text \<open>
  \<open>rtnt::endian::swap\<close> (\<^verbatim>\<open>lib/rtnt/include/rtnt/common/utils.hpp\<close>) and the object
  representation of the unsigned integer types it works on.  The wire format is what the
  packet stream appends: the memory image of the swapped value.  The lemmas show that this is
  the big-endian byte string of the value on a little-endian and on a big-endian host alike,
  and that reading it back is the inverse.
\<close>

datatype endian = Little | Big

text \<open>The targets the project builds for (arm64, x86_64) are little-endian.\<close>

definition native :: endian where
  "native = Little"

section \<open>Object representation\<close>

definition le_bytes :: "'a::len word \<Rightarrow> bytes" where
  "le_bytes w = map (\<lambda>i. ucast (drop_bit (8 * i) w)) [0..<LENGTH('a) div 8]"

definition le_value :: "bytes \<Rightarrow> 'a::len word" where
  "le_value bs = foldr (\<lambda>b acc. ucast b OR push_bit 8 acc) bs 0"

definition mem_bytes :: "endian \<Rightarrow> 'a::len word \<Rightarrow> bytes" where
  "mem_bytes h w = (case h of Little \<Rightarrow> le_bytes w | Big \<Rightarrow> rev (le_bytes w))"

definition mem_value :: "endian \<Rightarrow> bytes \<Rightarrow> 'a::len word" where
  "mem_value h bs = (case h of Little \<Rightarrow> le_value bs | Big \<Rightarrow> le_value (rev bs))"

definition endian_swap :: "endian \<Rightarrow> 'a::len word \<Rightarrow> 'a word" where
  "endian_swap h w =
     (if LENGTH('a) = 8 then w
      else case h of Big \<Rightarrow> w
           | Little \<Rightarrow> mem_value h (rev (mem_bytes h w)))"

text \<open>The network image of a value: most significant byte first.\<close>

definition be_bytes :: "'a::len word \<Rightarrow> bytes" where
  "be_bytes w = rev (le_bytes w)"

section \<open>Bytes and bits\<close>

lemma length_le_bytes [simp]: "length (le_bytes (w :: 'a::len word)) = LENGTH('a) div 8"
  by (simp add: le_bytes_def)

lemma length_be_bytes [simp]: "length (be_bytes (w :: 'a::len word)) = LENGTH('a) div 8"
  by (simp add: be_bytes_def)

lemma bit_le_value:
  "bit (le_value bs :: 'a::len word) n \<longleftrightarrow>
     n < LENGTH('a) \<and> n div 8 < length bs \<and> bit (bs ! (n div 8)) (n mod 8)"
proof (induction bs arbitrary: n)
  case Nil
  then show ?case by (simp add: le_value_def)
next
  case (Cons b bs)
  have step: "(le_value (b # bs) :: 'a word) = ucast b OR push_bit 8 (le_value bs)"
    by (simp add: le_value_def)
  show ?case
  proof (cases "n < 8")
    case True
    then show ?thesis
      by (auto simp: step bit_or_iff bit_ucast_iff bit_push_bit_iff dest: bit_imp_le_length)
  next
    case False
    then have "\<not> bit (ucast b :: 'a word) n"
      by (auto simp: bit_ucast_iff dest: bit_imp_le_length)
    moreover from False have "n div 8 = Suc ((n - 8) div 8)" "n mod 8 = (n - 8) mod 8"
      by (simp_all add: le_div_geq le_mod_geq)
    ultimately show ?thesis
      using False by (auto simp: step bit_or_iff bit_push_bit_iff Cons.IH)
  qed
qed

lemma bit_le_bytes_nth:
  "i < LENGTH('a) div 8 \<Longrightarrow>
   bit (le_bytes (w :: 'a::len word) ! i) n \<longleftrightarrow> n < 8 \<and> bit w (8 * i + n)"
  by (auto simp: le_bytes_def bit_ucast_iff bit_drop_bit_eq add.commute)

lemma le_value_le_bytes [simp]:
  assumes "8 dvd LENGTH('a::len)"
  shows "le_value (le_bytes w) = (w :: 'a word)"
proof (rule bit_word_eqI)
  fix n assume n: "n < LENGTH('a)"
  with assms have "n div 8 < LENGTH('a) div 8"
    by (metis dvd_mult_div_cancel less_mult_imp_div_less mult.commute)
  with n show "bit (le_value (le_bytes w) :: 'a word) n \<longleftrightarrow> bit w n"
    by (simp add: bit_le_value bit_le_bytes_nth)
qed

lemma le_bytes_le_value [simp]:
  assumes "8 dvd LENGTH('a::len)" and "length bs = LENGTH('a) div 8"
  shows "le_bytes (le_value bs :: 'a word) = bs"
proof (rule nth_equalityI)
  show "length (le_bytes (le_value bs :: 'a word)) = length bs"
    using assms by simp
  fix i assume "i < length (le_bytes (le_value bs :: 'a word))"
  then have i: "i < LENGTH('a) div 8" by simp
  show "le_bytes (le_value bs :: 'a word) ! i = bs ! i"
  proof (rule bit_word_eqI)
    fix n assume "n < LENGTH(8)"
    then have n: "n < 8" by simp
    have "8 * i + n < LENGTH('a)"
      using assms(1) i n by (auto elim!: dvdE)
    with n i assms show "bit (le_bytes (le_value bs :: 'a word) ! i) n \<longleftrightarrow> bit (bs ! i) n"
      by (simp add: bit_le_bytes_nth bit_le_value)
  qed
qed

lemma le_bytes_inject:
  assumes "8 dvd LENGTH('a::len)"
  shows "le_bytes v = le_bytes w \<longleftrightarrow> v = (w :: 'a word)"
  using le_value_le_bytes[OF assms] by metis

lemma be_bytes_inject:
  assumes "8 dvd LENGTH('a::len)"
  shows "be_bytes v = be_bytes w \<longleftrightarrow> v = (w :: 'a word)"
  using le_bytes_inject[OF assms] by (simp add: be_bytes_def)

lemma be_bytes_u8 [simp]: "be_bytes (b :: u8) = [b]"
  by (simp add: be_bytes_def le_bytes_def)

lemma be_bytes_u16 [wire_simps]: "be_bytes (w :: u16) = [ucast (drop_bit 8 w), ucast w]"
  by (simp add: be_bytes_def le_bytes_def upt_rec)

lemma be_bytes_u32 [wire_simps]:
  "be_bytes (w :: u32) =
     [ucast (drop_bit 24 w), ucast (drop_bit 16 w), ucast (drop_bit 8 w), ucast w]"
  by (simp add: be_bytes_def le_bytes_def upt_rec)

lemma be_bytes_u64 [wire_simps]:
  "be_bytes (w :: u64) =
     [ucast (drop_bit 56 w), ucast (drop_bit 48 w), ucast (drop_bit 40 w), ucast (drop_bit 32 w),
      ucast (drop_bit 24 w), ucast (drop_bit 16 w), ucast (drop_bit 8 w), ucast w]"
  by (simp add: be_bytes_def le_bytes_def upt_rec)

section \<open>The wire image does not depend on the host\<close>

lemma swap_swap [simp]:
  assumes "8 dvd LENGTH('a::len)"
  shows "endian_swap h (endian_swap h w) = (w :: 'a word)"
  using assms by (simp add: endian_swap_def mem_bytes_def mem_value_def split: endian.split)

lemma mem_swap_be:
  assumes "8 dvd LENGTH('a::len)"
  shows "mem_bytes h (endian_swap h w) = be_bytes (w :: 'a word)"
proof (cases "LENGTH('a) = 8")
  case True
  then have "rev (le_bytes w) = le_bytes w"
    by (simp add: le_bytes_def)
  with True show ?thesis
    by (simp add: endian_swap_def mem_bytes_def be_bytes_def split: endian.split)
next
  case False
  with assms show ?thesis
    by (simp add: endian_swap_def mem_bytes_def mem_value_def be_bytes_def split: endian.split)
qed

lemma swap_mem_be:
  assumes "8 dvd LENGTH('a::len)"
  shows "endian_swap h (mem_value h (be_bytes w)) = (w :: 'a word)"
proof -
  have "mem_value h (mem_bytes h v) = v" for v :: "'a word"
    using assms by (simp add: mem_value_def mem_bytes_def split: endian.split)
  then show ?thesis
    using assms by (simp flip: mem_swap_be[OF assms, of h])
qed

lemma mem_value_eq_iff:
  assumes "8 dvd LENGTH('a::len)" and "length bs = LENGTH('a) div 8"
  shows "endian_swap h (mem_value h bs) = (w :: 'a word) \<longleftrightarrow> bs = be_bytes w"
proof
  assume "bs = be_bytes w"
  then show "endian_swap h (mem_value h bs) = w"
    by (simp add: swap_mem_be[OF assms(1)])
next
  assume "endian_swap h (mem_value h bs) = w"
  then have "be_bytes w = mem_bytes h (endian_swap h (endian_swap h (mem_value h bs :: 'a word)))"
    by (simp flip: mem_swap_be[OF assms(1), of h])
  also have "\<dots> = bs"
    using assms by (simp add: mem_bytes_def mem_value_def split: endian.split)
  finally show "bs = be_bytes w" by simp
qed

text \<open>Whatever the byte order of the host, the bytes a packet stream appends for an
  integer (the memory of the swapped value) are its big-endian representation, and swapping
  what was read back from them gives the integer.\<close>

theorem wire_host_independent:
  assumes "8 dvd LENGTH('a::len)"
  shows "mem_bytes h (endian_swap h w) = be_bytes (w :: 'a word) \<and>
         endian_swap h' (mem_value h' (mem_bytes h (endian_swap h w))) = w"
  using assms by (simp_all add: mem_swap_be swap_mem_be)

theorem wire_host_independent_witness:
  "mem_bytes Little (endian_swap Little (0x2204 :: u16)) = be_bytes (0x2204 :: u16)
   \<and> be_bytes (0x2204 :: u16) = [0x22, 0x04]
   \<and> endian_swap Big (mem_value Big (mem_bytes Little (endian_swap Little (0x2204 :: u16)))) = (0x2204 :: u16)"
proof -
  have width: "8 dvd LENGTH(16)" by simp
  have "be_bytes (0x2204 :: u16) = [0x22, 0x04]"
    by (simp add: wire_simps)
  then show ?thesis
    using wire_host_independent[OF width, where h = Little and h' = Big and w = "0x2204"]
    by (elim conjE, intro conjI)
qed

end
