(* ===== verification/Packet.thy ===== *)
theory Packet
  imports Endian
begin

text \<open>
  The wire header and the packet stream of \<open>rtnt\<close>
  (\<^verbatim>\<open>lib/rtnt/include/rtnt/core/packet.hpp\<close>, \<^verbatim>\<open>lib/rtnt/src/core/packet.cpp\<close>,
  \<^verbatim>\<open>lib/rtnt/include/rtnt/common/constants.hpp\<close>).  A \<open>Packet\<close> is a byte buffer with a read
  position.  A writer is an \<open>operator<<\<close>: it appends, or raises.  A reader is an
  \<open>operator>>\<close>: it returns the value read, or the exception, and in both cases the packet as
  it is left (a failed read may already have consumed bytes).  The locale \<open>wire_codec\<close> is the
  contract between an \<open>operator<<\<close> and its \<open>operator>>\<close>; each type that is serialised
  interprets it.
\<close>

section \<open>Constants\<close>

definition PROTOCOL_ID :: u16 where "PROTOCOL_ID = 0x2204"
definition PROTOCOL_VER :: u16 where "PROTOCOL_VER = 0x0003"
definition INTERNAL_CHANNEL_ID :: u8 where "INTERNAL_CHANNEL_ID = 0x00"
definition DEFAULT_CHANNEL_ID :: u8 where "DEFAULT_CHANNEL_ID = 0x01"

text \<open>Durations are in nanoseconds, as \<open>steady_clock\<close> counts them.\<close>

definition milliseconds :: "int \<Rightarrow> time" where "milliseconds n = n * 1000000"
definition ACK_TIMEOUT :: time where "ACK_TIMEOUT = milliseconds 100"
definition RESEND_TIMEOUT :: time where "RESEND_TIMEOUT = milliseconds 200"
definition ACK_PACKET_THRESHOLD :: u8 where "ACK_PACKET_THRESHOLD = 16"
definition MAX_RESEND_ATTEMPTS :: u8 where "MAX_RESEND_ATTEMPTS = 8"
definition MAX_PACKET_HISTORY_SIZE :: nat where "MAX_PACKET_HISTORY_SIZE = 2 ^ 15"
definition MAX_ACK_PER_PACKET :: nat where "MAX_ACK_PER_PACKET = 2 ^ 8"

datatype system_message_id =
  kAck | kRichAck | kConnect | kConnectAck | kDisconnect | kPing | kPong

primrec system_id :: "system_message_id \<Rightarrow> u16" where
  "system_id kAck = 0"
| "system_id kRichAck = 1"
| "system_id kConnect = 2"
| "system_id kConnectAck = 3"
| "system_id kDisconnect = 4"
| "system_id kPing = 5"
| "system_id kPong = 6"

text \<open>\<open>enum class Flag : uint8_t\<close>: every byte is a value of the type.\<close>

type_synonym flag = u8

definition kUnreliable :: flag where "kUnreliable = 1"
definition kReliable :: flag where "kReliable = 2"
definition kOrdered :: flag where "kOrdered = 4"
definition kHasAck :: flag where "kHasAck = 8"

definition flag_and :: "flag \<Rightarrow> flag \<Rightarrow> flag" where
  "flag_and lhs rhs = lhs AND rhs"

lemmas constant_defs [model_defs] =
  PROTOCOL_ID_def PROTOCOL_VER_def INTERNAL_CHANNEL_ID_def DEFAULT_CHANNEL_ID_def
  milliseconds_def ACK_TIMEOUT_def RESEND_TIMEOUT_def ACK_PACKET_THRESHOLD_def
  MAX_RESEND_ATTEMPTS_def MAX_PACKET_HISTORY_SIZE_def MAX_ACK_PER_PACKET_def

lemmas flag_defs [model_defs] =
  kUnreliable_def kReliable_def kOrdered_def kHasAck_def flag_and_def

section \<open>The header\<close>

datatype parse_error = NoError | DataTooSmall | ProtocolMismatch | PayloadSizeMismatch

record header =
  protocolId :: u16
  protocolVersion :: u16
  sequenceId :: u32
  channelId :: u8
  orderId :: u32
  acknowledgeId :: u32
  acknowledgeBitfield :: u32
  messageId :: u16
  flags :: u8
  packetSize :: u16

text \<open>\<open>Header{}\<close>, with the default member initialisers.\<close>

definition default_header :: header where
  "default_header =
     \<lparr>protocolId = PROTOCOL_ID, protocolVersion = PROTOCOL_VER, sequenceId = 0, channelId = 0,
      orderId = 0, acknowledgeId = 0, acknowledgeBitfield = 0, messageId = 0,
      flags = kUnreliable, packetSize = 0\<rparr>"

definition sizeof_Header :: nat where "sizeof_Header = 26"

definition convertEndianness :: "endian \<Rightarrow> header \<Rightarrow> header" where
  "convertEndianness h hdr =
     hdr\<lparr>protocolId := endian_swap h (protocolId hdr),
        protocolVersion := endian_swap h (protocolVersion hdr),
        sequenceId := endian_swap h (sequenceId hdr),
        orderId := endian_swap h (orderId hdr),
        acknowledgeId := endian_swap h (acknowledgeId hdr),
        acknowledgeBitfield := endian_swap h (acknowledgeBitfield hdr),
        messageId := endian_swap h (messageId hdr),
        packetSize := endian_swap h (packetSize hdr)\<rparr>"

text \<open>The packed struct in memory, and the struct that \<open>memcpy\<close> fills from a buffer.\<close>

definition header_image :: "endian \<Rightarrow> header \<Rightarrow> bytes" where
  "header_image h hdr =
     mem_bytes h (protocolId hdr) @ mem_bytes h (protocolVersion hdr) @
     mem_bytes h (sequenceId hdr) @ mem_bytes h (channelId hdr) @ mem_bytes h (orderId hdr) @
     mem_bytes h (acknowledgeId hdr) @ mem_bytes h (acknowledgeBitfield hdr) @
     mem_bytes h (messageId hdr) @ mem_bytes h (flags hdr) @ mem_bytes h (packetSize hdr)"

definition slice :: "nat \<Rightarrow> nat \<Rightarrow> 'a list \<Rightarrow> 'a list" where
  "slice i n bs = take n (drop i bs)"

definition header_of_image :: "endian \<Rightarrow> bytes \<Rightarrow> header" where
  "header_of_image h bs =
     \<lparr>protocolId = mem_value h (slice 0 2 bs),
      protocolVersion = mem_value h (slice 2 2 bs),
      sequenceId = mem_value h (slice 4 4 bs),
      channelId = mem_value h (slice 8 1 bs),
      orderId = mem_value h (slice 9 4 bs),
      acknowledgeId = mem_value h (slice 13 4 bs),
      acknowledgeBitfield = mem_value h (slice 17 4 bs),
      messageId = mem_value h (slice 21 2 bs),
      flags = mem_value h (slice 23 1 bs),
      packetSize = mem_value h (slice 24 2 bs)\<rparr>"

record parse_result =
  res_header :: "header option"
  res_error :: parse_error

definition parse_ok :: "parse_result \<Rightarrow> bool" where
  "parse_ok r \<longleftrightarrow> res_error r = NoError"

definition parse_success :: "header \<Rightarrow> parse_result" where
  "parse_success hdr = \<lparr>res_header = Some hdr, res_error = NoError\<rparr>"

definition parse_failure :: "parse_error \<Rightarrow> parse_result" where
  "parse_failure e = \<lparr>res_header = None, res_error = e\<rparr>"

definition parse_header :: "bytes \<Rightarrow> parse_result" where
  "parse_header data =
     (if length data < sizeof_Header then parse_failure DataTooSmall
      else let header = convertEndianness native (header_of_image native data) in
        if protocolId header \<noteq> PROTOCOL_ID then parse_failure ProtocolMismatch
        else if length data - sizeof_Header < unat (packetSize header)
          then parse_failure PayloadSizeMismatch
        else parse_success header)"

definition is_message :: "u16 \<Rightarrow> bytes \<Rightarrow> bool" where
  "is_message kId rawData =
     (case parse_header rawData of r \<Rightarrow>
        parse_ok r \<and> (case res_header r of Some hdr \<Rightarrow> messageId hdr = kId | None \<Rightarrow> False))"

text \<open>What \<open>rawSend\<close> puts in front of the payload.\<close>

definition header_wire :: "header \<Rightarrow> bytes" where
  "header_wire hdr = header_image native (convertEndianness native hdr)"

subsection \<open>Header lemmas\<close>

lemma length_mem_bytes [simp]: "length (mem_bytes h (w :: 'a::len word)) = LENGTH('a) div 8"
  by (simp add: mem_bytes_def split: endian.split)

lemma mem_value_u8 [simp]: "mem_value h [b] = (b :: u8)"
  by (simp add: mem_value_def le_value_def split: endian.split)

lemma mem_bytes_u8 [simp]: "mem_bytes h (b :: u8) = [b]"
  by (simp add: mem_bytes_def le_bytes_def split: endian.split)

lemma header_wire_be [wire_simps]:
  "header_wire hdr =
     be_bytes (protocolId hdr) @ be_bytes (protocolVersion hdr) @ be_bytes (sequenceId hdr) @
     [channelId hdr] @ be_bytes (orderId hdr) @ be_bytes (acknowledgeId hdr) @
     be_bytes (acknowledgeBitfield hdr) @ be_bytes (messageId hdr) @ [flags hdr] @
     be_bytes (packetSize hdr)"
  by (simp add: header_wire_def header_image_def convertEndianness_def mem_swap_be)

lemma length_header_wire [simp]: "length (header_wire hdr) = sizeof_Header"
  by (simp add: header_wire_be sizeof_Header_def)

lemma slice_append_left: "length xs = i \<Longrightarrow> slice i n (xs @ ys) = slice 0 n ys"
  by (simp add: slice_def)

lemma slice_append_right: "length xs = n \<Longrightarrow> slice 0 n (xs @ ys) = xs"
  by (simp add: slice_def)

lemma slice_skip: "length xs \<le> i \<Longrightarrow> slice i n (xs @ ys) = slice (i - length xs) n ys"
  by (simp add: slice_def)

lemma slice_Cons [simp]:
  "slice 0 (Suc n) (x # xs) = x # slice 0 n xs"
  "slice (Suc i) n (x # xs) = slice i n xs"
  "slice (numeral k) n (x # xs) = slice (pred_numeral k) n xs"
  "slice i 0 xs = []"
  by (simp_all add: slice_def)

lemma slice_join: "j = i + n \<Longrightarrow> slice i n xs @ slice j m xs = slice i (n + m) xs"
  by (simp add: slice_def take_add add.commute[of i n])

lemma length_slice [simp]: "length (slice i n xs) = min (length xs - i) n"
  by (simp add: slice_def min.commute)

lemma be_bytes_of_memory [simp]:
  assumes "8 dvd LENGTH('a::len)" and "length bs = LENGTH('a) div 8"
  shows "be_bytes (endian_swap h (mem_value h bs) :: 'a word) = bs"
  using mem_value_eq_iff[OF assms, of h "endian_swap h (mem_value h bs)"] by simp

lemma single_byte_of_memory: "length bs = 1 \<Longrightarrow> [mem_value h bs :: u8] = bs"
  by (auto simp: length_Suc_conv)

text \<open>Reading the fields of a received header and writing them again gives its first
  \<open>sizeof(Header)\<close> bytes, and conversely.\<close>

definition received_header :: "bytes \<Rightarrow> header" where
  "received_header data = convertEndianness native (header_of_image native data)"

lemma received_header_wire [simp]: "received_header (header_wire hdr @ payload) = hdr"
  by (simp add: received_header_def header_of_image_def convertEndianness_def header_wire_be
      slice_skip slice_append_right swap_mem_be)

lemma header_wire_received:
  assumes "sizeof_Header \<le> length data"
  shows "header_wire (received_header data) = take sizeof_Header data"
proof -
  have "header_wire (received_header data) =
      slice 0 2 data @ slice 2 2 data @ slice 4 4 data @ slice 8 1 data @ slice 9 4 data @
      slice 13 4 data @ slice 17 4 data @ slice 21 2 data @ slice 23 1 data @ slice 24 2 data"
    using assms
    by (simp add: received_header_def header_of_image_def convertEndianness_def header_wire_be
        sizeof_Header_def single_byte_of_memory)
  also have "\<dots> = slice 0 sizeof_Header data"
    by (simp add: slice_join sizeof_Header_def)
  finally show ?thesis
    by (simp add: slice_def)
qed

lemma parse_header_alt:
  "parse_header data =
     (if length data < sizeof_Header then parse_failure DataTooSmall
      else if protocolId (received_header data) \<noteq> PROTOCOL_ID then parse_failure ProtocolMismatch
      else if length data - sizeof_Header < unat (packetSize (received_header data))
        then parse_failure PayloadSizeMismatch
      else parse_success (received_header data))"
  by (simp add: parse_header_def received_header_def Let_def)

lemma parse_result_distinct [simp]:
  "parse_failure e \<noteq> parse_success hdr"
  "parse_success hdr \<noteq> parse_failure e"
  "parse_success hdr = parse_success hdr' \<longleftrightarrow> hdr = hdr'"
  "parse_ok (parse_success hdr)"
  "parse_ok (parse_failure e) \<longleftrightarrow> e = NoError"
  "res_header (parse_success hdr) = Some hdr"
  "res_header (parse_failure e) = None"
  "res_error (parse_failure e) = e"
  "res_error (parse_success hdr) = NoError"
  by (simp_all add: parse_failure_def parse_success_def parse_ok_def)

lemma parse_ok_iff: "parse_ok (parse_header data) \<longleftrightarrow> (\<exists>hdr. parse_header data = parse_success hdr)"
  by (auto simp: parse_header_alt)

lemma parse_header_successD:
  assumes "parse_header data = parse_success hdr"
  shows "data = header_wire hdr @ drop sizeof_Header data"
    and "protocolId hdr = PROTOCOL_ID"
    and "unat (packetSize hdr) \<le> length data - sizeof_Header"
    and "sizeof_Header \<le> length data"
  using assms by (auto simp: parse_header_alt header_wire_received split: if_splits)

lemma parse_header_wire:
  "parse_header (header_wire hdr @ payload) =
     (if protocolId hdr \<noteq> PROTOCOL_ID then parse_failure ProtocolMismatch
      else if length payload < unat (packetSize hdr) then parse_failure PayloadSizeMismatch
      else parse_success hdr)"
  by (simp add: parse_header_alt)

text \<open>Parsing accepts a datagram with header \<open>hdr\<close> exactly when the datagram is the wire
  image of \<open>hdr\<close> followed by at least \<open>packetSize\<close> bytes and \<open>hdr\<close> carries the protocol's
  magic number; the two directions are the header's print/parse round trip.  Nothing is
  required of the version field, and bytes beyond \<open>packetSize\<close> are accepted.\<close>

theorem parse_header_iff:
  "parse_header data = parse_success hdr \<longleftrightarrow>
     (\<exists>payload. data = header_wire hdr @ payload \<and> protocolId hdr = PROTOCOL_ID \<and>
        unat (packetSize hdr) \<le> length payload)"
proof
  assume "parse_header data = parse_success hdr"
  then show "\<exists>payload. data = header_wire hdr @ payload \<and> protocolId hdr = PROTOCOL_ID \<and>
      unat (packetSize hdr) \<le> length payload"
    using parse_header_successD[of data hdr] by (intro exI[of _ "drop sizeof_Header data"]) simp
next
  assume "\<exists>payload. data = header_wire hdr @ payload \<and> protocolId hdr = PROTOCOL_ID \<and>
      unat (packetSize hdr) \<le> length payload"
  then show "parse_header data = parse_success hdr"
    by (auto simp: parse_header_wire)
qed

end
