(* ===== verification/PacketStream.thy ===== *)
theory PacketStream
  imports Packet
begin

text \<open>
  The class \<open>Packet\<close> of \<^verbatim>\<open>lib/rtnt/include/rtnt/core/packet.hpp\<close>: the writing and reading
  operators for integers, strings, vectors, deques and serialisable structs, the packet traits
  (\<open>kId\<close>, \<open>kChannel\<close>, \<open>kFlag\<close>) and their compile-time checks.  Floating-point and
  enumeration values travel as their object representation, an integer of the same size.
\<close>

section \<open>The buffer\<close>

record packet =
  p_messageId :: u16
  p_flag :: flag
  p_channelId :: u8
  p_buffer :: bytes
  p_readPosition :: nat

definition new_packet :: "u16 \<Rightarrow> flag \<Rightarrow> u8 \<Rightarrow> packet" where
  "new_packet pid fl ch =
     \<lparr>p_messageId = pid, p_flag = fl, p_channelId = ch, p_buffer = [], p_readPosition = 0\<rparr>"

definition set_payload :: "bytes \<Rightarrow> packet \<Rightarrow> packet" where
  "set_payload data p = p\<lparr>p_buffer := data, p_readPosition := 0\<rparr>"

definition append_bytes :: "bytes \<Rightarrow> packet \<Rightarrow> packet" where
  "append_bytes data p = p\<lparr>p_buffer := p_buffer p @ data\<rparr>"

definition advance :: "nat \<Rightarrow> packet \<Rightarrow> packet" where
  "advance n p = p\<lparr>p_readPosition := p_readPosition p + n\<rparr>"

datatype rt_error = PacketUnderflow | VectorTooLarge | DequeTooLarge

type_synonym 'a writer = "'a \<Rightarrow> packet \<Rightarrow> rt_error + packet"
type_synonym 'a reader = "packet \<Rightarrow> (rt_error + 'a) \<times> packet"

text \<open>Sequencing of readers: an exception stops the chain and leaves the packet as it is.\<close>

definition rd_bind :: "'a reader \<Rightarrow> ('a \<Rightarrow> 'b reader) \<Rightarrow> 'b reader" where
  "rd_bind rd k p = (case rd p of (Inl e, p') \<Rightarrow> (Inl e, p') | (Inr x, p') \<Rightarrow> k x p')"

definition rd_return :: "'a \<Rightarrow> 'a reader" where
  "rd_return x p = (Inr x, p)"

section \<open>Operators\<close>

text \<open>\<open>sizeof(T)\<close> for the integer types.\<close>

definition sizeof :: "'a::len itself \<Rightarrow> nat" where
  "sizeof t = LENGTH('a) div 8"

definition write_pod :: "'a::len word writer" where
  "write_pod data p = Inr (append_bytes (mem_bytes native (endian_swap native data)) p)"

definition read_pod :: "'a::len word reader" where
  "read_pod p =
     (let n = sizeof TYPE('a) in
      if p_readPosition p + n > length (p_buffer p) then (Inl PacketUnderflow, p)
      else (Inr (endian_swap native (mem_value native (slice (p_readPosition p) n (p_buffer p)))),
            advance n p))"

definition write_string :: "bytes writer" where
  "write_string str p =
     (let size = word_of_nat (length str) :: u16 in
      try_bind (write_pod size p) (\<lambda>p. Inr (append_bytes (take (unat size) str) p)))"

definition read_string :: "bytes reader" where
  "read_string =
     rd_bind read_pod (\<lambda>size :: u16. \<lambda>p.
       if p_readPosition p + unat size > length (p_buffer p) then (Inl PacketUnderflow, p)
       else (Inr (slice (p_readPosition p) (unat size) (p_buffer p)), advance (unat size) p))"

primrec write_elements :: "'a writer \<Rightarrow> 'a list writer" where
  "write_elements wr [] p = Inr p"
| "write_elements wr (x # xs) p = try_bind (wr x p) (write_elements wr xs)"

primrec read_elements :: "'a reader \<Rightarrow> nat \<Rightarrow> 'a list reader" where
  "read_elements rd 0 = rd_return []"
| "read_elements rd (Suc n) =
     rd_bind rd (\<lambda>x. rd_bind (read_elements rd n) (\<lambda>xs. rd_return (x # xs)))"

definition write_vector :: "'a writer \<Rightarrow> 'a list writer" where
  "write_vector wr data p =
     (if length data > 65535 then Inl VectorTooLarge
      else try_bind (write_pod (word_of_nat (length data) :: u16) p) (write_elements wr data))"

definition read_vector :: "'a reader \<Rightarrow> 'a list reader" where
  "read_vector rd = rd_bind read_pod (\<lambda>size :: u16. read_elements rd (unat size))"

definition write_deque :: "'a writer \<Rightarrow> 'a list writer" where
  "write_deque wr data p =
     (if length data > 65535 then Inl DequeTooLarge
      else try_bind (write_pod (word_of_nat (length data) :: u16) p) (write_elements wr data))"

definition read_deque :: "'a reader \<Rightarrow> 'a list reader" where
  "read_deque rd = rd_bind read_pod (\<lambda>size :: u16. read_elements rd (unat size))"

text \<open>\<open>ar & a & b\<close> in a \<open>serialize\<close> member, for writing and for reading.\<close>

definition write_then :: "'a writer \<Rightarrow> 'b writer \<Rightarrow> ('a \<times> 'b) writer" where
  "write_then wa wb ab p = try_bind (wa (fst ab) p) (wb (snd ab))"

definition read_then :: "'a reader \<Rightarrow> 'b reader \<Rightarrow> ('a \<times> 'b) reader" where
  "read_then ra rb = rd_bind ra (\<lambda>a. rd_bind rb (\<lambda>b. rd_return (a, b)))"

text \<open>A struct without members travels as nothing.\<close>

definition write_empty :: "unit writer" where "write_empty _ p = Inr p"
definition read_empty :: "unit reader" where "read_empty p = (Inr (), p)"

section \<open>Packet traits\<close>

text \<open>The static members of a packet struct; \<open>kChannel\<close> and \<open>kFlag\<close> are optional.\<close>

record packet_traits =
  t_kId :: u16
  t_kChannel :: "u8 option"
  t_kFlag :: "flag option"

definition getChannelId :: "packet_traits \<Rightarrow> u8" where
  "getChannelId t = (case t_kChannel t of Some c \<Rightarrow> c | None \<Rightarrow> DEFAULT_CHANNEL_ID)"

definition getFlag :: "packet_traits \<Rightarrow> flag" where
  "getFlag t = (case t_kFlag t of Some f \<Rightarrow> f | None \<Rightarrow> kUnreliable)"

text \<open>The static assertions: \<open>False\<close> is a packet struct that does not compile.\<close>

definition verifyPacketData :: "packet_traits \<Rightarrow> bool" where
  "verifyPacketData t \<longleftrightarrow>
     (if t_kId t \<ge> 128 then getChannelId t > INTERNAL_CHANNEL_ID
      else getChannelId t = INTERNAL_CHANNEL_ID)"

definition verifyUserPacketData :: "packet_traits \<Rightarrow> bool" where
  "verifyUserPacketData t \<longleftrightarrow>
     verifyPacketData t \<and> t_kId t \<ge> 128 \<and>
     (t_kChannel t = None \<longrightarrow> getChannelId t > INTERNAL_CHANNEL_ID)"

definition verifyInternalPacketData :: "packet_traits \<Rightarrow> bool" where
  "verifyInternalPacketData t \<longleftrightarrow>
     verifyPacketData t \<and> t_kId t < 128 \<and>
     (t_kChannel t = None \<longrightarrow> getChannelId t = INTERNAL_CHANNEL_ID)"

text \<open>\<open>Packet packet(T::kId, getFlag<T>(), getChannelId<T>()); packet << data\<close>.\<close>

definition make_packet :: "packet_traits \<Rightarrow> 'a writer \<Rightarrow> 'a \<Rightarrow> rt_error + packet" where
  "make_packet t wr data = wr data (new_packet (t_kId t) (getFlag t) (getChannelId t))"

section \<open>The codec contract\<close>

definition unread :: "packet \<Rightarrow> bytes" where
  "unread p = drop (p_readPosition p) (p_buffer p)"

lemma append_simps [simp]:
  "p_buffer (append_bytes bs p) = p_buffer p @ bs"
  "p_readPosition (append_bytes bs p) = p_readPosition p"
  "p_messageId (append_bytes bs p) = p_messageId p"
  "p_flag (append_bytes bs p) = p_flag p"
  "p_channelId (append_bytes bs p) = p_channelId p"
  "append_bytes [] p = p"
  "append_bytes cs (append_bytes bs p) = append_bytes (bs @ cs) p"
  by (simp_all add: append_bytes_def)

lemma advance_simps [simp]:
  "p_buffer (advance n p) = p_buffer p"
  "p_readPosition (advance n p) = p_readPosition p + n"
  "unread (advance n p) = drop n (unread p)"
  "advance 0 p = p"
  "advance m (advance n p) = advance (n + m) p"
  by (simp_all add: advance_def unread_def add.commute add.assoc)

lemma new_packet_simps [simp]:
  "p_messageId (new_packet i f c) = i"
  "p_flag (new_packet i f c) = f"
  "p_channelId (new_packet i f c) = c"
  "p_buffer (new_packet i f c) = []"
  "p_readPosition (new_packet i f c) = 0"
  by (simp_all add: new_packet_def)

lemma set_payload_simps [simp]:
  "p_messageId (set_payload bs p) = p_messageId p"
  "p_flag (set_payload bs p) = p_flag p"
  "p_channelId (set_payload bs p) = p_channelId p"
  "p_buffer (set_payload bs p) = bs"
  "p_readPosition (set_payload bs p) = 0"
  "unread (set_payload bs p) = bs"
  by (simp_all add: set_payload_def unread_def)

lemma rd_bind_Inr: "rd p = (Inr x, p') \<Longrightarrow> rd_bind rd k p = k x p'"
  by (simp add: rd_bind_def)

lemma rd_bind_Inl: "rd p = (Inl e, p') \<Longrightarrow> rd_bind rd k p = (Inl e, p')"
  by (simp add: rd_bind_def)

locale wire_codec =
  fixes ok :: "'a \<Rightarrow> bool"
    and enc :: "'a \<Rightarrow> bytes"
    and wr :: "'a writer"
    and rd :: "'a reader"
  assumes wr_enc: "ok x \<Longrightarrow> wr x p = Inr (append_bytes (enc x) p)"
    and rd_enc: "ok x \<Longrightarrow> unread p = enc x @ rest \<Longrightarrow> rd p = (Inr x, advance (length (enc x)) p)"
begin

lemma uniquely_readable:
  assumes "ok x" and "ok y" and "enc x @ r = enc y @ s"
  shows "x = y \<and> r = s"
proof -
  let ?p = "set_payload (enc x @ r) (new_packet 0 0 0)"
  have "rd ?p = (Inr x, advance (length (enc x)) ?p)"
    using assms(1) by (rule rd_enc) simp
  moreover have "rd ?p = (Inr y, advance (length (enc y)) ?p)"
    using assms(2) by (rule rd_enc) (simp add: assms(3))
  ultimately have "x = y" by simp
  with assms(3) show ?thesis by simp
qed

lemma write_read:
  assumes "ok x" and "wr x p = Inr q" and "p_readPosition p \<le> length (p_buffer p)"
    and "unread p = []"
  shows "rd q = (Inr x, advance (length (enc x)) q)"
proof -
  have q: "q = append_bytes (enc x) p"
    using assms(1,2) by (simp add: wr_enc)
  have "unread q = enc x @ []"
    using assms(3,4) by (simp add: q unread_def)
  with assms(1) show ?thesis by (rule rd_enc)
qed

lemma write_elements_enc:
  "\<forall>x \<in> set xs. ok x \<Longrightarrow> write_elements wr xs p = Inr (append_bytes (concat (map enc xs)) p)"
  by (induction xs arbitrary: p) (simp_all add: wr_enc)

lemma read_elements_enc:
  "\<forall>x \<in> set xs. ok x \<Longrightarrow> unread p = concat (map enc xs) @ rest \<Longrightarrow>
   read_elements rd (length xs) p = (Inr xs, advance (length (concat (map enc xs))) p)"
proof (induction xs arbitrary: p)
  case Nil
  then show ?case by (simp add: rd_return_def)
next
  case (Cons x xs)
  have "rd p = (Inr x, advance (length (enc x)) p)"
    using Cons.prems by (intro rd_enc) auto
  moreover have "read_elements rd (length xs) (advance (length (enc x)) p) =
      (Inr xs, advance (length (concat (map enc xs))) (advance (length (enc x)) p))"
    using Cons.prems by (intro Cons.IH) auto
  ultimately show ?case
    by (simp add: rd_bind_Inr rd_return_def)
qed

end

section \<open>Codecs\<close>

lemma unread_fits: "unread p = bs @ rest \<Longrightarrow> bs \<noteq> [] \<Longrightarrow>
  p_readPosition p + length bs \<le> length (p_buffer p)"
  by (cases "p_readPosition p \<le> length (p_buffer p)")
    (auto simp: unread_def dest!: arg_cong[where f = length])

lemma slice_unread: "unread p = bs @ rest \<Longrightarrow> slice (p_readPosition p) (length bs) (p_buffer p) = bs"
  by (simp add: unread_def slice_def)

lemma pod_codec:
  assumes "8 dvd LENGTH('a::len)"
  shows "wire_codec (\<lambda>_. True) be_bytes (write_pod :: 'a word writer) read_pod"
proof
  fix x :: "'a word" and p rest
  show "write_pod x p = Inr (append_bytes (be_bytes x) p)"
    using assms by (simp add: write_pod_def mem_swap_be)
  assume u: "unread p = be_bytes x @ rest"
  have len: "length (be_bytes x) = sizeof TYPE('a)"
    by (simp add: sizeof_def)
  have "0 < sizeof TYPE('a)"
    using dvd_imp_le[OF assms len_gt_0] by (simp add: sizeof_def div_greater_zero_iff)
  with len have "be_bytes x \<noteq> []" by (metis length_0_conv less_irrefl)
  with u len have "p_readPosition p + sizeof TYPE('a) \<le> length (p_buffer p)"
    by (metis unread_fits)
  moreover have "slice (p_readPosition p) (sizeof TYPE('a)) (p_buffer p) = be_bytes x"
    using slice_unread[OF u] len by simp
  ultimately show "read_pod p = (Inr x, advance (length (be_bytes x)) p)"
    using assms len by (simp add: read_pod_def swap_mem_be Let_def)
qed

interpretation u8: wire_codec "\<lambda>_. True" be_bytes "write_pod :: u8 writer" read_pod
  by (rule pod_codec) simp

interpretation u16: wire_codec "\<lambda>_. True" be_bytes "write_pod :: u16 writer" read_pod
  by (rule pod_codec) simp

interpretation u32: wire_codec "\<lambda>_. True" be_bytes "write_pod :: u32 writer" read_pod
  by (rule pod_codec) simp

interpretation u64: wire_codec "\<lambda>_. True" be_bytes "write_pod :: u64 writer" read_pod
  by (rule pod_codec) simp

text \<open>Strings, vectors and deques carry a two-byte count in front.\<close>

definition enc_string :: "bytes \<Rightarrow> bytes" where
  "enc_string s = be_bytes (word_of_nat (length s) :: u16) @ s"

definition enc_list :: "('a \<Rightarrow> bytes) \<Rightarrow> 'a list \<Rightarrow> bytes" where
  "enc_list enc xs = be_bytes (word_of_nat (length xs) :: u16) @ concat (map enc xs)"

definition short_list :: "('a \<Rightarrow> bool) \<Rightarrow> 'a list \<Rightarrow> bool" where
  "short_list ok xs \<longleftrightarrow> length xs \<le> 65535 \<and> (\<forall>x \<in> set xs. ok x)"

lemma unat_count [simp]: "unat (word_of_nat n :: u16) = n mod 65536"
  by (simp add: unat_of_nat)

lemma read_count:
  assumes "unread p = be_bytes (word_of_nat n :: u16) @ rest"
  shows "read_pod p = (Inr (word_of_nat n :: u16), advance 2 p)"
  using u16.rd_enc[OF _ assms] by simp

lemma string_codec: "wire_codec (\<lambda>s. length s \<le> 65535) enc_string write_string read_string"
proof
  fix x p rest
  assume ok: "length (x :: bytes) \<le> 65535"
  then show "write_string x p = Inr (append_bytes (enc_string x) p)"
    by (simp add: write_string_def u16.wr_enc enc_string_def)
  assume u: "unread p = enc_string x @ rest"
  then have "read_pod p = (Inr (word_of_nat (length x) :: u16), advance 2 p)"
    by (intro read_count) (simp add: enc_string_def)
  moreover have u2: "unread (advance 2 p) = x @ rest"
    using u by (simp add: enc_string_def)
  moreover have "p_readPosition p + 2 + length x \<le> length (p_buffer p)"
    using unread_fits[of p "enc_string x" rest] u by (simp add: enc_string_def be_bytes_u16)
  ultimately show "read_string p = (Inr x, advance (length (enc_string x)) p)"
    using ok slice_unread[OF u2] by (simp add: read_string_def rd_bind_Inr enc_string_def)
qed

interpretation str: wire_codec "\<lambda>s. length s \<le> 65535" enc_string write_string read_string
  by (rule string_codec)

context wire_codec
begin

lemma read_counted:
  assumes "short_list ok xs" and "unread p = enc_list enc xs @ rest"
  shows "rd_bind read_pod (\<lambda>size :: u16. read_elements rd (unat size)) p =
         (Inr xs, advance (length (enc_list enc xs)) p)"
proof -
  have "read_pod p = (Inr (word_of_nat (length xs) :: u16), advance 2 p)"
    using assms(2) by (intro read_count) (simp add: enc_list_def)
  moreover have "read_elements rd (length xs) (advance 2 p) =
      (Inr xs, advance (length (concat (map enc xs))) (advance 2 p))"
    using assms by (intro read_elements_enc[where rest = rest]) (auto simp: enc_list_def short_list_def)
  ultimately show ?thesis
    using assms(1) by (simp add: rd_bind_Inr short_list_def enc_list_def)
qed

lemma vector_codec: "wire_codec (short_list ok) (enc_list enc) (write_vector wr) (read_vector rd)"
proof
  fix x p
  assume "short_list ok x"
  then show "write_vector wr x p = Inr (append_bytes (enc_list enc x) p)"
    by (simp add: write_vector_def short_list_def u16.wr_enc write_elements_enc enc_list_def)
qed (simp add: read_vector_def read_counted)

lemma deque_codec: "wire_codec (short_list ok) (enc_list enc) (write_deque wr) (read_deque rd)"
proof
  fix x p
  assume "short_list ok x"
  then show "write_deque wr x p = Inr (append_bytes (enc_list enc x) p)"
    by (simp add: write_deque_def short_list_def u16.wr_enc write_elements_enc enc_list_def)
qed (simp add: read_deque_def read_counted)

lemma record_codec:
  assumes "\<And>m. g (f m) = m"
  shows "wire_codec (\<lambda>m. ok (f m)) (\<lambda>m. enc (f m)) (\<lambda>m. wr (f m))
           (rd_bind rd (\<lambda>x. rd_return (g x)))"
  by standard (simp_all add: wr_enc rd_enc rd_bind_Inr rd_return_def assms)

end

definition ok_then :: "('a \<Rightarrow> bool) \<Rightarrow> ('b \<Rightarrow> bool) \<Rightarrow> 'a \<times> 'b \<Rightarrow> bool" where
  "ok_then oa ob ab \<longleftrightarrow> oa (fst ab) \<and> ob (snd ab)"

definition enc_then :: "('a \<Rightarrow> bytes) \<Rightarrow> ('b \<Rightarrow> bytes) \<Rightarrow> 'a \<times> 'b \<Rightarrow> bytes" where
  "enc_then ea eb ab = ea (fst ab) @ eb (snd ab)"

lemma then_codec:
  assumes "wire_codec oa ea wa ra" and "wire_codec ob eb wb rb"
  shows "wire_codec (ok_then oa ob) (enc_then ea eb) (write_then wa wb) (read_then ra rb)"
proof
  note a = wire_codec.wr_enc[OF assms(1)] wire_codec.rd_enc[OF assms(1)]
  note b = wire_codec.wr_enc[OF assms(2)] wire_codec.rd_enc[OF assms(2)]
  fix x p rest
  assume ok: "ok_then oa ob x"
  then show "write_then wa wb x p = Inr (append_bytes (enc_then ea eb x) p)"
    by (simp add: write_then_def ok_then_def enc_then_def a b)
  assume u: "unread p = enc_then ea eb x @ rest"
  then have "ra p = (Inr (fst x), advance (length (ea (fst x))) p)"
    using ok by (intro a) (simp_all add: ok_then_def enc_then_def)
  moreover have "rb (advance (length (ea (fst x))) p) =
      (Inr (snd x), advance (length (eb (snd x))) (advance (length (ea (fst x))) p))"
    using ok u by (intro b) (simp_all add: ok_then_def enc_then_def)
  ultimately show "read_then ra rb p = (Inr x, advance (length (enc_then ea eb x)) p)"
    by (simp add: read_then_def rd_bind_Inr rd_return_def enc_then_def)
qed

section \<open>Reading never leaves the buffer\<close>

text \<open>Whatever the bytes received, a reader stops inside the buffer, with the buffer and the
  metadata of the packet untouched, on success and on \<open>Packet Underflow\<close> alike.\<close>

definition stays_inside :: "'a reader \<Rightarrow> bool" where
  "stays_inside rd \<longleftrightarrow>
     (\<forall>p. p_readPosition p \<le> length (p_buffer p) \<longrightarrow>
        (\<exists>n. snd (rd p) = advance n p \<and> p_readPosition p + n \<le> length (p_buffer p)))"

lemma stays_insideI:
  assumes "\<And>p. p_readPosition p \<le> length (p_buffer p) \<Longrightarrow>
      \<exists>n. snd (rd p) = advance n p \<and> p_readPosition p + n \<le> length (p_buffer p)"
  shows "stays_inside rd"
  using assms by (simp add: stays_inside_def)

lemma stays_insideD:
  assumes "stays_inside rd" and "p_readPosition p \<le> length (p_buffer p)" and "rd p = (r, q)"
  obtains n where "q = advance n p" and "p_readPosition p + n \<le> length (p_buffer p)"
  using assms by (auto simp: stays_inside_def dest!: spec[of _ p])

lemma stays_inside_return [intro]: "stays_inside (rd_return x)"
  by (rule stays_insideI, rule exI[of _ 0]) (simp add: rd_return_def)

lemma stays_inside_bind:
  assumes "stays_inside rd" and "\<And>x. stays_inside (k x)"
  shows "stays_inside (rd_bind rd k)"
proof (rule stays_insideI)
  fix p :: packet assume p: "p_readPosition p \<le> length (p_buffer p)"
  obtain r q where rd: "rd p = (r, q)" by fastforce
  with assms(1) p obtain n where n: "q = advance n p" "p_readPosition p + n \<le> length (p_buffer p)"
    by (rule stays_insideD)
  show "\<exists>n. snd (rd_bind rd k p) = advance n p \<and> p_readPosition p + n \<le> length (p_buffer p)"
  proof (cases r)
    case (Inl e)
    with rd n show ?thesis by (auto simp: rd_bind_Inl)
  next
    case (Inr x)
    obtain r' q' where k: "k x q = (r', q')" by fastforce
    with assms(2)[of x] n obtain m where "q' = advance m q"
      "p_readPosition q + m \<le> length (p_buffer q)"
      by (metis advance_simps(1,2) stays_insideD)
    with n Inr rd k show ?thesis
      by (intro exI[of _ "n + m"]) (simp add: rd_bind_Inr)
  qed
qed

lemma stays_inside_pod [intro]: "stays_inside (read_pod :: 'a::len word reader)"
proof (rule stays_insideI)
  fix p :: packet assume "p_readPosition p \<le> length (p_buffer p)"
  then show "\<exists>n. snd ((read_pod :: 'a word reader) p) = advance n p \<and>
      p_readPosition p + n \<le> length (p_buffer p)"
    by (cases "p_readPosition p + sizeof TYPE('a) > length (p_buffer p)")
      (force simp: read_pod_def Let_def intro: exI[of _ 0])+
qed

lemma stays_inside_string [intro]: "stays_inside read_string"
  unfolding read_string_def
proof (rule stays_inside_bind)
  fix size :: u16
  show "stays_inside (\<lambda>p.
      if p_readPosition p + unat size > length (p_buffer p) then (Inl PacketUnderflow, p)
      else (Inr (slice (p_readPosition p) (unat size) (p_buffer p)), advance (unat size) p))"
  proof (rule stays_insideI)
    fix p :: packet assume "p_readPosition p \<le> length (p_buffer p)"
    then show "\<exists>n. snd (if p_readPosition p + unat size > length (p_buffer p) then (Inl PacketUnderflow, p)
      else (Inr (slice (p_readPosition p) (unat size) (p_buffer p)), advance (unat size) p)) = advance n p \<and>
      p_readPosition p + n \<le> length (p_buffer p)"
      by (cases "p_readPosition p + unat size > length (p_buffer p)") (force intro: exI[of _ 0])+
  qed
qed auto

lemma stays_inside_elements: "stays_inside rd \<Longrightarrow> stays_inside (read_elements rd n)"
  by (induction n) (auto intro!: stays_inside_bind)

lemma stays_inside_vector [intro]: "stays_inside rd \<Longrightarrow> stays_inside (read_vector rd)"
  by (auto simp: read_vector_def intro!: stays_inside_bind stays_inside_elements)

lemma stays_inside_deque [intro]: "stays_inside rd \<Longrightarrow> stays_inside (read_deque rd)"
  by (auto simp: read_deque_def intro!: stays_inside_bind stays_inside_elements)

lemma stays_inside_then [intro]:
  "stays_inside ra \<Longrightarrow> stays_inside rb \<Longrightarrow> stays_inside (read_then ra rb)"
  by (auto simp: read_then_def intro!: stays_inside_bind)

section \<open>Properties of the stream\<close>

lemma write_string_truncates:
  "write_string s p = write_string (take (length s mod 65536) s) p"
proof -
  have "(word_of_nat (min (length s) (length s mod 65536)) :: u16) = word_of_nat (length s)"
    by (simp add: word_unat_eq_iff min_def)
  then show ?thesis
    by (simp add: write_string_def Let_def)
qed

text \<open>A string written to a fresh packet and read back is the string itself when it has at
  most 65535 bytes; a longer one is cut, without an error, to its length modulo 65536.\<close>

theorem string_roundtrip:
  "\<exists>q. write_string s (new_packet i f c) = Inr q \<and>
       read_string q = (Inr (take (length s mod 65536) s), advance (2 + length s mod 65536) q)"
proof -
  let ?t = "take (length s mod 65536) s" and ?p = "new_packet i f c"
  have len: "length ?t = length s mod 65536" by simp
  then have ok: "length ?t \<le> 65535"
    using mod_less_divisor[of 65536 "length s"] by linarith
  then have w: "write_string s ?p = Inr (append_bytes (enc_string ?t) ?p)"
    by (simp add: write_string_truncates[of s] str.wr_enc)
  then have "read_string (append_bytes (enc_string ?t) ?p) =
      (Inr ?t, advance (length (enc_string ?t)) (append_bytes (enc_string ?t) ?p))"
    using ok by (intro str.write_read[of _ ?p]) (simp_all add: str.wr_enc unread_def)
  with w len show ?thesis by (simp add: enc_string_def)
qed

text \<open>A vector whose elements are serialisable is written with a two-byte count and read
  back unchanged, leaving nothing unread; with more than 65535 elements the write raises and
  nothing is written.\<close>

theorem vector_roundtrip:
  assumes "wire_codec ok enc wr rd" and "\<forall>x \<in> set xs. ok x"
  shows "if length xs > 65535 then write_vector wr xs (new_packet i f c) = Inl VectorTooLarge
         else \<exists>q r. write_vector wr xs (new_packet i f c) = Inr q \<and>
                read_vector rd q = (Inr xs, r) \<and> unread r = []"
proof (cases "length xs > 65535")
  case True
  then show ?thesis by (simp add: write_vector_def)
next
  case False
  let ?p = "new_packet i f c" and ?bs = "enc_list enc xs"
  have ok: "short_list ok xs"
    using False assms(2) by (simp add: short_list_def)
  note codec = wire_codec.vector_codec[OF assms(1)]
  have "write_vector wr xs ?p = Inr (append_bytes ?bs ?p)"
    by (rule wire_codec.wr_enc[OF codec ok])
  moreover have "read_vector rd (append_bytes ?bs ?p) = (Inr xs, advance (length ?bs) (append_bytes ?bs ?p))"
    by (rule wire_codec.rd_enc[OF codec ok, where rest = "[]"]) (simp add: unread_def)
  moreover have "unread (advance (length ?bs) (append_bytes ?bs ?p)) = []"
    by (simp add: unread_def)
  ultimately show ?thesis
    using False by auto
qed

theorem vector_roundtrip_witness:
  "\<exists>q r. write_vector (write_pod :: u32 writer) [7, 0x01020304] (new_packet 300 kReliable 1) = Inr q \<and>
     read_vector read_pod q = (Inr [7, 0x01020304 :: u32], r) \<and> unread r = []"
  using vector_roundtrip[OF u32.wire_codec_axioms, of "[7, 0x01020304]" 300 kReliable 1] by simp

end
