(* ===== verification/Session.thy ===== *)
theory Session
  imports PacketStream
begin

text \<open>
  The class \<open>Session\<close> of \<^verbatim>\<open>lib/rtnt/include/rtnt/core/session.hpp\<close> and
  \<^verbatim>\<open>lib/rtnt/src/core/session.cpp\<close>: the reliable-UDP state machine of one connection.  A
  session is a record of its members; the socket behind \<open>_sendToPeerFunction\<close> is the list of
  datagrams handed to it.  Every operation takes the instant \<open>now\<close> that \<open>steady_clock\<close> shows
  while it runs (one reading per operation).  The left shift of a 32-bit word by 32, which the
  standard leaves undefined, is the fault \<open>UndefinedShift\<close>.  This theory holds the
  definitions; the properties are in the theories \<open>ReplayFilter\<close>, \<open>SessionSend\<close> and
  \<open>SessionReceive\<close>.
\<close>

section \<open>State\<close>

datatype fault = UndefinedShift | Raised rt_error

record sent_info =
  si_packet :: packet
  si_sentTime :: time
  si_sequenceId :: u32
  si_orderId :: u32
  si_retries :: u8

record channel_metrics =
  packetsSent :: u64
  packetsReceived :: u64
  bytesSent :: u64
  bytesReceived :: u64

record session_metrics =
  m_rtt :: u32
  m_maxRtt :: u32
  retransmitCount :: u64
  duplicateCount :: u64
  packetLossCount :: u64
  m_channels :: "u8 \<Rightarrow> channel_metrics"

record 'ep session =
  s_id :: u32
  s_endpoint :: 'ep
  s_hasSendFunction :: bool
  s_sent :: "bytes list"
  hasReceivedRemotePacket :: bool
  localSequenceId :: u32
  remoteAcknowledgeId :: u32
  remoteAcknowledgeBitfield :: u32
  localOrderIds :: "(u8, u32) omap"
  nextExpectedOrderIds :: "(u8, u32) omap"
  reorderBuffers :: "(u8, (u32, packet) omap) omap"
  sentPackets :: "(u32, sent_info) omap"
  oldPacketHistory :: "u32 list"
  pendingRichAcks :: "u32 list"
  packetsSinceLastAck :: u32
  hasUnsentAck :: bool
  lastAckTime :: time
  lastSeen :: time
  s_shouldClose :: bool
  sessionMetrics :: session_metrics

definition zero_channel :: channel_metrics where
  "zero_channel = \<lparr>packetsSent = 0, packetsReceived = 0, bytesSent = 0, bytesReceived = 0\<rparr>"

definition zero_metrics :: session_metrics where
  "zero_metrics =
     \<lparr>m_rtt = 0, m_maxRtt = 0, retransmitCount = 0, duplicateCount = 0, packetLossCount = 0,
      m_channels = (\<lambda>_. zero_channel)\<rparr>"

text \<open>The constructor; the first argument is the value taken from \<open>globalSessionIdCounter\<close>.\<close>

definition new_session :: "u32 \<Rightarrow> 'ep \<Rightarrow> bool \<Rightarrow> time \<Rightarrow> 'ep session" where
  "new_session sid endpoint hasSend now =
     \<lparr>s_id = sid, s_endpoint = endpoint, s_hasSendFunction = hasSend, s_sent = [],
      hasReceivedRemotePacket = False, localSequenceId = 0,
      remoteAcknowledgeId = 0, remoteAcknowledgeBitfield = 0,
      localOrderIds = [], nextExpectedOrderIds = [], reorderBuffers = [], sentPackets = [],
      oldPacketHistory = [], pendingRichAcks = [], packetsSinceLastAck = 0,
      hasUnsentAck = False, lastAckTime = 0, lastSeen = now, s_shouldClose = False,
      sessionMetrics = zero_metrics\<rparr>"

section \<open>Sending\<close>

definition note_sent :: "u8 \<Rightarrow> nat \<Rightarrow> session_metrics \<Rightarrow> session_metrics" where
  "note_sent ch n m =
     m\<lparr>m_channels := (m_channels m)(ch := (m_channels m ch)
         \<lparr>packetsSent := packetsSent (m_channels m ch) + 1,
          bytesSent := bytesSent (m_channels m ch) + word_of_nat n\<rparr>)\<rparr>"

definition outgoing_header :: "packet \<Rightarrow> u32 \<Rightarrow> u32 \<Rightarrow> 'ep session \<Rightarrow> header" where
  "outgoing_header p sq oid s =
     default_header
       \<lparr>sequenceId := sq, channelId := p_channelId p, orderId := oid,
        acknowledgeId := remoteAcknowledgeId s,
        acknowledgeBitfield := remoteAcknowledgeBitfield s,
        messageId := p_messageId p,
        flags := (if hasReceivedRemotePacket s then p_flag p OR kHasAck else p_flag p),
        packetSize := word_of_nat (length (p_buffer p))\<rparr>"

definition rawSend :: "time \<Rightarrow> packet \<Rightarrow> u32 \<Rightarrow> u32 \<Rightarrow> 'ep session \<Rightarrow> 'ep session" where
  "rawSend now p sq oid s =
     (let rawBuffer = header_wire (outgoing_header p sq oid s) @ p_buffer p in
      s\<lparr>packetsSinceLastAck := (if hasReceivedRemotePacket s then 0 else packetsSinceLastAck s),
         s_sent := (if s_hasSendFunction s then s_sent s @ [rawBuffer] else s_sent s),
         hasUnsentAck := False,
         lastAckTime := now,
         sessionMetrics := note_sent (p_channelId p) (length (p_buffer p) + sizeof_Header)
           (sessionMetrics s)\<rparr>)"

definition is_ordered :: "flag \<Rightarrow> bool" where
  "is_ordered fl \<longleftrightarrow> flag_and fl kOrdered = kOrdered"

definition next_order_id :: "packet \<Rightarrow> 'ep session \<Rightarrow> u32" where
  "next_order_id p s =
     (if is_ordered (p_flag p) then om_get 0 (localOrderIds s) (p_channelId p) else 0)"

definition send :: "time \<Rightarrow> packet \<Rightarrow> 'ep session \<Rightarrow> 'ep session" where
  "send now p s =
     (let sq = localSequenceId s;
          oid = next_order_id p s;
          s1 = s\<lparr>localSequenceId := sq + 1\<rparr>;
          s2 = (if is_ordered (p_flag p)
                then s1\<lparr>localOrderIds := om_put (p_channelId p) (oid + 1) (localOrderIds s1)\<rparr>
                else s1);
          s3 = (if p_flag p \<noteq> kUnreliable
                then s2\<lparr>sentPackets := om_put sq
                       \<lparr>si_packet = p, si_sentTime = now, si_sequenceId = sq,
                        si_orderId = oid, si_retries = 0\<rparr> (sentPackets s2)\<rparr>
                else s2)
      in rawSend now p sq oid s3)"

text \<open>\<open>send<T>\<close>: build the packet of a message struct, then send it.\<close>

definition send_message ::
    "packet_traits \<Rightarrow> 'a writer \<Rightarrow> time \<Rightarrow> 'a \<Rightarrow> 'ep session \<Rightarrow> rt_error + 'ep session" where
  "send_message t wr now data s = try_bind (make_packet t wr data) (\<lambda>p. Inr (send now p s))"

definition rich_ack_packet :: "u32 list \<Rightarrow> rt_error + packet" where
  "rich_ack_packet acks =
     write_deque write_pod acks
       (new_packet (system_id kRichAck) kUnreliable INTERNAL_CHANNEL_ID)"

definition take_sequence_id :: "'ep session \<Rightarrow> 'ep session" where
  "take_sequence_id s = s\<lparr>localSequenceId := localSequenceId s + 1\<rparr>"

function send_rich_acks ::
    "time \<Rightarrow> u32 list \<Rightarrow> nat \<Rightarrow> 'ep session \<Rightarrow> fault + 'ep session" where
  "send_rich_acks now acks processed s =
     (if processed < length acks then
        let chunkSize = min MAX_ACK_PER_PACKET (length acks - processed) in
        try_bind (map_sum Raised id (rich_ack_packet (slice processed chunkSize acks)))
          (\<lambda>p. send_rich_acks now acks (processed + chunkSize)
             (rawSend now p (localSequenceId s) 0 (take_sequence_id s)))
      else Inr s)"
  by pat_completeness auto
termination
  by (relation "measure (\<lambda>(now, acks, processed, s). length acks - processed)")
    (auto simp: MAX_ACK_PER_PACKET_def)

declare send_rich_acks.simps [simp del]

definition internal_sendAck :: "time \<Rightarrow> 'ep session \<Rightarrow> fault + 'ep session" where
  "internal_sendAck now s =
     (if pendingRichAcks s \<noteq> []
      then try_bind (send_rich_acks now (pendingRichAcks s) 0 s)
             (\<lambda>s. Inr (s\<lparr>pendingRichAcks := []\<rparr>))
      else Inr (rawSend now (new_packet (system_id kAck) kUnreliable INTERNAL_CHANNEL_ID)
                 (localSequenceId s) 0 (take_sequence_id s)))"

section \<open>Replay filter\<close>

text \<open>\<open>w << n\<close> on \<open>uint32_t\<close>.\<close>

definition shift_left :: "u32 \<Rightarrow> u32 \<Rightarrow> fault + u32" where
  "shift_left w n = (if n < 32 then Inr (push_bit (unat n) w) else Inl UndefinedShift)"

text \<open>The loop that moves the set bits from index \<open>from\<close> on into the history.\<close>

definition evicted :: "nat \<Rightarrow> u32 \<Rightarrow> u32 \<Rightarrow> u32 list" where
  "evicted from bitfield ackId =
     map (\<lambda>i. ackId - word_of_nat (i + 1)) (filter (bit bitfield) [from..<32])"

definition updateAcknowledgeInfo :: "u32 \<Rightarrow> 'ep session \<Rightarrow> fault + 'ep session" where
  "updateAcknowledgeInfo sq s =
     (let ackId = remoteAcknowledgeId s; bf = remoteAcknowledgeBitfield s in
      if \<not> hasReceivedRemotePacket s then
        Inr (s\<lparr>remoteAcknowledgeId := sq, hasReceivedRemotePacket := True,
               hasUnsentAck := True\<rparr>)
      else if sq > ackId then
        let shift = sq - ackId in
        if shift > 32 then
          Inr (s\<lparr>oldPacketHistory := oldPacketHistory s @ evicted 0 bf ackId @ [ackId],
                 remoteAcknowledgeBitfield := 0,
                 remoteAcknowledgeId := sq,
                 hasUnsentAck := True\<rparr>)
        else
          try_bind (shift_left bf shift) (\<lambda>bf'.
            Inr (s\<lparr>oldPacketHistory := oldPacketHistory s @ evicted (32 - unat shift) bf ackId,
                   remoteAcknowledgeBitfield := bf' OR push_bit (unat (shift - 1)) 1,
                   remoteAcknowledgeId := sq,
                   hasUnsentAck := True\<rparr>))
      else if sq < ackId then
        let diff = ackId - sq in
        if diff \<le> 32 then
          Inr (s\<lparr>remoteAcknowledgeBitfield := bf OR push_bit (unat (diff - 1)) 1,
                 hasUnsentAck := True\<rparr>)
        else if sq \<in> set (oldPacketHistory s) then
          Inr (s\<lparr>hasUnsentAck := True\<rparr>)
        else
          let history = oldPacketHistory s @ [sq] in
          Inr (s\<lparr>oldPacketHistory :=
                   (if length history > MAX_PACKET_HISTORY_SIZE then tl history else history),
                 hasUnsentAck := True\<rparr>)
      else Inr (s\<lparr>hasUnsentAck := True\<rparr>))"

definition isDuplicate :: "u32 \<Rightarrow> 'ep session \<Rightarrow> bool" where
  "isDuplicate sq s =
     (if \<not> hasReceivedRemotePacket s then False
      else if sq = remoteAcknowledgeId s then True
      else if sq > remoteAcknowledgeId s then False
      else let diff = remoteAcknowledgeId s - sq in
        if diff \<le> 32 then bit (remoteAcknowledgeBitfield s) (unat (diff - 1))
        else sq \<in> set (oldPacketHistory s))"


section \<open>Receiving\<close>

definition note_received :: "u8 \<Rightarrow> nat \<Rightarrow> session_metrics \<Rightarrow> session_metrics" where
  "note_received ch n m =
     m\<lparr>m_channels := (m_channels m)(ch := (m_channels m ch)
         \<lparr>packetsReceived := packetsReceived (m_channels m ch) + 1,
          bytesReceived := bytesReceived (m_channels m ch) + word_of_nat n\<rparr>)\<rparr>"

text \<open>\<open>_updateRtt\<close>; the argument counts milliseconds.\<close>

definition updateRtt :: "int \<Rightarrow> session_metrics \<Rightarrow> session_metrics" where
  "updateRtt rtt m =
     (let rttMs = word_of_int rtt :: u32 in
      m\<lparr>m_rtt := rttMs, m_maxRtt := (if rttMs > m_maxRtt m then rttMs else m_maxRtt m)\<rparr>)"

text \<open>The acknowledgements carried by a header.\<close>

definition acked_by_bitfield :: "header \<Rightarrow> u32 list" where
  "acked_by_bitfield hdr =
     map (\<lambda>i. acknowledgeId hdr - word_of_nat (i + 1))
       (filter (bit (acknowledgeBitfield hdr)) [0..<32])"

definition process_acks :: "time \<Rightarrow> header \<Rightarrow> 'ep session \<Rightarrow> 'ep session" where
  "process_acks now hdr s =
     (if flags hdr AND kHasAck \<noteq> 0 \<and> sentPackets s \<noteq> [] then
        let s1 = (case map_of (sentPackets s) (acknowledgeId hdr) of
                    None \<Rightarrow> s
                  | Some info \<Rightarrow>
                      s\<lparr>sessionMetrics :=
                          (if si_retries info = 0
                           then updateRtt ((now - si_sentTime info) div milliseconds 1)
                                  (sessionMetrics s)
                           else sessionMetrics s),
                        sentPackets := om_del (acknowledgeId hdr) (sentPackets s)\<rparr>)
        in s1\<lparr>sentPackets := fold om_del (acked_by_bitfield hdr) (sentPackets s1)\<rparr>
      else s)"

text \<open>\<open>checkForOldPackets\<close>: a \<open>RICH_ACK\<close> that cannot be read is dropped.\<close>

definition read_rich_ack :: "u32 list reader" where
  "read_rich_ack = read_deque read_pod"

definition payload_of :: "bytes \<Rightarrow> bytes" where
  "payload_of rawData = drop sizeof_Header rawData"

definition received_packet :: "bytes \<Rightarrow> header \<Rightarrow> packet" where
  "received_packet rawData hdr =
     set_payload (payload_of rawData) (new_packet (messageId hdr) (flags hdr) 0)"

definition checkForOldPackets :: "bytes \<Rightarrow> header \<Rightarrow> 'ep session \<Rightarrow> 'ep session" where
  "checkForOldPackets rawData hdr s =
     (if length rawData > sizeof_Header then
        case fst (read_rich_ack (received_packet rawData hdr)) of
          Inl _ \<Rightarrow> s
        | Inr acks \<Rightarrow> s\<lparr>sentPackets := fold om_del acks (sentPackets s)\<rparr>
      else s)"

text \<open>The loop that empties the reorder buffer of the packets that have become due.\<close>

function drain ::
    "u32 \<Rightarrow> (u32, packet) omap \<Rightarrow> packet list \<times> u32 \<times> (u32, packet) omap" where
  "drain nextExpected buffer =
     (case map_of buffer nextExpected of
        None \<Rightarrow> ([], nextExpected, buffer)
      | Some p \<Rightarrow>
          (case drain (nextExpected + 1) (om_del nextExpected buffer) of
             (ps, n, b) \<Rightarrow> (p # ps, n, b)))"
  by pat_completeness auto
termination
  by (relation "measure (\<lambda>(n, b). length b)") (auto intro!: length_om_del_less simp: om_has_def)

declare drain.simps [simp del]

definition deliver_ordered ::
    "u8 \<Rightarrow> u32 \<Rightarrow> packet \<Rightarrow> 'ep session \<Rightarrow> packet list \<times> 'ep session" where
  "deliver_ordered ch oid p s =
     (let nextExpected = om_get 0 (nextExpectedOrderIds s) ch;
          buffer = om_get [] (reorderBuffers s) ch;
          finish = (\<lambda>ready next buf.
            (ready, s\<lparr>nextExpectedOrderIds := om_put ch next (nextExpectedOrderIds s),
                      reorderBuffers := om_put ch buf (reorderBuffers s)\<rparr>))
      in if oid = nextExpected then
           case drain (nextExpected + 1) buffer of
             (ps, next, buf) \<Rightarrow> finish (p # ps) next buf
         else if oid > nextExpected then finish [] nextExpected (om_put oid p buffer)
         else finish [] nextExpected buffer)"

definition queue_duplicate :: "u32 \<Rightarrow> 'ep session \<Rightarrow> 'ep session" where
  "queue_duplicate sq s =
     s\<lparr>sessionMetrics := (sessionMetrics s)\<lparr>duplicateCount := duplicateCount (sessionMetrics s) + 1\<rparr>,
       pendingRichAcks := pendingRichAcks s @ [sq],
       hasUnsentAck := True\<rparr>"

text \<open>From \<open>_packetsSinceLastAck++\<close> to the early acknowledgement.\<close>

definition count_and_ack :: "time \<Rightarrow> 'ep session \<Rightarrow> fault + 'ep session" where
  "count_and_ack now s =
     (let s1 = s\<lparr>packetsSinceLastAck := packetsSinceLastAck s + 1\<rparr> in
      if packetsSinceLastAck s1 \<ge> ucast ACK_PACKET_THRESHOLD then internal_sendAck now s1
      else Inr s1)"

definition hand_over ::
    "bytes \<Rightarrow> header \<Rightarrow> 'ep session \<Rightarrow> packet list \<times> 'ep session" where
  "hand_over rawData hdr s =
     (if messageId hdr = system_id kRichAck then ([], checkForOldPackets rawData hdr s)
      else if length rawData - sizeof_Header = 0 \<and> messageId hdr = system_id kAck then ([], s)
      else let p = received_packet rawData hdr in
        if \<not> is_ordered (p_flag p) then ([p], s)
        else deliver_ordered (channelId hdr) (orderId hdr) p s)"

definition note_arrival :: "time \<Rightarrow> header \<Rightarrow> nat \<Rightarrow> 'ep session \<Rightarrow> 'ep session" where
  "note_arrival now hdr n s =
     s\<lparr>lastSeen := now,
       sessionMetrics := note_received (channelId hdr) n (sessionMetrics s)\<rparr>"

definition handleIncoming ::
    "time \<Rightarrow> bytes \<Rightarrow> 'ep session \<Rightarrow> fault + packet list \<times> 'ep session" where
  "handleIncoming now rawData s =
     (case res_header (parse_header rawData) of
        None \<Rightarrow> Inr ([], s)
      | Some hdr \<Rightarrow>
          let s1 = process_acks now hdr (note_arrival now hdr (length rawData) s) in
          if isDuplicate (sequenceId hdr) s1
          then Inr ([], queue_duplicate (sequenceId hdr) s1)
          else
            try_bind (updateAcknowledgeInfo (sequenceId hdr) s1) (\<lambda>s2.
            try_bind (count_and_ack now s2) (\<lambda>s3.
            Inr (hand_over rawData hdr s3))))"

section \<open>The periodic update\<close>

definition internal_disconnect :: "'ep session \<Rightarrow> 'ep session" where
  "internal_disconnect s = s\<lparr>s_shouldClose := True\<rparr>"

definition disconnect :: "'ep session \<Rightarrow> 'ep session" where
  "disconnect s = internal_disconnect s"

definition is_late :: "time \<Rightarrow> sent_info \<Rightarrow> bool" where
  "is_late now info \<longleftrightarrow> now - si_sentTime info > RESEND_TIMEOUT"

text \<open>Send one buffered packet again under its own numbers.\<close>

definition retransmit :: "time \<Rightarrow> u32 \<Rightarrow> sent_info \<Rightarrow> 'ep session \<Rightarrow> 'ep session" where
  "retransmit now k info s =
     (let s1 = rawSend now (si_packet info) (si_sequenceId info) (si_orderId info) s in
      s1\<lparr>sentPackets :=
           om_put k (info\<lparr>si_sentTime := now, si_retries := si_retries info + 1\<rparr>) (sentPackets s1),
         sessionMetrics := (sessionMetrics s1)
           \<lparr>retransmitCount := retransmitCount (sessionMetrics s1) + 1\<rparr>\<rparr>)"

text \<open>The loop over the buffer; the flag tells that it returned early, the connection lost.\<close>

primrec resend_loop ::
    "time \<Rightarrow> (u32 \<times> sent_info) list \<Rightarrow> 'ep session \<Rightarrow> bool \<times> 'ep session" where
  "resend_loop now [] s = (False, s)"
| "resend_loop now (e # es) s =
     (if is_late now (snd e) then
        if si_retries (snd e) \<ge> MAX_RESEND_ATTEMPTS then (True, internal_disconnect s)
        else resend_loop now es (retransmit now (fst e) (snd e) s)
      else resend_loop now es s)"

definition update :: "time \<Rightarrow> 'ep session \<Rightarrow> fault + 'ep session" where
  "update now s =
     (case resend_loop now (sentPackets s) s of
        (lost, s1) \<Rightarrow>
          if lost then Inr s1
          else if hasUnsentAck s1 \<and> now - lastAckTime s1 > ACK_TIMEOUT
          then internal_sendAck now s1
          else Inr s1)"

end
