(* ===== verification/SessionSend.thy ===== *)
theory SessionSend
  imports Session
begin

text \<open>
  The sending half of a session: numbering and buffering of packets (\<open>send\<close>), the datagrams
  that leave (\<open>rawSend\<close>), the acknowledgement packets (\<open>_internal_sendAck\<close>) and the
  retransmission loop of \<open>update\<close>.  The lemmas of the first section say what each operation
  leaves alone; the theories on the receiving half rest on them.
\<close>

section \<open>Datagrams\<close>

definition datagram :: "packet \<Rightarrow> u32 \<Rightarrow> u32 \<Rightarrow> 'ep session \<Rightarrow> bytes" where
  "datagram p sq oid s = header_wire (outgoing_header p sq oid s) @ p_buffer p"

text \<open>What leaves, given that the session has a send function.\<close>

definition sent_by :: "'ep session \<Rightarrow> bytes list \<Rightarrow> bytes list" where
  "sent_by s ds = (if s_hasSendFunction s then ds else [])"

lemma outgoing_header_fields [simp]:
  "protocolId (outgoing_header p sq oid s) = PROTOCOL_ID"
  "protocolVersion (outgoing_header p sq oid s) = PROTOCOL_VER"
  "sequenceId (outgoing_header p sq oid s) = sq"
  "orderId (outgoing_header p sq oid s) = oid"
  "channelId (outgoing_header p sq oid s) = p_channelId p"
  "messageId (outgoing_header p sq oid s) = p_messageId p"
  "acknowledgeId (outgoing_header p sq oid s) = remoteAcknowledgeId s"
  "acknowledgeBitfield (outgoing_header p sq oid s) = remoteAcknowledgeBitfield s"
  "flags (outgoing_header p sq oid s) =
     (if hasReceivedRemotePacket s then p_flag p OR kHasAck else p_flag p)"
  "packetSize (outgoing_header p sq oid s) = word_of_nat (length (p_buffer p))"
  by (simp_all add: outgoing_header_def default_header_def)

lemma rawSend_simps [simp]:
  "s_sent (rawSend now p sq oid s) = s_sent s @ sent_by s [datagram p sq oid s]"
  "s_id (rawSend now p sq oid s) = s_id s"
  "s_endpoint (rawSend now p sq oid s) = s_endpoint s"
  "s_hasSendFunction (rawSend now p sq oid s) = s_hasSendFunction s"
  "hasReceivedRemotePacket (rawSend now p sq oid s) = hasReceivedRemotePacket s"
  "localSequenceId (rawSend now p sq oid s) = localSequenceId s"
  "remoteAcknowledgeId (rawSend now p sq oid s) = remoteAcknowledgeId s"
  "remoteAcknowledgeBitfield (rawSend now p sq oid s) = remoteAcknowledgeBitfield s"
  "localOrderIds (rawSend now p sq oid s) = localOrderIds s"
  "nextExpectedOrderIds (rawSend now p sq oid s) = nextExpectedOrderIds s"
  "reorderBuffers (rawSend now p sq oid s) = reorderBuffers s"
  "sentPackets (rawSend now p sq oid s) = sentPackets s"
  "oldPacketHistory (rawSend now p sq oid s) = oldPacketHistory s"
  "pendingRichAcks (rawSend now p sq oid s) = pendingRichAcks s"
  "lastSeen (rawSend now p sq oid s) = lastSeen s"
  "lastAckTime (rawSend now p sq oid s) = now"
  "hasUnsentAck (rawSend now p sq oid s) = False"
  "s_shouldClose (rawSend now p sq oid s) = s_shouldClose s"
  by (simp_all add: rawSend_def Let_def sent_by_def datagram_def)

lemma take_sequence_id_simps [simp]:
  "localSequenceId (take_sequence_id s) = localSequenceId s + 1"
  "s_sent (take_sequence_id s) = s_sent s"
  "s_hasSendFunction (take_sequence_id s) = s_hasSendFunction s"
  "hasReceivedRemotePacket (take_sequence_id s) = hasReceivedRemotePacket s"
  "remoteAcknowledgeId (take_sequence_id s) = remoteAcknowledgeId s"
  "remoteAcknowledgeBitfield (take_sequence_id s) = remoteAcknowledgeBitfield s"
  "nextExpectedOrderIds (take_sequence_id s) = nextExpectedOrderIds s"
  "reorderBuffers (take_sequence_id s) = reorderBuffers s"
  "localOrderIds (take_sequence_id s) = localOrderIds s"
  "sentPackets (take_sequence_id s) = sentPackets s"
  "oldPacketHistory (take_sequence_id s) = oldPacketHistory s"
  "pendingRichAcks (take_sequence_id s) = pendingRichAcks s"
  "lastSeen (take_sequence_id s) = lastSeen s"
  "s_shouldClose (take_sequence_id s) = s_shouldClose s"
  by (simp_all add: take_sequence_id_def)

lemma parse_datagram: "parse_header (datagram p sq oid s) = parse_success (outgoing_header p sq oid s)"
proof -
  have "unat (word_of_nat (length (p_buffer p)) :: u16) \<le> length (p_buffer p)"
    by (simp add: unat_of_nat)
  then show ?thesis
    by (simp add: datagram_def parse_header_wire not_less)
qed

section \<open>Acknowledgement packets\<close>

text \<open>One step of the chunk loop, and one plain acknowledgement.\<close>

definition emit :: "time \<Rightarrow> 'ep session \<Rightarrow> packet \<Rightarrow> 'ep session" where
  "emit now s p = rawSend now p (localSequenceId s) 0 (take_sequence_id s)"

definition ack_chunks :: "u32 list \<Rightarrow> u32 list list \<Rightarrow> packet list \<Rightarrow> bool" where
  "ack_chunks acks cs ps \<longleftrightarrow>
     concat cs = acks \<and> list_all2 (\<lambda>c p. rich_ack_packet c = Inr p) cs ps \<and>
     (\<forall>c \<in> set cs. 0 < length c \<and> length c \<le> MAX_ACK_PER_PACKET)"

lemma rich_ack_packet_ok:
  assumes "length c \<le> MAX_ACK_PER_PACKET"
  shows "rich_ack_packet c = Inr (append_bytes (enc_list be_bytes c)
           (new_packet (system_id kRichAck) kUnreliable INTERNAL_CHANNEL_ID))"
  unfolding rich_ack_packet_def
  using assms by (intro wire_codec.wr_enc[OF u32.deque_codec])
    (simp add: short_list_def MAX_ACK_PER_PACKET_def)

lemma send_rich_acks_emits:
  "\<exists>cs ps. send_rich_acks now acks n s = Inr (foldl (emit now) s ps) \<and>
           ack_chunks (drop n acks) cs ps"
proof (induction now acks n s rule: send_rich_acks.induct)
  case (1 now acks n s)
  show ?case
  proof (cases "n < length acks")
    case True
    define k where "k = min MAX_ACK_PER_PACKET (length acks - n)"
    define c where "c = slice n k acks"
    have c: "length c = k" "0 < k" "k \<le> MAX_ACK_PER_PACKET"
      using True by (auto simp: c_def k_def MAX_ACK_PER_PACKET_def)
    then obtain p where p: "rich_ack_packet c = Inr p"
      by (simp add: rich_ack_packet_ok)
    from "1.IH"[OF True refl, of p] obtain cs ps where
      r: "send_rich_acks now acks (n + k) (emit now s p) = Inr (foldl (emit now) (emit now s p) ps)"
        "ack_chunks (drop (n + k) acks) cs ps"
      by (auto simp: emit_def[symmetric] k_def)
    have "send_rich_acks now acks n s = Inr (foldl (emit now) s (p # ps))"
      using True p r(1) by (subst send_rich_acks.simps) (simp add: k_def c_def emit_def)
    moreover have "ack_chunks (drop n acks) (c # cs) (p # ps)"
      using r(2) c p
      by (auto simp: ack_chunks_def c_def slice_def add.commute[of n] drop_drop[symmetric]
          simp del: drop_drop)
    ultimately show ?thesis by blast
  next
    case False
    then show ?thesis
      by (subst send_rich_acks.simps) (auto simp: ack_chunks_def intro: exI[of _ "[]"])
  qed
qed

lemma sendAck_emits:
  "\<exists>cs ps. internal_sendAck now s = Inr ((foldl (emit now) s ps)\<lparr>pendingRichAcks := []\<rparr>) \<and>
     (if pendingRichAcks s = []
      then ps = [new_packet (system_id kAck) kUnreliable INTERNAL_CHANNEL_ID]
      else ack_chunks (pendingRichAcks s) cs ps)"
proof (cases "pendingRichAcks s = []")
  case True
  have "emit now s p = (emit now s p)\<lparr>pendingRichAcks := []\<rparr>" for p
    using True by (simp add: emit_def rawSend_def Let_def take_sequence_id_def)
  with True show ?thesis
    by (auto simp: internal_sendAck_def emit_def)
next
  case False
  obtain cs ps where "send_rich_acks now (pendingRichAcks s) 0 s = Inr (foldl (emit now) s ps)"
    "ack_chunks (pendingRichAcks s) cs ps"
    using send_rich_acks_emits[of now "pendingRichAcks s" 0 s] by auto
  with False show ?thesis
    by (auto simp: internal_sendAck_def)
qed

text \<open>A part of the state that one \<open>emit\<close> leaves alone is left alone by all of them.\<close>

lemma foldl_emit_frame:
  assumes "\<And>s p. f (emit now s p) = f s"
  shows "f (foldl (emit now) s ps) = f s"
  by (induction ps arbitrary: s) (simp_all add: assms)

lemma emit_simps [simp]:
  "hasReceivedRemotePacket (emit now s p) = hasReceivedRemotePacket s"
  "remoteAcknowledgeId (emit now s p) = remoteAcknowledgeId s"
  "remoteAcknowledgeBitfield (emit now s p) = remoteAcknowledgeBitfield s"
  "oldPacketHistory (emit now s p) = oldPacketHistory s"
  "nextExpectedOrderIds (emit now s p) = nextExpectedOrderIds s"
  "reorderBuffers (emit now s p) = reorderBuffers s"
  "localOrderIds (emit now s p) = localOrderIds s"
  "sentPackets (emit now s p) = sentPackets s"
  "s_hasSendFunction (emit now s p) = s_hasSendFunction s"
  "s_shouldClose (emit now s p) = s_shouldClose s"
  "lastSeen (emit now s p) = lastSeen s"
  by (simp_all add: emit_def)

lemmas foldl_emit_simps [simp] =
  foldl_emit_frame[of hasReceivedRemotePacket, OF emit_simps(1)]
  foldl_emit_frame[of remoteAcknowledgeId, OF emit_simps(2)]
  foldl_emit_frame[of remoteAcknowledgeBitfield, OF emit_simps(3)]
  foldl_emit_frame[of oldPacketHistory, OF emit_simps(4)]
  foldl_emit_frame[of nextExpectedOrderIds, OF emit_simps(5)]
  foldl_emit_frame[of reorderBuffers, OF emit_simps(6)]
  foldl_emit_frame[of localOrderIds, OF emit_simps(7)]
  foldl_emit_frame[of sentPackets, OF emit_simps(8)]
  foldl_emit_frame[of s_hasSendFunction, OF emit_simps(9)]
  foldl_emit_frame[of s_shouldClose, OF emit_simps(10)]
  foldl_emit_frame[of lastSeen, OF emit_simps(11)]

section \<open>Sending packets\<close>

definition send_all :: "time \<Rightarrow> packet list \<Rightarrow> 'ep session \<Rightarrow> 'ep session" where
  "send_all now ps s = foldl (\<lambda>s p. send now p s) s ps"

lemma send_all_simps [simp]:
  "send_all now [] s = s"
  "send_all now (ps @ [p]) s = send now p (send_all now ps s)"
  by (simp_all add: send_all_def)

definition sent_entry :: "time \<Rightarrow> packet \<Rightarrow> 'ep session \<Rightarrow> sent_info" where
  "sent_entry now p s =
     \<lparr>si_packet = p, si_sentTime = now, si_sequenceId = localSequenceId s,
      si_orderId = next_order_id p s, si_retries = 0\<rparr>"

lemma send_simps [simp]:
  "s_hasSendFunction (send now p s) = s_hasSendFunction s"
  "hasReceivedRemotePacket (send now p s) = hasReceivedRemotePacket s"
  "remoteAcknowledgeId (send now p s) = remoteAcknowledgeId s"
  "remoteAcknowledgeBitfield (send now p s) = remoteAcknowledgeBitfield s"
  "oldPacketHistory (send now p s) = oldPacketHistory s"
  "pendingRichAcks (send now p s) = pendingRichAcks s"
  "nextExpectedOrderIds (send now p s) = nextExpectedOrderIds s"
  "reorderBuffers (send now p s) = reorderBuffers s"
  "localSequenceId (send now p s) = localSequenceId s + 1"
  "localOrderIds (send now p s) =
     (if is_ordered (p_flag p)
      then om_put (p_channelId p) (om_get 0 (localOrderIds s) (p_channelId p) + 1) (localOrderIds s)
      else localOrderIds s)"
  "sentPackets (send now p s) =
     (if p_flag p \<noteq> kUnreliable then om_put (localSequenceId s) (sent_entry now p s) (sentPackets s)
      else sentPackets s)"
  by (simp_all add: send_def Let_def next_order_id_def sent_entry_def)

lemma s_sent_send:
  "s_sent (send now p s) =
     s_sent s @ sent_by s [datagram p (localSequenceId s) (next_order_id p s) s]"
  by (simp add: send_def Let_def sent_by_def datagram_def outgoing_header_def)

text \<open>The order number of the \<open>i\<close>-th packet of a batch: the counter of its channel, advanced by
  the ordered packets of that channel before it.\<close>

definition same_stream :: "packet \<Rightarrow> packet \<Rightarrow> bool" where
  "same_stream p r \<longleftrightarrow> is_ordered (p_flag r) \<and> p_channelId r = p_channelId p"

definition order_number :: "'ep session \<Rightarrow> packet list \<Rightarrow> nat \<Rightarrow> u32" where
  "order_number s ps i =
     (if is_ordered (p_flag (ps ! i))
      then om_get 0 (localOrderIds s) (p_channelId (ps ! i)) +
           word_of_nat (length (filter (same_stream (ps ! i)) (take i ps)))
      else 0)"

lemma localSequenceId_send_all [simp]:
  "localSequenceId (send_all now ps s) = localSequenceId s + word_of_nat (length ps)"
  by (induction ps rule: rev_induct) simp_all

lemma s_hasSendFunction_send_all [simp]:
  "s_hasSendFunction (send_all now ps s) = s_hasSendFunction s"
  by (induction ps rule: rev_induct) simp_all

lemma localOrderIds_send_all:
  "om_get 0 (localOrderIds (send_all now ps s)) (p_channelId p) =
     om_get 0 (localOrderIds s) (p_channelId p) + word_of_nat (length (filter (same_stream p) ps))"
  by (induction ps rule: rev_induct) (auto simp: same_stream_def)

lemma next_order_id_send_all:
  "next_order_id p (send_all now ps s) = order_number s (ps @ [p]) (length ps)"
  by (simp add: next_order_id_def order_number_def localOrderIds_send_all)

lemma order_number_prefix: "i < length ps \<Longrightarrow> order_number s (ps @ rs) i = order_number s ps i"
  by (simp add: order_number_def nth_append)

definition numbered_datagram :: "'ep session \<Rightarrow> packet list \<Rightarrow> nat \<Rightarrow> bytes \<Rightarrow> bool" where
  "numbered_datagram s ps i d \<longleftrightarrow>
     (let hdr = received_header d; p = ps ! i in
      parse_header d = parse_success hdr \<and>
      sequenceId hdr = localSequenceId s + word_of_nat i \<and>
      orderId hdr = order_number s ps i \<and>
      channelId hdr = p_channelId p \<and> messageId hdr = p_messageId p \<and>
      payload_of d = p_buffer p)"

lemma received_header_datagram [simp]:
  "received_header (datagram p sq oid s) = outgoing_header p sq oid s"
  by (simp add: datagram_def)

lemma payload_of_datagram [simp]: "payload_of (datagram p sq oid s) = p_buffer p"
  by (simp add: payload_of_def datagram_def)

text \<open>Sending a batch of packets hands one datagram per packet to the socket, in order; the
  receiver's parser accepts each of them and finds consecutive sequence numbers, per-channel
  consecutive order numbers for the ordered ones (0 for the others), the channel, the message
  id and the payload of the packet.\<close>

theorem send_numbers:
  assumes "s_hasSendFunction s"
  shows "\<exists>ds. s_sent (send_all now ps s) = s_sent s @ ds \<and> length ds = length ps \<and>
           (\<forall>i < length ps. numbered_datagram s ps i (ds ! i))"
proof (induction ps rule: rev_induct)
  case (snoc p ps)
  then obtain ds where ds: "s_sent (send_all now ps s) = s_sent s @ ds" "length ds = length ps"
    "\<forall>i < length ps. numbered_datagram s ps i (ds ! i)"
    by blast
  let ?s = "send_all now ps s"
  let ?d = "datagram p (localSequenceId ?s) (next_order_id p ?s) ?s"
  have "s_sent (send_all now (ps @ [p]) s) = s_sent s @ (ds @ [?d])"
    using assms ds(1) by (simp add: s_sent_send sent_by_def)
  moreover have "numbered_datagram s (ps @ [p]) i ((ds @ [?d]) ! i)" if "i < Suc (length ps)" for i
  proof (cases "i = length ps")
    case True
    then show ?thesis
      using ds(2)
      by (simp add: numbered_datagram_def nth_append Let_def parse_datagram next_order_id_send_all)
  next
    case False
    with that ds show ?thesis
      by (auto simp: numbered_datagram_def nth_append order_number_prefix)
  qed
  ultimately show ?case
    using ds(2) by (intro exI[of _ "ds @ [?d]"]) simp
qed simp

lemma sentPackets_send_all_old:
  assumes "\<forall>i < length ps. k \<noteq> localSequenceId s + word_of_nat i"
  shows "map_of (sentPackets (send_all now ps s)) k = map_of (sentPackets s) k"
  using assms by (induction ps rule: rev_induct) (auto simp: less_Suc_eq)

lemma word_of_nat_inj: "i < 2 ^ 32 \<Longrightarrow> j < 2 ^ 32 \<Longrightarrow> (word_of_nat i :: u32) = word_of_nat j \<longleftrightarrow> i = j"
  by (auto simp: word_unat_eq_iff unat_of_nat)

text \<open>Every packet of a batch that is not plain unreliable stays buffered for retransmission
  under its own sequence number, with its order number, the sending time and no retry; plain
  unreliable packets are not buffered.\<close>

theorem reliable_is_buffered:
  assumes "length ps \<le> 2 ^ 32" and "i < length ps"
  shows "map_of (sentPackets (send_all now ps s)) (localSequenceId s + word_of_nat i) =
    (if p_flag (ps ! i) = kUnreliable
     then map_of (sentPackets s) (localSequenceId s + word_of_nat i)
     else Some \<lparr>si_packet = ps ! i, si_sentTime = now,
                si_sequenceId = localSequenceId s + word_of_nat i,
                si_orderId = order_number s ps i, si_retries = 0\<rparr>)"
  using assms
proof (induction ps rule: rev_induct)
  case (snoc p ps)
  show ?case
  proof (cases "i = length ps")
    case True
    have "map_of (sentPackets (send_all now ps s)) (localSequenceId s + word_of_nat i) =
        map_of (sentPackets s) (localSequenceId s + word_of_nat i)"
      using snoc.prems True
      by (intro sentPackets_send_all_old) (auto simp: word_of_nat_inj)
    with True show ?thesis
      by (simp add: sent_entry_def next_order_id_send_all)
  next
    case False
    with snoc.prems have "i < length ps" "(word_of_nat i :: u32) \<noteq> word_of_nat (length ps)"
      by (auto simp: word_of_nat_inj)
    with snoc show ?thesis
      by (simp add: nth_append order_number_prefix)
  qed
qed simp


theorem reliable_is_buffered_witness:
  "map_of (sentPackets (send_all 0
      [new_packet 300 kReliable 1, new_packet 301 kOrdered 1, new_packet 302 kOrdered 1]
      (new_session 0 () True 0))) 2 =
   Some \<lparr>si_packet = new_packet 302 kOrdered 1, si_sentTime = 0, si_sequenceId = 2,
         si_orderId = 1, si_retries = 0\<rparr>"
  using reliable_is_buffered[of
      "[new_packet 300 kReliable 1, new_packet 301 kOrdered 1, new_packet 302 kOrdered 1]" 2 0
      "new_session 0 () True 0"]
  by (simp add: order_number_def same_stream_def is_ordered_def flag_defs new_packet_def
      new_session_def take_Cons')

theorem send_numbers_witness:
  "\<exists>ds. s_sent (send_all 0 [new_packet 300 kReliable 1, new_packet 301 kOrdered 1]
           (new_session 0 () True 0)) = [] @ ds \<and> length ds = 2 \<and>
     (\<forall>i < 2. numbered_datagram (new_session 0 () True 0)
        [new_packet 300 kReliable 1, new_packet 301 kOrdered 1] i (ds ! i))"
  using send_numbers[of "new_session 0 () True 0" 0
      "[new_packet 300 kReliable 1, new_packet 301 kOrdered 1]"]
  by (simp add: new_session_def numeral_2_eq_2)

section \<open>Acknowledgements\<close>

definition rich_ack_of :: "bytes \<Rightarrow> u32 list option" where
  "rich_ack_of d =
     (if messageId (received_header d) = system_id kRichAck
      then case fst (read_rich_ack (received_packet d (received_header d))) of
             Inl _ \<Rightarrow> None | Inr acks \<Rightarrow> Some acks
      else None)"

lemma read_rich_ack_enc:
  assumes "length c \<le> 65535" and "payload_of d = enc_list be_bytes c"
  shows "fst (read_rich_ack (received_packet d hdr)) = Inr c"
proof -
  have "read_deque read_pod (received_packet d hdr) =
      (Inr c, advance (length (enc_list be_bytes c)) (received_packet d hdr))"
    using assms by (intro wire_codec.rd_enc[OF u32.deque_codec, where rest = "[]"])
      (simp_all add: short_list_def received_packet_def unread_def set_payload_def new_packet_def)
  then show ?thesis by (simp add: read_rich_ack_def)
qed

lemma rich_ack_of_datagram:
  assumes "rich_ack_packet c = Inr p" and "length c \<le> MAX_ACK_PER_PACKET"
  shows "rich_ack_of (datagram p sq oid s) = Some c"
proof -
  have p: "p = append_bytes (enc_list be_bytes c)
      (new_packet (system_id kRichAck) kUnreliable INTERNAL_CHANNEL_ID)"
    using assms rich_ack_packet_ok by auto
  then have "fst (read_rich_ack (received_packet (datagram p sq oid s) hdr)) = Inr c" for hdr
    using assms(2)
    by (intro read_rich_ack_enc) (simp_all add: MAX_ACK_PER_PACKET_def append_bytes_def new_packet_def)
  with p show ?thesis
    by (simp add: rich_ack_of_def append_bytes_def new_packet_def)
qed


lemma datagram_cong:
  assumes "hasReceivedRemotePacket s' = hasReceivedRemotePacket s"
    and "remoteAcknowledgeId s' = remoteAcknowledgeId s"
    and "remoteAcknowledgeBitfield s' = remoteAcknowledgeBitfield s"
  shows "datagram p sq oid s' = datagram p sq oid s"
  using assms by (simp add: datagram_def outgoing_header_def)

lemma localSequenceId_foldl_emit [simp]:
  "localSequenceId (foldl (emit now) s ps) = localSequenceId s + word_of_nat (length ps)"
  by (induction ps rule: rev_induct) (simp_all add: emit_def)

definition emitted :: "'ep session \<Rightarrow> packet list \<Rightarrow> bytes list" where
  "emitted s ps =
     map (\<lambda>(i, p). datagram p (localSequenceId s + word_of_nat i) 0 s) (enumerate 0 ps)"

lemma s_sent_emit:
  "s_sent (emit now s p) = s_sent s @ sent_by s [datagram p (localSequenceId s) 0 s]"
  unfolding emit_def by (simp add: sent_by_def datagram_cong[of "take_sequence_id s" s])

lemma s_sent_foldl_emit:
  "s_sent (foldl (emit now) s ps) = s_sent s @ sent_by s (emitted s ps)"
proof (induction ps rule: rev_induct)
  case (snoc p ps)
  have "datagram p sq 0 (foldl (emit now) s ps) = datagram p sq 0 s" for sq
    by (rule datagram_cong) simp_all
  with snoc show ?case
    by (simp add: s_sent_emit emitted_def sent_by_def enumerate_append_eq)
qed (simp add: emitted_def sent_by_def)

lemma rich_acks_of_emitted:
  assumes "list_all2 (\<lambda>c p. rich_ack_packet c = Inr p) cs ps"
    and "\<forall>c \<in> set cs. length c \<le> MAX_ACK_PER_PACKET"
  shows "map rich_ack_of (emitted s ps) = map Some cs"
proof (rule nth_equalityI)
  show "length (map rich_ack_of (emitted s ps)) = length (map Some cs)"
    using assms(1) by (simp add: emitted_def list_all2_lengthD)
  fix i assume "i < length (map rich_ack_of (emitted s ps))"
  then have i: "i < length ps" "i < length cs"
    using list_all2_lengthD[OF assms(1)] by (simp_all add: emitted_def)
  then have "rich_ack_packet (cs ! i) = Inr (ps ! i)"
    using list_all2_nthD[OF assms(1) i(2)] by simp
  with i assms(2) show "map rich_ack_of (emitted s ps) ! i = map Some cs ! i"
    by (simp add: emitted_def nth_enumerate_eq rich_ack_of_datagram)
qed

definition plain_ack :: "bytes \<Rightarrow> bool" where
  "plain_ack d \<longleftrightarrow> is_message (system_id kAck) d \<and> payload_of d = []"

text \<open>\<open>_internal_sendAck\<close> never fails.  With duplicates pending it sends \<open>RICH_ACK\<close> packets of
  at most 256 numbers that, read by the receiver, together list exactly the pending numbers in
  order; otherwise it sends one empty \<open>ACK\<close>.  Every packet takes the next sequence number,
  nothing stays pending, and no buffered packet is touched.\<close>

theorem sendAck_flushes:
  "\<exists>s' ds. internal_sendAck now s = Inr s' \<and> s_sent s' = s_sent s @ sent_by s ds \<and>
     pendingRichAcks s' = [] \<and> sentPackets s' = sentPackets s \<and>
     localSequenceId s' = localSequenceId s + word_of_nat (length ds) \<and>
     (\<forall>i < length ds. sequenceId (received_header (ds ! i)) = localSequenceId s + word_of_nat i) \<and>
     (if pendingRichAcks s = [] then \<exists>d. ds = [d] \<and> plain_ack d
      else \<exists>cs. map rich_ack_of ds = map Some cs \<and> concat cs = pendingRichAcks s \<and>
                (\<forall>c \<in> set cs. length c \<le> 256))"
proof -
  obtain cs ps where r:
    "internal_sendAck now s = Inr ((foldl (emit now) s ps)\<lparr>pendingRichAcks := []\<rparr>)"
    "if pendingRichAcks s = []
     then ps = [new_packet (system_id kAck) kUnreliable INTERNAL_CHANNEL_ID]
     else ack_chunks (pendingRichAcks s) cs ps"
    using sendAck_emits[of now s] by blast
  have "\<forall>i < length (emitted s ps).
      sequenceId (received_header (emitted s ps ! i)) = localSequenceId s + word_of_nat i"
    by (simp add: emitted_def nth_enumerate_eq)
  moreover have "if pendingRichAcks s = [] then \<exists>d. emitted s ps = [d] \<and> plain_ack d
      else \<exists>cs. map rich_ack_of (emitted s ps) = map Some cs \<and> concat cs = pendingRichAcks s \<and>
                (\<forall>c \<in> set cs. length c \<le> 256)"
  proof (cases "pendingRichAcks s = []")
    case True
    with r(2) show ?thesis
      by (simp add: emitted_def plain_ack_def is_message_def parse_datagram parse_ok_def
          parse_success_def new_packet_def)
  next
    case False
    with r(2) show ?thesis
      by (auto simp: ack_chunks_def MAX_ACK_PER_PACKET_def intro!: exI[of _ cs] rich_acks_of_emitted)
  qed
  moreover have "length (emitted s ps) = length ps"
    by (simp add: emitted_def)
  ultimately show ?thesis
    using r(1)
    by (intro exI[of _ "(foldl (emit now) s ps)\<lparr>pendingRichAcks := []\<rparr>"] exI[of _ "emitted s ps"])
      (simp add: s_sent_foldl_emit)
qed

theorem sendAck_flushes_witness:
  "\<exists>s' ds cs. internal_sendAck 7 (new_session 0 () True 0\<lparr>pendingRichAcks := [3, 5]\<rparr>) = Inr s' \<and>
     pendingRichAcks s' = [] \<and> map rich_ack_of ds = map Some cs \<and> concat cs = [3, 5]"
  using sendAck_flushes[of 7 "new_session 0 () True 0\<lparr>pendingRichAcks := [3, 5]\<rparr>"]
  by auto

section \<open>Retransmission\<close>

definition exhausted :: "time \<Rightarrow> sent_info \<Rightarrow> bool" where
  "exhausted now info \<longleftrightarrow> is_late now info \<and> si_retries info \<ge> MAX_RESEND_ATTEMPTS"

definition resent :: "time \<Rightarrow> sent_info \<Rightarrow> sent_info" where
  "resent now info =
     (if is_late now info then info\<lparr>si_sentTime := now, si_retries := si_retries info + 1\<rparr> else info)"

definition late_datagrams :: "time \<Rightarrow> (u32 \<times> sent_info) list \<Rightarrow> 'ep session \<Rightarrow> bytes list" where
  "late_datagrams now es s =
     map (\<lambda>(k, i). datagram (si_packet i) (si_sequenceId i) (si_orderId i) s)
       (filter (\<lambda>(k, i). is_late now i) es)"

lemma retransmit_simps [simp]:
  "s_hasSendFunction (retransmit now k info s) = s_hasSendFunction s"
  "hasReceivedRemotePacket (retransmit now k info s) = hasReceivedRemotePacket s"
  "remoteAcknowledgeId (retransmit now k info s) = remoteAcknowledgeId s"
  "remoteAcknowledgeBitfield (retransmit now k info s) = remoteAcknowledgeBitfield s"
  "oldPacketHistory (retransmit now k info s) = oldPacketHistory s"
  "nextExpectedOrderIds (retransmit now k info s) = nextExpectedOrderIds s"
  "reorderBuffers (retransmit now k info s) = reorderBuffers s"
  "pendingRichAcks (retransmit now k info s) = pendingRichAcks s"
  "localSequenceId (retransmit now k info s) = localSequenceId s"
  "s_shouldClose (retransmit now k info s) = s_shouldClose s"
  "hasUnsentAck (retransmit now k info s) = False"
  "s_sent (retransmit now k info s) =
     s_sent s @ sent_by s [datagram (si_packet info) (si_sequenceId info) (si_orderId info) s]"
  "is_late now info \<Longrightarrow> sentPackets (retransmit now k info s) = om_put k (resent now info) (sentPackets s)"
  by (simp_all add: retransmit_def Let_def resent_def)

lemma datagram_retransmit [simp]: "datagram p sq oid (retransmit now k info s) = datagram p sq oid s"
  by (rule datagram_cong) simp_all

lemma late_datagrams_retransmit [simp]:
  "late_datagrams now es (retransmit now k info s) = late_datagrams now es s"
  by (simp add: late_datagrams_def)

lemma resend_loop_alive:
  assumes "\<forall>e \<in> set es. \<not> exhausted now (snd e)" and "distinct (map fst es)"
    and "resend_loop now es s = (lost, s')"
  shows "\<not> lost" and "s_shouldClose s' = s_shouldClose s"
    and "s_sent s' = s_sent s @ sent_by s (late_datagrams now es s)"
    and "localSequenceId s' = localSequenceId s" and "s_hasSendFunction s' = s_hasSendFunction s"
    and "hasUnsentAck s' \<longleftrightarrow> hasUnsentAck s \<and> (\<forall>e \<in> set es. \<not> is_late now (snd e))"
    and "map_of (sentPackets s') k =
      (case map_of es k of None \<Rightarrow> map_of (sentPackets s) k
       | Some info \<Rightarrow> if is_late now info then Some (resent now info) else map_of (sentPackets s) k)"
  using assms
proof (induction es arbitrary: s)
  case (Cons e es)
  {
    case 1 with Cons.IH(1) show ?case by (auto simp: exhausted_def split: if_splits)
  next
    case 2 with Cons.IH(2) show ?case by (auto simp: exhausted_def split: if_splits)
  next
    case 3 with Cons.IH(3) show ?case
      by (auto simp: exhausted_def late_datagrams_def sent_by_def split: if_splits)
  next
    case 4 with Cons.IH(4) show ?case by (auto simp: exhausted_def split: if_splits)
  next
    case 5 with Cons.IH(5) show ?case by (auto simp: exhausted_def split: if_splits)
  next
    case 6 with Cons.IH(6) show ?case by (auto simp: exhausted_def split: if_splits)
  next
    case 7
    then have "map_of es (fst e) = None" by (simp add: map_of_eq_None_iff)
    with 7 Cons.IH(7) show ?case
      by (auto simp: exhausted_def split: if_splits option.splits)
  }
qed (simp_all add: late_datagrams_def sent_by_def)

lemma resend_loop_lost:
  assumes "resend_loop now es s = (lost, s')"
  shows "lost \<longleftrightarrow> (\<exists>e \<in> set es. exhausted now (snd e))"
    and "s_shouldClose s' \<longleftrightarrow> s_shouldClose s \<or> lost"
  using assms
proof (induction es arbitrary: s)
  case (Cons e es)
  {
    case 1 with Cons.IH(1) show ?case
      by (auto simp: exhausted_def split: if_splits)
  next
    case 2 with Cons.IH(2) show ?case
      by (auto simp: exhausted_def internal_disconnect_def split: if_splits)
  }
qed simp_all


lemma sendAck_simps:
  assumes "internal_sendAck now s = Inr s'"
  shows "s_shouldClose s' = s_shouldClose s" and "sentPackets s' = sentPackets s"
    and "hasReceivedRemotePacket s' = hasReceivedRemotePacket s"
    and "remoteAcknowledgeId s' = remoteAcknowledgeId s"
    and "remoteAcknowledgeBitfield s' = remoteAcknowledgeBitfield s"
    and "oldPacketHistory s' = oldPacketHistory s"
    and "nextExpectedOrderIds s' = nextExpectedOrderIds s"
    and "reorderBuffers s' = reorderBuffers s"
    and "localOrderIds s' = localOrderIds s"
    and "s_hasSendFunction s' = s_hasSendFunction s"
  using assms sendAck_emits[of now s] by auto

lemma sendAck_total: "\<exists>s'. internal_sendAck now s = Inr s'"
  using sendAck_emits[of now s] by blast

text \<open>\<open>update\<close> never fails, and it closes the connection exactly when some buffered packet is
  overdue after its eight retries.\<close>

theorem update_closes_iff_exhausted:
  "\<exists>s'. update now s = Inr s' \<and>
     (s_shouldClose s' \<longleftrightarrow> s_shouldClose s \<or>
        (\<exists>e \<in> set (sentPackets s). now - si_sentTime (snd e) > 200000000 \<and>
                                    si_retries (snd e) \<ge> 8))"
proof -
  obtain lost s1 where r: "resend_loop now (sentPackets s) s = (lost, s1)" by fastforce
  obtain s2 where s2: "internal_sendAck now s1 = Inr s2" using sendAck_total by blast
  have "s_shouldClose s1 \<longleftrightarrow> s_shouldClose s \<or> (\<exists>e \<in> set (sentPackets s). exhausted now (snd e))"
    using resend_loop_lost[OF r] by simp
  moreover have "s_shouldClose s2 = s_shouldClose s1" using s2 by (rule sendAck_simps)
  ultimately show ?thesis
    using r s2 by (auto simp: update_def exhausted_def is_late_def model_defs)
qed

text \<open>While no buffered packet is exhausted, \<open>update\<close> sends every overdue packet again, in the
  order of the buffer, under its original sequence and order numbers (with the current
  acknowledgement), counts the retry and restarts its timer; no buffered packet is lost or
  otherwise changed.  Acknowledgements follow only when nothing was overdue.\<close>

theorem update_retransmits:
  assumes "om_wf (sentPackets s)" and "\<forall>e \<in> set (sentPackets s). \<not> exhausted now (snd e)"
  shows "\<exists>s' acks. update now s = Inr s' \<and>
     s_sent s' = s_sent s @ sent_by s (late_datagrams now (sentPackets s) s) @ acks \<and>
     (acks \<noteq> [] \<longrightarrow> hasUnsentAck s \<and> late_datagrams now (sentPackets s) s = []) \<and>
     (\<forall>k. map_of (sentPackets s') k = map_option (resent now) (map_of (sentPackets s) k))"
proof -
  obtain lost s1 where r: "resend_loop now (sentPackets s) s = (lost, s1)" by fastforce
  note alive = resend_loop_alive[OF assms(2) om_wf_distinct[OF assms(1)] r]
  obtain s2 ds where s2: "internal_sendAck now s1 = Inr s2"
    "s_sent s2 = s_sent s1 @ sent_by s1 ds" "sentPackets s2 = sentPackets s1"
    using sendAck_flushes[of now s1] by blast
  have map: "map_of (sentPackets s1) k = map_option (resent now) (map_of (sentPackets s) k)" for k
    using alive(7) by (auto simp: resent_def split: option.splits)
  show ?thesis
  proof (cases "hasUnsentAck s1 \<and> now - lastAckTime s1 > ACK_TIMEOUT")
    case True
    then have "late_datagrams now (sentPackets s) s = []"
      using alive(6) by (auto simp: late_datagrams_def filter_empty_conv)
    with True r alive s2 map show ?thesis
      by (intro exI[of _ s2] exI[of _ "sent_by s1 ds"]) (simp add: update_def)
  next
    case False
    with r alive map show ?thesis
      by (intro exI[of _ s1] exI[of _ "[]"]) (auto simp: update_def)
  qed
qed


theorem update_retransmits_witness:
  "\<exists>s' acks.
     (let s = send_all 0 [new_packet 300 kReliable 1] (new_session 0 () True 0) in
      update 300000000 s = Inr s' \<and>
      s_sent s' = s_sent s @ sent_by s (late_datagrams 300000000 (sentPackets s) s) @ acks \<and>
      (acks \<noteq> [] \<longrightarrow> hasUnsentAck s \<and> late_datagrams 300000000 (sentPackets s) s = []) \<and>
      (\<forall>k. map_of (sentPackets s') k = map_option (resent 300000000) (map_of (sentPackets s) k)))"
proof -
  let ?s = "send_all 0 [new_packet 300 kReliable 1] (new_session 0 () True 0)"
  have "send_all 0 ([] @ [new_packet 300 kReliable 1]) (new_session 0 () True 0) =
      send 0 (new_packet 300 kReliable 1) (new_session 0 () True 0)"
    by (simp only: send_all_simps)
  then have "sentPackets ?s = [(0, sent_entry 0 (new_packet 300 kReliable 1) (new_session 0 () True 0))]"
    by (simp add: new_session_def new_packet_def flag_defs)
  then have "om_wf (sentPackets ?s)" "\<forall>e \<in> set (sentPackets ?s). \<not> exhausted 300000000 (snd e)"
    by (simp_all add: om_wf_def exhausted_def sent_entry_def model_defs)
  from update_retransmits[OF this] show ?thesis
    by (simp add: Let_def)
qed

end
