(* ===== verification/ReplayFilter.thy ===== *)
theory ReplayFilter
  imports SessionSend
begin

text \<open>
  The duplicate filter of a session: \<open>isDuplicate\<close> and \<open>updateAcknowledgeInfo\<close> keep the
  sequence numbers that have been received as a head, a 32-bit window behind it and a history
  of older numbers.  \<open>seen\<close> is the set this stands for.  The locale \<open>replay_protected\<close> is the
  contract of a filtered input (an input is dropped when its key is in the set, and recorded
  otherwise); \<open>handleIncoming\<close> interprets it.
\<close>

section \<open>The set behind the window\<close>

definition window_ids :: "u32 \<Rightarrow> u32 \<Rightarrow> u32 set" where
  "window_ids ackId bf = {q. q < ackId \<and> ackId - q \<le> 32 \<and> bit bf (unat (ackId - q - 1))}"

definition seen :: "'ep session \<Rightarrow> u32 set" where
  "seen s =
     (if hasReceivedRemotePacket s
      then insert (remoteAcknowledgeId s)
             (window_ids (remoteAcknowledgeId s) (remoteAcknowledgeBitfield s)
              \<union> set (oldPacketHistory s))
      else {})"

definition window_wf :: "u32 \<Rightarrow> u32 \<Rightarrow> u32 list \<Rightarrow> bool" where
  "window_wf ackId bf history \<longleftrightarrow>
     (\<forall>i. bit bf i \<longrightarrow> i < unat ackId) \<and>
     (\<forall>q \<in> set history. q < ackId \<and> ackId - q > 32) \<and> distinct history"

definition replay_wf :: "'ep session \<Rightarrow> bool" where
  "replay_wf s \<longleftrightarrow>
     (if hasReceivedRemotePacket s
      then window_wf (remoteAcknowledgeId s) (remoteAcknowledgeBitfield s) (oldPacketHistory s)
      else remoteAcknowledgeBitfield s = 0 \<and> oldPacketHistory s = [])"

lemma isDuplicate_seen:
  assumes "replay_wf s"
  shows "isDuplicate q s \<longleftrightarrow> q \<in> seen s"
proof (cases "hasReceivedRemotePacket s")
  case True
  with assms have "\<forall>q \<in> set (oldPacketHistory s).
      q < remoteAcknowledgeId s \<and> remoteAcknowledgeId s - q > 32"
    by (simp add: replay_wf_def window_wf_def)
  with True show ?thesis
    by (auto simp: isDuplicate_def seen_def window_ids_def Let_def not_less not_le)
qed (simp add: isDuplicate_def seen_def)

subsection \<open>Window arithmetic\<close>

text \<open>The number at distance \<open>i + 1\<close> behind the head.\<close>

lemma behind_head:
  assumes "i < unat (a :: u32)" and "i < 32"
  shows "unat (a - word_of_nat (i + 1)) = unat a - (i + 1)"
proof -
  have i: "unat (word_of_nat (i + 1) :: u32) = i + 1"
    using assms(2) by (subst unat_of_nat) simp
  then have "word_of_nat (i + 1) \<le> a"
    using assms(1) by (simp only: unat_le_iff)
  with i show ?thesis by (simp only: unat_sub_le)
qed

lemma window_ids_nat:
  "q \<in> window_ids a bf \<longleftrightarrow>
     unat q < unat a \<and> unat a - unat q \<le> 32 \<and> bit bf (unat a - unat q - 1)"
proof (cases "q < a")
  case True
  then have d: "unat (a - q) = unat a - unat q"
    by (intro unat_sub_le) simp
  moreover have "1 \<le> a - q"
    using True d by (simp add: unat_le_iff unat_less_iff)
  then have "unat (a - q - 1) = unat a - unat q - 1"
    using d by (simp add: unat_sub_le)
  ultimately show ?thesis
    using True by (simp add: window_ids_def unat_le_iff unat_less_iff)
qed (simp add: window_ids_def unat_less_iff)

lemma set_evicted:
  assumes "\<forall>i. bit bf i \<longrightarrow> i < unat a"
  shows "q \<in> set (evicted n bf a) \<longleftrightarrow> q \<in> window_ids a bf \<and> n < unat a - unat q"
proof
  assume "q \<in> set (evicted n bf a)"
  then obtain i where i: "n \<le> i" "i < 32" "bit bf i" "q = a - word_of_nat (i + 1)"
    by (auto simp: evicted_def)
  with assms have "i < unat a" by blast
  with i behind_head[of i a] have "unat q = unat a - (i + 1)" by simp
  with i \<open>i < unat a\<close> show "q \<in> window_ids a bf \<and> n < unat a - unat q"
    by (simp add: window_ids_nat)
next
  assume r: "q \<in> window_ids a bf \<and> n < unat a - unat q"
  define i where "i = unat a - unat q - 1"
  from r have i: "n \<le> i" "i < 32" "bit bf i" "unat q < unat a"
    by (auto simp: window_ids_nat i_def)
  then have "unat (a - word_of_nat (i + 1)) = unat q"
    by (subst behind_head) (auto simp: i_def)
  then have "q = a - word_of_nat (i + 1)"
    by (simp only: word_unat_eq_iff)
  with i show "q \<in> set (evicted n bf a)"
    by (auto simp: evicted_def)
qed

lemma distinct_evicted:
  assumes "\<forall>i. bit bf i \<longrightarrow> i < unat (a :: u32)"
  shows "distinct (evicted n bf a)"
proof -
  have "inj_on (\<lambda>i. a - word_of_nat (i + 1)) {i. i < 32 \<and> i < unat a}"
  proof (rule inj_onI)
    fix i j assume ij: "i \<in> {i. i < 32 \<and> i < unat a}" "j \<in> {i. i < 32 \<and> i < unat a}"
      "a - word_of_nat (i + 1) = a - word_of_nat (j + 1)"
    then have "unat a - (i + 1) = unat a - (j + 1)"
      using behind_head[of i a] behind_head[of j a] by auto
    moreover have "Suc i \<le> unat a" and "Suc j \<le> unat a" using ij(1,2) by auto
    ultimately show "i = j" by linarith
  qed
  moreover have "set (filter (bit bf) [n..<32]) \<subseteq> {i. i < 32 \<and> i < unat a}"
    using assms by auto
  ultimately show ?thesis
    by (auto simp: evicted_def distinct_map intro: inj_on_subset)
qed


text \<open>Moving the head forward by \<open>d\<close> within the window.\<close>

lemma window_slide:
  assumes "unat q = unat a + d" and "0 < d" and "d < 32"
  shows "x \<in> window_ids q (push_bit d bf OR push_bit (d - 1) 1) \<longleftrightarrow>
         x = a \<or> x \<in> window_ids a bf \<and> unat q - unat x \<le> 32"
proof (cases "unat x < unat a")
  case True
  define e where "e = unat a - unat x"
  with True assms have "unat q - unat x = e + d" "0 < e" "x \<noteq> a" by auto
  moreover have "bit (push_bit d bf OR push_bit (d - 1) 1 :: u32) (e + d - 1) \<longleftrightarrow>
      bit bf (e - 1) \<and> e + d \<le> 32"
    using assms \<open>0 < e\<close> by (auto simp: bit_simps)
  ultimately show ?thesis
    using True assms by (auto simp: window_ids_nat e_def)
next
  case False
  have "bit (push_bit d bf OR push_bit (d - 1) 1 :: u32) (unat q - unat x - 1) \<longleftrightarrow> x = a"
    if "unat x < unat q"
    using False that assms by (auto simp: bit_simps word_unat_eq_iff)
  with False assms show ?thesis
    by (auto simp: window_ids_nat)
qed

lemma slid_bits_wf:
  assumes "\<forall>i. bit bf i \<longrightarrow> i < unat a" and "unat q = unat a + d" and "0 < d"
  shows "bit (push_bit d bf OR push_bit (d - 1) 1 :: u32) i \<Longrightarrow> i < unat q"
  using assms by (auto simp: bit_simps)


lemma unat_diff_le:
  "b \<le> a \<Longrightarrow> (a - b \<le> 32) \<longleftrightarrow> unat a - unat b \<le> 32" for a b :: u32
  by (simp add: unat_le_iff unat_sub_le)

lemma far_behind:
  "x < a \<and> 32 < a - x \<longleftrightarrow> unat x < unat a \<and> 32 < unat a - unat x" for a x :: u32
proof (cases "x < a")
  case True
  then have "unat (a - x) = unat a - unat x" by (simp add: unat_sub_le)
  with True show ?thesis by (simp add: unat_less_iff)
qed (simp add: unat_less_iff)

subsection \<open>Recording a number\<close>

text \<open>The branches of \<open>updateAcknowledgeInfo\<close> once a packet has been received.\<close>

lemma update_branches:
  assumes rcv: "hasReceivedRemotePacket s"
  defines "a \<equiv> remoteAcknowledgeId s" and "b \<equiv> remoteAcknowledgeBitfield s"
  shows
    "a < q \<Longrightarrow> 32 < q - a \<Longrightarrow> updateAcknowledgeInfo q s =
       Inr (s\<lparr>oldPacketHistory := oldPacketHistory s @ evicted 0 b a @ [a],
         remoteAcknowledgeBitfield := 0, remoteAcknowledgeId := q, hasUnsentAck := True\<rparr>)"
    "a < q \<Longrightarrow> q - a = 32 \<Longrightarrow> updateAcknowledgeInfo q s = Inl UndefinedShift"
    "a < q \<Longrightarrow> q - a < 32 \<Longrightarrow> updateAcknowledgeInfo q s =
       Inr (s\<lparr>oldPacketHistory := oldPacketHistory s @ evicted (32 - unat (q - a)) b a,
         remoteAcknowledgeBitfield :=
           push_bit (unat (q - a)) b OR push_bit (unat (q - a - 1)) 1,
         remoteAcknowledgeId := q, hasUnsentAck := True\<rparr>)"
    "q < a \<Longrightarrow> a - q \<le> 32 \<Longrightarrow> updateAcknowledgeInfo q s =
       Inr (s\<lparr>remoteAcknowledgeBitfield := b OR push_bit (unat (a - q - 1)) 1,
         hasUnsentAck := True\<rparr>)"
    "q < a \<Longrightarrow> 32 < a - q \<Longrightarrow> q \<notin> set (oldPacketHistory s) \<Longrightarrow> updateAcknowledgeInfo q s =
       Inr (s\<lparr>oldPacketHistory :=
           (if length (oldPacketHistory s @ [q]) > MAX_PACKET_HISTORY_SIZE
            then tl (oldPacketHistory s @ [q]) else oldPacketHistory s @ [q]),
         hasUnsentAck := True\<rparr>)"
  using rcv by (simp_all add: updateAcknowledgeInfo_def shift_left_def a_def b_def Let_def
      not_less not_le less_imp_le)

definition fresh_spec :: "u32 \<Rightarrow> 'ep session \<Rightarrow> 'ep session \<Rightarrow> bool" where
  "fresh_spec q s s' \<longleftrightarrow>
     replay_wf s' \<and> q \<in> seen s' \<and> seen s' \<subseteq> insert q (seen s) \<and>
     (length (oldPacketHistory s) < MAX_PACKET_HISTORY_SIZE \<longrightarrow> seen s' = insert q (seen s))"

lemma fresh_specI: "replay_wf s' \<Longrightarrow> seen s' = insert q (seen s) \<Longrightarrow> fresh_spec q s s'"
  by (simp add: fresh_spec_def)

lemma record_first:
  assumes "replay_wf s" and "\<not> hasReceivedRemotePacket s"
    and "updateAcknowledgeInfo q s = Inr s'"
  shows "fresh_spec q s s'"
  using assms
  by (auto simp: updateAcknowledgeInfo_def replay_wf_def window_wf_def seen_def window_ids_def
      intro!: fresh_specI)

lemma record_jump:
  assumes wf: "replay_wf s" and rcv: "hasReceivedRemotePacket s"
    and q: "remoteAcknowledgeId s < q" "q - remoteAcknowledgeId s > 32"
    and upd: "updateAcknowledgeInfo q s = Inr s'"
  shows "fresh_spec q s s'"
proof (rule fresh_specI)
  let ?a = "remoteAcknowledgeId s" and ?b = "remoteAcknowledgeBitfield s"
  let ?h = "oldPacketHistory s @ evicted 0 ?b ?a @ [?a]"
  have s': "s' = s\<lparr>oldPacketHistory := ?h, remoteAcknowledgeBitfield := 0,
      remoteAcknowledgeId := q, hasUnsentAck := True\<rparr>"
    using q upd by (simp add: update_branches(1)[OF rcv])
  have w: "\<forall>i. bit ?b i \<longrightarrow> i < unat ?a" "distinct (oldPacketHistory s)"
    "\<forall>x \<in> set (oldPacketHistory s). x < ?a \<and> ?a - x > 32"
    using wf rcv by (auto simp: replay_wf_def window_wf_def)
  have ev: "x \<in> set (evicted 0 ?b ?a) \<longleftrightarrow> x \<in> window_ids ?a ?b" for x
    using set_evicted[OF w(1)] by (auto simp: window_ids_nat)
  have d: "unat q - unat ?a > 32"
    using q unat_diff_le[of ?a q] by (simp add: less_imp_le not_le[symmetric])
  have hist: "unat x < unat ?a \<and> unat ?a - unat x > 32" if "x \<in> set (oldPacketHistory s)" for x
    using w(3) that by (simp only: far_behind)
  have far: "x < q \<and> q - x > 32" if "unat x \<le> unat ?a" for x
    using that d by (simp only: far_behind) linarith
  have "distinct ?h"
    using w(2) distinct_evicted[OF w(1), of 0] by (auto simp: ev window_ids_nat dest!: hist)
  moreover have "\<forall>x \<in> set ?h. x < q \<and> q - x > 32"
    using hist by (auto simp: ev window_ids_nat intro!: far[THEN conjunct1] far[THEN conjunct2]
        dest: hist less_imp_le)
  ultimately show "replay_wf s'"
    using rcv by (simp add: s' replay_wf_def window_wf_def)
  show "seen s' = insert q (seen s)"
    using rcv by (auto simp: s' seen_def ev window_ids_nat)
qed

lemma record_slide:
  assumes wf: "replay_wf s" and rcv: "hasReceivedRemotePacket s"
    and q: "remoteAcknowledgeId s < q" "q - remoteAcknowledgeId s \<le> 32"
    and upd: "updateAcknowledgeInfo q s = Inr s'"
  shows "fresh_spec q s s'"
proof (rule fresh_specI)
  let ?a = "remoteAcknowledgeId s" and ?b = "remoteAcknowledgeBitfield s"
  define d where "d = unat (q - ?a)"
  let ?b' = "push_bit d ?b OR push_bit (d - 1) 1"
  let ?h = "oldPacketHistory s @ evicted (32 - d) ?b ?a"
  have d: "unat q = unat ?a + d" "0 < d" "d \<le> 32"
    using q unat_sub_le[of ?a q] unat_diff_le[of ?a q]
    by (simp_all add: d_def unat_less_iff less_imp_le)
  have d32: "d < 32" "q - ?a < 32" "unat (q - ?a - 1) = d - 1"
  proof -
    show "q - ?a < 32"
      using q upd update_branches(2)[OF rcv q(1)] by (cases "q - ?a = 32") auto
    then show "d < 32" by (simp add: d_def unat_less_iff)
    show "unat (q - ?a - 1) = d - 1"
      using d by (subst unat_sub_le) (simp_all add: unat_le_iff d_def)
  qed
  have s': "s' = s\<lparr>oldPacketHistory := ?h, remoteAcknowledgeBitfield := ?b',
      remoteAcknowledgeId := q, hasUnsentAck := True\<rparr>"
    using q upd d32 by (simp add: update_branches(3)[OF rcv] d_def)
  have w: "\<forall>i. bit ?b i \<longrightarrow> i < unat ?a" "distinct (oldPacketHistory s)"
    "\<forall>x \<in> set (oldPacketHistory s). x < ?a \<and> ?a - x > 32"
    using wf rcv by (auto simp: replay_wf_def window_wf_def)
  have hist: "unat x < unat ?a \<and> unat ?a - unat x > 32" if "x \<in> set (oldPacketHistory s)" for x
    using w(3) that by (simp only: far_behind)
  have far: "x < q \<and> q - x > 32" if "unat x < unat q" "unat q - unat x > 32" for x
    using that by (simp only: far_behind simp_thms)
  have ev: "x \<in> set (evicted (32 - d) ?b ?a) \<longleftrightarrow> x \<in> window_ids ?a ?b \<and> unat q - unat x > 32" for x
    using set_evicted[OF w(1)] d by (auto simp: window_ids_nat)
  have "distinct ?h"
    using w(2) distinct_evicted[OF w(1), of "32 - d"] by (auto simp: ev window_ids_nat dest!: hist)
  moreover have "\<forall>x \<in> set ?h. x < q \<and> q - x > 32"
  proof
    fix x assume "x \<in> set ?h"
    then have "unat x < unat q \<and> unat q - unat x > 32"
      using hist d by (auto simp: ev window_ids_nat dest!: hist)
    then show "x < q \<and> q - x > 32" using far by blast
  qed
  moreover have "\<forall>i. bit ?b' i \<longrightarrow> i < unat q"
    using slid_bits_wf[OF w(1) d(1,2)] by blast
  ultimately show "replay_wf s'"
    using rcv by (simp add: s' replay_wf_def window_wf_def)
  show "seen s' = insert q (seen s)"
  proof -
    let ?W = "window_ids ?a ?b"
    have "window_ids q ?b' = insert ?a {x \<in> ?W. unat q - unat x \<le> 32}"
      using window_slide[OF d(1,2) d32(1), of _ ?b] by blast
    moreover have "set (evicted (32 - d) ?b ?a) = {x \<in> ?W. \<not> unat q - unat x \<le> 32}"
      using ev by (auto simp: not_le)
    ultimately have "window_ids q ?b' \<union> set (evicted (32 - d) ?b ?a) = insert ?a ?W"
      by (simp only:) blast
    then show ?thesis
      using rcv by (simp add: s' seen_def Un_ac insert_commute)
  qed
qed


lemma record_old:
  assumes wf: "replay_wf s" and rcv: "hasReceivedRemotePacket s" and fresh: "q \<notin> seen s"
    and q: "q < remoteAcknowledgeId s"
    and upd: "updateAcknowledgeInfo q s = Inr s'"
  shows "fresh_spec q s s'"
proof (cases "remoteAcknowledgeId s - q \<le> 32")
  case True
  let ?a = "remoteAcknowledgeId s" and ?b = "remoteAcknowledgeBitfield s"
  define e where "e = unat ?a - unat q - 1"
  have e: "unat (?a - q - 1) = e" "unat q < unat ?a" "unat ?a - unat q \<le> 32"
  proof -
    show "unat q < unat ?a" using q by (simp add: unat_less_iff)
    then show "unat (?a - q - 1) = e"
      by (simp add: unat_sub_le unat_le_iff e_def less_imp_le)
    show "unat ?a - unat q \<le> 32" using True q unat_diff_le[of q ?a] by simp
  qed
  define b where "b = ?b OR push_bit e 1"
  have s': "s' = s\<lparr>remoteAcknowledgeBitfield := b, hasUnsentAck := True\<rparr>"
    using q True upd by (simp add: update_branches(4)[OF rcv] e b_def)
  have bits: "bit b i \<longleftrightarrow> bit ?b i \<or> i = e" for i
    using e by (auto simp: bit_simps e_def b_def)
  have win: "x \<in> window_ids ?a b \<longleftrightarrow> x = q \<or> x \<in> window_ids ?a ?b" for x
    using e by (auto simp: window_ids_nat bits e_def word_unat_eq_iff)
  have "e < unat ?a" using e by (simp add: e_def)
  then have "replay_wf s'"
    using wf rcv by (auto simp: s' replay_wf_def window_wf_def bits)
  moreover have "seen s' = insert q (seen s)"
    using rcv by (auto simp: s' seen_def win)
  ultimately show ?thesis by (rule fresh_specI)
next
  case False
  let ?h = "oldPacketHistory s @ [q]"
  have s': "s' = s\<lparr>oldPacketHistory :=
      (if length ?h > MAX_PACKET_HISTORY_SIZE then tl ?h else ?h), hasUnsentAck := True\<rparr>"
    using rcv q False upd fresh by (simp add: update_branches(5)[OF rcv] seen_def)
  have tl: "set (tl ?h) \<subseteq> set ?h" "distinct ?h \<Longrightarrow> distinct (tl ?h)"
    by (cases ?h; auto)+
  have "distinct ?h"
    using wf rcv fresh by (auto simp: replay_wf_def window_wf_def seen_def)
  moreover have h: "\<forall>x \<in> set ?h. x < remoteAcknowledgeId s \<and> remoteAcknowledgeId s - x > 32"
    using wf rcv q False by (auto simp: replay_wf_def window_wf_def)
  ultimately have wf': "replay_wf s'"
    using wf rcv tl by (auto simp: s' replay_wf_def window_wf_def)
  have "q \<in> set (tl ?h)" if "length ?h > MAX_PACKET_HISTORY_SIZE"
    using that by (cases "oldPacketHistory s") (auto simp: MAX_PACKET_HISTORY_SIZE_def)
  with wf' rcv tl show ?thesis
    by (auto simp: fresh_spec_def s' seen_def)
qed

lemma record_fresh:
  assumes "replay_wf s" and "q \<notin> seen s" and "updateAcknowledgeInfo q s = Inr s'"
  shows "fresh_spec q s s'"
proof (cases "hasReceivedRemotePacket s")
  case True
  with assms(2) have "q \<noteq> remoteAcknowledgeId s" by (auto simp: seen_def)
  then consider "q < remoteAcknowledgeId s"
    | "remoteAcknowledgeId s < q" "q - remoteAcknowledgeId s > 32"
    | "remoteAcknowledgeId s < q" "q - remoteAcknowledgeId s \<le> 32"
    by (meson linorder_neqE not_less)
  then show ?thesis
    using assms True by cases (blast intro: record_old record_jump record_slide)+
next
  case False
  with assms show ?thesis by (blast intro: record_first)
qed

text \<open>The only input that runs into undefined behaviour.\<close>

lemma record_fault:
  "updateAcknowledgeInfo q s = Inl e \<longleftrightarrow>
     hasReceivedRemotePacket s \<and> remoteAcknowledgeId s < q \<and> q - remoteAcknowledgeId s = 32 \<and>
     e = UndefinedShift"
  by (auto simp: updateAcknowledgeInfo_def shift_left_def Let_def try_bind_Inl_iff not_less
      split: if_splits)


section \<open>Inputs that pass at most once\<close>

text \<open>
  The contract of a filtered input: \<open>key\<close> is the number an input carries (none, when the input
  is malformed), \<open>dup\<close> the test the code makes, \<open>step\<close> the processing of the input, and \<open>seen\<close>
  the set of numbers the state stands for, of which it can hold \<open>cap\<close>.
\<close>

primrec passed :: "('d \<Rightarrow> 'k option) \<Rightarrow> ('k \<Rightarrow> 's \<Rightarrow> bool) \<Rightarrow> ('d \<Rightarrow> 's \<Rightarrow> 'e + 's) \<Rightarrow>
    'd list \<Rightarrow> 's \<Rightarrow> 'e + 'k list \<times> 's" where
  "passed key dup step [] s = Inr ([], s)"
| "passed key dup step (d # ds) s =
     try_bind (step d s) (\<lambda>s'.
     try_bind (passed key dup step ds s') (\<lambda>r.
       Inr ((case key d of None \<Rightarrow> [] | Some q \<Rightarrow> if dup q s then [] else [q]) @ fst r, snd r)))"

locale replay_protected =
  fixes key :: "'d \<Rightarrow> 'k option"
    and dup :: "'k \<Rightarrow> 's \<Rightarrow> bool"
    and step :: "'d \<Rightarrow> 's \<Rightarrow> 'e + 's"
    and inv :: "'s \<Rightarrow> bool"
    and seen :: "'s \<Rightarrow> 'k set"
    and cap :: nat
  assumes dup_iff: "inv s \<Longrightarrow> dup q s \<longleftrightarrow> q \<in> seen s"
    and finite_seen: "finite (seen s)"
    and step_malformed:
      "inv s \<Longrightarrow> key d = None \<Longrightarrow> step d s = Inr s' \<Longrightarrow> inv s' \<and> seen s' = seen s"
    and step_duplicate:
      "inv s \<Longrightarrow> key d = Some q \<Longrightarrow> dup q s \<Longrightarrow> step d s = Inr s' \<Longrightarrow> inv s' \<and> seen s' = seen s"
    and step_fresh:
      "inv s \<Longrightarrow> key d = Some q \<Longrightarrow> \<not> dup q s \<Longrightarrow> step d s = Inr s' \<Longrightarrow> card (seen s) < cap \<Longrightarrow>
       inv s' \<and> seen s' = insert q (seen s)"
begin

lemma passed_once:
  assumes "inv s" and "passed key dup step ds s = Inr (qs, s')"
    and "card (seen s) + length ds \<le> cap"
  shows "inv s' \<and> distinct qs \<and> set qs \<inter> seen s = {} \<and>
         seen s \<union> set qs = seen s \<union> {q. \<exists>d \<in> set ds. key d = Some q} \<and>
         seen s' = seen s \<union> set qs"
  using assms
proof (induction ds arbitrary: s qs)
  case (Cons d ds)
  from Cons.prems(2) obtain s1 rs where
    s1: "step d s = Inr s1" and rest: "passed key dup step ds s1 = Inr (rs, s')"
    and qs: "qs = (case key d of None \<Rightarrow> [] | Some q \<Rightarrow> if dup q s then [] else [q]) @ rs"
    by (auto simp: try_bind_Inr_iff)
  consider "key d = None" | q where "key d = Some q" "dup q s" | q where "key d = Some q" "\<not> dup q s"
    by blast
  then show ?case
  proof cases
    case 1
    with step_malformed[OF Cons.prems(1) _ s1] Cons.IH[OF _ rest] Cons.prems(3) qs
    show ?thesis by auto
  next
    case 2
    with step_duplicate[OF Cons.prems(1) _ _ s1] Cons.IH[OF _ rest] Cons.prems qs
    show ?thesis by (auto simp: dup_iff)
  next
    case 3
    then have new: "inv s1" "seen s1 = insert q (seen s)"
      using step_fresh[OF Cons.prems(1) _ _ s1] Cons.prems(3) by auto
    moreover have "card (seen s1) + length ds \<le> cap"
      using Cons.prems(3) new(2) card_insert_le_m1[of "Suc (card (seen s))" "seen s" q] by simp
    moreover have "q \<notin> seen s" using 3 Cons.prems(1) by (simp add: dup_iff)
    ultimately show ?thesis
      using Cons.IH[OF _ rest] 3 qs by auto
  qed
qed auto

end


section \<open>The session is replay protected\<close>

definition filter_state :: "'ep session \<Rightarrow> bool \<times> u32 \<times> u32 \<times> u32 list" where
  "filter_state s =
     (hasReceivedRemotePacket s, remoteAcknowledgeId s, remoteAcknowledgeBitfield s,
      oldPacketHistory s)"

lemma filter_state_cong:
  assumes "filter_state s' = filter_state s"
  shows "seen s' = seen s" and "replay_wf s' = replay_wf s" and "isDuplicate q s' = isDuplicate q s"
    and "hasReceivedRemotePacket s' = hasReceivedRemotePacket s"
    and "remoteAcknowledgeId s' = remoteAcknowledgeId s"
  using assms
  by (simp_all add: filter_state_def seen_def replay_wf_def isDuplicate_def)

lemma filter_state_update [simp]:
  "filter_state (s\<lparr>sentPackets := x\<rparr>) = filter_state s"
  "filter_state (s\<lparr>sessionMetrics := m\<rparr>) = filter_state s"
  "filter_state (s\<lparr>packetsSinceLastAck := n\<rparr>) = filter_state s"
  "filter_state (s\<lparr>lastSeen := t\<rparr>) = filter_state s"
  "filter_state (s\<lparr>hasUnsentAck := b\<rparr>) = filter_state s"
  "filter_state (s\<lparr>pendingRichAcks := l\<rparr>) = filter_state s"
  "filter_state (s\<lparr>s_shouldClose := b\<rparr>) = filter_state s"
  "filter_state (s\<lparr>nextExpectedOrderIds := n'\<rparr>) = filter_state s"
  "filter_state (s\<lparr>reorderBuffers := r\<rparr>) = filter_state s"
  by (simp_all add: filter_state_def)

lemma filter_state_send [simp]:
  "filter_state (send now p s) = filter_state s"
  "filter_state (retransmit now k info s) = filter_state s"
  "filter_state (internal_disconnect s) = filter_state s"
  by (simp_all add: filter_state_def internal_disconnect_def)

lemma filter_state_resend_loop:
  "resend_loop now es s = (lost, s') \<Longrightarrow> filter_state s' = filter_state s"
  by (induction es arbitrary: s) (auto split: if_splits)

lemma filter_state_sendAck:
  "internal_sendAck now s = Inr s' \<Longrightarrow> filter_state s' = filter_state s"
  by (simp add: filter_state_def sendAck_simps)

lemma filter_state_session_update:
  assumes "update now s = Inr s'"
  shows "filter_state s' = filter_state s"
proof -
  obtain lost s1 where r: "resend_loop now (sentPackets s) s = (lost, s1)" by fastforce
  with assms show ?thesis
    using filter_state_resend_loop[OF r] filter_state_sendAck[of now s1 s']
    by (auto simp: update_def split: if_splits)
qed

lemma filter_state_process_acks [simp]: "filter_state (process_acks now hdr s) = filter_state s"
  by (simp add: process_acks_def Let_def split: option.split)

lemma filter_state_note_arrival [simp]: "filter_state (note_arrival now hdr n s) = filter_state s"
  by (simp add: note_arrival_def)

lemma filter_state_queue_duplicate [simp]: "filter_state (queue_duplicate q s) = filter_state s"
  by (simp add: queue_duplicate_def)

lemma filter_state_count_and_ack:
  "count_and_ack now s = Inr s' \<Longrightarrow> filter_state s' = filter_state s"
  by (auto simp: count_and_ack_def Let_def dest: filter_state_sendAck split: if_splits)

lemma filter_state_deliver_ordered [simp]:
  "filter_state (snd (deliver_ordered ch oid p s)) = filter_state s"
  by (simp add: deliver_ordered_def Let_def split: prod.split)

lemma filter_state_hand_over [simp]: "filter_state (snd (hand_over rawData hdr s)) = filter_state s"
  by (simp add: hand_over_def checkForOldPackets_def Let_def split: sum.split)

text \<open>The number a datagram carries, and the effect of a datagram on the state.\<close>

definition datagram_key :: "time \<times> bytes \<Rightarrow> u32 option" where
  "datagram_key d = map_option sequenceId (res_header (parse_header (snd d)))"

definition incoming_step :: "time \<times> bytes \<Rightarrow> 'ep session \<Rightarrow> fault + 'ep session" where
  "incoming_step d s = map_sum id snd (handleIncoming (fst d) (snd d) s)"

lemma incoming_step_malformed:
  "datagram_key d = None \<Longrightarrow> incoming_step d s = Inr s"
  by (cases d) (simp add: datagram_key_def incoming_step_def handleIncoming_def)

lemma arrival_filter_state:
  "filter_state (process_acks now hdr (note_arrival now hdr n s)) = filter_state s"
  by simp

lemma incoming_step_duplicate:
  assumes "datagram_key d = Some q" and "isDuplicate q s"
  shows "\<exists>s'. incoming_step d s = Inr s' \<and> filter_state s' = filter_state s"
  using assms
  by (auto simp: datagram_key_def incoming_step_def handleIncoming_def Let_def
      filter_state_cong(3)[OF arrival_filter_state])

lemma count_and_ack_total: "\<exists>s'. count_and_ack now s = Inr s'"
  using sendAck_total by (auto simp: count_and_ack_def Let_def)

lemma incoming_step_fresh:
  fixes s :: "'ep session"
  assumes "datagram_key d = Some q" and "\<not> isDuplicate q s" and "incoming_step d s = Inr s'"
  obtains s1 s2 :: "'ep session" where "filter_state s1 = filter_state s"
    and "updateAcknowledgeInfo q s1 = Inr s2" and "filter_state s' = filter_state s2"
proof -
  obtain now data where d: "d = (now, data)" by fastforce
  obtain hdr where hdr: "res_header (parse_header data) = Some hdr" "sequenceId hdr = q"
    using assms(1) by (auto simp: datagram_key_def d)
  define s1 where "s1 = process_acks now hdr (note_arrival now hdr (length data) s)"
  have fs: "filter_state s1 = filter_state s" by (simp add: s1_def)
  with assms(2,3) hdr obtain s2 s3 where
    u: "updateAcknowledgeInfo q s1 = Inr s2" and c: "count_and_ack now s2 = Inr s3"
    and s': "s' = snd (hand_over data hdr s3)"
    by (cases "updateAcknowledgeInfo q s1"; cases "count_and_ack now (projr (updateAcknowledgeInfo q s1))")
      (auto simp: d incoming_step_def handleIncoming_def s1_def[symmetric] filter_state_cong(3)[OF fs])
  with fs show thesis
    using filter_state_count_and_ack[OF c] by (intro that[of s1 s2]) simp_all
qed

lemma count_and_ack_ok [simp]: "count_and_ack now s \<noteq> Inl e"
  using count_and_ack_total[of now s] by auto

lemma finite_seen: "finite (seen s)"
  by (rule finite)

lemma history_fits:
  assumes "replay_wf s" and "card (seen s) < Suc MAX_PACKET_HISTORY_SIZE"
  shows "length (oldPacketHistory s) < MAX_PACKET_HISTORY_SIZE"
proof (cases "hasReceivedRemotePacket s")
  case True
  with assms(1) have "distinct (remoteAcknowledgeId s # oldPacketHistory s)"
    by (auto simp: replay_wf_def window_wf_def)
  then have "length (remoteAcknowledgeId s # oldPacketHistory s) =
      card (set (remoteAcknowledgeId s # oldPacketHistory s))"
    by (rule distinct_card[symmetric])
  also have "\<dots> \<le> card (seen s)"
    using True by (intro card_mono finite_seen) (auto simp: seen_def)
  finally show ?thesis using assms(2) by simp
next
  case False
  with assms(1) show ?thesis by (simp add: replay_wf_def MAX_PACKET_HISTORY_SIZE_def)
qed

interpretation session: replay_protected datagram_key isDuplicate incoming_step replay_wf seen
    "Suc MAX_PACKET_HISTORY_SIZE"
proof
  fix s s' :: "'ep session" and d q
  show "replay_wf s \<Longrightarrow> isDuplicate q s \<longleftrightarrow> q \<in> seen s" by (rule isDuplicate_seen)
  show "finite (seen s)" by (rule finite_seen)
  show "replay_wf s \<Longrightarrow> datagram_key d = None \<Longrightarrow> incoming_step d s = Inr s' \<Longrightarrow>
      replay_wf s' \<and> seen s' = seen s"
    by (simp add: incoming_step_malformed)
  show "replay_wf s' \<and> seen s' = seen s"
    if "replay_wf s" "datagram_key d = Some q" "isDuplicate q s" "incoming_step d s = Inr s'"
  proof -
    from that have "filter_state s' = filter_state s"
      using incoming_step_duplicate[of d q s] by auto
    with that(1) show ?thesis
      using filter_state_cong(1,2)[of s' s] by simp
  qed
  assume wf: "replay_wf s" and key: "datagram_key d = Some q" and fresh: "\<not> isDuplicate q s"
    and step: "incoming_step d s = Inr s'" and room: "card (seen s) < Suc MAX_PACKET_HISTORY_SIZE"
  obtain s1 s2 :: "'ep session" where s1: "filter_state s1 = filter_state s"
    and s2: "updateAcknowledgeInfo q s1 = Inr s2" and s': "filter_state s' = filter_state s2"
    using key fresh step by (rule incoming_step_fresh)
  note [simp] = filter_state_cong[OF s1] filter_state_cong[OF s']
  have "fresh_spec q s1 s2"
    using wf fresh s2 by (intro record_fresh) (simp_all add: isDuplicate_seen)
  moreover have "length (oldPacketHistory s1) < MAX_PACKET_HISTORY_SIZE"
    using wf room by (intro history_fits) simp_all
  ultimately show "replay_wf s' \<and> seen s' = insert q (seen s)"
    by (simp add: fresh_spec_def)
qed


lemma replay_wf_new [simp]: "replay_wf (new_session sid ep hasSend now)"
  by (simp add: replay_wf_def new_session_def)

lemma seen_new [simp]: "seen (new_session sid ep hasSend now) = {}"
  by (simp add: seen_def new_session_def)

lemma handleIncoming_fault:
  assumes "res_header (parse_header data) = Some hdr"
  shows "handleIncoming now data s = Inl e \<longleftrightarrow>
    \<not> isDuplicate (sequenceId hdr) s \<and>
    updateAcknowledgeInfo (sequenceId hdr)
      (process_acks now hdr (note_arrival now hdr (length data) s)) = Inl e"
  using assms
  by (auto simp: handleIncoming_def Let_def try_bind_Inl_iff
      filter_state_cong(3)[OF arrival_filter_state])

section \<open>Properties\<close>

text \<open>C6: a fresh session that takes in up to 32769 datagrams lets each sequence number through
  the duplicate filter at most once, and lets every number of a well-formed datagram through; at
  the end the filter holds exactly these numbers.\<close>

theorem accepted_at_most_once:
  assumes "passed datagram_key isDuplicate incoming_step ds (new_session sid ep hasSend now) =
      Inr (qs, s')"
    and "length ds \<le> 32769"
  shows "distinct qs \<and> set qs = {q. \<exists>d \<in> set ds. datagram_key d = Some q} \<and>
         (\<forall>q. isDuplicate q s' \<longleftrightarrow> q \<in> set qs)"
proof -
  have "replay_wf s' \<and> distinct qs \<and> set qs \<inter> {} = {} \<and>
      {} \<union> set qs = {} \<union> {q. \<exists>d \<in> set ds. datagram_key d = Some q} \<and> seen s' = {} \<union> set qs"
    using session.passed_once[OF replay_wf_new assms(1)] assms(2)
    by (simp add: MAX_PACKET_HISTORY_SIZE_def)
  then show ?thesis
    by (simp add: isDuplicate_seen)
qed

text \<open>A well-formed datagram whose number is among those received delivers nothing, is counted
  as a duplicate, has its number queued for a \<open>RICH_ACK\<close>, and leaves the filter as it was.\<close>

theorem duplicate_delivers_nothing:
  assumes "replay_wf s" and "parse_header data = parse_success hdr" and "sequenceId hdr \<in> seen s"
  shows "\<exists>s'. handleIncoming now data s = Inr ([], s') \<and>
     pendingRichAcks s' = pendingRichAcks s @ [sequenceId hdr] \<and> hasUnsentAck s' \<and>
     duplicateCount (sessionMetrics s') = duplicateCount (sessionMetrics s) + 1 \<and>
     seen s' = seen s \<and> lastSeen s' = now"
proof -
  let ?s1 = "process_acks now hdr (note_arrival now hdr (length data) s)"
  have "isDuplicate (sequenceId hdr) ?s1"
    using assms(1,3) by (simp add: filter_state_cong(3)[OF arrival_filter_state] isDuplicate_seen)
  then have "handleIncoming now data s = Inr ([], queue_duplicate (sequenceId hdr) ?s1)"
    by (simp add: handleIncoming_def assms(2) parse_success_def)
  moreover have "pendingRichAcks ?s1 = pendingRichAcks s" "lastSeen ?s1 = now"
    "duplicateCount (sessionMetrics ?s1) = duplicateCount (sessionMetrics s)"
    by (simp_all add: process_acks_def note_arrival_def note_received_def updateRtt_def Let_def
        split: option.split)
  moreover have "seen (queue_duplicate (sequenceId hdr) ?s1) = seen s"
    by (rule filter_state_cong(1)) simp
  ultimately show ?thesis
    by (simp add: queue_duplicate_def)
qed

text \<open>C20: receiving a datagram runs into undefined behaviour (a 32-bit word shifted by 32) exactly
  when a packet has been received before and the datagram is well formed and 32 ahead of the
  newest number; there is no other failure.\<close>

theorem receive_undefined_iff:
  "handleIncoming now data s = Inl e \<longleftrightarrow>
     e = UndefinedShift \<and> hasReceivedRemotePacket s \<and>
     (\<exists>hdr. parse_header data = parse_success hdr \<and>
        unat (sequenceId hdr) = unat (remoteAcknowledgeId s) + 32)"
proof (cases "res_header (parse_header data)")
  case None
  then have "parse_header data \<noteq> parse_success hdr" for hdr
    by (auto simp: parse_success_def)
  with None show ?thesis by (simp add: handleIncoming_def)
next
  case (Some hdr)
  let ?s1 = "process_acks now hdr (note_arrival now hdr (length data) s)" and ?q = "sequenceId hdr"
  have parse: "parse_header data = parse_success h \<longleftrightarrow> h = hdr" for h
    using Some by (auto simp: parse_header_alt parse_success_def parse_failure_def Let_def
        split: if_splits)
  note [simp] = filter_state_cong[OF arrival_filter_state]
  have far: "remoteAcknowledgeId s < ?q \<and> ?q - remoteAcknowledgeId s = 32 \<longleftrightarrow>
      unat ?q = unat (remoteAcknowledgeId s) + 32"
  proof (cases "remoteAcknowledgeId s < ?q")
    case True
    then have "unat (?q - remoteAcknowledgeId s) = unat ?q - unat (remoteAcknowledgeId s)"
      by (simp add: unat_sub_le)
    with True show ?thesis by (auto simp: word_unat_eq_iff unat_less_iff)
  qed (simp add: unat_less_iff)
  have "handleIncoming now data s = Inl e \<longleftrightarrow>
      \<not> isDuplicate ?q s \<and> updateAcknowledgeInfo ?q ?s1 = Inl e"
    using Some by (rule handleIncoming_fault)
  moreover have "\<not> isDuplicate ?q s" if "remoteAcknowledgeId s < ?q"
    using that by (auto simp: isDuplicate_def)
  ultimately show ?thesis
    using far by (auto simp: record_fault parse)
qed


text \<open>A datagram with one byte of payload.\<close>

definition sample_datagram :: "u32 \<Rightarrow> bytes" where
  "sample_datagram q =
     header_wire (default_header\<lparr>sequenceId := q, messageId := 300, packetSize := 1\<rparr>) @ [42]"

lemma parse_sample [simp]:
  "parse_header (sample_datagram q) =
     parse_success (default_header\<lparr>sequenceId := q, messageId := 300, packetSize := 1\<rparr>)"
  by (simp add: sample_datagram_def parse_header_wire default_header_def)

theorem accepted_at_most_once_witness:
  "\<exists>qs s'. passed datagram_key isDuplicate incoming_step
       [(1, sample_datagram 5), (2, sample_datagram 5)]
       (new_session 0 () True 0) = Inr (qs, s') \<and>
     distinct qs \<and>
     set qs = {q. \<exists>d \<in> set [(1, sample_datagram 5), (2, sample_datagram 5)].
                   datagram_key d = Some q} \<and>
     (\<forall>q. isDuplicate q s' \<longleftrightarrow> q \<in> set qs)"
proof -
  let ?s = "new_session 0 () True 0"
  have key: "datagram_key (t, sample_datagram 5) = Some 5" for t
    by (simp add: datagram_key_def parse_success_def default_header_def)
  have fresh: "\<not> isDuplicate 5 ?s" by (simp add: isDuplicate_seen)
  have "handleIncoming 1 (sample_datagram 5) ?s \<noteq> Inl e" for e
    by (simp add: handleIncoming_fault parse_success_def record_fault
        filter_state_cong(4)[OF arrival_filter_state] new_session_def[of 0 "()" True 0])
  then obtain s1 where s1: "incoming_step (1, sample_datagram 5) ?s = Inr s1"
    by (cases "handleIncoming 1 (sample_datagram 5) ?s") (auto simp: incoming_step_def)
  then have "isDuplicate 5 s1"
    using session.step_fresh[OF replay_wf_new key fresh s1] by (simp add: isDuplicate_seen)
  then obtain s2 where "incoming_step (2, sample_datagram 5) s1 = Inr s2"
    using incoming_step_duplicate[OF key] by blast
  with s1 obtain qs s' where
    "passed datagram_key isDuplicate incoming_step
       [(1, sample_datagram 5), (2, sample_datagram 5)] ?s = Inr (qs, s')"
    by auto
  from accepted_at_most_once[OF this] this show ?thesis by simp
qed

theorem duplicate_delivers_nothing_witness:
  "\<exists>s'. handleIncoming 4 (sample_datagram 5)
       (new_session 0 () True 0\<lparr>hasReceivedRemotePacket := True, remoteAcknowledgeId := 5\<rparr>) =
         Inr ([], s') \<and> pendingRichAcks s' = [] @ [5]"
  using duplicate_delivers_nothing[of
      "new_session 0 () True 0\<lparr>hasReceivedRemotePacket := True, remoteAcknowledgeId := 5\<rparr>",
      OF _ parse_sample, of 5 4]
  by (auto simp: replay_wf_def window_wf_def seen_def new_session_def default_header_def)

end
