(* ===== verification/SessionReceive.thy ===== *)
theory SessionReceive
  imports ReplayFilter
begin

text \<open>
  The receiving half of a session: in-order delivery per channel through the reorder buffers,
  the processing of acknowledgements, and what holds of a session in every state it can reach.
\<close>

section \<open>Ordered delivery\<close>

text \<open>
  The packets of one channel, numbered by the sender: \<open>f k\<close> is the packet with order number \<open>k\<close>.
  \<open>A\<close> is the set of numbers that have arrived.  The reorder buffer holds the arrived packets
  that are not due yet.
\<close>

definition buffered_above :: "(u32 \<Rightarrow> packet) \<Rightarrow> u32 set \<Rightarrow> (u32 \<Rightarrow> bool) \<Rightarrow> (u32, packet) omap \<Rightarrow> bool" where
  "buffered_above f A late buf \<longleftrightarrow> (\<forall>k. map_of buf k = (if k \<in> A \<and> late k then Some (f k) else None))"

definition stream_inv :: "(u32 \<Rightarrow> packet) \<Rightarrow> u32 set \<Rightarrow> u32 \<Rightarrow> (u32, packet) omap \<Rightarrow> bool" where
  "stream_inv f A n buf \<longleftrightarrow> (\<forall>k < n. k \<in> A) \<and> n \<notin> A \<and> buffered_above f A (\<lambda>k. n < k) buf"

definition numbered :: "(u32 \<Rightarrow> packet) \<Rightarrow> nat \<Rightarrow> nat \<Rightarrow> packet list" where
  "numbered f i j = map (\<lambda>k. f (word_of_nat k)) [i..<j]"

lemma numbered_Cons: "i < j \<Longrightarrow> numbered f i j = f (word_of_nat i) # numbered f (Suc i) j"
  by (simp add: numbered_def upt_conv_Cons)

lemma numbered_append: "i \<le> j \<Longrightarrow> j \<le> k \<Longrightarrow> numbered f i j @ numbered f j k = numbered f i k"
  using upt_add_eq_append[of i j "k - j"] by (simp add: numbered_def flip: map_append)

lemma numbered_same [simp]: "numbered f i i = []"
  by (simp add: numbered_def)

lemma unat_Suc_word: "k \<noteq> (- 1 :: u32) \<Longrightarrow> unat (k + 1) = Suc (unat k)"
  by (subst add.commute, rule unatSuc) (simp add: add_eq_0_iff)

lemma less_Suc_word: "n \<noteq> (- 1 :: u32) \<Longrightarrow> k < n + 1 \<longleftrightarrow> k < n \<or> k = n"
  by (auto simp: unat_less_iff unat_Suc_word word_unat_eq_iff)

lemma drain_stream:
  assumes "\<forall>k < n. k \<in> A" and "buffered_above f A (\<lambda>k. n \<le> k) buf" and "- 1 \<notin> A"
    and "drain n buf = (ps, n', buf')"
  shows "stream_inv f A n' buf' \<and> n \<le> n' \<and> ps = numbered f (unat n) (unat n')"
  using assms
proof (induction n buf arbitrary: ps rule: drain.induct)
  case (1 n buf)
  show ?case
  proof (cases "map_of buf n")
    case None
    with "1.prems" have "n \<notin> A" "ps = []" "n' = n" "buf' = buf"
      by (auto simp: drain.simps[of n] buffered_above_def split: if_splits)
    with "1.prems" show ?thesis
      by (auto simp: stream_inv_def buffered_above_def order_le_less)
  next
    case (Some p)
    with "1.prems" have p: "n \<in> A" "p = f n" "n \<noteq> - 1"
      by (auto simp: buffered_above_def split: if_splits)
    obtain qs where r: "drain (n + 1) (om_del n buf) = (qs, n', buf')" and ps: "ps = p # qs"
      using "1.prems"(4) Some by (auto simp: drain.simps[of n] split: prod.splits)
    have "\<forall>k < n + 1. k \<in> A"
      using p "1.prems"(1) by (auto simp: less_Suc_word)
    moreover have "buffered_above f A (\<lambda>k. n + 1 \<le> k) (om_del n buf)"
      using p "1.prems"(2) by (auto simp: buffered_above_def not_less[symmetric] less_Suc_word)
    ultimately have "stream_inv f A n' buf' \<and> n + 1 \<le> n' \<and> qs = numbered f (unat (n + 1)) (unat n')"
      using "1.IH"[OF Some _ _ "1.prems"(3) r] by blast
    then show ?thesis
      using p ps by (auto simp: unat_Suc_word unat_le_iff numbered_Cons)
  qed
qed

lemma stream_step:
  assumes inv: "stream_inv f A n buf" and "- 1 \<notin> A" and "oid \<noteq> - 1"
    and nxt: "om_get 0 (nextExpectedOrderIds s) ch = n" and buf: "om_get [] (reorderBuffers s) ch = buf"
    and r: "deliver_ordered ch oid (f oid) s = (ps, s')"
  shows "\<exists>n' buf'. om_get 0 (nextExpectedOrderIds s') ch = n' \<and> om_get [] (reorderBuffers s') ch = buf' \<and>
           stream_inv f (insert oid A) n' buf' \<and> n \<le> n' \<and> ps = numbered f (unat n) (unat n')"
proof -
  consider "oid = n" | "n < oid" | "oid < n" by fastforce
  then show ?thesis
  proof cases
    case 1
    obtain qs n' buf' where d: "drain (n + 1) buf = (qs, n', buf')" by (metis prod_cases3)
    have "\<forall>k < n + 1. k \<in> insert oid A"
      using inv 1 assms(3) by (auto simp: stream_inv_def less_Suc_word)
    moreover have "buffered_above f (insert oid A) (\<lambda>k. n + 1 \<le> k) buf"
      using inv 1 assms(3) by (auto simp: stream_inv_def buffered_above_def not_less[symmetric] less_Suc_word)
    ultimately have "stream_inv f (insert oid A) n' buf' \<and> n + 1 \<le> n' \<and> qs = numbered f (unat (n + 1)) (unat n')"
      using assms(2,3) d by (intro drain_stream) auto
    with 1 d nxt buf r assms(3) show ?thesis
      by (auto simp: deliver_ordered_def Let_def unat_Suc_word unat_le_iff numbered_Cons)
  next
    case 2
    with inv have "stream_inv f (insert oid A) n (om_put oid (f oid) buf)"
      by (auto simp: stream_inv_def buffered_above_def)
    with 2 nxt buf r show ?thesis
      by (auto simp: deliver_ordered_def Let_def split: if_splits)
  next
    case 3
    with inv have "stream_inv f (insert oid A) n buf" "oid \<in> A"
      by (auto simp: stream_inv_def buffered_above_def)
    with 3 nxt buf r show ?thesis
      by (auto simp: deliver_ordered_def Let_def split: if_splits)
  qed
qed

lemma deliver_other_channel:
  assumes "deliver_ordered c oid p s = (ps, s')" and "c \<noteq> ch"
  shows "om_get 0 (nextExpectedOrderIds s') ch = om_get 0 (nextExpectedOrderIds s) ch"
    and "om_get [] (reorderBuffers s') ch = om_get [] (reorderBuffers s) ch"
  using assms by (auto simp: deliver_ordered_def Let_def split: if_splits prod.splits)

text \<open>A sequence of ordered packets arriving on several channels, and what is handed over, each
  packet with its channel.\<close>

primrec arrive_all ::
    "(u8 \<times> u32 \<times> packet) list \<Rightarrow> 'ep session \<Rightarrow> (u8 \<times> packet) list \<times> 'ep session" where
  "arrive_all [] s = ([], s)"
| "arrive_all (a # as) s =
     (case deliver_ordered (fst a) (fst (snd a)) (snd (snd a)) s of
        (ps, s1) \<Rightarrow> (case arrive_all as s1 of (out, s2) \<Rightarrow> (map (Pair (fst a)) ps @ out, s2)))"

definition on_channel :: "u8 \<Rightarrow> (u8 \<times> 'a) list \<Rightarrow> 'a list" where
  "on_channel ch xs = map snd (filter (\<lambda>x. fst x = ch) xs)"

lemma on_channel_simps [simp]:
  "on_channel ch [] = []"
  "on_channel ch (xs @ ys) = on_channel ch xs @ on_channel ch ys"
  "on_channel ch (map (Pair c) ps) = (if c = ch then ps else [])"
  by (simp_all add: on_channel_def filter_map o_def)

definition arrived :: "u8 \<Rightarrow> (u8 \<times> u32 \<times> packet) list \<Rightarrow> u32 set" where
  "arrived ch as = fst ` set (on_channel ch as)"

lemma arrive_all_stream:
  assumes "arrive_all as s = (out, s')"
    and "stream_inv f A (om_get 0 (nextExpectedOrderIds s) ch) (om_get [] (reorderBuffers s) ch)"
    and "- 1 \<notin> A" and "\<forall>(k, p) \<in> set (on_channel ch as). p = f k \<and> k \<noteq> - 1"
  shows "\<exists>n buf. stream_inv f (A \<union> arrived ch as) n buf \<and> om_get 0 (nextExpectedOrderIds s) ch \<le> n \<and>
     on_channel ch out = numbered f (unat (om_get 0 (nextExpectedOrderIds s) ch)) (unat n)"
  using assms
proof (induction as arbitrary: s out A)
  case Nil
  then show ?case by (auto simp: arrived_def)
next
  case (Cons a as)
  obtain c oid p where a: "a = (c, oid, p)" by (metis prod_cases3)
  obtain ps s1 out1 where d: "deliver_ordered c oid p s = (ps, s1)" and rest: "arrive_all as s1 = (out1, s')"
    and out: "out = map (Pair c) ps @ out1"
    using Cons.prems(1) a by (auto split: prod.splits)
  show ?case
  proof (cases "c = ch")
    case True
    then have p: "p = f oid" "oid \<noteq> - 1"
      using Cons.prems(4) by (auto simp: a on_channel_def)
    let ?n = "om_get 0 (nextExpectedOrderIds s) ch" and ?n1 = "om_get 0 (nextExpectedOrderIds s1) ch"
    have one: "stream_inv f (insert oid A) ?n1 (om_get [] (reorderBuffers s1) ch)" "?n \<le> ?n1"
      "ps = numbered f (unat ?n) (unat ?n1)"
      using stream_step[OF Cons.prems(2,3) p(2) refl refl] d True p(1) by auto
    have "- 1 \<notin> insert oid A" "\<forall>(k, p) \<in> set (on_channel ch as). p = f k \<and> k \<noteq> - 1"
      using Cons.prems(3,4) p(2) by (auto simp: a on_channel_def)
    from Cons.IH[OF rest one(1) this] obtain n buf where
      two: "stream_inv f (insert oid A \<union> arrived ch as) n buf" "?n1 \<le> n"
        "on_channel ch out1 = numbered f (unat ?n1) (unat n)"
      by blast
    have "insert oid A \<union> arrived ch as = A \<union> arrived ch (a # as)"
      using True by (auto simp: a arrived_def on_channel_def)
    with one two out True show ?thesis
      by (auto simp: unat_le_iff numbered_append intro!: exI[of _ n] exI[of _ buf])
  next
    case False
    note same = deliver_other_channel[OF d False]
    have "arrived ch (a # as) = arrived ch as" "on_channel ch (a # as) = on_channel ch as"
      using False by (simp_all add: a arrived_def on_channel_def)
    with Cons.IH[OF rest, of A] Cons.prems same out False show ?thesis
      by simp
  qed
qed

text \<open>C5: whatever the order, the repetitions and the interleaving with other channels in which the
  ordered packets of a channel arrive at a fresh session, the channel hands over a prefix of the
  sender's numbering, each packet once and in order, and that prefix ends only at the first
  number that has not arrived.\<close>

theorem ordered_exactly_once:
  assumes "arrive_all as (new_session sid ep hasSend now) = (out, s')"
    and "\<forall>(k, p) \<in> set (on_channel ch as). p = f k \<and> k \<noteq> - 1"
  shows "\<exists>n. on_channel ch out = map (\<lambda>k. f (word_of_nat k)) [0..<unat n] \<and>
             n \<notin> arrived ch as \<and> (\<forall>k < n. k \<in> arrived ch as)"
proof -
  have "stream_inv f {} 0 []"
    by (simp add: stream_inv_def buffered_above_def)
  then show ?thesis
    using arrive_all_stream[OF assms(1), of f "{}" ch] assms(2)
    by (auto simp: new_session_def stream_inv_def numbered_def)
qed

theorem ordered_exactly_once_witness:
  "let p = (\<lambda>k :: u32. new_packet (ucast k) kOrdered 1) in
   \<exists>n. on_channel 1 (fst (arrive_all [(1, 2, p 2), (1, 0, p 0), (2, 5, p 9), (1, 0, p 0), (1, 1, p 1)]
         (new_session 0 () True 0))) = map (\<lambda>k. p (word_of_nat k)) [0..<unat n] \<and>
       n \<notin> arrived 1 [(1, 2, p 2), (1, 0, p 0), (2, 5, p 9), (1, 0, p 0), (1, 1, p 1)] \<and>
       (\<forall>k < n. k \<in> arrived 1 [(1, 2, p 2), (1, 0, p 0), (2, 5, p 9), (1, 0, p 0), (1, 1, p 1)])"
  unfolding Let_def
  by (rule ordered_exactly_once[OF prod.collapse[symmetric]]) (simp add: on_channel_def)

section \<open>Acknowledgements received\<close>

definition header_acks :: "header \<Rightarrow> u32 set" where
  "header_acks hdr =
     (if flags hdr AND kHasAck \<noteq> 0
      then insert (acknowledgeId hdr) (set (acked_by_bitfield hdr)) else {})"

definition rich_acks :: "bytes \<Rightarrow> u32 set" where
  "rich_acks d = (case rich_ack_of d of Some l \<Rightarrow> set l | None \<Rightarrow> {})"

definition acked_ids :: "bytes \<Rightarrow> u32 set" where
  "acked_ids d = header_acks (received_header d) \<union> rich_acks d"

definition without :: "'k set \<Rightarrow> ('k, 'v) omap \<Rightarrow> ('k, 'v) omap" where
  "without K m = filter (\<lambda>e. fst e \<notin> K) m"

lemma fold_om_del: "fold om_del ks m = without (set ks) m"
  by (induction ks arbitrary: m) (auto simp: without_def om_del_def intro!: filter_cong)

lemma without_simps [simp]:
  "without {} m = m"
  "without K (without L m) = without (K \<union> L) m"
  "without K [] = []"
  by (auto simp: without_def intro!: filter_cong)

lemma om_del_without: "om_del k m = without {k} m"
  by (simp add: om_del_def without_def)

lemma map_of_without: "map_of (without K m) k = (if k \<in> K then None else map_of m k)"
  by (induction m) (auto simp: without_def)

lemma om_wf_without: "om_wf m \<Longrightarrow> om_wf (without K m)"
  by (induction m) (auto simp: without_def om_wf_Cons)

lemma set_without: "set (without K m) \<subseteq> set m"
  by (auto simp: without_def)

lemma om_del_absent: "map_of m k = None \<Longrightarrow> om_del k m = m"
  by (induction m) (auto simp: om_del_def split: if_splits)

lemma sentPackets_process_acks:
  "sentPackets (process_acks now hdr s) = without (header_acks hdr) (sentPackets s)"
proof (cases "map_of (sentPackets s) (acknowledgeId hdr)")
  case None
  then have "without (insert (acknowledgeId hdr) K) (sentPackets s) = without K (sentPackets s)" for K
    using om_del_absent[OF None] without_simps(2)[of K "{acknowledgeId hdr}" "sentPackets s"]
    by (simp add: om_del_without)
  with None show ?thesis
    by (auto simp: process_acks_def header_acks_def fold_om_del)
next
  case (Some info)
  then show ?thesis
    by (auto simp: process_acks_def header_acks_def fold_om_del om_del_without Let_def Un_commute)
qed

lemma sentPackets_deliver [simp]: "sentPackets (snd (deliver_ordered ch oid p s)) = sentPackets s"
  by (simp add: deliver_ordered_def Let_def split: prod.split)

lemma empty_rich_ack:
  "payload_of d = [] \<Longrightarrow> fst (read_rich_ack (received_packet d hdr)) = Inl PacketUnderflow"
  by (simp add: read_rich_ack_def read_deque_def rd_bind_def read_pod_def received_packet_def
      set_payload_def new_packet_def sizeof_def)

lemma parsed_received:
  assumes "parse_header data = parse_success hdr"
  shows "received_header data = hdr"
  by (subst parse_header_successD(1)[OF assms]) (rule received_header_wire)

lemma sentPackets_hand_over:
  assumes "parse_header data = parse_success hdr"
  shows "sentPackets (snd (hand_over data hdr s)) = without (rich_acks data) (sentPackets s)"
proof -
  have hdr: "hdr = received_header data" and len: "sizeof_Header \<le> length data"
    using parsed_received[OF assms] parse_header_successD[OF assms] by auto
  show ?thesis
  proof (cases "length data > sizeof_Header")
    case True
    then show ?thesis
      by (auto simp: hand_over_def checkForOldPackets_def rich_acks_def rich_ack_of_def fold_om_del
          hdr Let_def split: sum.splits)
  next
    case False
    then have "payload_of data = []"
      by (simp add: payload_of_def)
    with False show ?thesis
      by (simp add: hand_over_def checkForOldPackets_def rich_acks_def rich_ack_of_def hdr
          empty_rich_ack Let_def)
  qed
qed

lemma sentPackets_updateAcknowledgeInfo:
  "updateAcknowledgeInfo q s = Inr s' \<Longrightarrow> sentPackets s' = sentPackets s"
  by (auto simp: updateAcknowledgeInfo_def Let_def try_bind_Inr_iff split: if_splits)

lemma sentPackets_count_and_ack:
  "count_and_ack now s = Inr s' \<Longrightarrow> sentPackets s' = sentPackets s"
  by (auto simp: count_and_ack_def Let_def dest: sendAck_simps(2) split: if_splits)

text \<open>The run of \<open>handleIncoming\<close> on a well-formed datagram that is not a duplicate.\<close>

lemma handleIncoming_fresh:
  assumes "parse_header data = parse_success hdr" and "\<not> isDuplicate (sequenceId hdr) s"
    and "handleIncoming now data s = Inr (ps, s')"
  obtains s2 s3 where
    "updateAcknowledgeInfo (sequenceId hdr)
       (process_acks now hdr (note_arrival now hdr (length data) s)) = Inr s2"
    "count_and_ack now s2 = Inr s3" "(ps, s') = hand_over data hdr s3"
  using assms
  by (auto simp: handleIncoming_def parse_success_def Let_def try_bind_Inr_iff
      filter_state_cong(3)[OF arrival_filter_state])

lemma handleIncoming_duplicate:
  assumes "parse_header data = parse_success hdr" and "isDuplicate (sequenceId hdr) s"
  shows "handleIncoming now data s =
    Inr ([], queue_duplicate (sequenceId hdr)
      (process_acks now hdr (note_arrival now hdr (length data) s)))"
  using assms
  by (simp add: handleIncoming_def parse_success_def filter_state_cong(3)[OF arrival_filter_state])

lemma sentPackets_handleIncoming:
  assumes "parse_header data = parse_success hdr" and "handleIncoming now data s = Inr (ps, s')"
  shows "sentPackets s' =
     without (if isDuplicate (sequenceId hdr) s then header_acks hdr else acked_ids data) (sentPackets s)"
proof (cases "isDuplicate (sequenceId hdr) s")
  case True
  with handleIncoming_duplicate[OF assms(1) True, of now] assms(2) show ?thesis
    by (auto simp: queue_duplicate_def sentPackets_process_acks note_arrival_def)
next
  case False
  obtain s2 s3 where
    r: "updateAcknowledgeInfo (sequenceId hdr)
       (process_acks now hdr (note_arrival now hdr (length data) s)) = Inr s2"
    "count_and_ack now s2 = Inr s3" "(ps, s') = hand_over data hdr s3"
    using handleIncoming_fresh[OF assms(1) False assms(2)] .
  have "sentPackets s' = without (rich_acks data) (sentPackets s3)"
    using sentPackets_hand_over[OF assms(1), of s3] r(3) by (simp add: prod_eq_iff[of "(ps, s')"])
  also have "sentPackets s3 = without (header_acks hdr) (sentPackets s)"
    using sentPackets_count_and_ack[OF r(2)] sentPackets_updateAcknowledgeInfo[OF r(1)]
    by (simp add: sentPackets_process_acks note_arrival_def)
  finally show ?thesis
    using False by (simp add: acked_ids_def parsed_received[OF assms(1)] Un_commute)
qed


text \<open>Receiving a well-formed datagram releases from the retransmission buffer exactly the
  numbers it acknowledges: the header's acknowledgement and window when the flag is set, and the
  list of a \<open>RICH_ACK\<close>, which a duplicate no longer delivers; the other buffered packets stay as
  they are.\<close>

theorem acks_release_exactly:
  assumes "parse_header data = parse_success hdr" and "handleIncoming now data s = Inr (ps, s')"
  shows "sentPackets s' =
     filter (\<lambda>e. fst e \<notin> (if isDuplicate (sequenceId hdr) s then header_acks hdr else acked_ids data))
       (sentPackets s)"
  by (simp only: sentPackets_handleIncoming[OF assms] without_def)

definition sample_info :: sent_info where
  "sample_info =
     \<lparr>si_packet = new_packet 300 kReliable 1, si_sentTime = 0, si_sequenceId = 2, si_orderId = 0,
      si_retries = 0\<rparr>"

text \<open>The window bit 1 acknowledges the number two below the acknowledged one.\<close>

theorem acks_release_exactly_witness:
  "\<exists>ps s'. handleIncoming 9
       (header_wire (default_header\<lparr>flags := kHasAck, acknowledgeId := 4, acknowledgeBitfield := 2\<rparr>))
       (new_session 0 () True 0\<lparr>sentPackets := [(2, sample_info), (3, sample_info), (4, sample_info)]\<rparr>) = Inr (ps, s') \<and>
     sentPackets s' = [(3, sample_info)]"
proof -
  let ?h = "default_header\<lparr>flags := kHasAck, acknowledgeId := 4, acknowledgeBitfield := 2\<rparr>"
  let ?s = "new_session 0 () True 0\<lparr>sentPackets := [(2, sample_info), (3, sample_info), (4, sample_info)]\<rparr>"
  have p: "parse_header (header_wire ?h) = parse_success ?h"
    using parse_header_wire[of ?h "[]"] by (simp add: default_header_def)
  have "handleIncoming 9 (header_wire ?h) ?s \<noteq> Inl e" for e
    using p by (simp add: handleIncoming_fault parse_success_def record_fault
        filter_state_cong(4)[OF arrival_filter_state] new_session_def[of 0 "()" True 0])
  then obtain ps s' where r: "handleIncoming 9 (header_wire ?h) ?s = Inr (ps, s')"
    by (cases "handleIncoming 9 (header_wire ?h) ?s") auto
  have "\<not> isDuplicate (sequenceId ?h) ?s"
    by (simp add: isDuplicate_def new_session_def)
  moreover have "received_header (header_wire ?h) = ?h"
    using received_header_wire[of ?h "[]"] by simp
  moreover have "bit (2 :: u32) n \<longleftrightarrow> n = 1" for n
    using bit_exp_word[of 1 n, where ?'a = 32] by simp
  ultimately show ?thesis
    using acks_release_exactly[OF p r] r
    by (simp add: acked_ids_def header_acks_def acked_by_bitfield_def rich_acks_def rich_ack_of_def
        default_header_def kHasAck_def upt_rec)
qed

section \<open>Reachable sessions\<close>

datatype session_call = Send packet | HandleIncoming bytes | Update | Disconnect

fun perform :: "time \<Rightarrow> session_call \<Rightarrow> 'ep session \<Rightarrow> fault + 'ep session" where
  "perform now (Send p) s = Inr (send now p s)"
| "perform now (HandleIncoming d) s = map_sum id snd (handleIncoming now d s)"
| "perform now Update s = update now s"
| "perform now Disconnect s = Inr (disconnect s)"

inductive session_reachable :: "'ep session \<Rightarrow> bool" where
  session_start: "session_reachable (new_session sid ep hasSend now)"
| session_next: "session_reachable s \<Longrightarrow> perform now e s = Inr s' \<Longrightarrow> session_reachable s'"

definition entry_ok :: "u32 \<times> sent_info \<Rightarrow> bool" where
  "entry_ok e \<longleftrightarrow> si_sequenceId (snd e) = fst e \<and> p_flag (si_packet (snd e)) \<noteq> kUnreliable \<and>
     si_retries (snd e) \<le> MAX_RESEND_ATTEMPTS"

definition buffer_wf :: "(u32, sent_info) omap \<Rightarrow> bool" where
  "buffer_wf m \<longleftrightarrow> om_wf m \<and> (\<forall>e \<in> set m. entry_ok e)"

definition orders_wf :: "'ep session \<Rightarrow> bool" where
  "orders_wf s \<longleftrightarrow>
     om_wf (localOrderIds s) \<and> om_wf (nextExpectedOrderIds s) \<and> om_wf (reorderBuffers s) \<and>
     (\<forall>e \<in> set (reorderBuffers s). om_wf (snd e))"

definition session_wf :: "'ep session \<Rightarrow> bool" where
  "session_wf s \<longleftrightarrow> replay_wf s \<and> buffer_wf (sentPackets s) \<and> orders_wf s"

lemma buffer_wf_put: "buffer_wf m \<Longrightarrow> entry_ok (k, v) \<Longrightarrow> buffer_wf (om_put k v m)"
  by (auto simp: buffer_wf_def dest!: in_om_put)

lemma buffer_wf_without: "buffer_wf m \<Longrightarrow> buffer_wf (without K m)"
  using set_without[of K m] by (auto simp: buffer_wf_def intro: om_wf_without)

lemma entry_ok_resent:
  assumes "entry_ok (k, info)" and "si_retries info < MAX_RESEND_ATTEMPTS"
  shows "entry_ok (k, resent now info)"
proof -
  have "si_retries info + 1 \<le> MAX_RESEND_ATTEMPTS"
    using assms(2) by (rule inc_le)
  with assms(1) show ?thesis by (simp add: entry_ok_def resent_def)
qed

lemma om_wf_drain: "drain n b = (ps, n', b') \<Longrightarrow> om_wf b \<Longrightarrow> om_wf b'"
proof (induction n b arbitrary: ps rule: drain.induct)
  case (1 n b)
  then show ?case
    by (cases "map_of b n") (auto simp: drain.simps[of n b] split: prod.splits)
qed

lemma om_wf_get: "\<forall>e \<in> set m. om_wf (snd e) \<Longrightarrow> om_wf (om_get [] m k)"
  by (auto simp: om_get_def split: option.split dest!: map_of_SomeD bspec)

lemma orders_wf_deliver:
  assumes "orders_wf s"
  shows "orders_wf (snd (deliver_ordered ch oid p s))"
proof -
  have "om_wf (om_get [] (reorderBuffers s) ch)"
    using assms by (auto simp: orders_wf_def intro: om_wf_get)
  with assms show ?thesis
    by (auto simp: deliver_ordered_def orders_wf_def Let_def split: prod.split
        dest!: in_om_put intro: om_wf_drain)
qed

lemma orders_wf_cong:
  assumes "localOrderIds s' = localOrderIds s" and "nextExpectedOrderIds s' = nextExpectedOrderIds s"
    and "reorderBuffers s' = reorderBuffers s"
  shows "orders_wf s' = orders_wf s"
  using assms by (simp add: orders_wf_def)

lemma session_wf_send:
  assumes "session_wf s"
  shows "session_wf (send now p s)"
proof -
  have "buffer_wf (sentPackets (send now p s))"
    using assms by (auto simp: session_wf_def sent_entry_def entry_ok_def intro!: buffer_wf_put)
  moreover have "orders_wf (send now p s)"
    using assms by (simp add: session_wf_def orders_wf_def)
  ultimately show ?thesis
    using assms filter_state_cong(2)[OF filter_state_send(1), of now p s] by (simp add: session_wf_def)
qed

lemma session_wf_disconnect:
  assumes "session_wf s"
  shows "session_wf (internal_disconnect s)"
  using assms filter_state_cong(2)[OF filter_state_send(3)[of s]]
  by (simp add: session_wf_def internal_disconnect_def orders_wf_def)

lemma session_wf_resend_loop:
  "resend_loop now es s = (lost, s') \<Longrightarrow> session_wf s \<Longrightarrow> \<forall>e \<in> set es. entry_ok e \<Longrightarrow> session_wf s'"
proof (induction es arbitrary: s)
  case (Cons e es)
  show ?case
  proof (cases "is_late now (snd e)")
    case False
    with Cons show ?thesis by auto
  next
    case late: True
    show ?thesis
    proof (cases "si_retries (snd e) \<ge> MAX_RESEND_ATTEMPTS")
      case True
      with Cons.prems late have "s' = internal_disconnect s" by simp
      with Cons.prems(2) show ?thesis by (simp add: session_wf_disconnect)
    next
      case False
      let ?s = "retransmit now (fst e) (snd e) s"
      have "localOrderIds ?s = localOrderIds s"
        by (simp add: retransmit_def Let_def)
      then have "orders_wf ?s"
        using Cons.prems(2) by (simp add: session_wf_def orders_wf_def)
      moreover have "buffer_wf (sentPackets ?s)"
        using Cons.prems(2,3) False late
        by (auto simp: session_wf_def not_le intro!: buffer_wf_put entry_ok_resent)
      ultimately have "session_wf ?s"
        using Cons.prems(2) filter_state_cong(2)[OF filter_state_send(2)[of now "fst e" "snd e" s]]
        by (simp add: session_wf_def)
      with Cons False late show ?thesis by auto
    qed
  qed
qed simp

lemma session_wf_sendAck:
  assumes "internal_sendAck now s = Inr s'" and "session_wf s"
  shows "session_wf s'"
  using assms filter_state_cong(2)[OF filter_state_sendAck[OF assms(1)]] sendAck_simps[OF assms(1)]
  by (simp add: session_wf_def orders_wf_def)

lemma session_wf_update:
  assumes "update now s = Inr s'" and "session_wf s"
  shows "session_wf s'"
proof -
  obtain lost s1 where r: "resend_loop now (sentPackets s) s = (lost, s1)" by fastforce
  have "session_wf s1"
    using session_wf_resend_loop[OF r assms(2)] assms(2) by (simp add: session_wf_def buffer_wf_def)
  then show ?thesis
    using r assms(1) session_wf_sendAck[of now s1 s'] by (auto simp: update_def split: if_splits)
qed


lemma orders_process_acks [simp]:
  "orders_wf (process_acks now hdr (note_arrival now hdr n s)) = orders_wf s"
  by (rule orders_wf_cong)
    (simp_all add: process_acks_def note_arrival_def Let_def split: option.split)

lemma session_wf_arrival:
  assumes "session_wf s"
  shows "session_wf (process_acks now hdr (note_arrival now hdr n s))"
proof -
  have "sentPackets (note_arrival now hdr n s) = sentPackets s"
    by (simp add: note_arrival_def)
  then show ?thesis
    using assms filter_state_cong(2)[OF arrival_filter_state[of now hdr n s]]
    by (simp add: session_wf_def sentPackets_process_acks buffer_wf_without)
qed

lemma session_wf_record:
  assumes "session_wf s" and "\<not> isDuplicate q s" and "updateAcknowledgeInfo q s = Inr s'"
  shows "session_wf s'"
proof -
  have "orders_wf s' = orders_wf s"
    using assms(3) by (intro orders_wf_cong)
      (auto simp: updateAcknowledgeInfo_def Let_def try_bind_Inr_iff split: if_splits)
  moreover have "fresh_spec q s s'"
    using assms by (intro record_fresh) (auto simp: session_wf_def isDuplicate_seen)
  ultimately show ?thesis
    using assms(1) sentPackets_updateAcknowledgeInfo[OF assms(3)]
    by (simp add: session_wf_def fresh_spec_def)
qed

lemma session_wf_count_and_ack:
  assumes "count_and_ack now s = Inr s'" and "session_wf s"
  shows "session_wf s'"
proof -
  have "session_wf (s\<lparr>packetsSinceLastAck := n\<rparr>)" for n
    using assms(2) filter_state_cong(2)[OF filter_state_update(3)[of n s]]
    by (simp add: session_wf_def orders_wf_def)
  with assms(1) show ?thesis
    by (auto simp: count_and_ack_def Let_def intro: session_wf_sendAck split: if_splits)
qed

lemma session_wf_hand_over:
  assumes "session_wf s" and "parse_header data = parse_success hdr"
  shows "session_wf (snd (hand_over data hdr s))"
proof -
  have "orders_wf (snd (hand_over data hdr s))"
    using assms(1) orders_wf_deliver
    by (auto simp: hand_over_def checkForOldPackets_def Let_def session_wf_def
        orders_wf_cong[of "s\<lparr>sentPackets := m\<rparr>" s for m] split: sum.split)
  then show ?thesis
    using assms filter_state_cong(2)[OF filter_state_hand_over[of data hdr s]]
    by (simp add: session_wf_def sentPackets_hand_over buffer_wf_without)
qed

lemma session_wf_handleIncoming:
  assumes "handleIncoming now data s = Inr (ps, s')" and "session_wf s"
  shows "session_wf s'"
proof (cases "\<exists>hdr. parse_header data = parse_success hdr")
  case False
  then have "res_header (parse_header data) = None"
    by (auto simp: parse_header_alt parse_failure_def split: if_splits)
  with assms show ?thesis by (simp add: handleIncoming_def)
next
  case True
  then obtain hdr where h: "parse_header data = parse_success hdr" by blast
  let ?s1 = "process_acks now hdr (note_arrival now hdr (length data) s)"
  have s1: "session_wf ?s1" by (rule session_wf_arrival[OF assms(2)])
  show ?thesis
  proof (cases "isDuplicate (sequenceId hdr) s")
    case True
    then have "s' = queue_duplicate (sequenceId hdr) ?s1"
      using assms(1) h by (simp add: handleIncoming_duplicate)
    with s1 filter_state_cong(2)[OF filter_state_queue_duplicate[of "sequenceId hdr" ?s1]]
    show ?thesis by (simp add: session_wf_def queue_duplicate_def orders_wf_def)
  next
    case False
    obtain s2 s3 where r: "updateAcknowledgeInfo (sequenceId hdr) ?s1 = Inr s2"
      "count_and_ack now s2 = Inr s3" "(ps, s') = hand_over data hdr s3"
      using handleIncoming_fresh[OF h False assms(1)] .
    have "\<not> isDuplicate (sequenceId hdr) ?s1"
      using False by (simp add: filter_state_cong(3)[OF arrival_filter_state])
    then have "session_wf s3"
      using session_wf_record[OF s1 _ r(1)] session_wf_count_and_ack[OF r(2)] by blast
    then show ?thesis
      using session_wf_hand_over[OF _ h] r(3) by (metis snd_conv)
  qed
qed

lemma map_sum_InrE:
  assumes "map_sum id f r = Inr b"
  obtains a where "r = Inr a" and "b = f a"
  using assms by (cases r) auto

lemma session_wf_new [simp]: "session_wf (new_session sid ep hasSend now)"
  by (simp add: session_wf_def) (simp add: new_session_def buffer_wf_def orders_wf_def)

text \<open>C19: in every state a session can reach by sending, receiving, updating and disconnecting, the
  duplicate filter is consistent (no repeated and no misplaced number), the buffers are maps in
  key order, and every buffered packet sits under its own sequence number, needs a guarantee
  and has been retried at most eight times.\<close>

theorem session_always_wf:
  assumes "session_reachable s"
  shows "session_wf s"
  using assms
proof (induction rule: session_reachable.induct)
  case (session_start sid ep hasSend now)
  show ?case by simp
next
  case (session_next s now e s')
  then show ?case
    by (cases e)
      (auto simp: disconnect_def session_wf_send
        intro: session_wf_update session_wf_handleIncoming session_wf_disconnect
        elim!: map_sum_InrE)
qed

theorem session_always_wf_witness:
  "session_wf (send 1 (new_packet 300 kReliable 1) (new_session 0 () True 0))"
  by (rule session_always_wf[OF session_next[OF session_start, of 1 "Send (new_packet 300 kReliable 1)"]])
    simp

end
