(* ===== verification/SessionPair.thy ===== *)
theory SessionPair
  imports SessionReceive
begin

text \<open>
  Two sessions over a network that may lose, repeat, delay and reorder datagrams: what a peer
  acknowledges it has received, so a reliable packet stays in the sender's buffer until its
  number has reached the peer.
\<close>

section \<open>One session\<close>

text \<open>A packet as the user may build it: not a \<open>RICH_ACK\<close>, and without the flag that \<open>rawSend\<close> adds.\<close>

definition plain_packet :: "packet \<Rightarrow> bool" where
  "plain_packet p \<longleftrightarrow> p_flag p AND kHasAck = 0 \<and> p_messageId p \<noteq> system_id kRichAck"

definition acks_within :: "u32 set \<Rightarrow> 'ep session \<Rightarrow> bool" where
  "acks_within R s \<longleftrightarrow>
     replay_wf s \<and> seen s \<subseteq> R \<and> set (pendingRichAcks s) \<subseteq> R \<and>
     (\<forall>d \<in> set (s_sent s). acked_ids d \<subseteq> R) \<and>
     (\<forall>e \<in> set (sentPackets s). plain_packet (si_packet (snd e)))"

lemma acks_within_mono: "acks_within R s \<Longrightarrow> R \<subseteq> R' \<Longrightarrow> acks_within R' s"
  unfolding acks_within_def by blast

lemma acks_within_new [simp]: "acks_within R (new_session sid ep hasSend now)"
  by (simp add: acks_within_def) (simp add: new_session_def)

lemma window_acks_seen:
  assumes "replay_wf s" and "hasReceivedRemotePacket s"
    and "acknowledgeId hdr = remoteAcknowledgeId s"
    and "acknowledgeBitfield hdr = remoteAcknowledgeBitfield s"
  shows "insert (acknowledgeId hdr) (set (acked_by_bitfield hdr)) \<subseteq> seen s"
proof -
  have "set (acked_by_bitfield hdr) = set (evicted 0 (remoteAcknowledgeBitfield s) (remoteAcknowledgeId s))"
    by (simp add: acked_by_bitfield_def evicted_def assms)
  then show ?thesis
    using assms set_evicted[of "remoteAcknowledgeBitfield s" "remoteAcknowledgeId s" _ 0]
    by (auto simp: replay_wf_def window_wf_def seen_def)
qed

lemma datagram_header_acks:
  assumes "acks_within R s" and "p_flag p AND kHasAck = 0"
  shows "header_acks (received_header (datagram p sq oid s)) \<subseteq> R"
proof (cases "hasReceivedRemotePacket s")
  case True
  with assms window_acks_seen[of s "outgoing_header p sq oid s"] show ?thesis
    by (auto simp: header_acks_def acks_within_def)
next
  case False
  with assms show ?thesis by (simp add: header_acks_def)
qed

lemma datagram_acks:
  assumes "acks_within R s" and "plain_packet p"
  shows "acked_ids (datagram p sq oid s) \<subseteq> R"
  using assms datagram_header_acks[of R s p sq oid]
  by (auto simp: acked_ids_def plain_packet_def rich_acks_def rich_ack_of_def)

lemma in_sent_by: "d \<in> set (sent_by s ds) \<Longrightarrow> d \<in> set ds"
  by (simp add: sent_by_def split: if_splits)

text \<open>A step that keeps the filter and the queue, sends only datagrams of plain packets or other
  sound acknowledgements, and buffers only plain packets.\<close>

lemma acks_withinI:
  assumes "acks_within R s" and "filter_state s' = filter_state s"
    and "set (pendingRichAcks s') \<subseteq> R"
    and "s_sent s' = s_sent s @ ds" and "\<And>d. d \<in> set ds \<Longrightarrow> acked_ids d \<subseteq> R"
    and "\<And>e. e \<in> set (sentPackets s') \<Longrightarrow> plain_packet (si_packet (snd e))"
  shows "acks_within R s'"
  using assms(1,3-6) filter_state_cong(1,2)[OF assms(2)] by (auto simp: acks_within_def)

lemma acks_within_send:
  assumes "acks_within R s" and "plain_packet p"
  shows "acks_within R (send now p s)"
proof (rule acks_withinI[OF assms(1) filter_state_send(1) _ s_sent_send])
  show "set (pendingRichAcks (send now p s)) \<subseteq> R"
    using assms by (simp add: acks_within_def)
  show "acked_ids d \<subseteq> R"
    if "d \<in> set (sent_by s [datagram p (localSequenceId s) (next_order_id p s) s])" for d
    using in_sent_by[OF that] datagram_acks[OF assms] by simp
  show "plain_packet (si_packet (snd e))" if "e \<in> set (sentPackets (send now p s))" for e
    using assms that by (auto simp: acks_within_def sent_entry_def split: if_splits dest!: in_om_put)
qed

lemma acks_within_retransmit:
  assumes "acks_within R s" and "is_late now info" and "plain_packet (si_packet info)"
  shows "acks_within R (retransmit now k info s)"
proof (rule acks_withinI[OF assms(1) filter_state_send(2) _ retransmit_simps(12)])
  show "set (pendingRichAcks (retransmit now k info s)) \<subseteq> R"
    using assms by (simp add: acks_within_def)
  show "acked_ids d \<subseteq> R"
    if "d \<in> set (sent_by s [datagram (si_packet info) (si_sequenceId info) (si_orderId info) s])" for d
    using in_sent_by[OF that] datagram_acks[OF assms(1,3)] by simp
  show "plain_packet (si_packet (snd e))" if "e \<in> set (sentPackets (retransmit now k info s))" for e
    using assms that by (auto simp: acks_within_def resent_def split: if_splits dest!: in_om_put)
qed

lemma acks_within_disconnect: "acks_within R s \<Longrightarrow> acks_within R (internal_disconnect s)"
  by (rule acks_withinI[where ds = "[]"]) (auto simp: acks_within_def internal_disconnect_def)

lemma acks_within_resend_loop:
  "resend_loop now es s = (lost, s') \<Longrightarrow> acks_within R s \<Longrightarrow>
   \<forall>e \<in> set es. plain_packet (si_packet (snd e)) \<Longrightarrow> acks_within R s'"
  by (induction es arbitrary: s)
    (auto intro: acks_within_disconnect acks_within_retransmit split: if_splits)

lemma rich_acks_emitted:
  assumes "ack_chunks acks cs ps" and "d \<in> set (emitted s ps)"
  shows "rich_acks d \<subseteq> set acks"
proof -
  have "map rich_ack_of (emitted s ps) = map Some cs"
    using assms(1) by (intro rich_acks_of_emitted) (auto simp: ack_chunks_def)
  then have "rich_ack_of d \<in> Some ` set cs"
    using assms(2) by (metis imageI list.set_map)
  then show ?thesis
    using assms(1) by (auto simp: rich_acks_def ack_chunks_def)
qed

lemma plain_ack_packet: "plain_packet (new_packet (system_id kAck) kUnreliable INTERNAL_CHANNEL_ID)"
  by (simp add: plain_packet_def new_packet_def flag_defs)

lemma rich_ack_packet_flag:
  assumes "ack_chunks acks cs ps" and "p \<in> set ps"
  shows "p_flag p AND kHasAck = 0"
proof -
  obtain i where "i < length ps" "p = ps ! i" using assms(2) by (auto simp: in_set_conv_nth)
  moreover from this assms(1) have "i < length cs" "rich_ack_packet (cs ! i) = Inr (ps ! i)"
    by (auto simp: ack_chunks_def list_all2_conv_all_nth)
  ultimately show ?thesis
    using assms(1) rich_ack_packet_ok[of "cs ! i"]
    by (auto simp: ack_chunks_def append_bytes_def new_packet_def flag_defs)
qed

lemma acks_within_sendAck:
  assumes "internal_sendAck now s = Inr s'" and "acks_within R s"
  shows "acks_within R s'"
proof -
  obtain cs ps where s': "s' = (foldl (emit now) s ps)\<lparr>pendingRichAcks := []\<rparr>"
    and ps: "if pendingRichAcks s = []
      then ps = [new_packet (system_id kAck) kUnreliable INTERNAL_CHANNEL_ID]
      else ack_chunks (pendingRichAcks s) cs ps"
    using sendAck_emits[of now s] assms(1) by auto
  have "acked_ids d \<subseteq> R" if d: "d \<in> set (emitted s ps)" for d
  proof -
    obtain i p where dp: "d = datagram p (localSequenceId s + word_of_nat i) 0 s" "p \<in> set ps"
      using d by (auto simp: emitted_def in_set_enumerate_eq)
    show ?thesis
    proof (cases "pendingRichAcks s = []")
      case True
      with ps dp(2) have "p = new_packet (system_id kAck) kUnreliable INTERNAL_CHANNEL_ID"
        by (simp del: system_id.simps)
      then have "plain_packet p" by (simp only: plain_ack_packet)
      with dp(1) assms(2) show ?thesis by (simp add: datagram_acks)
    next
      case False
      with ps have c: "ack_chunks (pendingRichAcks s) cs ps" by simp
      have "rich_acks d \<subseteq> R"
        using rich_acks_emitted[OF c d] assms(2) by (auto simp: acks_within_def)
      then show ?thesis
        using datagram_header_acks[OF assms(2) rich_ack_packet_flag[OF c dp(2)]] dp(1)
        by (simp add: acked_ids_def)
    qed
  qed
  then have new: "acked_ids d \<subseteq> R" if "d \<in> set (sent_by s (emitted s ps))" for d
    using in_sent_by[OF that] by blast
  have "s_sent s' = s_sent s @ sent_by s (emitted s ps)"
    by (simp add: s' s_sent_foldl_emit)
  with assms(2) new show ?thesis
    by (intro acks_withinI[OF assms(2) filter_state_sendAck[OF assms(1)]])
      (simp_all add: s' acks_within_def)
qed


lemma acks_within_update:
  assumes "update now s = Inr s'" and "acks_within R s"
  shows "acks_within R s'"
proof -
  obtain lost s1 where r: "resend_loop now (sentPackets s) s = (lost, s1)" by fastforce
  have "acks_within R s1"
    using acks_within_resend_loop[OF r assms(2)] assms(2) by (simp add: acks_within_def)
  then show ?thesis
    using r assms(1) acks_within_sendAck[of now s1 s'] by (auto simp: update_def split: if_splits)
qed

text \<open>An arriving datagram: the part before the duplicate test, then the two cases.\<close>

lemma acks_within_arrival:
  assumes "acks_within R s"
  shows "acks_within R (process_acks now hdr (note_arrival now hdr n s))"
proof (rule acks_withinI[OF assms arrival_filter_state, where ds = "[]"])
  show "plain_packet (si_packet (snd e))"
    if "e \<in> set (sentPackets (process_acks now hdr (note_arrival now hdr n s)))" for e
    using assms that set_without
    by (fastforce simp: sentPackets_process_acks note_arrival_def acks_within_def)
qed (use assms in \<open>auto simp: acks_within_def process_acks_def note_arrival_def Let_def
    split: option.splits\<close>)

lemma acks_within_record:
  assumes "acks_within R s" and "\<not> isDuplicate q s" and "updateAcknowledgeInfo q s = Inr s'"
  shows "acks_within (insert q R) s'"
proof -
  have "fresh_spec q s s'"
    using assms by (intro record_fresh) (auto simp: acks_within_def isDuplicate_seen)
  moreover have "pendingRichAcks s' = pendingRichAcks s" "s_sent s' = s_sent s"
    "sentPackets s' = sentPackets s"
    using assms(3)
    by (auto simp: updateAcknowledgeInfo_def Let_def try_bind_Inr_iff split: if_splits)
  ultimately show ?thesis
    using assms(1) unfolding acks_within_def fresh_spec_def by auto
qed

lemma acks_within_count_and_ack:
  assumes "count_and_ack now s = Inr s'" and "acks_within R s"
  shows "acks_within R s'"
proof -
  have "acks_within R (s\<lparr>packetsSinceLastAck := n\<rparr>)" for n
    using assms(2) by (rule acks_withinI[where ds = "[]"]) (use assms(2) in \<open>auto simp: acks_within_def\<close>)
  then show ?thesis
    using assms(1) by (auto simp: count_and_ack_def Let_def intro: acks_within_sendAck split: if_splits)
qed

lemma acks_within_hand_over:
  assumes "acks_within R s" and "parse_header data = parse_success hdr"
  shows "acks_within R (snd (hand_over data hdr s))"
proof (rule acks_withinI[OF assms(1) filter_state_hand_over, where ds = "[]"])
  show "plain_packet (si_packet (snd e))" if "e \<in> set (sentPackets (snd (hand_over data hdr s)))" for e
    using assms that set_without[of "rich_acks data" "sentPackets s"]
    by (auto simp: sentPackets_hand_over acks_within_def)
qed (use assms in \<open>auto simp: acks_within_def hand_over_def checkForOldPackets_def Let_def
    deliver_ordered_def split: sum.splits prod.splits\<close>)

definition received_number :: "bytes \<Rightarrow> u32 set" where
  "received_number d = (case res_header (parse_header d) of Some hdr \<Rightarrow> {sequenceId hdr} | None \<Rightarrow> {})"

lemma acks_within_handleIncoming:
  assumes "handleIncoming now data s = Inr (ps, s')" and "acks_within R s"
  shows "acks_within (received_number data \<union> R) s'"
proof (cases "\<exists>hdr. parse_header data = parse_success hdr")
  case False
  then have "res_header (parse_header data) = None"
    by (auto simp: parse_header_alt parse_failure_def split: if_splits)
  with assms show ?thesis
    by (auto simp: handleIncoming_def received_number_def)
next
  case True
  then obtain hdr where h: "parse_header data = parse_success hdr" by blast
  let ?q = "sequenceId hdr"
  let ?s1 = "process_acks now hdr (note_arrival now hdr (length data) s)"
  have R: "received_number data \<union> R = insert ?q R"
    by (simp add: received_number_def h parse_success_def)
  have s1: "acks_within R ?s1" by (rule acks_within_arrival[OF assms(2)])
  show ?thesis
  proof (cases "isDuplicate ?q s")
    case True
    with h assms(1) have "s' = queue_duplicate ?q ?s1"
      by (simp add: handleIncoming_duplicate)
    moreover have "acks_within (insert ?q R) (queue_duplicate ?q ?s1)"
    proof (rule acks_withinI[OF _ filter_state_queue_duplicate, where ds = "[]"])
      show q: "acks_within (insert ?q R) ?s1"
        using s1 by (rule acks_within_mono) blast
      then show "plain_packet (si_packet (snd e))"
        if "e \<in> set (sentPackets (queue_duplicate ?q ?s1))" for e
        using that by (simp add: queue_duplicate_def acks_within_def)
      show "set (pendingRichAcks (queue_duplicate ?q ?s1)) \<subseteq> insert ?q R"
        using q by (simp add: queue_duplicate_def acks_within_def)
    qed (simp_all add: queue_duplicate_def)
    ultimately show ?thesis by (simp add: R)
  next
    case False
    obtain s2 s3 where r: "updateAcknowledgeInfo ?q ?s1 = Inr s2" "count_and_ack now s2 = Inr s3"
      "(ps, s') = hand_over data hdr s3"
      using handleIncoming_fresh[OF h False assms(1)] .
    have "\<not> isDuplicate ?q ?s1"
      using False by (simp add: filter_state_cong(3)[OF arrival_filter_state])
    then have "acks_within (insert ?q R) s3"
      using acks_within_record[OF s1 _ r(1)] acks_within_count_and_ack[OF r(2)] by blast
    then show ?thesis
      using acks_within_hand_over[OF _ h] r(3) by (metis R snd_conv)
  qed
qed

section \<open>Two sessions over a lossy network\<close>

text \<open>
  \<open>handed\<close> are the numbers of the sender's datagrams that the network has handed to the
  receiver; \<open>reliable\<close> the numbers under which the sender sent packets that are not plain
  unreliable.  The network may hand over any datagram ever sent, any number of times, in any
  order, or never.
\<close>

record 'ep link =
  sender :: "'ep session"
  receiver :: "'ep session"
  handed :: "u32 set"
  reliable :: "u32 set"

inductive link_step :: "'ep link \<Rightarrow> 'ep link \<Rightarrow> bool" where
  sender_sends:
    "plain_packet p \<Longrightarrow>
     link_step l (l\<lparr>sender := send now p (sender l),
       reliable := (if p_flag p \<noteq> kUnreliable then insert (localSequenceId (sender l)) (reliable l)
                    else reliable l)\<rparr>)"
| sender_updates: "update now (sender l) = Inr s \<Longrightarrow> link_step l (l\<lparr>sender := s\<rparr>)"
| sender_disconnects: "link_step l (l\<lparr>sender := disconnect (sender l)\<rparr>)"
| receiver_sends: "plain_packet p \<Longrightarrow> link_step l (l\<lparr>receiver := send now p (receiver l)\<rparr>)"
| receiver_updates: "update now (receiver l) = Inr s \<Longrightarrow> link_step l (l\<lparr>receiver := s\<rparr>)"
| receiver_disconnects: "link_step l (l\<lparr>receiver := disconnect (receiver l)\<rparr>)"
| to_receiver:
    "d \<in> set (s_sent (sender l)) \<Longrightarrow> handleIncoming now d (receiver l) = Inr (ps, s) \<Longrightarrow>
     link_step l (l\<lparr>receiver := s, handed := received_number d \<union> handed l\<rparr>)"
| to_sender:
    "d \<in> set (s_sent (receiver l)) \<Longrightarrow> handleIncoming now d (sender l) = Inr (ps, s) \<Longrightarrow>
     link_step l (l\<lparr>sender := s\<rparr>)"

definition new_link :: "'ep \<Rightarrow> 'ep \<Rightarrow> time \<Rightarrow> 'ep link" where
  "new_link a b now =
     \<lparr>sender = new_session 0 a True now, receiver = new_session 1 b True now,
      handed = {}, reliable = {}\<rparr>"

inductive link_reachable :: "'ep link \<Rightarrow> bool" where
  link_start: "link_reachable (new_link a b now)"
| link_next: "link_reachable l \<Longrightarrow> link_step l l' \<Longrightarrow> link_reachable l'"

definition buffered :: "'ep session \<Rightarrow> u32 set" where
  "buffered s = fst ` set (sentPackets s)"

definition link_inv :: "'ep link \<Rightarrow> bool" where
  "link_inv l \<longleftrightarrow>
     acks_within (handed l) (receiver l) \<and> reliable l \<subseteq> buffered (sender l) \<union> handed l"

lemma buffered_resend_loop:
  "resend_loop now es s = (lost, s') \<Longrightarrow> buffered s \<subseteq> buffered s'"
proof (induction es arbitrary: s)
  case (Cons e es)
  have "buffered s \<subseteq> buffered (retransmit now (fst e) (snd e) s)" if "is_late now (snd e)"
    using that by (auto simp: buffered_def)
  with Cons show ?case
    by (force simp: buffered_def internal_disconnect_def split: if_splits)
qed simp

lemma buffered_update:
  assumes "update now s = Inr s'"
  shows "buffered s \<subseteq> buffered s'"
proof -
  obtain lost s1 where r: "resend_loop now (sentPackets s) s = (lost, s1)" by fastforce
  with assms buffered_resend_loop[OF r] sendAck_simps(2)[of now s1 s'] show ?thesis
    by (auto simp: update_def buffered_def split: if_splits)
qed

lemma buffered_handleIncoming:
  assumes "handleIncoming now d s = Inr (ps, s')"
  shows "buffered s - acked_ids d \<subseteq> buffered s'"
proof (cases "\<exists>hdr. parse_header d = parse_success hdr")
  case True
  then obtain hdr where h: "parse_header d = parse_success hdr" by blast
  have "header_acks hdr \<subseteq> acked_ids d"
    by (simp add: acked_ids_def parsed_received[OF h])
  then show ?thesis
    using sentPackets_handleIncoming[OF h assms] by (auto simp: buffered_def without_def)
next
  case False
  then have "res_header (parse_header d) = None"
    by (auto simp: parse_header_alt parse_failure_def split: if_splits)
  with assms show ?thesis by (auto simp: handleIncoming_def)
qed


text \<open>Every step keeps the invariant.\<close>

lemma acks_within_sent:
  "acks_within R s \<Longrightarrow> d \<in> set (s_sent s) \<Longrightarrow> acked_ids d \<subseteq> R"
  by (simp add: acks_within_def)

lemma buffered_send:
  "buffered (send now p s) =
     (if p_flag p \<noteq> kUnreliable then insert (localSequenceId s) (buffered s) else buffered s)"
  by (simp add: buffered_def)

lemma buffered_disconnect [simp]: "buffered (disconnect s) = buffered s"
  by (simp add: buffered_def disconnect_def internal_disconnect_def)

lemma link_step_inv:
  assumes "link_step l l'" and "link_inv l"
  shows "link_inv l'"
  using assms
proof (cases rule: link_step.cases)
  case (sender_sends p now)
  with assms(2) show ?thesis by (auto simp: link_inv_def buffered_send)
next
  case (sender_updates now s)
  with assms(2) buffered_update[OF sender_updates(2)] show ?thesis by (auto simp: link_inv_def)
next
  case sender_disconnects
  with assms(2) show ?thesis by (simp add: link_inv_def)
next
  case (receiver_sends p now)
  with assms(2) show ?thesis by (simp add: link_inv_def acks_within_send)
next
  case (receiver_updates now s)
  with assms(2) show ?thesis by (auto simp: link_inv_def intro: acks_within_update)
next
  case receiver_disconnects
  with assms(2) show ?thesis by (simp add: link_inv_def disconnect_def acks_within_disconnect)
next
  case (to_receiver d now ps s)
  with assms(2) acks_within_handleIncoming[OF to_receiver(3)] show ?thesis
    by (auto simp: link_inv_def)
next
  case (to_sender d now ps s)
  with assms(2) have "acked_ids d \<subseteq> handed l"
    using acks_within_sent[of "handed l" "receiver l" d] by (simp add: link_inv_def)
  with to_sender assms(2) buffered_handleIncoming[OF to_sender(3)] show ?thesis
    by (auto simp: link_inv_def)
qed

lemma link_reachable_inv: "link_reachable l \<Longrightarrow> link_inv l"
proof (induction rule: link_reachable.induct)
  case (link_start a b now)
  show ?case by (simp add: link_inv_def new_link_def)
next
  case (link_next l l')
  then show ?case by (blast intro: link_step_inv)
qed

text \<open>C1: over a network that loses, repeats, delays and reorders datagrams at will, a packet sent
  with a delivery guarantee is never dropped silently: its number has reached the receiver, or
  the packet is still in the sender's retransmission buffer.\<close>

theorem reliable_never_lost:
  assumes "link_reachable l" and "k \<in> reliable l"
  shows "k \<in> handed l \<or> om_has (sentPackets (sender l)) k"
  using link_reachable_inv[OF assms(1)] assms(2)
  by (auto simp: link_inv_def buffered_def om_has_def map_of_eq_None_iff)

text \<open>C15: a session of such a pair acknowledges nothing it has not received: every number that a
  datagram of the receiver acknowledges, in its header or in a \<open>RICH_ACK\<close>, was carried by a
  datagram that the network handed to the receiver.\<close>

theorem acks_are_sound:
  assumes "link_reachable l" and "d \<in> set (s_sent (receiver l))"
  shows "acked_ids d \<subseteq> handed l"
  using link_reachable_inv[OF assms(1)] assms(2) acks_within_sent[of "handed l" "receiver l" d]
  by (simp add: link_inv_def)

lemma link_reachable_send:
  "plain_packet p \<Longrightarrow> p_flag p \<noteq> kUnreliable \<Longrightarrow>
   link_reachable ((new_link a b 0)\<lparr>sender := send 1 p (new_session 0 a True 0), reliable := {0}\<rparr>)"
  using link_next[OF link_start[of a b 0] sender_sends[of p "new_link a b 0" 1]]
  by (simp add: new_link_def new_session_def[of 0 a])

lemma link_reachable_reply:
  "plain_packet p \<Longrightarrow> link_reachable ((new_link a b 0)\<lparr>receiver := send 1 p (new_session 1 b True 0)\<rparr>)"
  using link_next[OF link_start[of a b 0] receiver_sends[of p "new_link a b 0" 1]]
  by (simp add: new_link_def)

theorem acks_are_sound_witness:
  "acked_ids (datagram (new_packet 300 kReliable 1) 0 0 (new_session 1 () True 0)) \<subseteq> {}"
proof -
  let ?p = "new_packet 300 kReliable 1"
  have p: "plain_packet ?p"
    by (simp add: plain_packet_def new_packet_def flag_defs)
  have "datagram ?p 0 0 (new_session 1 () True 0) \<in> set (s_sent (send 1 ?p (new_session 1 () True 0)))"
    by (simp add: s_sent_send sent_by_def next_order_id_def is_ordered_def new_session_def
        new_packet_def flag_defs)
  then show ?thesis
    using acks_are_sound[OF link_reachable_reply[OF p, of "()" "()"]]
    by (simp add: new_link_def)
qed

theorem reliable_never_lost_witness:
  "om_has (sentPackets (send 1 (new_packet 300 kReliable 1) (new_session 0 () True 0))) 0"
proof -
  let ?p = "new_packet 300 kReliable 1"
  have p: "plain_packet ?p" "p_flag ?p \<noteq> kUnreliable"
    by (simp_all add: plain_packet_def new_packet_def flag_defs)
  show ?thesis
    using reliable_never_lost[OF link_reachable_send[OF p, of "()" "()"], of 0]
    by (simp add: new_link_def)
qed

end
