(* ===== verification/Queues.thy ===== *)
theory Queues
  imports Prelude
begin

text \<open>
  The two queues that carry work from one thread to another: \<open>ThreadSafeQueue\<close>
  (\<^verbatim>\<open>lib/rtnt/include/rtnt/common/thread_safe_queue.hpp\<close>: the events of a client or a server) and
  \<open>ConcurrentQueue\<close> (\<^verbatim>\<open>common/concurrent_queue.hpp\<close>: the actions of a lobby or of the client
  application, and the outgoing packets of the server).  Every operation holds the mutex while it
  runs, so a run of several threads is a sequence of whole operations.  The locale \<open>fifo\<close> is the
  contract that both classes offer.
\<close>

section \<open>The classes\<close>

record 'a ts_queue =
  tsq_queue :: "'a list"

definition tsq_new :: "'a ts_queue" where "tsq_new = \<lparr>tsq_queue = []\<rparr>"

definition tsq_push :: "'a \<Rightarrow> 'a ts_queue \<Rightarrow> 'a ts_queue" where
  "tsq_push v q = q\<lparr>tsq_queue := tsq_queue q @ [v]\<rparr>"

definition tsq_pop :: "'a ts_queue \<Rightarrow> 'a option \<times> 'a ts_queue" where
  "tsq_pop q =
     (case tsq_queue q of [] \<Rightarrow> (None, q) | v # vs \<Rightarrow> (Some v, q\<lparr>tsq_queue := vs\<rparr>))"

definition tsq_empty :: "'a ts_queue \<Rightarrow> bool" where "tsq_empty q \<longleftrightarrow> tsq_queue q = []"
definition tsq_size :: "'a ts_queue \<Rightarrow> nat" where "tsq_size q = length (tsq_queue q)"

record 'a concurrent_queue =
  cq_queue :: "'a list"

definition cq_new :: "'a concurrent_queue" where "cq_new = \<lparr>cq_queue = []\<rparr>"

definition cq_push :: "'a \<Rightarrow> 'a concurrent_queue \<Rightarrow> 'a concurrent_queue" where
  "cq_push v q = q\<lparr>cq_queue := cq_queue q @ [v]\<rparr>"

text \<open>\<open>bool pop(T& a)\<close>; \<open>a\<close> is the variable of the caller.\<close>

definition cq_pop :: "'a \<Rightarrow> 'a concurrent_queue \<Rightarrow> bool \<times> 'a \<times> 'a concurrent_queue" where
  "cq_pop a q =
     (case cq_queue q of
        [] \<Rightarrow> (False, a, q)
      | v # vs \<Rightarrow> (True, v, q\<lparr>cq_queue := vs\<rparr>))"

section \<open>The contract\<close>

datatype 'a queue_op = Push 'a | Pop

text \<open>A run of the operations of several threads: the values that came out, and the queue after it.\<close>

primrec queue_run ::
    "('a \<Rightarrow> 'q \<Rightarrow> 'q) \<Rightarrow> ('q \<Rightarrow> 'a option \<times> 'q) \<Rightarrow> 'a queue_op list \<Rightarrow> 'q \<Rightarrow> 'a list \<times> 'q" where
  "queue_run push pop [] q = ([], q)"
| "queue_run push pop (c # cs) q =
     (case c of
        Push v \<Rightarrow> queue_run push pop cs (push v q)
      | Pop \<Rightarrow>
          (case pop q of
             (None, q') \<Rightarrow> queue_run push pop cs q'
           | (Some v, q') \<Rightarrow> (case queue_run push pop cs q' of (vs, q'') \<Rightarrow> (v # vs, q''))))"

primrec pushed_values :: "'a queue_op list \<Rightarrow> 'a list" where
  "pushed_values [] = []"
| "pushed_values (c # cs) = (case c of Push v \<Rightarrow> v # pushed_values cs | Pop \<Rightarrow> pushed_values cs)"

locale fifo =
  fixes items :: "'q \<Rightarrow> 'a list"
    and push :: "'a \<Rightarrow> 'q \<Rightarrow> 'q"
    and pop :: "'q \<Rightarrow> 'a option \<times> 'q"
  assumes items_push: "items (push v q) = items q @ [v]"
    and pop_nil: "items q = [] \<Longrightarrow> fst (pop q) = None \<and> items (snd (pop q)) = []"
    and pop_cons: "items q = v # vs \<Longrightarrow> fst (pop q) = Some v \<and> items (snd (pop q)) = vs"
begin

lemma run_order: "fst (queue_run push pop cs q) @ items (snd (queue_run push pop cs q)) = items q @ pushed_values cs"
proof (induction cs arbitrary: q)
  case (Cons c cs)
  show ?case
  proof (cases c)
    case (Push v)
    then show ?thesis using Cons.IH[of "push v q"] by (simp add: items_push)
  next
    case Pop
    obtain r q' where p: "pop q = (r, q')" by fastforce
    show ?thesis
    proof (cases "items q")
      case Nil
      then have "r = None" "items q' = []" using pop_nil[OF Nil] p by auto
      then show ?thesis using Cons.IH[of q'] by (simp add: Pop p Nil)
    next
      case (Cons v vs)
      then have "r = Some v" "items q' = vs" using pop_cons[OF Cons] p by auto
      then show ?thesis using Cons.IH[of q'] by (simp add: Pop p Cons case_prod_beta)
    qed
  qed
qed simp

end

interpretation tsq: fifo tsq_queue tsq_push tsq_pop
  by unfold_locales (simp_all add: tsq_push_def tsq_pop_def)

definition cq_take :: "'a concurrent_queue \<Rightarrow> 'a option \<times> 'a concurrent_queue" where
  "cq_take q =
     (case cq_queue q of
        [] \<Rightarrow> (None, q)
      | v # _ \<Rightarrow> (case cq_pop v q of (got, a, q') \<Rightarrow> (if got then Some a else None, q')))"

interpretation cq: fifo cq_queue cq_push cq_take
  by unfold_locales (simp_all add: cq_push_def cq_take_def cq_pop_def)

section \<open>The loop that empties a queue\<close>

text \<open>\<open>while (auto task = queue.pop()) (*task)();\<close> for tasks that do not push to the queue.\<close>

function process_all :: "('a \<Rightarrow> 's \<Rightarrow> 's) \<Rightarrow> 'a ts_queue \<Rightarrow> 's \<Rightarrow> 's \<times> 'a ts_queue" where
  "process_all f q s =
     (case tsq_pop q of
        (None, q') \<Rightarrow> (s, q')
      | (Some task, q') \<Rightarrow> process_all f q' (f task s))"
  by pat_completeness auto
termination
  by (relation "measure (\<lambda>(f, q, s). tsq_size q)")
    (auto simp: tsq_pop_def tsq_size_def split: list.splits)

declare process_all.simps [simp del]

lemma process_all_fold: "process_all f q s = (fold f (tsq_queue q) s, q\<lparr>tsq_queue := []\<rparr>)"
proof (induction f q s rule: process_all.induct)
  case (1 f q s)
  show ?case
  proof (cases "tsq_queue q")
    case Nil
    then have "q\<lparr>tsq_queue := []\<rparr> = q" by (cases q) simp
    with Nil show ?thesis by (simp add: process_all.simps[of f q s] tsq_pop_def)
  next
    case (Cons v vs)
    then have "tsq_pop q = (Some v, q\<lparr>tsq_queue := vs\<rparr>)" by (simp add: tsq_pop_def)
    with 1[OF this[symmetric]] Cons show ?thesis by (simp add: process_all.simps[of f q s])
  qed
qed

text \<open>Whatever the threads interleave, the values that come out of either queue, followed by
  those still in it, are the values that went in, in their order: none is lost, repeated or
  overtaken.\<close>

theorem queues_are_fifo:
  "(case queue_run tsq_push tsq_pop cs tsq_new of
      (out, q) \<Rightarrow> out @ tsq_queue q = pushed_values cs) \<and>
   (case queue_run cq_push cq_take ds cq_new of
      (out, q) \<Rightarrow> out @ cq_queue q = pushed_values ds)"
  using tsq.run_order[of cs tsq_new] cq.run_order[of ds cq_new]
  by (simp add: tsq_new_def cq_new_def case_prod_beta)

end
