(* ===== verification/GamePackets.thy ===== *)
theory GamePackets
  imports PacketStream
begin

text \<open>
  The packets of the game (\<^verbatim>\<open>common/packets/client\<close>, \<^verbatim>\<open>common/packets/server\<close>,
  \<^verbatim>\<open>common/enums/packets.hpp\<close>): one record per struct with its traits and its \<open>serialize\<close>
  member, as a writer and as a reader, and the variants that the two applications send.  A
  \<open>float\<close> is its bit pattern.  \<open>codec_for\<close> says that a writer and a reader obey the contract
  \<open>wire_codec\<close> for some encoding.
\<close>

section \<open>Codecs without their encoding\<close>

definition codec_for :: "('a \<Rightarrow> bool) \<Rightarrow> 'a writer \<Rightarrow> 'a reader \<Rightarrow> bool" where
  "codec_for ok wr rd \<longleftrightarrow> (\<exists>enc. wire_codec ok enc wr rd)"

lemma codec_pod:
  "codec_for (\<lambda>_. True) (write_pod :: u8 writer) read_pod"
  "codec_for (\<lambda>_. True) (write_pod :: u16 writer) read_pod"
  "codec_for (\<lambda>_. True) (write_pod :: u32 writer) read_pod"
  "codec_for (\<lambda>_. True) (write_pod :: u64 writer) read_pod"
  using u8.wire_codec_axioms u16.wire_codec_axioms u32.wire_codec_axioms u64.wire_codec_axioms
  by (auto simp: codec_for_def)

lemma codec_string: "codec_for (\<lambda>s. length s \<le> 65535) write_string read_string"
  using string_codec by (auto simp: codec_for_def)

lemma codec_vector:
  "codec_for ok wr rd \<Longrightarrow> codec_for (short_list ok) (write_vector wr) (read_vector rd)"
  unfolding codec_for_def using wire_codec.vector_codec by blast

lemma codec_then:
  "codec_for oa wa ra \<Longrightarrow> codec_for ob wb rb \<Longrightarrow>
   codec_for (ok_then oa ob) (write_then wa wb) (read_then ra rb)"
  unfolding codec_for_def using then_codec by blast

lemma codec_record:
  assumes "codec_for ok wr rd" and "\<And>m. g (f m) = m"
  shows "codec_for (\<lambda>m. ok (f m)) (\<lambda>m. wr (f m)) (rd_bind rd (\<lambda>x. rd_return (g x)))"
  using assms wire_codec.record_codec[of ok _ wr rd g f] unfolding codec_for_def by blast

lemma codec_weaken:
  assumes "codec_for ok wr rd" and "\<And>x. ok' x \<Longrightarrow> ok x"
  shows "codec_for ok' wr rd"
proof -
  obtain enc where "wire_codec ok enc wr rd" using assms(1) by (auto simp: codec_for_def)
  then have "wire_codec ok' enc wr rd"
    using assms(2) by (simp add: wire_codec_def)
  then show ?thesis by (auto simp: codec_for_def)
qed

lemma codec_for_roundtrip:
  assumes "codec_for ok wr rd" and "ok m"
  shows "\<exists>q r. wr m (new_packet i f c) = Inr q \<and> p_messageId q = i \<and> rd q = (Inr m, r) \<and> unread r = []"
proof -
  obtain enc where codec: "wire_codec ok enc wr rd" using assms(1) by (auto simp: codec_for_def)
  let ?p = "new_packet i f c"
  have "wr m ?p = Inr (append_bytes (enc m) ?p)"
    using codec assms(2) by (rule wire_codec.wr_enc)
  moreover have "rd (append_bytes (enc m) ?p) = (Inr m, advance (length (enc m)) (append_bytes (enc m) ?p))"
    using wire_codec.rd_enc[OF codec assms(2), of "append_bytes (enc m) ?p" "[]"]
    by (simp add: unread_def)
  ultimately show ?thesis by (simp add: unread_def)
qed

section \<open>Identifiers\<close>

datatype client_type = kJoin | kStart | kUserInput

datatype server_type =
  kJoinAck | kPlayerJoin | kSpawn | kDestroy | kUpdateEntityState | kUpdatePosition | kUpdateHealth
| kUpdateGameState | kWorldInit | kLobbyList | kLobbyListAck

primrec client_type_id :: "client_type \<Rightarrow> u16" where
  "client_type_id kJoin = 0x128"
| "client_type_id kStart = 0x129"
| "client_type_id kUserInput = 0x12A"

primrec server_type_id :: "server_type \<Rightarrow> u16" where
  "server_type_id kJoinAck = 0x150"
| "server_type_id kPlayerJoin = 0x151"
| "server_type_id kSpawn = 0x152"
| "server_type_id kDestroy = 0x153"
| "server_type_id kUpdateEntityState = 0x154"
| "server_type_id kUpdatePosition = 0x155"
| "server_type_id kUpdateHealth = 0x156"
| "server_type_id kUpdateGameState = 0x157"
| "server_type_id kWorldInit = 0x158"
| "server_type_id kLobbyList = 0x159"
| "server_type_id kLobbyListAck = 0x15A"

type_synonym entity_id = u64

definition user_traits :: "u16 \<Rightarrow> flag \<Rightarrow> packet_traits" where
  "user_traits i f = \<lparr>t_kId = i, t_kChannel = None, t_kFlag = Some f\<rparr>"

section \<open>Packets of the client\<close>

text \<open>An empty struct is written and read without touching the packet.\<close>

record join_msg =
  join_username :: bytes
  join_room_id :: u16

definition join_traits :: packet_traits where
  "join_traits = user_traits (client_type_id kJoin) kUnreliable"
definition write_join :: "join_msg writer" where
  "write_join m = write_then write_string write_pod (join_username m, join_room_id m)"
definition read_join :: "join_msg reader" where
  "read_join = rd_bind (read_then read_string read_pod)
     (\<lambda>x. rd_return \<lparr>join_username = fst x, join_room_id = snd x\<rparr>)"

text \<open>\<open>Start\<close> is empty.\<close>

definition start_traits :: packet_traits where
  "start_traits = user_traits (client_type_id kStart) kUnreliable"

definition user_input_traits :: packet_traits where
  "user_input_traits = user_traits (client_type_id kUserInput) kUnreliable"
record user_input_msg = input_mask :: u8
definition write_user_input :: "user_input_msg writer" where
  "write_user_input m = write_pod (input_mask m)"
definition read_user_input :: "user_input_msg reader" where
  "read_user_input = rd_bind read_pod (\<lambda>x. rd_return \<lparr>input_mask = x\<rparr>)"

definition lobby_list_traits :: packet_traits where
  "lobby_list_traits = user_traits (server_type_id kLobbyList) kReliable"
record lobby_list_msg = ll_page :: u32
definition write_lobby_list :: "lobby_list_msg writer" where
  "write_lobby_list m = write_pod (ll_page m)"
definition read_lobby_list :: "lobby_list_msg reader" where
  "read_lobby_list = rd_bind read_pod (\<lambda>x. rd_return \<lparr>ll_page = x\<rparr>)"

section \<open>Packets of the server\<close>

record destroy_msg =
  de_id :: entity_id
  earned_points :: u32

definition destroy_traits :: packet_traits where
  "destroy_traits = user_traits (server_type_id kDestroy) kUnreliable"
definition write_destroy :: "destroy_msg writer" where
  "write_destroy m = write_then write_pod write_pod (de_id m, earned_points m)"
definition read_destroy :: "destroy_msg reader" where
  "read_destroy = rd_bind (read_then read_pod read_pod)
     (\<lambda>x. rd_return \<lparr>de_id = fst x, earned_points = snd x\<rparr>)"

record join_ack_msg =
  ja_id :: entity_id
  ja_roomId :: u16
  ja_gameState :: u64
  ja_status :: u8

definition join_ack_traits :: packet_traits where
  "join_ack_traits = user_traits (server_type_id kJoinAck) kReliable"
definition write_join_ack :: "join_ack_msg writer" where
  "write_join_ack m =
     write_then write_pod (write_then write_pod (write_then write_pod write_pod))
       (ja_id m, ja_roomId m, ja_gameState m, ja_status m)"
definition read_join_ack :: "join_ack_msg reader" where
  "read_join_ack = rd_bind (read_then read_pod (read_then read_pod (read_then read_pod read_pod)))
     (\<lambda>x. rd_return (case x of (i, r, g, s) \<Rightarrow>
        \<lparr>ja_id = i, ja_roomId = r, ja_gameState = g, ja_status = s\<rparr>))"

record lobby_list_ack_msg =
  la_roomIds :: "u16 list"
  la_page :: u32
  la_maxPage :: u32

definition lobby_list_ack_traits :: packet_traits where
  "lobby_list_ack_traits = user_traits (server_type_id kLobbyListAck) kReliable"
definition write_lobby_list_ack :: "lobby_list_ack_msg writer" where
  "write_lobby_list_ack m =
     write_then (write_vector write_pod) (write_then write_pod write_pod)
       (la_roomIds m, la_page m, la_maxPage m)"
definition read_lobby_list_ack :: "lobby_list_ack_msg reader" where
  "read_lobby_list_ack = rd_bind (read_then (read_vector read_pod) (read_then read_pod read_pod))
     (\<lambda>x. rd_return (case x of (r, p, m) \<Rightarrow> \<lparr>la_roomIds = r, la_page = p, la_maxPage = m\<rparr>))"

record spawn_msg =
  sp_id :: entity_id
  sp_bitmask :: "u64 list"
  sp_content :: bytes

definition spawn_traits :: packet_traits where
  "spawn_traits = user_traits (server_type_id kSpawn) kReliable"
definition write_spawn :: "spawn_msg writer" where
  "write_spawn m =
     write_then write_pod (write_then (write_vector write_pod) (write_vector write_pod))
       (sp_id m, sp_bitmask m, sp_content m)"
definition read_spawn :: "spawn_msg reader" where
  "read_spawn = rd_bind (read_then read_pod (read_then (read_vector read_pod) (read_vector read_pod)))
     (\<lambda>x. rd_return (case x of (i, b, c) \<Rightarrow> \<lparr>sp_id = i, sp_bitmask = b, sp_content = c\<rparr>))"

record update_entity_state_msg =
  us_id :: entity_id
  us_state :: u8

definition update_entity_state_traits :: packet_traits where
  "update_entity_state_traits = user_traits (server_type_id kUpdateEntityState) kReliable"
definition write_update_entity_state :: "update_entity_state_msg writer" where
  "write_update_entity_state m = write_then write_pod write_pod (us_id m, us_state m)"
definition read_update_entity_state :: "update_entity_state_msg reader" where
  "read_update_entity_state = rd_bind (read_then read_pod read_pod)
     (\<lambda>x. rd_return \<lparr>us_id = fst x, us_state = snd x\<rparr>)"

record update_game_state_msg = ug_gameState :: u64

definition update_game_state_traits :: packet_traits where
  "update_game_state_traits = user_traits (server_type_id kUpdateGameState) kReliable"
definition write_update_game_state :: "update_game_state_msg writer" where
  "write_update_game_state m = write_pod (ug_gameState m)"
definition read_update_game_state :: "update_game_state_msg reader" where
  "read_update_game_state = rd_bind read_pod (\<lambda>x. rd_return \<lparr>ug_gameState = x\<rparr>)"

record update_health_msg =
  uh_id :: entity_id
  uh_health :: u32

definition update_health_traits :: packet_traits where
  "update_health_traits = user_traits (server_type_id kUpdateHealth) kUnreliable"
definition write_update_health :: "update_health_msg writer" where
  "write_update_health m = write_then write_pod write_pod (uh_id m, uh_health m)"
definition read_update_health :: "update_health_msg reader" where
  "read_update_health = rd_bind (read_then read_pod read_pod)
     (\<lambda>x. rd_return \<lparr>uh_id = fst x, uh_health = snd x\<rparr>)"

record update_position_msg =
  up_id :: entity_id
  up_x :: u32
  up_y :: u32
  up_vx :: u32
  up_vy :: u32

definition update_position_traits :: packet_traits where
  "update_position_traits = user_traits (server_type_id kUpdatePosition) kUnreliable"
definition write_update_position :: "update_position_msg writer" where
  "write_update_position m =
     write_then write_pod (write_then write_pod (write_then write_pod (write_then write_pod write_pod)))
       (up_id m, up_x m, up_y m, up_vx m, up_vy m)"
definition read_update_position :: "update_position_msg reader" where
  "read_update_position =
     rd_bind (read_then read_pod (read_then read_pod (read_then read_pod (read_then read_pod read_pod))))
     (\<lambda>p. rd_return (case p of (i, x, y, vx, vy) \<Rightarrow>
        \<lparr>up_id = i, up_x = x, up_y = y, up_vx = vx, up_vy = vy\<rparr>))"

record world_init_msg =
  wi_state :: u8
  wi_bitsets :: "u64 list list"
  wi_ids :: "entity_id list"
  wi_entities :: "bytes list"

definition world_init_traits :: packet_traits where
  "world_init_traits = user_traits (server_type_id kWorldInit) kReliable"
definition write_world_init :: "world_init_msg writer" where
  "write_world_init m =
     write_then write_pod (write_then (write_vector (write_vector write_pod))
       (write_then (write_vector write_pod) (write_vector (write_vector write_pod))))
       (wi_state m, wi_bitsets m, wi_ids m, wi_entities m)"
definition read_world_init :: "world_init_msg reader" where
  "read_world_init =
     rd_bind (read_then read_pod (read_then (read_vector (read_vector read_pod))
       (read_then (read_vector read_pod) (read_vector (read_vector read_pod)))))
     (\<lambda>x. rd_return (case x of (s, b, i, e) \<Rightarrow>
        \<lparr>wi_state = s, wi_bitsets = b, wi_ids = i, wi_entities = e\<rparr>))"

section \<open>The variants that the applications send\<close>

text \<open>\<open>packet::server::Variant\<close>, \<open>packet::Variant\<close> of the client, and \<open>LobbyListAck\<close>, which the
  server sends by itself.\<close>

datatype server_variant =
    V_Destroy destroy_msg
  | V_JoinAck join_ack_msg
  | V_Spawn spawn_msg
  | V_UpdateEntityState update_entity_state_msg
  | V_UpdateGameState update_game_state_msg
  | V_UpdateHealth update_health_msg
  | V_UpdatePosition update_position_msg
  | V_WorldInit world_init_msg

datatype client_variant =
    V_Join join_msg
  | V_Start
  | V_UserInput user_input_msg
  | V_LobbyList lobby_list_msg

datatype game_message =
    To_client server_variant
  | To_client_list lobby_list_ack_msg
  | To_server client_variant

text \<open>\<open>std::visit\<close> with \<open>send(p)\<close>: the traits and the writer of the alternative that is held.\<close>

primrec server_variant_packet :: "server_variant \<Rightarrow> rt_error + packet" where
  "server_variant_packet (V_Destroy m) = make_packet destroy_traits write_destroy m"
| "server_variant_packet (V_JoinAck m) = make_packet join_ack_traits write_join_ack m"
| "server_variant_packet (V_Spawn m) = make_packet spawn_traits write_spawn m"
| "server_variant_packet (V_UpdateEntityState m) =
     make_packet update_entity_state_traits write_update_entity_state m"
| "server_variant_packet (V_UpdateGameState m) =
     make_packet update_game_state_traits write_update_game_state m"
| "server_variant_packet (V_UpdateHealth m) = make_packet update_health_traits write_update_health m"
| "server_variant_packet (V_UpdatePosition m) =
     make_packet update_position_traits write_update_position m"
| "server_variant_packet (V_WorldInit m) = make_packet world_init_traits write_world_init m"

primrec client_variant_packet :: "client_variant \<Rightarrow> rt_error + packet" where
  "client_variant_packet (V_Join m) = make_packet join_traits write_join m"
| "client_variant_packet V_Start = make_packet start_traits write_empty ()"
| "client_variant_packet (V_UserInput m) = make_packet user_input_traits write_user_input m"
| "client_variant_packet (V_LobbyList m) = make_packet lobby_list_traits write_lobby_list m"

primrec message_packet :: "game_message \<Rightarrow> rt_error + packet" where
  "message_packet (To_client v) = server_variant_packet v"
| "message_packet (To_client_list m) = make_packet lobby_list_ack_traits write_lobby_list_ack m"
| "message_packet (To_server v) = client_variant_packet v"

text \<open>The reader that the receiving dispatcher has bound to each identifier.\<close>

definition read_as :: "('a \<Rightarrow> game_message) \<Rightarrow> 'a reader \<Rightarrow> game_message reader" where
  "read_as mk rd = rd_bind rd (\<lambda>m. rd_return (mk m))"

definition bound_readers :: "(u16 \<times> game_message reader) list" where
  "bound_readers =
     [(t_kId destroy_traits, read_as (To_client \<circ> V_Destroy) read_destroy),
      (t_kId join_ack_traits, read_as (To_client \<circ> V_JoinAck) read_join_ack),
      (t_kId lobby_list_ack_traits, read_as To_client_list read_lobby_list_ack),
      (t_kId spawn_traits, read_as (To_client \<circ> V_Spawn) read_spawn),
      (t_kId update_entity_state_traits,
         read_as (To_client \<circ> V_UpdateEntityState) read_update_entity_state),
      (t_kId update_game_state_traits, read_as (To_client \<circ> V_UpdateGameState) read_update_game_state),
      (t_kId update_health_traits, read_as (To_client \<circ> V_UpdateHealth) read_update_health),
      (t_kId update_position_traits, read_as (To_client \<circ> V_UpdatePosition) read_update_position),
      (t_kId world_init_traits, read_as (To_client \<circ> V_WorldInit) read_world_init),
      (t_kId user_input_traits, read_as (To_server \<circ> V_UserInput) read_user_input),
      (t_kId join_traits, read_as (To_server \<circ> V_Join) read_join),
      (t_kId start_traits, read_as (\<lambda>_. To_server V_Start) read_empty),
      (t_kId lobby_list_traits, read_as (To_server \<circ> V_LobbyList) read_lobby_list)]"

definition read_message :: "packet \<Rightarrow> (rt_error + game_message) option" where
  "read_message p = map_option (\<lambda>rd. fst (rd p)) (map_of bound_readers (p_messageId p))"

text \<open>The values that fit: every length within the two-byte counts.\<close>

primrec server_variant_fits :: "server_variant \<Rightarrow> bool" where
  "server_variant_fits (V_Destroy m) = True"
| "server_variant_fits (V_JoinAck m) = True"
| "server_variant_fits (V_Spawn m) =
     (length (sp_bitmask m) \<le> 65535 \<and> length (sp_content m) \<le> 65535)"
| "server_variant_fits (V_UpdateEntityState m) = True"
| "server_variant_fits (V_UpdateGameState m) = True"
| "server_variant_fits (V_UpdateHealth m) = True"
| "server_variant_fits (V_UpdatePosition m) = True"
| "server_variant_fits (V_WorldInit m) =
     (short_list (short_list (\<lambda>_. True)) (wi_bitsets m) \<and> length (wi_ids m) \<le> 65535 \<and>
      short_list (short_list (\<lambda>_. True)) (wi_entities m))"

primrec client_variant_fits :: "client_variant \<Rightarrow> bool" where
  "client_variant_fits (V_Join m) = (length (join_username m) \<le> 65535)"
| "client_variant_fits V_Start = True"
| "client_variant_fits (V_UserInput m) = True"
| "client_variant_fits (V_LobbyList m) = True"

primrec message_fits :: "game_message \<Rightarrow> bool" where
  "message_fits (To_client v) = server_variant_fits v"
| "message_fits (To_client_list m) = (length (la_roomIds m) \<le> 65535)"
| "message_fits (To_server v) = client_variant_fits v"

section \<open>Codecs of the packets\<close>

lemma codec_empty: "codec_for (\<lambda>_. True) write_empty read_empty"
  unfolding codec_for_def
  by (rule exI[of _ "\<lambda>_. []"]) (simp add: wire_codec_def write_empty_def read_empty_def)

lemmas codecs = codec_pod codec_string codec_vector codec_then

lemma join_codec: "codec_for (\<lambda>m. length (join_username m) \<le> 65535) write_join read_join"
  unfolding write_join_def read_join_def
  by (rule codec_weaken, rule codec_record, (rule codecs)+) (simp_all add: ok_then_def)

lemma user_input_codec: "codec_for (\<lambda>_. True) write_user_input read_user_input"
  unfolding write_user_input_def read_user_input_def
  by (rule codec_weaken, rule codec_record, (rule codecs)+) simp_all

lemma lobby_list_codec: "codec_for (\<lambda>_. True) write_lobby_list read_lobby_list"
  unfolding write_lobby_list_def read_lobby_list_def
  by (rule codec_weaken, rule codec_record, (rule codecs)+) simp_all

lemma destroy_codec: "codec_for (\<lambda>_. True) write_destroy read_destroy"
  unfolding write_destroy_def read_destroy_def
  by (rule codec_weaken, rule codec_record, (rule codecs)+) (simp_all add: ok_then_def)

lemma join_ack_codec: "codec_for (\<lambda>_. True) write_join_ack read_join_ack"
  unfolding write_join_ack_def read_join_ack_def
  by (rule codec_weaken, rule codec_record, (rule codecs)+) (simp_all add: ok_then_def)

lemma lobby_list_ack_codec:
  "codec_for (\<lambda>m. length (la_roomIds m) \<le> 65535) write_lobby_list_ack read_lobby_list_ack"
  unfolding write_lobby_list_ack_def read_lobby_list_ack_def
  by (rule codec_weaken, rule codec_record, (rule codecs)+) (simp_all add: ok_then_def short_list_def)

lemma spawn_codec:
  "codec_for (\<lambda>m. length (sp_bitmask m) \<le> 65535 \<and> length (sp_content m) \<le> 65535) write_spawn read_spawn"
  unfolding write_spawn_def read_spawn_def
  by (rule codec_weaken, rule codec_record, (rule codecs)+) (simp_all add: ok_then_def short_list_def)

lemma update_entity_state_codec:
  "codec_for (\<lambda>_. True) write_update_entity_state read_update_entity_state"
  unfolding write_update_entity_state_def read_update_entity_state_def
  by (rule codec_weaken, rule codec_record, (rule codecs)+) (simp_all add: ok_then_def)

lemma update_game_state_codec: "codec_for (\<lambda>_. True) write_update_game_state read_update_game_state"
  unfolding write_update_game_state_def read_update_game_state_def
  by (rule codec_weaken, rule codec_record, (rule codecs)+) simp_all

lemma update_health_codec: "codec_for (\<lambda>_. True) write_update_health read_update_health"
  unfolding write_update_health_def read_update_health_def
  by (rule codec_weaken, rule codec_record, (rule codecs)+) (simp_all add: ok_then_def)

lemma update_position_codec: "codec_for (\<lambda>_. True) write_update_position read_update_position"
  unfolding write_update_position_def read_update_position_def
  by (rule codec_weaken, rule codec_record, (rule codecs)+) (simp_all add: ok_then_def)

lemma world_init_codec:
  "codec_for (\<lambda>m. short_list (short_list (\<lambda>_. True)) (wi_bitsets m) \<and> length (wi_ids m) \<le> 65535 \<and>
      short_list (short_list (\<lambda>_. True)) (wi_entities m)) write_world_init read_world_init"
  unfolding write_world_init_def read_world_init_def
  by (rule codec_weaken, rule codec_record, (rule codecs)+) (simp_all add: ok_then_def short_list_def)

lemmas traits_defs =
  join_traits_def start_traits_def user_input_traits_def lobby_list_traits_def destroy_traits_def
  join_ack_traits_def lobby_list_ack_traits_def spawn_traits_def update_entity_state_traits_def
  update_game_state_traits_def update_health_traits_def update_position_traits_def
  world_init_traits_def user_traits_def

lemma bound_message:
  assumes "codec_for ok wr rd" and "ok m" and "map_of bound_readers (t_kId t) = Some (read_as mk rd)"
  shows "\<exists>p. make_packet t wr m = Inr p \<and> p_messageId p = t_kId t \<and> read_message p = Some (Inr (mk m))"
proof -
  obtain q r where "make_packet t wr m = Inr q" "p_messageId q = t_kId t" "rd q = (Inr m, r)"
    using codec_for_roundtrip[OF assms(1,2), of "t_kId t" "getFlag t" "getChannelId t"]
    by (auto simp: make_packet_def)
  with assms(3) show ?thesis
    by (simp add: read_message_def read_as_def rd_bind_Inr rd_return_def)
qed

lemma bound_ids:
  "map_of bound_readers (t_kId destroy_traits) = Some (read_as (To_client \<circ> V_Destroy) read_destroy)"
  "map_of bound_readers (t_kId join_ack_traits) = Some (read_as (To_client \<circ> V_JoinAck) read_join_ack)"
  "map_of bound_readers (t_kId lobby_list_ack_traits) = Some (read_as To_client_list read_lobby_list_ack)"
  "map_of bound_readers (t_kId spawn_traits) = Some (read_as (To_client \<circ> V_Spawn) read_spawn)"
  "map_of bound_readers (t_kId update_entity_state_traits) =
     Some (read_as (To_client \<circ> V_UpdateEntityState) read_update_entity_state)"
  "map_of bound_readers (t_kId update_game_state_traits) =
     Some (read_as (To_client \<circ> V_UpdateGameState) read_update_game_state)"
  "map_of bound_readers (t_kId update_health_traits) =
     Some (read_as (To_client \<circ> V_UpdateHealth) read_update_health)"
  "map_of bound_readers (t_kId update_position_traits) =
     Some (read_as (To_client \<circ> V_UpdatePosition) read_update_position)"
  "map_of bound_readers (t_kId world_init_traits) =
     Some (read_as (To_client \<circ> V_WorldInit) read_world_init)"
  "map_of bound_readers (t_kId user_input_traits) =
     Some (read_as (To_server \<circ> V_UserInput) read_user_input)"
  "map_of bound_readers (t_kId join_traits) = Some (read_as (To_server \<circ> V_Join) read_join)"
  "map_of bound_readers (t_kId start_traits) = Some (read_as (\<lambda>_. To_server V_Start) read_empty)"
  "map_of bound_readers (t_kId lobby_list_traits) =
     Some (read_as (To_server \<circ> V_LobbyList) read_lobby_list)"
  by (simp_all add: bound_readers_def traits_defs)

lemma server_variant_roundtrip:
  assumes "server_variant_fits v"
  shows "\<exists>p. server_variant_packet v = Inr p \<and> read_message p = Some (Inr (To_client v))"
proof (cases v)
  case (V_Destroy m)
  with assms show ?thesis using bound_message[OF destroy_codec _ bound_ids(1), of m] by auto
next
  case (V_JoinAck m)
  with assms show ?thesis using bound_message[OF join_ack_codec _ bound_ids(2), of m] by auto
next
  case (V_Spawn m)
  with assms show ?thesis using bound_message[OF spawn_codec _ bound_ids(4), of m] by auto
next
  case (V_UpdateEntityState m)
  with assms show ?thesis using bound_message[OF update_entity_state_codec _ bound_ids(5), of m] by auto
next
  case (V_UpdateGameState m)
  with assms show ?thesis using bound_message[OF update_game_state_codec _ bound_ids(6), of m] by auto
next
  case (V_UpdateHealth m)
  with assms show ?thesis using bound_message[OF update_health_codec _ bound_ids(7), of m] by auto
next
  case (V_UpdatePosition m)
  with assms show ?thesis using bound_message[OF update_position_codec _ bound_ids(8), of m] by auto
next
  case (V_WorldInit m)
  with assms show ?thesis using bound_message[OF world_init_codec _ bound_ids(9), of m] by auto
qed

lemma client_variant_roundtrip:
  assumes "client_variant_fits v"
  shows "\<exists>p. client_variant_packet v = Inr p \<and> read_message p = Some (Inr (To_server v))"
proof (cases v)
  case (V_Join m)
  with assms show ?thesis using bound_message[OF join_codec _ bound_ids(11), of m] by auto
next
  case V_Start
  with assms show ?thesis using bound_message[OF codec_empty _ bound_ids(12), of "()"] by auto
next
  case (V_UserInput m)
  with assms show ?thesis using bound_message[OF user_input_codec _ bound_ids(10), of m] by auto
next
  case (V_LobbyList m)
  with assms show ?thesis using bound_message[OF lobby_list_codec _ bound_ids(13), of m] by auto
qed

text \<open>C25: every packet of the game whose lengths fit the two-byte counts is written without an
  error and read back unchanged by the reader that its identifier selects.\<close>

theorem game_packets_roundtrip:
  assumes "message_fits m"
  shows "\<exists>p. message_packet m = Inr p \<and> read_message p = Some (Inr m)"
proof (cases m)
  case (To_client v)
  then show ?thesis using assms server_variant_roundtrip[of v] by simp
next
  case (To_client_list l)
  then show ?thesis
    using assms bound_message[OF lobby_list_ack_codec _ bound_ids(3), of l] by auto
next
  case (To_server v)
  then show ?thesis using assms client_variant_roundtrip[of v] by simp
qed

theorem game_packets_roundtrip_witness:
  "\<exists>p. message_packet (To_client (V_Spawn \<lparr>sp_id = 4, sp_bitmask = [1, 8], sp_content = [0, 7]\<rparr>)) = Inr p \<and>
     read_message p = Some (Inr (To_client (V_Spawn \<lparr>sp_id = 4, sp_bitmask = [1, 8], sp_content = [0, 7]\<rparr>)))"
  by (rule game_packets_roundtrip) simp

text \<open>What the receiver of a packet reads.\<close>

lemma codec_received:
  assumes "codec_for ok wr rd" and "ok m" and "make_packet t wr m = Inr p" and "unread q = p_buffer p"
  shows "p_messageId p = t_kId t" and "\<exists>r. rd q = (Inr m, r)"
proof -
  obtain enc where codec: "wire_codec ok enc wr rd" using assms(1) by (auto simp: codec_for_def)
  have p: "p = append_bytes (enc m) (new_packet (t_kId t) (getFlag t) (getChannelId t))"
    using assms(3) wire_codec.wr_enc[OF codec assms(2)] by (simp add: make_packet_def)
  then show "p_messageId p = t_kId t" by simp
  have "unread q = enc m @ []" using assms(4) p by simp
  from wire_codec.rd_enc[OF codec assms(2) this] show "\<exists>r. rd q = (Inr m, r)" by blast
qed

end
