(* ===== verification/Float32.thy ===== *)
theory Float32
  imports Prelude
begin

text \<open>
  The type \<open>float\<close> of the code, IEEE 754 binary32 with rounding to the nearest and ties to even,
  on bit patterns.  A finite number is an integer multiple of the least subnormal, so its value is
  the integer \<open>f32_scaled\<close>: the value times \<open>2 ^ 149\<close>.  Every operation computes the exact result
  and rounds it once.  A NaN result is always the same quiet NaN.
\<close>

type_synonym float32 = u32

section \<open>Encoding\<close>

datatype fnum = FNaN | FInf bool | FNum bool nat nat

text \<open>\<open>FNum s m j\<close> is \<open>(-1)^s * m * 2^j\<close> least subnormals.\<close>

definition f32_unpack :: "float32 \<Rightarrow> fnum" where
  "f32_unpack w =
     (let n = unat w; s = (n \<ge> 2 ^ 31); r = n mod 2 ^ 31; ex = r div 2 ^ 23; m = r mod 2 ^ 23 in
      if ex = 255 then (if m = 0 then FInf s else FNaN)
      else if ex = 0 then FNum s m 0
      else FNum s (m + 2 ^ 23) (ex - 1))"

definition f32_nan :: float32 where "f32_nan = 0x7FC00000"
definition f32_inf :: "bool \<Rightarrow> float32" where "f32_inf s = (if s then 0xFF800000 else 0x7F800000)"
definition f32_zero :: "bool \<Rightarrow> float32" where "f32_zero s = (if s then 0x80000000 else 0)"

fun bit_length :: "nat \<Rightarrow> nat" where
  "bit_length n = (if n = 0 then 0 else Suc (bit_length (n div 2)))"

declare bit_length.simps [simp del]

definition round_half_even :: "nat \<Rightarrow> nat \<Rightarrow> nat" where
  "round_half_even n d =
     (let q = n div d; r = n mod d in if 2 * r > d \<or> (2 * r = d \<and> odd q) then q + 1 else q)"

text \<open>The encoding of \<open>m * 2^j\<close> least subnormals for a significand of at most 24 bits, or the
  infinity; \<open>m = 2^24\<close> carries into the exponent by itself.\<close>

definition f32_pack :: "bool \<Rightarrow> nat \<Rightarrow> nat \<Rightarrow> float32" where
  "f32_pack s m j =
     (let n = (if m < 2 ^ 23 then m else j * 2 ^ 23 + m) in
      if n \<ge> 255 * 2 ^ 23 then f32_inf s else f32_zero s + word_of_nat n)"

text \<open>Rounding of the exact number \<open>(-1)^s * m * 2^(-k)\<close> least subnormals.\<close>

definition f32_round :: "bool \<Rightarrow> nat \<Rightarrow> nat \<Rightarrow> float32" where
  "f32_round s m k =
     (let d = max k (bit_length m - 24) in f32_pack s (round_half_even m (2 ^ d)) (d - k))"

definition f32_of_scaled :: "int \<Rightarrow> float32" where
  "f32_of_scaled n = f32_round (n < 0) (nat \<bar>n\<bar>) 0"

section \<open>Arithmetic\<close>

definition num_scaled :: "bool \<Rightarrow> nat \<Rightarrow> nat \<Rightarrow> int" where
  "num_scaled s m j = (if s then - 1 else 1) * (int m * 2 ^ j)"

definition f32_add :: "float32 \<Rightarrow> float32 \<Rightarrow> float32" where
  "f32_add a b =
     (case (f32_unpack a, f32_unpack b) of
        (FNaN, _) \<Rightarrow> f32_nan
      | (_, FNaN) \<Rightarrow> f32_nan
      | (FInf s, FInf t) \<Rightarrow> if s = t then f32_inf s else f32_nan
      | (FInf s, FNum _ _ _) \<Rightarrow> f32_inf s
      | (FNum _ _ _, FInf t) \<Rightarrow> f32_inf t
      | (FNum s m i, FNum t n j) \<Rightarrow>
          let x = num_scaled s m i + num_scaled t n j in
          if x = 0 then f32_zero (s \<and> t) else f32_of_scaled x)"

text \<open>Adding \<open>2^31\<close> modulo \<open>2^32\<close> flips the sign bit.\<close>

definition f32_neg :: "float32 \<Rightarrow> float32" where
  "f32_neg a = a + 0x80000000"

definition f32_sub :: "float32 \<Rightarrow> float32 \<Rightarrow> float32" where
  "f32_sub a b = f32_add a (f32_neg b)"

definition f32_mul :: "float32 \<Rightarrow> float32 \<Rightarrow> float32" where
  "f32_mul a b =
     (case (f32_unpack a, f32_unpack b) of
        (FNaN, _) \<Rightarrow> f32_nan
      | (_, FNaN) \<Rightarrow> f32_nan
      | (FInf s, FInf t) \<Rightarrow> f32_inf (s \<noteq> t)
      | (FInf s, FNum t n _) \<Rightarrow> if n = 0 then f32_nan else f32_inf (s \<noteq> t)
      | (FNum s m _, FInf t) \<Rightarrow> if m = 0 then f32_nan else f32_inf (s \<noteq> t)
      | (FNum s m i, FNum t n j) \<Rightarrow> f32_round (s \<noteq> t) (m * n * 2 ^ (i + j)) 149)"

text \<open>The quotient has at least 26 significant bits before the rounding, the last one sticky.\<close>

definition f32_div :: "float32 \<Rightarrow> float32 \<Rightarrow> float32" where
  "f32_div a b =
     (case (f32_unpack a, f32_unpack b) of
        (FNaN, _) \<Rightarrow> f32_nan
      | (_, FNaN) \<Rightarrow> f32_nan
      | (FInf _, FInf _) \<Rightarrow> f32_nan
      | (FInf s, FNum t _ _) \<Rightarrow> f32_inf (s \<noteq> t)
      | (FNum s _ _, FInf t) \<Rightarrow> f32_zero (s \<noteq> t)
      | (FNum s m i, FNum t n j) \<Rightarrow>
          if n = 0 then (if m = 0 then f32_nan else f32_inf (s \<noteq> t))
          else
            let x = m * 2 ^ (i + 500); y = n * 2 ^ j; q = x div y; sticky = (if x mod y = 0 then 0 else 1) in
            f32_round (s \<noteq> t) (2 * q + sticky) (501 - 149))"

definition f32_less :: "float32 \<Rightarrow> float32 \<Rightarrow> bool" where
  "f32_less a b =
     (case (f32_unpack a, f32_unpack b) of
        (FNaN, _) \<Rightarrow> False
      | (_, FNaN) \<Rightarrow> False
      | (FInf s, FInf t) \<Rightarrow> s \<and> \<not> t
      | (FInf s, FNum _ _ _) \<Rightarrow> s
      | (FNum _ _ _, FInf t) \<Rightarrow> \<not> t
      | (FNum s m i, FNum t n j) \<Rightarrow> num_scaled s m i < num_scaled t n j)"

definition f32_eq :: "float32 \<Rightarrow> float32 \<Rightarrow> bool" where
  "f32_eq a b =
     (case (f32_unpack a, f32_unpack b) of
        (FNaN, _) \<Rightarrow> False
      | (_, FNaN) \<Rightarrow> False
      | (FNum s m i, FNum t n j) \<Rightarrow> num_scaled s m i = num_scaled t n j
      | (x, y) \<Rightarrow> x = y)"

definition f32_le :: "float32 \<Rightarrow> float32 \<Rightarrow> bool" where
  "f32_le a b \<longleftrightarrow> f32_less a b \<or> f32_eq a b"

text \<open>Conversion of an integer.\<close>

definition f32_of_int :: "int \<Rightarrow> float32" where
  "f32_of_int n = f32_of_scaled (n * 2 ^ 149)"

section \<open>Exact results\<close>

definition f32_finite :: "float32 \<Rightarrow> bool" where
  "f32_finite a \<longleftrightarrow> (case f32_unpack a of FNum _ _ _ \<Rightarrow> True | _ \<Rightarrow> False)"

definition f32_scaled :: "float32 \<Rightarrow> int" where
  "f32_scaled a = (case f32_unpack a of FNum s m j \<Rightarrow> num_scaled s m j | _ \<Rightarrow> 0)"

text \<open>The integers that are values of finite numbers.\<close>

definition representable :: "int \<Rightarrow> bool" where
  "representable n \<longleftrightarrow> (\<exists>m j. nat \<bar>n\<bar> = m * 2 ^ j \<and> m < 2 ^ 24 \<and> j \<le> 253)"

lemma bit_length_bounds: "n < 2 ^ bit_length n \<and> (n > 0 \<longrightarrow> 2 ^ (bit_length n - 1) \<le> n)"
proof (induction n rule: bit_length.induct)
  case (1 n)
  show ?case
  proof (cases "n = 0")
    case False
    note IH = 1[OF False]
    have n: "n = 2 * (n div 2) + n mod 2" by simp
    have up: "n < 2 * 2 ^ bit_length (n div 2)" using IH n by linarith
    have "2 ^ bit_length (n div 2) \<le> n"
    proof (cases "n div 2 = 0")
      case True
      then show ?thesis using False by (simp add: bit_length.simps)
    next
      case d: False
      then have "bit_length (n div 2) > 0" by (simp add: bit_length.simps)
      then have "(2 :: nat) ^ bit_length (n div 2) = 2 * 2 ^ (bit_length (n div 2) - 1)"
        by (metis Suc_pred' power_Suc)
      then show ?thesis using IH d n by linarith
    qed
    with False up show ?thesis by (simp add: bit_length.simps[of n])
  qed (simp add: bit_length.simps)
qed

lemma bit_length_le:
  assumes "n < 2 ^ k"
  shows "bit_length n \<le> k"
proof (rule ccontr)
  assume "\<not> bit_length n \<le> k"
  then have "k \<le> bit_length n - 1" "n > 0"
    using bit_length.simps[of n] by (auto split: if_splits)
  then have "(2 :: nat) ^ k \<le> 2 ^ (bit_length n - 1)" "2 ^ (bit_length n - 1) \<le> n"
    using bit_length_bounds[of n] by simp_all
  with assms show False by linarith
qed

lemma round_half_even_exact: "0 < d \<Longrightarrow> round_half_even (q * d) d = q"
  by (simp add: round_half_even_def)

lemma unpack_pack:
  assumes "m < 2 ^ 24" and "m < 2 ^ 23 \<longrightarrow> j = 0" and "j \<le> 253"
  shows "f32_unpack (f32_pack s m j) = FNum s m j"
proof -
  define n where "n = (if m < 2 ^ 23 then m else j * 2 ^ 23 + m)"
  have n: "n < 255 * 2 ^ 23"
    using assms by (auto simp: n_def)
  have "unat (f32_zero s + word_of_nat n) = (if s then 2 ^ 31 else 0) + n"
    using n by (simp add: f32_zero_def unat_word_ariths unat_of_nat)
  moreover have "f32_pack s m j = f32_zero s + word_of_nat n"
    using n by (simp add: f32_pack_def n_def)
  ultimately have u: "unat (f32_pack s m j) = (if s then 2 ^ 31 else 0) + n" by simp
  have r: "unat (f32_pack s m j) mod 2 ^ 31 = n" and sg: "(unat (f32_pack s m j) \<ge> 2 ^ 31) = s"
    using n unfolding u by auto
  show ?thesis
  proof (cases "m < 2 ^ 23")
    case True
    with assms(2) r sg show ?thesis by (simp add: f32_unpack_def Let_def n_def)
  next
    case False
    define l where "l = m - 2 ^ 23"
    have nn: "n = l + (j + 1) * 2 ^ 23" and lt: "l < 2 ^ 23"
      using False assms(1) by (simp_all add: n_def l_def)
    have "n div 2 ^ 23 = j + 1" "n mod 2 ^ 23 = m - 2 ^ 23"
      unfolding nn l_def[symmetric] using lt div_mult_self1[of "2 ^ 23" l "j + 1"] mod_mult_self1[of l "j + 1" "2 ^ 23"]
      by (simp_all del: div_mult_self1 mod_mult_self1)
    with r sg False assms(3) show ?thesis by (simp add: f32_unpack_def Let_def)
  qed
qed

lemma round_exact:
  assumes "m = m0 * 2 ^ i" and "m0 < 2 ^ 24" and "i \<le> 253"
  shows "\<exists>m1 j. f32_unpack (f32_round s m 0) = FNum s m1 j \<and> m1 * 2 ^ j = m"
proof -
  define d where "d = bit_length m - 24"
  have "m < 2 ^ (24 + i)" using assms by (simp add: power_add)
  then have "bit_length m \<le> 24 + i" by (rule bit_length_le)
  then have d: "d \<le> i" by (simp add: d_def)
  define m1 where "m1 = m0 * 2 ^ (i - d)"
  have m: "m = m1 * 2 ^ d" using d by (simp add: assms(1) m1_def flip: power_add mult.assoc)
  have "m1 * 2 ^ d < 2 ^ (24 + d)"
  proof -
    have "m < 2 ^ bit_length m" using bit_length_bounds by blast
    also have "\<dots> \<le> 2 ^ (24 + d)" by (rule power_increasing) (simp_all add: d_def)
    finally show ?thesis using m by simp
  qed
  then have up: "m1 < 2 ^ 24" by (simp add: power_add)
  have low: "m1 < 2 ^ 23 \<longrightarrow> d = 0"
  proof (rule impI, rule ccontr)
    assume "m1 < 2 ^ 23" "d \<noteq> 0"
    then have "m < 2 ^ (23 + d)" using m by (simp add: power_add)
    then have "bit_length m \<le> 23 + d" by (rule bit_length_le)
    with \<open>d \<noteq> 0\<close> show False by (simp add: d_def)
  qed
  have "f32_round s m 0 = f32_pack s m1 d"
    using round_half_even_exact[of "2 ^ d" m1] by (simp add: f32_round_def Let_def d_def[symmetric] flip: m)
  with unpack_pack[OF up low] d assms(3) m show ?thesis by simp
qed

lemma of_scaled_exact:
  assumes "representable n"
  shows "f32_finite (f32_of_scaled n)" and "f32_scaled (f32_of_scaled n) = n"
proof -
  from assms obtain m0 i where "nat \<bar>n\<bar> = m0 * 2 ^ i" "m0 < 2 ^ 24" "i \<le> 253"
    by (auto simp: representable_def)
  from round_exact[OF this, of "n < 0"] obtain m1 j where
    r: "f32_unpack (f32_of_scaled n) = FNum (n < 0) m1 j" "m1 * 2 ^ j = nat \<bar>n\<bar>"
    by (auto simp: f32_of_scaled_def)
  have "int m1 * 2 ^ j = \<bar>n\<bar>" using arg_cong[OF r(2), of int] by simp
  with r(1) show "f32_finite (f32_of_scaled n)" "f32_scaled (f32_of_scaled n) = n"
    by (auto simp: f32_finite_def f32_scaled_def num_scaled_def)
qed

lemma finiteE:
  assumes "f32_finite a"
  obtains s m j where "f32_unpack a = FNum s m j" "f32_scaled a = num_scaled s m j"
  using assms by (auto simp: f32_finite_def f32_scaled_def split: fnum.splits)

lemma add_exact:
  assumes "f32_finite a" and "f32_finite b" and "representable (f32_scaled a + f32_scaled b)"
  shows "f32_finite (f32_add a b)" and "f32_scaled (f32_add a b) = f32_scaled a + f32_scaled b"
proof -
  have zero: "f32_unpack (f32_zero s) = FNum s 0 0" for s
    using unpack_pack[of 0 0 s] by (simp add: f32_pack_def)
  obtain s m i where a: "f32_unpack a = FNum s m i" "f32_scaled a = num_scaled s m i"
    using assms(1) by (rule finiteE)
  obtain t n j where b: "f32_unpack b = FNum t n j" "f32_scaled b = num_scaled t n j"
    using assms(2) by (rule finiteE)
  have "f32_add a b =
      (if f32_scaled a + f32_scaled b = 0 then f32_zero (s \<and> t) else f32_of_scaled (f32_scaled a + f32_scaled b))"
    by (simp add: f32_add_def Let_def a b)
  moreover have "f32_finite (f32_zero x)" "f32_scaled (f32_zero x) = 0" for x
    by (simp_all add: f32_finite_def f32_scaled_def zero num_scaled_def)
  ultimately show "f32_finite (f32_add a b)" "f32_scaled (f32_add a b) = f32_scaled a + f32_scaled b"
    using of_scaled_exact[OF assms(3)] by simp_all
qed

lemma less_scaled: "f32_finite a \<Longrightarrow> f32_finite b \<Longrightarrow> f32_less a b \<longleftrightarrow> f32_scaled a < f32_scaled b"
  by (auto elim!: finiteE simp: f32_less_def)

lemma eq_scaled: "f32_finite a \<Longrightarrow> f32_finite b \<Longrightarrow> f32_eq a b \<longleftrightarrow> f32_scaled a = f32_scaled b"
  by (auto elim!: finiteE simp: f32_eq_def)

lemma unpack_neg:
  "f32_unpack (f32_neg a) =
    (case f32_unpack a of FNaN \<Rightarrow> FNaN | FInf s \<Rightarrow> FInf (\<not> s) | FNum s m j \<Rightarrow> FNum (\<not> s) m j)"
proof -
  have a: "unat a < 2 ^ 32" using unsigned_less[of a] by simp
  have u: "unat (f32_neg a) = (unat a + 2 ^ 31) mod 2 ^ 32"
    by (simp add: f32_neg_def unat_word_ariths)
  have r: "unat (f32_neg a) mod 2 ^ 31 = unat a mod 2 ^ 31"
    unfolding u by (simp add: mod_mod_cancel)
  have sg: "(unat (f32_neg a) \<ge> 2 ^ 31) = (\<not> unat a \<ge> 2 ^ 31)"
  proof (cases "unat a \<ge> 2 ^ 31")
    case True
    then have "unat (f32_neg a) = unat a - 2 ^ 31"
      unfolding u using a by (simp add: le_mod_geq)
    with True a show ?thesis by simp
  next
    case False
    with u show ?thesis by simp
  qed
  show ?thesis
    unfolding f32_unpack_def Let_def r sg by simp
qed

lemma neg_exact [simp]:
  "f32_finite (f32_neg a) = f32_finite a" "f32_scaled (f32_neg a) = - f32_scaled a"
  by (simp_all add: f32_finite_def f32_scaled_def unpack_neg num_scaled_def split: fnum.split)

lemma sub_exact:
  assumes "f32_finite a" and "f32_finite b" and "representable (f32_scaled a - f32_scaled b)"
  shows "f32_finite (f32_sub a b)" and "f32_scaled (f32_sub a b) = f32_scaled a - f32_scaled b"
  using add_exact[of a "f32_neg b"] assms by (simp_all add: f32_sub_def)

lemma representable_int:
  assumes "\<bar>n\<bar> < 2 ^ 24"
  shows "representable (n * 2 ^ 149)"
proof -
  have "nat \<bar>n * 2 ^ 149\<bar> = nat \<bar>n\<bar> * 2 ^ 149" by (simp add: abs_mult nat_mult_distrib)
  moreover have "nat \<bar>n\<bar> < 2 ^ 24" using assms by simp
  ultimately show ?thesis unfolding representable_def by (intro exI[of _ "nat \<bar>n\<bar>"] exI[of _ 149]) simp
qed

lemma of_int_exact:
  assumes "\<bar>n\<bar> < 2 ^ 24"
  shows "f32_finite (f32_of_int n)" and "f32_scaled (f32_of_int n) = n * 2 ^ 149"
  using of_scaled_exact[OF representable_int[OF assms]] by (simp_all add: f32_of_int_def)

text \<open>Subtracting an integer from a smaller float that is not below it is exact.\<close>

lemma unpack_bounds:
  assumes "f32_unpack a = FNum s m j"
  shows "m < 2 ^ 24" and "m < 2 ^ 23 \<longrightarrow> j = 0" and "j \<le> 253"
proof -
  define r where "r = unat a mod 2 ^ 31"
  have m: "r mod 2 ^ 23 < 2 ^ 23" by simp
  have "r div 2 ^ 23 < 256" by (simp add: r_def div_less_iff_less_mult[where q = 8388608, simplified])
  then have r: "r div 8388608 < 256" by simp
  have "f32_unpack a =
      (if r div 2 ^ 23 = 255 then if r mod 2 ^ 23 = 0 then FInf (unat a \<ge> 2 ^ 31) else FNaN
       else if r div 2 ^ 23 = 0 then FNum (unat a \<ge> 2 ^ 31) (r mod 2 ^ 23) 0
       else FNum (unat a \<ge> 2 ^ 31) (r mod 2 ^ 23 + 2 ^ 23) (r div 2 ^ 23 - 1))"
    unfolding f32_unpack_def Let_def r_def by (rule refl)
  with assms m r show "m < 2 ^ 24" "m < 2 ^ 23 \<longrightarrow> j = 0" "j \<le> 253"
    by (auto split: if_splits)
qed

lemma sub_int_exact:
  assumes "f32_finite a" and "f32_scaled a < 2 ^ 24 * 2 ^ 149" and "0 \<le> n" and "n * 2 ^ 149 \<le> f32_scaled a"
  shows "f32_finite (f32_sub a (f32_of_int n))"
    and "f32_scaled (f32_sub a (f32_of_int n)) = f32_scaled a - n * 2 ^ 149"
proof -
  obtain s m j where u: "f32_unpack a = FNum s m j" "f32_scaled a = num_scaled s m j"
    using assms(1) by (rule finiteE)
  have n: "\<bar>n\<bar> < 2 ^ 24" using assms(2-4) by simp
  have pos: "0 \<le> f32_scaled a" using assms(3,4) by (smt (verit) mult_nonneg_nonneg zero_le_power)
  then have a: "f32_scaled a = int m * 2 ^ j"
    using u by (auto simp: num_scaled_def zero_le_mult_iff mult_le_0_iff split: if_splits)
  note b = unpack_bounds[OF u(1)]
  have "j \<le> 149"
  proof (rule ccontr)
    assume "\<not> j \<le> 149"
    then have "j \<ge> 150" "m \<ge> 2 ^ 23" using b(2) by (auto simp: not_less)
    then have "int (2 ^ 23) * 2 ^ 150 \<le> int m * 2 ^ j"
      by (intro mult_mono) (simp_all only: of_nat_le_iff power_increasing_iff, simp_all)
    with a assms(2) show False by simp
  qed
  then have e: "f32_scaled a - n * 2 ^ 149 = (int m - n * 2 ^ (149 - j)) * 2 ^ j"
    by (simp add: a left_diff_distrib flip: power_add mult.assoc)
  have nn: "0 \<le> int m - n * 2 ^ (149 - j)"
  proof -
    have "0 \<le> (int m - n * 2 ^ (149 - j)) * 2 ^ j" using assms(4) e by simp
    then show ?thesis by (simp add: zero_le_mult_iff)
  qed
  have "representable (f32_scaled a - n * 2 ^ 149)"
    unfolding representable_def e
  proof (intro exI conjI)
    show "nat \<bar>(int m - n * 2 ^ (149 - j)) * 2 ^ j\<bar> = nat (int m - n * 2 ^ (149 - j)) * 2 ^ j"
      using nn by (simp add: abs_mult nat_mult_distrib)
    show "nat (int m - n * 2 ^ (149 - j)) < 2 ^ 24"
    proof -
      have "0 \<le> n * 2 ^ (149 - j)" using assms(3) by simp
      then have "nat (int m - n * 2 ^ (149 - j)) \<le> m" by simp
      with b(1) show ?thesis by simp
    qed
    show "j \<le> 253" using b(3) .
  qed
  with sub_exact[OF assms(1) of_int_exact(1)[OF n]] of_int_exact(2)[OF n]
  show "f32_finite (f32_sub a (f32_of_int n))"
    "f32_scaled (f32_sub a (f32_of_int n)) = f32_scaled a - n * 2 ^ 149" by simp_all
qed

end
