(* ===== verification/GameComponents.thy ===== *)
theory GameComponents
  imports GamePackets Float32
begin

text \<open>
  The components of the game (\<^verbatim>\<open>common/components\<close>, \<^verbatim>\<open>lib/rteng/include/behaviour.hpp\<close>,
  \<^verbatim>\<open>Client/src/components\<close>) and the enumerations they use (\<^verbatim>\<open>common/enums\<close>): one record per
  struct, one constructor of \<open>component\<close> per component type, the writing stream
  \<open>EntityContent\<close> (\<^verbatim>\<open>lib/rteng/include/EntityContent.hpp\<close>) with the \<open>serialize\<close> members as
  writers, and the same members as readers of a packet.  A \<open>float\<close> is its bit pattern, an
  \<open>int\<close> and an enumeration a 32-bit word.
\<close>

section \<open>Enumerations\<close>

datatype entity_type = kPlayer | kEnemy | kBullet

primrec entity_type_value :: "entity_type \<Rightarrow> u32" where
  "entity_type_value kPlayer = 0"
| "entity_type_value kEnemy = 1"
| "entity_type_value kBullet = 2"

definition StringToType :: "(string \<times> entity_type) list" where
  "StringToType = [(''Player'', kPlayer), (''Enemy'', kEnemy), (''Bullet'', kBullet)]"

definition TypeToString :: "(entity_type \<times> string) list" where
  "TypeToString = [(kPlayer, ''Player''), (kEnemy, ''Enemy''), (kBullet, ''Bullet'')]"

datatype move_kind = kStraightSlow | kZigZag | kHover | kWave

primrec move_kind_value :: "move_kind \<Rightarrow> u32" where
  "move_kind_value kStraightSlow = 0"
| "move_kind_value kZigZag = 1"
| "move_kind_value kHover = 2"
| "move_kind_value kWave = 3"

definition StringToMoveSet :: "(string \<times> move_kind) list" where
  "StringToMoveSet =
     [(''straight_slow'', kStraightSlow), (''zigzag'', kZigZag), (''hover'', kHover), (''wave'', kWave)]"

definition MoveSetToString :: "(move_kind \<times> string) list" where
  "MoveSetToString =
     [(kStraightSlow, ''straight_slow''), (kZigZag, ''zigzag''), (kHover, ''hover''), (kWave, ''wave'')]"

datatype game_state = GameMenu | GameWaiting | GameLobby | GameRunning | GameEnd | GameOver

primrec game_state_value :: "game_state \<Rightarrow> u8" where
  "game_state_value GameMenu = 1"
| "game_state_value GameWaiting = 2"
| "game_state_value GameLobby = 3"
| "game_state_value GameRunning = 4"
| "game_state_value GameEnd = 5"
| "game_state_value GameOver = 6"

datatype menu_state = MenuHome | MenuSettings | MenuJoin | MenuLobby

primrec menu_state_value :: "menu_state \<Rightarrow> u8" where
  "menu_state_value MenuHome = 1"
| "menu_state_value MenuSettings = 2"
| "menu_state_value MenuJoin = 3"
| "menu_state_value MenuLobby = 4"

datatype player_state = PlayerWaiting | PlayerReady | EntityAlive | EntityDead

primrec player_state_value :: "player_state \<Rightarrow> u8" where
  "player_state_value PlayerWaiting = 1"
| "player_state_value PlayerReady = 2"
| "player_state_value EntityAlive = 3"
| "player_state_value EntityDead = 4"

datatype game_input = kNone | kUp | kDown | kLeft | kRight | kShoot

primrec game_input_value :: "game_input \<Rightarrow> u8" where
  "game_input_value kNone = 0"
| "game_input_value kUp = 1"
| "game_input_value kDown = 2"
| "game_input_value kLeft = 4"
| "game_input_value kRight = 8"
| "game_input_value kShoot = 16"

section \<open>Component structs\<close>

record collision = isTriggered :: bool
record damage = dm_damage :: u32
record health = hp :: u32 max_hp :: u32
record hitbox = hb_shown :: bool hb_width :: float32 hb_height :: float32
record invulnerability = iv_duration :: float32
record move_set = ms_set :: u8
record owner = ow_id :: u64
record position = pos_x :: float32 pos_y :: float32 pos_isUpdated :: bool
record score = playerScore :: u32
record state_comp = sc_state :: u64
record transform = tr_x :: float32 tr_y :: float32
record type_comp = ty_type :: u32
record value_comp = va_value :: u32
record velocity = vel_vx :: float32 vel_vy :: float32 vel_max_vx :: float32 vel_max_vy :: float32

text \<open>\<open>Behaviour\<close>: the shared pointer is the identity of the \<open>MonoBehaviour\<close>, or null.\<close>

record behaviour = bh_instance :: "nat option" bh_started :: bool

text \<open>The components that only the client registers.\<close>

record animation =
  an_frame_count :: u32
  an_current_frame :: u32
  an_frame_time :: float32
  an_elapsed_time :: float32
  an_frame_width :: u32
  an_frame_height :: u32
  an_loop :: bool
record sound = sound_id :: u32 play_once :: bool
record sprite = spr_type :: u32
record target_pos = tp_x :: float32 tp_y :: float32
record zindex = zi_layer :: u32

datatype component =
    C_Collision collision | C_Damage damage | C_Health health | C_Hitbox hitbox
  | C_Invulnerability invulnerability | C_MoveSet move_set | C_Owner owner | C_Position position
  | C_Score score | C_State state_comp | C_Transform transform | C_Type type_comp
  | C_Value value_comp | C_Velocity velocity | C_Behaviour behaviour
  | C_Animation animation | C_Me | C_Sound sound | C_Sprite sprite | C_TargetPos target_pos
  | C_ZIndex zindex

text \<open>The component types; a type is identified by a number, in the code by its hash code.\<close>

datatype component_type =
    Collision | Damage | Health | Hitbox | Invulnerability | MoveSet | Owner | Position | Score
  | State | Transform | Type | Value | Velocity | Behaviour
  | Animation | Me | Sound | Sprite | TargetPos | ZIndex

primrec cid :: "component_type \<Rightarrow> nat" where
  "cid Collision = 1" | "cid Damage = 2" | "cid Health = 3" | "cid Hitbox = 4"
| "cid Invulnerability = 5" | "cid MoveSet = 6" | "cid Owner = 7" | "cid Position = 8"
| "cid Score = 9" | "cid State = 10" | "cid Transform = 11" | "cid Type = 12" | "cid Value = 13"
| "cid Velocity = 14" | "cid Behaviour = 15" | "cid Animation = 16" | "cid Me = 17" | "cid Sound = 18"
| "cid Sprite = 19" | "cid TargetPos = 20" | "cid ZIndex = 21"

primrec type_of :: "component \<Rightarrow> component_type" where
  "type_of (C_Collision _) = Collision" | "type_of (C_Damage _) = Damage"
| "type_of (C_Health _) = Health" | "type_of (C_Hitbox _) = Hitbox"
| "type_of (C_Invulnerability _) = Invulnerability" | "type_of (C_MoveSet _) = MoveSet"
| "type_of (C_Owner _) = Owner" | "type_of (C_Position _) = Position"
| "type_of (C_Score _) = Score" | "type_of (C_State _) = State"
| "type_of (C_Transform _) = Transform" | "type_of (C_Type _) = Type"
| "type_of (C_Value _) = Value" | "type_of (C_Velocity _) = Velocity"
| "type_of (C_Behaviour _) = Behaviour" | "type_of (C_Animation _) = Animation"
| "type_of C_Me = Me" | "type_of (C_Sound _) = Sound" | "type_of (C_Sprite _) = Sprite"
| "type_of (C_TargetPos _) = TargetPos" | "type_of (C_ZIndex _) = ZIndex"

lemma cid_inject [simp]: "cid a = cid b \<longleftrightarrow> a = b"
  by (cases a; cases b; simp)

text \<open>\<open>GameComponents\<close>, in the order of the list.\<close>

definition GameComponents :: "component_type list" where
  "GameComponents =
     [Collision, Damage, Health, Hitbox, Invulnerability, MoveSet, Owner, Position, Score, State,
      Transform, Type, Value, Velocity]"

section \<open>Tables by entity type\<close>

text \<open>\<open>std::unordered_map::at\<close> raises \<open>out_of_range\<close> on a missing key: \<open>None\<close>.  The floats 150,
  75 and 15 are given by their bit patterns.\<close>

definition entityTypeToHitbox :: "(entity_type \<times> hitbox) list" where
  "entityTypeToHitbox = [(kEnemy, \<lparr>hb_shown = True, hb_width = 0x43160000, hb_height = 0x42960000\<rparr>)]"

definition entityTypeToVelocity :: "(entity_type \<times> velocity) list" where
  "entityTypeToVelocity =
     [(kEnemy, \<lparr>vel_vx = 0, vel_vy = 0, vel_max_vx = 0x41700000, vel_max_vy = 0x41700000\<rparr>)]"

definition entityTypeToValue :: "(entity_type \<times> value_comp) list" where
  "entityTypeToValue = [(kEnemy, \<lparr>va_value = 15\<rparr>)]"

definition typeToHitbox :: "entity_type \<Rightarrow> hitbox option" where
  "typeToHitbox t = map_of entityTypeToHitbox t"
definition typeToVelocity :: "entity_type \<Rightarrow> velocity option" where
  "typeToVelocity t = map_of entityTypeToVelocity t"
definition typeToValue :: "entity_type \<Rightarrow> value_comp option" where
  "typeToValue t = map_of entityTypeToValue t"
definition nameToMoveSet :: "string \<Rightarrow> u8 option" where
  "nameToMoveSet name = map_option (\<lambda>k. ucast (move_kind_value k)) (map_of StringToMoveSet name)"

section \<open>Writing into an \<open>EntityContent\<close>\<close>

record entity_content = ec_buffer :: bytes

definition content_swap :: "endian \<Rightarrow> 'a::len word \<Rightarrow> 'a word" where
  "content_swap h w =
     (if LENGTH('a) = 8 then w
      else case h of Big \<Rightarrow> w
           | Little \<Rightarrow> mem_value h (rev (mem_bytes h w)))"

definition content_append :: "bytes \<Rightarrow> entity_content \<Rightarrow> entity_content" where
  "content_append data c = c\<lparr>ec_buffer := ec_buffer c @ data\<rparr>"

definition content_pod :: "'a::len word \<Rightarrow> entity_content \<Rightarrow> entity_content" where
  "content_pod data c = content_append (mem_bytes native (content_swap native data)) c"

definition content_bool :: "bool \<Rightarrow> entity_content \<Rightarrow> entity_content" where
  "content_bool b c = content_pod (if b then 1 else 0 :: u8) c"

definition content_string :: "bytes \<Rightarrow> entity_content \<Rightarrow> entity_content" where
  "content_string str c =
     (let size = word_of_nat (length str) :: u16 in
      content_append (take (unat size) str) (content_pod size c))"

definition content_vector ::
    "('a \<Rightarrow> entity_content \<Rightarrow> entity_content) \<Rightarrow> 'a list \<Rightarrow> entity_content \<Rightarrow> rt_error + entity_content" where
  "content_vector wr data c =
     (if length data > 65535 then Inl VectorTooLarge
      else Inr (fold wr data (content_pod (word_of_nat (length data) :: u16) c)))"

text \<open>\<open>operator<<\<close> and \<open>operator>>\<close> of a component run its \<open>serialize\<close> member, which names the
  members that travel; a member that does not has the value of its default initialiser in the
  component that is read.\<close>

named_theorems component_io

definition read_bool :: "bool reader" where
  "read_bool = rd_bind read_pod (\<lambda>b :: u8. rd_return (b \<noteq> 0))"

definition put_collision :: "collision \<Rightarrow> entity_content \<Rightarrow> entity_content" where
  [component_io]: "put_collision x c = content_bool (isTriggered x) c"
definition get_collision :: "collision reader" where
  [component_io]: "get_collision =
     rd_bind read_bool (\<lambda>a. rd_return \<lparr>isTriggered = a\<rparr>)"

definition put_damage :: "damage \<Rightarrow> entity_content \<Rightarrow> entity_content" where
  [component_io]: "put_damage x c = content_pod (dm_damage x) c"
definition get_damage :: "damage reader" where
  [component_io]: "get_damage =
     rd_bind read_pod (\<lambda>a. rd_return \<lparr>dm_damage = a\<rparr>)"

definition put_health :: "health \<Rightarrow> entity_content \<Rightarrow> entity_content" where
  [component_io]: "put_health x c = content_pod (max_hp x) (content_pod (hp x) c)"
definition get_health :: "health reader" where
  [component_io]: "get_health =
     rd_bind read_pod (\<lambda>a. rd_bind read_pod (\<lambda>b. rd_return \<lparr>hp = a, max_hp = b\<rparr>))"

definition put_hitbox :: "hitbox \<Rightarrow> entity_content \<Rightarrow> entity_content" where
  [component_io]: "put_hitbox x c = content_pod (hb_height x) (content_pod (hb_width x) (content_bool (hb_shown x) c))"
definition get_hitbox :: "hitbox reader" where
  [component_io]: "get_hitbox =
     rd_bind read_bool (\<lambda>a. rd_bind read_pod (\<lambda>b. rd_bind read_pod (\<lambda>d. rd_return \<lparr>hb_shown = a, hb_width = b, hb_height = d\<rparr>)))"

definition put_invulnerability :: "invulnerability \<Rightarrow> entity_content \<Rightarrow> entity_content" where
  [component_io]: "put_invulnerability x c = content_pod (iv_duration x) c"
definition get_invulnerability :: "invulnerability reader" where
  [component_io]: "get_invulnerability =
     rd_bind read_pod (\<lambda>a. rd_return \<lparr>iv_duration = a\<rparr>)"

definition put_move_set :: "move_set \<Rightarrow> entity_content \<Rightarrow> entity_content" where
  [component_io]: "put_move_set x c = content_pod (ms_set x) c"
definition get_move_set :: "move_set reader" where
  [component_io]: "get_move_set =
     rd_bind read_pod (\<lambda>a. rd_return \<lparr>ms_set = a\<rparr>)"

definition put_owner :: "owner \<Rightarrow> entity_content \<Rightarrow> entity_content" where
  [component_io]: "put_owner x c = content_pod (ow_id x) c"
definition get_owner :: "owner reader" where
  [component_io]: "get_owner =
     rd_bind read_pod (\<lambda>a. rd_return \<lparr>ow_id = a\<rparr>)"

definition put_position :: "position \<Rightarrow> entity_content \<Rightarrow> entity_content" where
  [component_io]: "put_position x c = content_pod (pos_y x) (content_pod (pos_x x) c)"
definition get_position :: "position reader" where
  [component_io]: "get_position =
     rd_bind read_pod (\<lambda>a. rd_bind read_pod (\<lambda>b. rd_return \<lparr>pos_x = a, pos_y = b, pos_isUpdated = False\<rparr>))"

definition put_score :: "score \<Rightarrow> entity_content \<Rightarrow> entity_content" where
  [component_io]: "put_score x c = content_pod (playerScore x) c"
definition get_score :: "score reader" where
  [component_io]: "get_score =
     rd_bind read_pod (\<lambda>a. rd_return \<lparr>playerScore = a\<rparr>)"

definition put_state :: "state_comp \<Rightarrow> entity_content \<Rightarrow> entity_content" where
  [component_io]: "put_state x c = content_pod (sc_state x) c"
definition get_state :: "state_comp reader" where
  [component_io]: "get_state =
     rd_bind read_pod (\<lambda>a. rd_return \<lparr>sc_state = a\<rparr>)"

definition put_transform :: "transform \<Rightarrow> entity_content \<Rightarrow> entity_content" where
  [component_io]: "put_transform x c = content_pod (tr_y x) (content_pod (tr_x x) c)"
definition get_transform :: "transform reader" where
  [component_io]: "get_transform =
     rd_bind read_pod (\<lambda>a. rd_bind read_pod (\<lambda>b. rd_return \<lparr>tr_x = a, tr_y = b\<rparr>))"

definition put_type :: "type_comp \<Rightarrow> entity_content \<Rightarrow> entity_content" where
  [component_io]: "put_type x c = content_pod (ty_type x) c"
definition get_type :: "type_comp reader" where
  [component_io]: "get_type =
     rd_bind read_pod (\<lambda>a. rd_return \<lparr>ty_type = a\<rparr>)"

definition put_value :: "value_comp \<Rightarrow> entity_content \<Rightarrow> entity_content" where
  [component_io]: "put_value x c = content_pod (va_value x) c"
definition get_value :: "value_comp reader" where
  [component_io]: "get_value =
     rd_bind read_pod (\<lambda>a. rd_return \<lparr>va_value = a\<rparr>)"

definition put_velocity :: "velocity \<Rightarrow> entity_content \<Rightarrow> entity_content" where
  [component_io]: "put_velocity x c = content_pod (vel_max_vy x) (content_pod (vel_max_vx x) (content_pod (vel_vy x) (content_pod (vel_vx x) c)))"
definition get_velocity :: "velocity reader" where
  [component_io]: "get_velocity =
     rd_bind read_pod (\<lambda>a. rd_bind read_pod (\<lambda>b. rd_bind read_pod (\<lambda>d. rd_bind read_pod (\<lambda>e. rd_return \<lparr>vel_vx = a, vel_vy = b, vel_max_vx = d, vel_max_vy = e\<rparr>))))"

primrec content_component :: "component \<Rightarrow> entity_content \<Rightarrow> entity_content" where
  "content_component (C_Collision x) c = put_collision x c"
| "content_component (C_Damage x) c = put_damage x c"
| "content_component (C_Health x) c = put_health x c"
| "content_component (C_Hitbox x) c = put_hitbox x c"
| "content_component (C_Invulnerability x) c = put_invulnerability x c"
| "content_component (C_MoveSet x) c = put_move_set x c"
| "content_component (C_Owner x) c = put_owner x c"
| "content_component (C_Position x) c = put_position x c"
| "content_component (C_Score x) c = put_score x c"
| "content_component (C_State x) c = put_state x c"
| "content_component (C_Transform x) c = put_transform x c"
| "content_component (C_Type x) c = put_type x c"
| "content_component (C_Value x) c = put_value x c"
| "content_component (C_Velocity x) c = put_velocity x c"
| "content_component (C_Behaviour x) c = c"
| "content_component (C_Animation x) c = c"
| "content_component C_Me c = c"
| "content_component (C_Sound x) c = c"
| "content_component (C_Sprite x) c = c"
| "content_component (C_TargetPos x) c = c"
| "content_component (C_ZIndex x) c = c"

text \<open>\<open>T component; p >> component;\<close>.  A behaviour and the empty \<open>Me\<close> read nothing; the other
  components of the client have no \<open>serialize\<close> member, so there is nothing to read for them either.\<close>

definition read_component :: "component_type \<Rightarrow> component reader" where
  "read_component t =
     (case t of
        Collision \<Rightarrow> rd_bind get_collision (\<lambda>x. rd_return (C_Collision x))
      | Damage \<Rightarrow> rd_bind get_damage (\<lambda>x. rd_return (C_Damage x))
      | Health \<Rightarrow> rd_bind get_health (\<lambda>x. rd_return (C_Health x))
      | Hitbox \<Rightarrow> rd_bind get_hitbox (\<lambda>x. rd_return (C_Hitbox x))
      | Invulnerability \<Rightarrow> rd_bind get_invulnerability (\<lambda>x. rd_return (C_Invulnerability x))
      | MoveSet \<Rightarrow> rd_bind get_move_set (\<lambda>x. rd_return (C_MoveSet x))
      | Owner \<Rightarrow> rd_bind get_owner (\<lambda>x. rd_return (C_Owner x))
      | Position \<Rightarrow> rd_bind get_position (\<lambda>x. rd_return (C_Position x))
      | Score \<Rightarrow> rd_bind get_score (\<lambda>x. rd_return (C_Score x))
      | State \<Rightarrow> rd_bind get_state (\<lambda>x. rd_return (C_State x))
      | Transform \<Rightarrow> rd_bind get_transform (\<lambda>x. rd_return (C_Transform x))
      | Type \<Rightarrow> rd_bind get_type (\<lambda>x. rd_return (C_Type x))
      | Value \<Rightarrow> rd_bind get_value (\<lambda>x. rd_return (C_Value x))
      | Velocity \<Rightarrow> rd_bind get_velocity (\<lambda>x. rd_return (C_Velocity x))
      | Behaviour \<Rightarrow> rd_return (C_Behaviour \<lparr>bh_instance = None, bh_started = False\<rparr>)
      | _ \<Rightarrow> rd_return C_Me)"

section \<open>What is written can be read\<close>

lemma content_pod_be:
  assumes "8 dvd LENGTH('a::len)"
  shows "content_pod (w :: 'a word) c = content_append (be_bytes w) c"
  using mem_swap_be[OF assms, of native w] by (simp add: content_pod_def content_swap_def endian_swap_def)

lemma content_append_append [simp]:
  "content_append b (content_append a c) = content_append (a @ b) c"
  by (simp add: content_append_def)

text \<open>The bytes of a component and the component that they are read as.\<close>

definition component_bytes :: "component \<Rightarrow> bytes" where
  "component_bytes x = ec_buffer (content_component x \<lparr>ec_buffer = []\<rparr>)"

primrec as_received :: "component \<Rightarrow> component" where
  "as_received (C_Collision x) = C_Collision x" | "as_received (C_Damage x) = C_Damage x"
| "as_received (C_Health x) = C_Health x" | "as_received (C_Hitbox x) = C_Hitbox x"
| "as_received (C_Invulnerability x) = C_Invulnerability x" | "as_received (C_MoveSet x) = C_MoveSet x"
| "as_received (C_Owner x) = C_Owner x"
| "as_received (C_Position x) = C_Position (x\<lparr>pos_isUpdated := False\<rparr>)"
| "as_received (C_Score x) = C_Score x" | "as_received (C_State x) = C_State x"
| "as_received (C_Transform x) = C_Transform x" | "as_received (C_Type x) = C_Type x"
| "as_received (C_Value x) = C_Value x" | "as_received (C_Velocity x) = C_Velocity x"
| "as_received (C_Behaviour x) = C_Behaviour x" | "as_received (C_Animation x) = C_Animation x"
| "as_received C_Me = C_Me" | "as_received (C_Sound x) = C_Sound x" | "as_received (C_Sprite x) = C_Sprite x"
| "as_received (C_TargetPos x) = C_TargetPos x" | "as_received (C_ZIndex x) = C_ZIndex x"

lemmas content_be = content_pod_be content_bool_def

lemma content_component_bytes:
  "content_component x c = content_append (component_bytes x) c"
  by (cases x) (simp_all add: component_bytes_def content_be content_append_def component_io)

lemma read_pod_be:
  "unread p = be_bytes (w :: u8) @ rest \<Longrightarrow> read_pod p = (Inr w, advance 1 p)"
  "unread p = be_bytes (x :: u32) @ rest \<Longrightarrow> read_pod p = (Inr x, advance 4 p)"
  "unread p = be_bytes (y :: u64) @ rest \<Longrightarrow> read_pod p = (Inr y, advance 8 p)"
  using u8.rd_enc[where x = w and p = p] u32.rd_enc[where x = x and p = p] u64.rd_enc[where x = y and p = p]
  by simp_all


lemma drop_be [simp]:
  "drop 1 (be_bytes (w :: u8) @ bs) = bs"
  "drop 4 (be_bytes (x :: u32) @ bs) = bs"
  "drop 8 (be_bytes (y :: u64) @ bs) = bs"
  by simp_all

lemma read_component_received:
  assumes "type_of x \<in> set GameComponents" and "unread p = component_bytes x @ rest"
  shows "read_component (type_of x) p = (Inr (as_received x), advance (length (component_bytes x)) p)"
proof -
  note reads = read_component_def read_bool_def rd_bind_Inr rd_return_def read_pod_be
    component_bytes_def content_be content_append_def component_io
  show ?thesis
    by (cases x) (use assms in \<open>simp_all add: reads GameComponents_def\<close>)
qed

end
