(* ===== verification/BitSet.thy ===== *)
theory BitSet
  imports Prelude
begin

text \<open>
  The class \<open>DynamicBitSet\<close> of \<^verbatim>\<open>lib/rtecs/include/rtecs/bitset/DynamicBitSet.hpp\<close> and
  \<^verbatim>\<open>lib/rtecs/src/bitset/DynamicBitSet.cpp\<close>: the component masks of the entities.  A bit set is a
  vector of 64-bit blocks; index \<open>i\<close> is bit \<open>63 - i mod 64\<close> of block \<open>i div 64\<close>.  A read through a
  pointer outside the vector, which the standard leaves undefined, is \<open>None\<close>.  The abstraction is
  the set of indexes whose bit is set; the locale \<open>index_bits\<close> is the contract of reading and
  assigning single bits, from which the bulk operations follow.
\<close>

section \<open>State and single bits\<close>

record bitset =
  bs_blocks :: "u64 list"
  bs_nbits :: nat

definition empty_bitset :: bitset where
  "empty_bitset = \<lparr>bs_blocks = [], bs_nbits = 0\<rparr>"

definition block_index :: "nat \<Rightarrow> nat" where "block_index i = i div 64"
definition bit_index :: "nat \<Rightarrow> nat" where "bit_index i = 63 - i mod 64"

definition bs_capacity :: "bitset \<Rightarrow> nat" where
  "bs_capacity b = length (bs_blocks b) * 64"

text \<open>\<open>_bitsets[block][bit]\<close>.\<close>

definition raw_bit :: "bitset \<Rightarrow> nat \<Rightarrow> bool" where
  "raw_bit b i = bit (bs_blocks b ! block_index i) (bit_index i)"

definition bs_test :: "bitset \<Rightarrow> nat \<Rightarrow> bool" where
  "bs_test b i = (if i \<ge> bs_capacity b then False else raw_bit b i)"

text \<open>\<open>std::vector::resize\<close> on the blocks.\<close>

definition resize_blocks :: "nat \<Rightarrow> u64 list \<Rightarrow> u64 list" where
  "resize_blocks n bs = take n bs @ replicate (n - length bs) 0"

definition bs_grow :: "nat \<Rightarrow> bitset \<Rightarrow> bitset" where
  "bs_grow i b =
     (if i \<ge> bs_capacity b then b\<lparr>bs_blocks := resize_blocks (i div 64 + 1) (bs_blocks b)\<rparr> else b)"

definition write_bit :: "nat \<Rightarrow> bool \<Rightarrow> u64 \<Rightarrow> u64" where
  "write_bit n v w = (if v then set_bit n w else unset_bit n w)"

text \<open>\<open>b[i] = v\<close>: the non-const subscript grows the vector, the assignment goes through a \<open>BitRef\<close>.\<close>

definition bs_assign :: "nat \<Rightarrow> bool \<Rightarrow> bitset \<Rightarrow> bitset" where
  "bs_assign i v b =
     (let b' = bs_grow i b; k = block_index i in
      b'\<lparr>bs_blocks := (bs_blocks b')[k := write_bit (bit_index i) v (bs_blocks b' ! k)]\<rparr>)"

record bit_ref =
  br_block :: u64
  br_bitIndex :: nat

definition bs_ref :: "nat \<Rightarrow> bitset \<Rightarrow> bit_ref" where
  "bs_ref i b = \<lparr>br_block = bs_blocks (bs_grow i b) ! block_index i, br_bitIndex = bit_index i\<rparr>"

definition br_bool :: "bit_ref \<Rightarrow> bool" where "br_bool r = bit (br_block r) (br_bitIndex r)"
definition br_eq :: "bit_ref \<Rightarrow> bit_ref \<Rightarrow> bool" where "br_eq r q \<longleftrightarrow> br_block r = br_block q"
definition br_eq_bool :: "bit_ref \<Rightarrow> bool \<Rightarrow> bool" where
  "br_eq_bool r v \<longleftrightarrow> bit (br_block r) (br_bitIndex r) = v"

section \<open>Bulk operations\<close>

text \<open>
  \<open>applyOperation\<close>: \<open>result\<close> may be the same object as an operand; \<open>self\<close> and \<open>other\<close> give the
  operand as it is when the result has its current value (the identity for the same object).
  The capacities are read before the loop.
\<close>

definition operation_step ::
    "(bool \<Rightarrow> bool \<Rightarrow> bool) \<Rightarrow> nat \<Rightarrow> nat \<Rightarrow> (bitset \<Rightarrow> bitset) \<Rightarrow> (bitset \<Rightarrow> bitset) \<Rightarrow>
     bitset \<Rightarrow> nat \<Rightarrow> bitset" where
  "operation_step f ca cb self other result i =
     bs_assign i (f (if i < ca then raw_bit (self result) i else False)
                    (if i < cb then raw_bit (other result) i else False)) result"

definition applyOperation ::
    "(bool \<Rightarrow> bool \<Rightarrow> bool) \<Rightarrow> (bitset \<Rightarrow> bitset) \<Rightarrow> (bitset \<Rightarrow> bitset) \<Rightarrow> bitset \<Rightarrow> bitset" where
  "applyOperation f self other result =
     (let ca = bs_capacity (self result); cb = bs_capacity (other result) in
      foldl (operation_step f ca cb self other) result [0..<max ca cb])"

definition bs_and :: "bitset \<Rightarrow> bitset \<Rightarrow> bitset" where
  "bs_and a b = applyOperation (\<lambda>x y. x \<and> y) (\<lambda>_. a) (\<lambda>_. b) a"
definition bs_or :: "bitset \<Rightarrow> bitset \<Rightarrow> bitset" where
  "bs_or a b = applyOperation (\<lambda>x y. x \<or> y) (\<lambda>_. a) (\<lambda>_. b) a"
definition bs_xor :: "bitset \<Rightarrow> bitset \<Rightarrow> bitset" where
  "bs_xor a b = applyOperation (\<lambda>x y. x \<noteq> y) (\<lambda>_. a) (\<lambda>_. b) a"
definition bs_not :: "bitset \<Rightarrow> bitset" where
  "bs_not a = applyOperation (\<lambda>x _. \<not> x) (\<lambda>_. a) (\<lambda>r. r) a"

text \<open>The compound assignments write into the left operand itself; \<open>a\<close> is its value before.\<close>

definition bs_and_assign :: "bitset \<Rightarrow> bitset \<Rightarrow> bitset" where
  "bs_and_assign a b = applyOperation (\<lambda>x y. x \<and> y) (\<lambda>r. r) (\<lambda>_. b) a"
definition bs_or_assign :: "bitset \<Rightarrow> bitset \<Rightarrow> bitset" where
  "bs_or_assign a b = applyOperation (\<lambda>x y. x \<or> y) (\<lambda>r. r) (\<lambda>_. b) a"
definition bs_xor_assign :: "bitset \<Rightarrow> bitset \<Rightarrow> bitset" where
  "bs_xor_assign a b = applyOperation (\<lambda>x y. x \<noteq> y) (\<lambda>r. r) (\<lambda>_. b) a"

text \<open>One pass of \<open>leftShift\<close> and of \<open>rightShift\<close> over the blocks.\<close>

definition block_shl :: "u64 \<Rightarrow> u64" where "block_shl w = push_bit 1 w"
definition block_shr :: "u64 \<Rightarrow> u64" where "block_shr w = drop_bit 1 w"

definition left_step :: "u64 list \<Rightarrow> nat \<Rightarrow> u64 list" where
  "left_step bs k =
     (let w = bs ! k;
          bs' = (if k \<noteq> 0 \<and> bit w 63 then bs[k - 1 := write_bit 0 True (bs ! (k - 1))] else bs)
      in bs'[k := block_shl w])"

definition right_step :: "u64 list \<Rightarrow> nat \<Rightarrow> u64 list" where
  "right_step bs k =
     (let w = bs ! k;
          bs' = (if k \<noteq> length bs - 1 \<and> bit w 0
                 then bs[k + 1 := write_bit 63 True (bs ! (k + 1))] else bs)
      in bs'[k := block_shr w])"

definition left_pass :: "u64 list \<Rightarrow> u64 list" where
  "left_pass bs = foldl left_step bs [0..<length bs]"

definition right_pass :: "u64 list \<Rightarrow> u64 list" where
  "right_pass bs = foldl right_step bs (rev [0..<length bs])"

definition leftShift :: "nat \<Rightarrow> bitset \<Rightarrow> bitset" where
  "leftShift nb b = b\<lparr>bs_blocks := (left_pass ^^ nb) (bs_blocks b)\<rparr>"

definition rightShift :: "nat \<Rightarrow> bitset \<Rightarrow> bitset" where
  "rightShift nb b = b\<lparr>bs_blocks := (right_pass ^^ nb) (bs_blocks b)\<rparr>"

definition of_bytes :: "u8 list \<Rightarrow> bitset" where
  "of_bytes bs = foldl (\<lambda>b x. bs_assign (unat x) True b) empty_bitset bs"

definition of_blocks :: "u64 list \<Rightarrow> bitset" where
  "of_blocks ws = \<lparr>bs_blocks = ws, bs_nbits = 0\<rparr>"

definition serialize :: "bitset \<Rightarrow> nat list" where
  "serialize b = filter (bs_test b) [0..<length (bs_blocks b) * 64]"

primrec set_indexes :: "nat list \<Rightarrow> u64 list \<Rightarrow> u64 list option" where
  "set_indexes [] ws = Some ws"
| "set_indexes (i # is) ws =
     (if block_index i < length ws
      then set_indexes is (ws[block_index i := write_bit (bit_index i) True (ws ! block_index i)])
      else None)"

definition deserialize :: "nat list \<Rightarrow> bitset option" where
  "deserialize indexes =
     (if indexes = [] then None
      else let n = (if 0 < last indexes then last indexes div 64 + 1 else 0) in
        map_option of_blocks (set_indexes indexes (replicate n 0)))"

definition block_string :: "u64 \<Rightarrow> string" where
  "block_string w = map (\<lambda>k. if bit w k then CHR ''1'' else CHR ''0'') (rev [0..<64])"

fun join_blocks :: "string \<Rightarrow> u64 list \<Rightarrow> string" where
  "join_blocks sep [] = ''''"
| "join_blocks sep [w] = block_string w"
| "join_blocks sep (w # v # ws) = block_string w @ sep @ join_blocks sep (v # ws)"

definition toString :: "string \<Rightarrow> bitset \<Rightarrow> string" where
  "toString sep b = join_blocks sep (bs_blocks b)"

definition stream_bitset :: "bitset \<Rightarrow> string" where
  "stream_bitset b = ''['' @ toString '' '' b @ '']''"

definition bs_increase :: "nat \<Rightarrow> bitset \<Rightarrow> bitset" where
  "bs_increase n b = b\<lparr>bs_blocks := bs_blocks b @ replicate n 0\<rparr>"

text \<open>\<open>pop_back\<close> on an empty vector is undefined.\<close>

definition bs_decrease :: "nat \<Rightarrow> bitset \<Rightarrow> bitset option" where
  "bs_decrease n b =
     (if n \<le> length (bs_blocks b)
      then Some (b\<lparr>bs_blocks := take (length (bs_blocks b) - n) (bs_blocks b)\<rparr>) else None)"

definition bs_any :: "bitset \<Rightarrow> bool" where "bs_any b \<longleftrightarrow> (\<exists>w \<in> set (bs_blocks b). w \<noteq> 0)"
definition bs_all :: "bitset \<Rightarrow> bool" where "bs_all b \<longleftrightarrow> (\<forall>w \<in> set (bs_blocks b). w = - 1)"
definition bs_none :: "bitset \<Rightarrow> bool" where "bs_none b \<longleftrightarrow> (\<forall>w \<in> set (bs_blocks b). w = 0)"
definition bs_clear :: "bitset \<Rightarrow> bitset" where
  "bs_clear b = b\<lparr>bs_blocks := map (\<lambda>_. 0) (bs_blocks b)\<rparr>"

text \<open>\<open>operator==\<close>, which compares bit \<open>i % 64\<close> of block \<open>i / 64\<close>.\<close>

definition plain_bit :: "bitset \<Rightarrow> nat \<Rightarrow> bool" where
  "plain_bit b i = bit (bs_blocks b ! (i div 64)) (i mod 64)"

definition bs_eq :: "bitset \<Rightarrow> bitset \<Rightarrow> bool" where
  "bs_eq a b \<longleftrightarrow>
     (\<forall>i \<in> set [0..<max (bs_capacity a) (bs_capacity b)].
        (if i < bs_capacity a then plain_bit a i else False) =
        (if i < bs_capacity b then plain_bit b i else False))"

section \<open>Reading and assigning single bits\<close>

lemma block_bit_eq:
  "block_index i = block_index j \<and> bit_index i = bit_index j \<longleftrightarrow> i = j"
proof
  assume a: "block_index i = block_index j \<and> bit_index i = bit_index j"
  have "i mod 64 < 64" "j mod 64 < 64" by simp_all
  with a have "i div 64 = j div 64" "i mod 64 = j mod 64"
    by (simp_all add: block_index_def bit_index_def) linarith
  then show "i = j" by (metis div_mult_mod_eq)
qed simp

lemma block_in_range: "block_index i < n \<longleftrightarrow> i < n * 64"
  by (simp add: block_index_def less_mult_imp_div_less div_less_iff_less_mult)

lemma bit_index_less [simp]: "bit_index i < 64"
  by (simp add: bit_index_def)

lemma bit_write_bit [simp]:
  "n < 64 \<Longrightarrow> bit (write_bit n v w) m \<longleftrightarrow> (if m = n then v else bit w m)"
  by (auto simp: write_bit_def bit_simps)

lemma length_resize [simp]: "length (resize_blocks n bs) = n"
  by (simp add: resize_blocks_def)

lemma length_grow:
  "length (bs_blocks (bs_grow i b)) = max (length (bs_blocks b)) (i div 64 + 1)"
proof -
  have "i < length (bs_blocks b) * 64 \<longleftrightarrow> i div 64 < length (bs_blocks b)"
    by (simp add: div_less_iff_less_mult)
  then show ?thesis
    by (auto simp: bs_grow_def bs_capacity_def not_le)
qed

lemma grow_nth:
  "k < length (bs_blocks (bs_grow i b)) \<Longrightarrow>
   bs_blocks (bs_grow i b) ! k = (if k < length (bs_blocks b) then bs_blocks b ! k else 0)"
  by (auto simp: bs_grow_def bs_capacity_def resize_blocks_def nth_append split: if_splits)

lemma bs_test_iff: "bs_test b i \<longleftrightarrow> block_index i < length (bs_blocks b) \<and> raw_bit b i"
  by (auto simp: bs_test_def bs_capacity_def block_in_range)

lemma bs_test_grow [simp]: "bs_test (bs_grow i b) j = bs_test b j"
  by (auto simp: bs_test_iff raw_bit_def grow_nth length_grow split: if_splits)

lemma bs_blocks_assign:
  "bs_blocks (bs_assign i v b) =
     (bs_blocks (bs_grow i b))[block_index i := write_bit (bit_index i) v
       (bs_blocks (bs_grow i b) ! block_index i)]"
  by (simp add: bs_assign_def Let_def)

lemma bs_test_assign: "bs_test (bs_assign i v b) j = (if j = i then v else bs_test b j)"
proof -
  let ?g = "bs_grow i b"
  have i: "block_index i < length (bs_blocks ?g)"
    by (simp add: length_grow block_index_def)
  have "bs_test (bs_assign i v b) j = (if j = i then v else bs_test ?g j)"
  proof (cases "block_index j = block_index i")
    case True
    with i block_bit_eq[of i j] show ?thesis
      by (auto simp: bs_test_iff raw_bit_def bs_blocks_assign)
  next
    case False
    then show ?thesis
      by (auto simp: bs_test_iff raw_bit_def bs_blocks_assign)
  qed
  then show ?thesis by simp
qed

lemma length_assign:
  "length (bs_blocks (bs_assign i v b)) = max (length (bs_blocks b)) (i div 64 + 1)"
  by (simp add: bs_blocks_assign length_grow)

lemma capacity_assign: "bs_capacity (bs_assign i v b) = max (bs_capacity b) ((i div 64 + 1) * 64)"
  by (auto simp: bs_capacity_def length_assign max_def)

lemma bs_test_capacity: "bs_test b i \<Longrightarrow> i < bs_capacity b"
  by (simp add: bs_test_def split: if_splits)

section \<open>The contract of single bits\<close>

locale index_bits =
  fixes test :: "'s \<Rightarrow> nat \<Rightarrow> bool"
    and assign :: "nat \<Rightarrow> bool \<Rightarrow> 's \<Rightarrow> 's"
    and cap :: "'s \<Rightarrow> nat"
  assumes test_assign: "test (assign i v s) j = (if j = i then v else test s j)"
    and test_cap: "test s i \<Longrightarrow> i < cap s"
    and cap_assign_mono: "cap s \<le> cap (assign i v s)"
    and cap_assign_same: "i < cap s \<Longrightarrow> cap (assign i v s) = cap s"
begin

definition members :: "'s \<Rightarrow> nat set" where
  "members s = {i. test s i}"

lemma members_assign:
  "members (assign i v s) = (if v then insert i (members s) else members s - {i})"
  by (auto simp: members_def test_assign)

lemma members_below: "members s \<subseteq> {..<cap s}"
  by (auto simp: members_def dest: test_cap)

text \<open>A loop that assigns index after index a value that does not depend on the indexes already
  written.\<close>

lemma pointwise_loop:
  assumes "\<And>r i. i < n \<Longrightarrow> cap s \<le> cap r \<Longrightarrow> (\<forall>j \<ge> i. test r j = test s j) \<Longrightarrow> f r i = g i"
  shows "test (foldl (\<lambda>r i. assign i (f r i) r) s [0..<n]) j = (if j < n then g j else test s j) \<and>
    cap s \<le> cap (foldl (\<lambda>r i. assign i (f r i) r) s [0..<n])"
  using assms
proof (induction n arbitrary: j)
  case (Suc n)
  let ?r = "foldl (\<lambda>r i. assign i (f r i) r) s [0..<n]"
  have IH: "test ?r j = (if j < n then g j else test s j) \<and> cap s \<le> cap ?r" for j
    using Suc.prems by (intro Suc.IH) simp
  then have "f ?r n = g n"
    by (intro Suc.prems) simp_all
  with IH show ?case
    by (auto simp: test_assign intro: order_trans[OF _ cap_assign_mono])
qed simp

lemma cap_loop: "n \<le> cap s \<Longrightarrow> cap (foldl (\<lambda>r i. assign i (f r i) r) s [0..<n]) = cap s"
  by (induction n) (simp_all add: cap_assign_same)

lemma members_set_loop: "members (foldl (\<lambda>b x. assign (h x) True b) s xs) = members s \<union> h ` set xs"
  by (induction xs arbitrary: s) (auto simp: members_assign)

end

interpretation bs: index_bits bs_test bs_assign bs_capacity
proof
  fix s :: bitset and i j v
  show "bs_test (bs_assign i v s) j = (if j = i then v else bs_test s j)" by (rule bs_test_assign)
  show "bs_test s i \<Longrightarrow> i < bs_capacity s" by (rule bs_test_capacity)
  show "bs_capacity s \<le> bs_capacity (bs_assign i v s)" by (simp add: capacity_assign)
  have "(i div 64 + 1) * 64 \<le> bs_capacity s" if "i < bs_capacity s"
    using that block_in_range[of i "length (bs_blocks s)"]
    by (simp add: bs_capacity_def block_index_def)
  then show "i < bs_capacity s \<Longrightarrow> bs_capacity (bs_assign i v s) = bs_capacity s"
    by (simp add: capacity_assign)
qed

section \<open>Set algebra\<close>

definition indexes :: "bitset \<Rightarrow> nat set" where
  "indexes b = {i. bs_test b i}"

lemma indexes_members: "indexes = bs.members"
  by (simp add: indexes_def bs.members_def fun_eq_iff)

text \<open>An operand that is the result itself, or another object.\<close>

definition operand :: "(bitset \<Rightarrow> bitset) \<Rightarrow> bool" where
  "operand f \<longleftrightarrow> f = (\<lambda>r. r) \<or> (\<exists>a. f = (\<lambda>_. a))"

lemma operand_simps [simp]: "operand (\<lambda>r. r)" "operand (\<lambda>_. a)"
  by (auto simp: operand_def)

lemma raw_bit_test: "i < bs_capacity b \<Longrightarrow> raw_bit b i = bs_test b i"
  by (simp add: bs_test_def)


lemma test_applyOperation:
  assumes "operand self" and "operand other"
  shows "bs_test (applyOperation f self other r) j =
    (if j < max (bs_capacity (self r)) (bs_capacity (other r))
     then f (bs_test (self r) j) (bs_test (other r) j) else bs_test r j)"
proof -
  have read: "(if i < bs_capacity (h r) then raw_bit (h q) i else False) = bs_test (h r) i"
    if "operand h" "bs_capacity r \<le> bs_capacity q" "\<forall>j \<ge> i. bs_test q j = bs_test r j" for h q i
    using that by (auto simp: operand_def raw_bit_test dest: bs_test_capacity)
  show ?thesis
    unfolding applyOperation_def operation_step_def Let_def
    by (rule bs.pointwise_loop[THEN conjunct1]) (simp add: read assms)
qed

text \<open>A result that starts as a copy of the left operand, or is that operand, has no bit beyond
  the limit.\<close>

lemma test_binary:
  assumes "operand self" and "operand other" and "\<not> f False False" and "self a = a"
  shows "bs_test (applyOperation f self other a) j \<longleftrightarrow> f (bs_test a j) (bs_test (other a) j)"
proof (cases "j < max (bs_capacity a) (bs_capacity (other a))")
  case True
  with assms(4) show ?thesis by (simp add: test_applyOperation[OF assms(1,2)])
next
  case False
  then have "\<not> bs_test a j" "\<not> bs_test (other a) j" by (auto dest: bs_test_capacity)
  with False assms(3,4) show ?thesis by (simp add: test_applyOperation[OF assms(1,2)])
qed

lemma indexes_binary:
  assumes "operand self" and "operand other" and "\<not> f False False" and "self a = a"
  shows "indexes (applyOperation f self other a) = {i. f (i \<in> indexes a) (i \<in> indexes (other a))}"
  using assms by (simp add: indexes_def test_binary[of self other f a])

lemma indexes_and: "indexes (bs_and a b) = indexes a \<inter> indexes b"
  unfolding bs_and_def by (subst indexes_binary) auto

lemma indexes_or: "indexes (bs_or a b) = indexes a \<union> indexes b"
  unfolding bs_or_def by (subst indexes_binary) auto

lemma indexes_xor: "indexes (bs_xor a b) = (indexes a - indexes b) \<union> (indexes b - indexes a)"
  unfolding bs_xor_def by (subst indexes_binary) auto

lemma indexes_compound:
  "indexes (bs_and_assign a b) = indexes a \<inter> indexes b"
  "indexes (bs_or_assign a b) = indexes a \<union> indexes b"
  "indexes (bs_xor_assign a b) = (indexes a - indexes b) \<union> (indexes b - indexes a)"
  unfolding bs_and_assign_def bs_or_assign_def bs_xor_assign_def
  by (subst indexes_binary; auto)+

lemma indexes_not: "indexes (bs_not a) = {..<bs_capacity a} - indexes a"
proof -
  have "bs_test (bs_not a) j = (if j < bs_capacity a then \<not> bs_test a j else bs_test a j)" for j
    unfolding bs_not_def applyOperation_def operation_step_def Let_def
    using bs.pointwise_loop[of "bs_capacity a" a "\<lambda>q i. \<not> (if i < bs_capacity a then raw_bit a i else False)"
        "\<lambda>i. \<not> bs_test a i" j]
    by (simp add: raw_bit_test)
  then show ?thesis
    by (auto simp: indexes_def dest: bs_test_capacity)
qed

text \<open>The bitwise operators of the component masks are the operations on the sets of indexes
  they stand for, whatever the capacities of the operands, and the compound assignments, which
  write into their own operand while they read it, agree with them; the complement is taken
  within the capacity.\<close>

theorem bitset_algebra:
  "indexes (bs_and a b) = indexes a \<inter> indexes b \<and>
   indexes (bs_or a b) = indexes a \<union> indexes b \<and>
   indexes (bs_xor a b) = (indexes a - indexes b) \<union> (indexes b - indexes a) \<and>
   indexes (bs_not a) = {..<bs_capacity a} - indexes a \<and>
   indexes (bs_and_assign a b) = indexes (bs_and a b) \<and>
   indexes (bs_or_assign a b) = indexes (bs_or a b) \<and>
   indexes (bs_xor_assign a b) = indexes (bs_xor a b)"
  by (simp add: indexes_and indexes_or indexes_xor indexes_not indexes_compound)

section \<open>Comparison and queries\<close>

lemma plain_bit_iff:
  "(if i < bs_capacity b then plain_bit b i else False) =
     (i div 64 < length (bs_blocks b) \<and> bit (bs_blocks b ! (i div 64)) (i mod 64))"
  by (auto simp: plain_bit_def bs_capacity_def div_less_iff_less_mult)

text \<open>Index \<open>i\<close> and its mirror image within the block.\<close>

definition mirror :: "nat \<Rightarrow> nat" where
  "mirror i = i div 64 * 64 + (63 - i mod 64)"

lemma mirror_div_mod [simp]: "mirror i div 64 = i div 64" "mirror i mod 64 = 63 - i mod 64"
proof -
  show "mirror i div 64 = i div 64"
    by (simp add: mirror_def div_add1_eq)
  have "mirror i mod 64 = (63 - i mod 64) mod 64"
    by (simp only: mirror_def mod_mult_self3)
  then show "mirror i mod 64 = 63 - i mod 64" by simp
qed

lemma plain_bit_mirror:
  "(if mirror i < bs_capacity b then plain_bit b (mirror i) else False) = bs_test b i"
  by (simp only: plain_bit_iff bs_test_iff raw_bit_def block_index_def bit_index_def mirror_div_mod)

lemma mirror_mirror [simp]: "mirror (mirror i) = i"
proof -
  have "i mod 64 \<le> 63" by (simp add: less_Suc_eq_le[symmetric])
  then have "mirror (mirror i) = i div 64 * 64 + i mod 64"
    by (subst mirror_def) (simp only: mirror_div_mod diff_diff_cancel)
  then show ?thesis by simp
qed

lemma all_mirror: "(\<forall>i. P i) \<longleftrightarrow> (\<forall>i. P (mirror i))"
  by (metis mirror_mirror)

lemma bs_eq_iff: "bs_eq a b \<longleftrightarrow> indexes a = indexes b"
proof -
  let ?p = "\<lambda>b i. if i < bs_capacity b then plain_bit b i else False"
  have "bs_eq a b \<longleftrightarrow> (\<forall>i. ?p a i = ?p b i)"
    by (auto simp: bs_eq_def)
  also have "\<dots> \<longleftrightarrow> (\<forall>i. ?p a (mirror i) = ?p b (mirror i))"
    by (rule all_mirror)
  also have "\<dots> \<longleftrightarrow> indexes a = indexes b"
    by (simp only: plain_bit_mirror) (auto simp: indexes_def)
  finally show ?thesis .
qed


lemma finite_indexes [simp]: "finite (indexes b)"
  unfolding indexes_members by (rule finite_subset[OF bs.members_below]) simp

lemma empty_indexes [simp]: "indexes empty_bitset = {}"
  by (simp add: indexes_def bs_test_def bs_capacity_def empty_bitset_def)

lemma indexes_assign [simp]:
  "indexes (bs_assign i v b) = (if v then insert i (indexes b) else indexes b - {i})"
  unfolding indexes_members by (rule bs.members_assign)

lemma index_at:
  assumes "n < 64"
  shows "block_index (k * 64 + (63 - n)) = k" and "bit_index (k * 64 + (63 - n)) = n"
proof -
  have "(k * 64 + (63 - n)) div 64 = k" "(k * 64 + (63 - n)) mod 64 = 63 - n"
    by (simp_all add: div_mult_self3 mod_mult_self3 del: add_diff_assoc)
  with assms show "block_index (k * 64 + (63 - n)) = k" "bit_index (k * 64 + (63 - n)) = n"
    by (simp_all only: block_index_def bit_index_def)
qed

lemma some_bit: "(\<exists>i. bs_test a i) \<longleftrightarrow> (\<exists>w \<in> set (bs_blocks a). w \<noteq> 0)"
proof
  assume "\<exists>i. bs_test a i"
  then obtain i where "block_index i < length (bs_blocks a)" "raw_bit a i"
    by (auto simp: bs_test_iff)
  then show "\<exists>w \<in> set (bs_blocks a). w \<noteq> 0"
    by (intro bexI[of _ "bs_blocks a ! block_index i"]) (auto simp: raw_bit_def)
next
  assume "\<exists>w \<in> set (bs_blocks a). w \<noteq> 0"
  then obtain k where k: "k < length (bs_blocks a)" "bs_blocks a ! k \<noteq> 0"
    by (auto simp: in_set_conv_nth)
  then obtain n where n: "bit (bs_blocks a ! k) n" "n < 64"
    using bit_imp_le_length by (auto simp: bit_eq_iff)
  have "bs_test a (k * 64 + (63 - n))"
    using k n by (simp only: bs_test_iff raw_bit_def index_at)
  then show "\<exists>i. bs_test a i" by blast
qed

lemma serialize_sorted: "serialize a = sorted_list_of_set (indexes a)"
proof -
  have "set (serialize a) = indexes a"
    by (auto simp: serialize_def indexes_def bs_capacity_def dest: bs_test_capacity)
  moreover have "sorted (serialize a)" "distinct (serialize a)"
    by (simp_all add: serialize_def sorted_wrt_filter)
  ultimately show ?thesis
    by (metis sorted_list_of_set.idem_if_sorted_distinct)
qed

text \<open>Comparison of masks is equality of the sets, whatever their capacities; a mask built from a
  list of bytes holds exactly these; \<open>any\<close> and \<open>none\<close> test the set for emptiness, \<open>clear\<close> empties
  it, and \<open>serialize\<close> lists it in increasing order.\<close>

theorem bitset_queries:
  "(bs_eq a b \<longleftrightarrow> indexes a = indexes b) \<and>
   indexes (of_bytes xs) = unat ` set xs \<and>
   (bs_any a \<longleftrightarrow> indexes a \<noteq> {}) \<and> (bs_none a \<longleftrightarrow> indexes a = {}) \<and>
   indexes (bs_clear a) = {} \<and> serialize a = sorted_list_of_set (indexes a)"
proof (intro conjI)
  show "bs_eq a b \<longleftrightarrow> indexes a = indexes b" by (rule bs_eq_iff)
  show "indexes (of_bytes xs) = unat ` set xs"
    using bs.members_set_loop[of unat empty_bitset xs] empty_indexes
    by (simp add: of_bytes_def indexes_members)
  show "bs_any a \<longleftrightarrow> indexes a \<noteq> {}" by (simp add: bs_any_def indexes_def some_bit)
  show "bs_none a \<longleftrightarrow> indexes a = {}" using some_bit[of a] by (auto simp: bs_none_def indexes_def)
  show "indexes (bs_clear a) = {}"
    by (simp add: indexes_def bs_test_iff raw_bit_def bs_clear_def)
  show "serialize a = sorted_list_of_set (indexes a)" by (rule serialize_sorted)
qed

section \<open>Shifts\<close>

text \<open>The blocks read as one row of bits.\<close>

definition row_bit :: "u64 list \<Rightarrow> nat \<Rightarrow> bool" where
  "row_bit bs i \<longleftrightarrow> i < length bs * 64 \<and> bit (bs ! (i div 64)) (63 - i mod 64)"

lemma bs_test_row: "bs_test b i = row_bit (bs_blocks b) i"
  by (auto simp: bs_test_def bs_capacity_def raw_bit_def block_index_def bit_index_def row_bit_def)


lemma bit_block_shifts:
  "j < 64 \<Longrightarrow> bit (block_shl w) j \<longleftrightarrow> 0 < j \<and> bit w (j - 1)"
  "bit (block_shr w) j \<longleftrightarrow> bit w (j + 1)"
  by (auto simp: block_shl_def block_shr_def bit_push_bit_iff bit_drop_bit_eq simp del: push_bit_Suc)

lemma length_shift_steps [simp]:
  "length (left_step bs k) = length bs" "length (right_step bs k) = length bs"
  by (simp_all add: left_step_def right_step_def Let_def)

lemma left_steps:
  assumes "n \<le> length bs"
  defines "r \<equiv> foldl left_step bs [0..<n]"
  shows "length r = length bs \<and> (\<forall>k < length bs. \<forall>j < 64.
    bit (r ! k) j =
      (if n \<le> k then bit (bs ! k) j
       else if j = 0 then k + 1 < n \<and> bit (bs ! (k + 1)) 63 else bit (bs ! k) (j - 1)))"
  using assms(1) unfolding r_def
proof (induction n)
  case (Suc n)
  let ?r = "foldl left_step bs [0..<n]"
  from Suc have IH: "length ?r = length bs"
    "\<And>k j. k < length bs \<Longrightarrow> j < 64 \<Longrightarrow> bit (?r ! k) j =
      (if n \<le> k then bit (bs ! k) j
       else if j = 0 then k + 1 < n \<and> bit (bs ! (k + 1)) 63 else bit (bs ! k) (j - 1))"
    by auto
  have "bit (left_step ?r n ! k) j =
      (if Suc n \<le> k then bit (bs ! k) j
       else if j = 0 then k + 1 < Suc n \<and> bit (bs ! (k + 1)) 63 else bit (bs ! k) (j - 1))"
    if "k < length bs" "j < 64" for k j
    using that Suc.prems
    by (cases "k = n"; cases "n \<noteq> 0 \<and> k = n - 1")
      (auto simp: left_step_def Let_def IH nth_list_update bit_block_shifts)
  then show ?case
    using IH(1) by simp
qed simp

lemma row_left_pass: "row_bit (left_pass bs) i \<longleftrightarrow> row_bit bs (i + 1)"
proof (cases "i < length bs * 64")
  case True
  define k j where "k = i div 64" and "j = i mod 64"
  have kj: "i = 64 * k + j" "j < 64" "k < length bs"
    using True by (simp_all add: k_def j_def less_mult_imp_div_less)
  have len: "length (left_pass bs) = length bs"
    using left_steps[of "length bs" bs] by (simp add: left_pass_def)
  have bits: "bit (left_pass bs ! k) (63 - j) =
      (if 63 - j = 0 then k + 1 < length bs \<and> bit (bs ! (k + 1)) 63 else bit (bs ! k) (63 - j - 1))"
    using left_steps[of "length bs" bs] kj by (simp add: left_pass_def)
  show ?thesis
  proof (cases "j = 63")
    case True
    then have "i + 1 = 64 * (k + 1)" using kj by simp
    then have "(i + 1) div 64 = k + 1" "(i + 1) mod 64 = 0" by simp_all
    with True bits len kj show ?thesis
      by (simp add: row_bit_def) linarith
  next
    case False
    then have "i + 1 = 64 * k + (j + 1)" "j + 1 < 64" using kj by simp_all
    then have "(i + 1) div 64 = k" "(i + 1) mod 64 = j + 1" by simp_all
    with False bits len kj show ?thesis
      by (auto simp: row_bit_def)
  qed
next
  case False
  have "length (left_pass bs) = length bs"
    using left_steps[of "length bs" bs] by (simp add: left_pass_def)
  with False show ?thesis by (simp add: row_bit_def)
qed


lemma right_steps:
  assumes "m \<le> length bs"
  defines "r \<equiv> foldl right_step bs (rev [m..<length bs])"
  shows "length r = length bs \<and> (\<forall>k < length bs. \<forall>j < 64.
    bit (r ! k) j =
      (if k < m then bit (bs ! k) j
       else if j = 63 then m < k \<and> bit (bs ! (k - 1)) 0 else bit (bs ! k) (j + 1)))"
  using assms(1) unfolding r_def
proof (induction rule: inc_induct)
  case base
  show ?case by simp
next
  case (step n)
  let ?r = "foldl right_step bs (rev [Suc n..<length bs])"
  from step have IH: "length ?r = length bs"
    "\<And>k j. k < length bs \<Longrightarrow> j < 64 \<Longrightarrow> bit (?r ! k) j =
      (if k < Suc n then bit (bs ! k) j
       else if j = 63 then Suc n < k \<and> bit (bs ! (k - 1)) 0 else bit (bs ! k) (j + 1))"
    by auto
  have last: "\<not> bit w 64" for w :: u64
    using bit_imp_le_length[of w 64] by auto
  have "bit (right_step ?r n ! k) j =
      (if k < n then bit (bs ! k) j
       else if j = 63 then n < k \<and> bit (bs ! (k - 1)) 0 else bit (bs ! k) (j + 1))"
    if "k < length bs" "j < 64" for k j
    using that step.hyps last
    by (cases "k = n"; cases "n + 1 < length bs \<and> k = n + 1")
      (auto simp: right_step_def Let_def IH nth_list_update bit_block_shifts)
  moreover have "rev [n..<length bs] = rev [Suc n..<length bs] @ [n]"
    using step.hyps by (simp add: upt_conv_Cons)
  ultimately show ?case
    using IH(1) by simp
qed

lemma row_right_pass: "row_bit (right_pass bs) i \<longleftrightarrow> 0 < i \<and> i < length bs * 64 \<and> row_bit bs (i - 1)"
proof (cases "i < length bs * 64")
  case True
  define k j where "k = i div 64" and "j = i mod 64"
  have kj: "i = 64 * k + j" "j < 64" "k < length bs"
    using True by (simp_all add: k_def j_def less_mult_imp_div_less)
  have len: "length (right_pass bs) = length bs"
    using right_steps[of 0 bs] by (simp add: right_pass_def)
  have bits: "bit (right_pass bs ! k) (63 - j) =
      (if 63 - j = 63 then 0 < k \<and> bit (bs ! (k - 1)) 0 else bit (bs ! k) (63 - j + 1))"
    using right_steps[of 0 bs] kj by (simp add: right_pass_def)
  show ?thesis
  proof (cases "j = 0")
    case True
    show ?thesis
    proof (cases "k = 0")
      case False
      then have "i - 1 = 64 * (k - 1) + 63" using True kj by simp
      then have "(i - 1) div 64 = k - 1" "(i - 1) mod 64 = 63" by simp_all
      with True False bits len kj show ?thesis by (auto simp: row_bit_def)
    qed (use True bits len kj in \<open>simp add: row_bit_def\<close>)
  next
    case False
    then have "i - 1 = 64 * k + (j - 1)" "j - 1 < 64" using kj by simp_all
    then have "(i - 1) div 64 = k" "(i - 1) mod 64 = j - 1" by simp_all
    moreover have "63 - j + 1 = 63 - (j - 1)" using False kj by simp
    ultimately show ?thesis
      using False bits len kj by (auto simp: row_bit_def)
  qed
next
  case False
  have "length (right_pass bs) = length bs"
    using right_steps[of 0 bs] by (simp add: right_pass_def)
  with False show ?thesis by (simp add: row_bit_def)
qed

lemma length_passes [simp]: "length (left_pass bs) = length bs" "length (right_pass bs) = length bs"
  using left_steps[of "length bs" bs] right_steps[of 0 bs]
  by (simp_all add: left_pass_def right_pass_def)

lemma length_passes_iterated [simp]:
  "length ((left_pass ^^ n) bs) = length bs" "length ((right_pass ^^ n) bs) = length bs"
  by (induction n) simp_all

lemma row_left_iterated: "row_bit ((left_pass ^^ n) bs) i \<longleftrightarrow> row_bit bs (i + n)"
  by (induction n arbitrary: i) (simp_all add: row_left_pass)

lemma row_right_iterated:
  "row_bit ((right_pass ^^ n) bs) i \<longleftrightarrow> n \<le> i \<and> i < length bs * 64 \<and> row_bit bs (i - n)"
proof (induction n arbitrary: i)
  case 0
  show ?case by (auto simp: row_bit_def)
next
  case (Suc n)
  show ?case
  proof (cases i)
    case (Suc i')
    have "row_bit ((right_pass ^^ n) bs) i' \<longleftrightarrow> n \<le> i' \<and> i' < length bs * 64 \<and> row_bit bs (i' - n)"
      by (rule Suc.IH)
    with \<open>i = Suc i'\<close> show ?thesis by (simp add: row_right_pass) linarith
  qed (simp add: row_right_pass)
qed

text \<open>Shifting a mask to the left by \<open>n\<close> subtracts \<open>n\<close> from every index and drops those below;
  shifting it to the right adds \<open>n\<close> and drops what leaves the capacity, which stays as it is;
  carries between the blocks included.\<close>

theorem bitset_shifts:
  "indexes (leftShift n b) = {i. i + n \<in> indexes b} \<and>
   indexes (rightShift n b) = {i. i < bs_capacity b \<and> (\<exists>j \<in> indexes b. i = j + n)} \<and>
   bs_capacity (leftShift n b) = bs_capacity b \<and> bs_capacity (rightShift n b) = bs_capacity b"
proof -
  have "i \<in> indexes (rightShift n b) \<longleftrightarrow> i < bs_capacity b \<and> (\<exists>j \<in> indexes b. i = j + n)" for i
  proof -
    have "i \<in> indexes (rightShift n b) \<longleftrightarrow> n \<le> i \<and> i < bs_capacity b \<and> i - n \<in> indexes b"
      by (simp add: indexes_def bs_test_row rightShift_def row_right_iterated bs_capacity_def)
    moreover have "(\<exists>j \<in> indexes b. i = j + n) \<longleftrightarrow> n \<le> i \<and> i - n \<in> indexes b"
      by (metis add_diff_cancel_right' le_add2 le_add_diff_inverse2)
    ultimately show ?thesis by blast
  qed
  then show ?thesis
    by (auto simp: indexes_def bs_test_row leftShift_def row_left_iterated bs_capacity_def rightShift_def)
qed

section \<open>Serialisation\<close>

lemma row_write:
  assumes "block_index i < length ws"
  shows "row_bit (ws[block_index i := write_bit (bit_index i) True (ws ! block_index i)]) j \<longleftrightarrow>
    j = i \<or> row_bit ws j"
proof -
  let ?b = "of_blocks ws"
  have "\<not> bs_capacity ?b \<le> i"
    using assms block_in_range[of i "length ws"] by (simp add: bs_capacity_def of_blocks_def)
  then have "bs_assign i True ?b =
      of_blocks (ws[block_index i := write_bit (bit_index i) True (ws ! block_index i)])"
    by (simp add: bs_assign_def bs_grow_def of_blocks_def Let_def)
  then show ?thesis
    using bs_test_assign[of i True ?b j] by (simp add: bs_test_row of_blocks_def)
qed

lemma set_indexes_ok:
  assumes "\<forall>i \<in> set is. block_index i < length ws"
  shows "\<exists>ws'. set_indexes is ws = Some ws' \<and> (\<forall>j. row_bit ws' j \<longleftrightarrow> j \<in> set is \<or> row_bit ws j)"
  using assms
proof (induction "is" arbitrary: ws)
  case (Cons i "is")
  let ?ws = "ws[block_index i := write_bit (bit_index i) True (ws ! block_index i)]"
  obtain ws' where "set_indexes is ?ws = Some ws'"
    "\<forall>j. row_bit ws' j \<longleftrightarrow> j \<in> set is \<or> row_bit ?ws j"
    using Cons.IH[of ?ws] Cons.prems by auto
  with Cons.prems show ?case by (auto simp: row_write)
qed simp

lemma row_zero [simp]: "\<not> row_bit (replicate n 0) j"
  by (auto simp: row_bit_def less_mult_imp_div_less)

lemma indexes_of_blocks: "indexes (of_blocks ws) = {j. row_bit ws j}"
  by (simp add: indexes_def bs_test_row of_blocks_def)

lemma sorted_le_last: "sorted is \<Longrightarrow> i \<in> set is \<Longrightarrow> i \<le> last is" for i :: nat
  by (induction "is") (auto split: if_splits)

lemma deserialize_sorted:
  assumes "sorted is" and "is \<noteq> []" and "0 < last is"
  shows "\<exists>c. deserialize is = Some c \<and> indexes c = set is"
proof -
  let ?n = "last is div 64 + 1"
  have "\<forall>i \<in> set is. i \<le> last is"
    using sorted_le_last[OF assms(1)] by blast
  then have "\<forall>i \<in> set is. block_index i < length (replicate ?n (0 :: u64))"
    by (simp add: block_index_def div_le_mono less_Suc_eq_le)
  then obtain ws where "set_indexes is (replicate ?n 0) = Some ws"
    "\<forall>j. row_bit ws j \<longleftrightarrow> j \<in> set is"
    using set_indexes_ok[of "is" "replicate ?n 0"] row_zero[of ?n] by blast
  with assms(2,3) show ?thesis
    by (simp add: deserialize_def indexes_of_blocks)
qed

text \<open>C24: a mask survives \<open>serialize\<close> and \<open>deserialize\<close> when it holds an index other than 0; the
  empty mask and the mask \<open>{0}\<close> make \<open>deserialize\<close> read outside its vectors.\<close>

theorem bitset_roundtrip:
  "if indexes b \<subseteq> {0} then deserialize (serialize b) = None
   else \<exists>c. deserialize (serialize b) = Some c \<and> indexes c = indexes b"
proof (cases "indexes b \<subseteq> {0}")
  case True
  then have "serialize b = [] \<or> serialize b = [0]"
    by (cases "indexes b = {}") (auto simp: serialize_sorted subset_singleton_iff)
  then show ?thesis
    using True by (auto simp: deserialize_def)
next
  case False
  have set: "set (serialize b) = indexes b" "sorted (serialize b)"
    by (simp_all add: serialize_sorted)
  from False obtain i where "i \<in> set (serialize b)" "0 < i"
    by (auto simp: set)
  moreover from this set(2) have "i \<le> last (serialize b)"
    by (intro sorted_le_last)
  ultimately have "serialize b \<noteq> []" "0 < last (serialize b)" by auto
  with deserialize_sorted[OF set(2)] False set(1) show ?thesis by simp
qed

end
