(* ===== verification/SparseSet.thy ===== *)
theory SparseSet
  imports Prelude
begin

text \<open>
  The class template \<open>SparseSet\<close> of \<^verbatim>\<open>lib/rtecs/include/rtecs/sparse/set/SparseSet.hpp\<close> with its
  base \<open>ASparseSet\<close>: the instances of one component type, a dense vector with the entities that
  own them, and pages that map an entity to its place.  The locale \<open>keyed_store\<close> is what the
  entity-component system relies on, a finite map from entities to instances; the class refines
  it.
\<close>

section \<open>State\<close>

definition kPageSize :: nat where "kPageSize = 2048"

record 'a sparse_set =
  ss_id :: nat
  ss_dense :: "'a list"
  ss_entities :: "nat list"
  ss_pages :: "nat option list list"

definition new_sparse_set :: "nat \<Rightarrow> 'a sparse_set" where
  "new_sparse_set cid = \<lparr>ss_id = cid, ss_dense = [], ss_entities = [], ss_pages = []\<rparr>"

definition page_of :: "nat \<Rightarrow> nat" where "page_of i = i div kPageSize"
definition page_index_of :: "nat \<Rightarrow> nat" where "page_index_of i = i mod kPageSize"

section \<open>Operations\<close>

definition ss_get :: "'a sparse_set \<Rightarrow> nat \<Rightarrow> 'a option" where
  "ss_get s i =
     (if page_of i \<ge> length (ss_pages s) then None
      else case ss_pages s ! page_of i ! page_index_of i of
             None \<Rightarrow> None
           | Some k \<Rightarrow> Some (ss_dense s ! k))"

definition ss_getAll :: "'a sparse_set \<Rightarrow> 'a list" where "ss_getAll s = ss_dense s"
definition ss_getEntities :: "'a sparse_set \<Rightarrow> nat list" where "ss_getEntities s = ss_entities s"
definition ss_size :: "'a sparse_set \<Rightarrow> nat" where "ss_size s = length (ss_dense s)"

definition ss_has :: "'a sparse_set \<Rightarrow> nat \<Rightarrow> bool" where
  "ss_has s i =
     (if page_of i \<ge> length (ss_pages s) then False
      else ss_pages s ! page_of i ! page_index_of i \<noteq> None)"

text \<open>\<open>_sparsePages[page][index] = v\<close>.\<close>

definition set_slot :: "nat \<Rightarrow> nat option \<Rightarrow> nat option list list \<Rightarrow> nat option list list" where
  "set_slot i v pages = pages[page_of i := (pages ! page_of i)[page_index_of i := v]]"

definition empty_page :: "nat option list" where "empty_page = replicate kPageSize None"

definition ensure_page :: "nat \<Rightarrow> nat option list list \<Rightarrow> nat option list list" where
  "ensure_page i pages =
     (if page_of i \<ge> length pages
      then (pages @ replicate (page_of i + 1 - length pages) empty_page)[page_of i := empty_page]
      else pages)"

definition ss_put :: "nat \<Rightarrow> 'a \<Rightarrow> 'a sparse_set \<Rightarrow> 'a sparse_set" where
  "ss_put i component s =
     (let pages = ensure_page i (ss_pages s) in
      case pages ! page_of i ! page_index_of i of
        None \<Rightarrow>
          s\<lparr>ss_dense := ss_dense s @ [component], ss_entities := ss_entities s @ [i],
            ss_pages := set_slot i (Some (length (ss_dense s @ [component]) - 1)) pages\<rparr>
      | Some k \<Rightarrow>
          s\<lparr>ss_dense := (ss_dense s)[k := component], ss_entities := (ss_entities s)[k := i],
            ss_pages := pages\<rparr>)"

definition swap_with_last :: "nat \<Rightarrow> 'b list \<Rightarrow> 'b list" where
  "swap_with_last k xs = xs[k := last xs, length xs - 1 := xs ! k]"

definition ss_remove :: "nat \<Rightarrow> 'a sparse_set \<Rightarrow> 'a sparse_set" where
  "ss_remove i s =
     (if \<not> ss_has s i then s
      else case ss_pages s ! page_of i ! page_index_of i of
        None \<Rightarrow> s
      | Some k \<Rightarrow>
          let moved = last (ss_entities s);
              dense = butlast (swap_with_last k (ss_dense s));
              entities = butlast (swap_with_last k (ss_entities s));
              pages = set_slot i None (ss_pages s)
          in s\<lparr>ss_dense := dense, ss_entities := entities,
               ss_pages := (if k < length dense then set_slot moved (Some k) pages else pages)\<rparr>)"

definition ss_clear :: "'a sparse_set \<Rightarrow> 'a sparse_set" where
  "ss_clear s = s\<lparr>ss_dense := [], ss_entities := [], ss_pages := []\<rparr>"

section \<open>Places\<close>

definition slot :: "nat option list list \<Rightarrow> nat \<Rightarrow> nat option" where
  "slot pages i = (if page_of i < length pages then pages ! page_of i ! page_index_of i else None)"

definition pages_wf :: "nat option list list \<Rightarrow> bool" where
  "pages_wf pages \<longleftrightarrow> (\<forall>p \<in> set pages. length p = kPageSize)"

lemma page_eq: "page_of i = page_of j \<and> page_index_of i = page_index_of j \<longleftrightarrow> i = j"
  by (metis page_of_def page_index_of_def div_mult_mod_eq)

lemma page_index_less [simp]: "page_index_of i < kPageSize"
  by (simp add: page_index_of_def kPageSize_def)

lemma slot_ensure [simp]: "slot (ensure_page i pages) j = slot pages j"
  by (auto simp: slot_def ensure_page_def nth_append nth_list_update empty_page_def)

lemma pages_wf_ensure: "pages_wf pages \<Longrightarrow> pages_wf (ensure_page i pages)"
  by (auto simp: pages_wf_def ensure_page_def empty_page_def dest!: set_update_subset_insert[THEN subsetD])

lemma page_ensured: "page_of i < length (ensure_page i pages)"
  by (simp add: ensure_page_def)

lemma slot_set_slot:
  assumes "pages_wf pages" and "page_of i < length pages"
  shows "slot (set_slot i v pages) j = (if j = i then v else slot pages j)"
proof -
  have "length (pages ! page_of i) = kPageSize"
    using assms by (simp add: pages_wf_def)
  with assms(2) page_eq[of i j] show ?thesis
    by (cases "page_of j = page_of i"; cases "j = i") (simp_all add: slot_def set_slot_def)
qed

lemma set_slot_props [simp]:
  "length (set_slot i v pages) = length pages"
  by (simp add: set_slot_def)

lemma pages_wf_set_slot:
  assumes "pages_wf pages" and "page_of i < length pages"
  shows "pages_wf (set_slot i v pages)"
  using assms by (auto simp: pages_wf_def set_slot_def dest!: set_update_subset_insert[THEN subsetD])

lemma slot_some_page: "slot pages i = Some k \<Longrightarrow> page_of i < length pages"
  by (simp add: slot_def split: if_splits)

section \<open>Invariant\<close>

definition ss_wf :: "'a sparse_set \<Rightarrow> bool" where
  "ss_wf s \<longleftrightarrow>
     pages_wf (ss_pages s) \<and> length (ss_dense s) = length (ss_entities s) \<and>
     (\<forall>i k. slot (ss_pages s) i = Some k \<longleftrightarrow> k < length (ss_entities s) \<and> ss_entities s ! k = i)"

lemma ss_wfD:
  assumes "ss_wf s"
  shows "pages_wf (ss_pages s)" and "length (ss_dense s) = length (ss_entities s)"
    and "slot (ss_pages s) i = Some k \<longleftrightarrow> k < length (ss_entities s) \<and> ss_entities s ! k = i"
  using assms by (auto simp: ss_wf_def)

lemma slot_bound: "ss_wf s \<Longrightarrow> slot (ss_pages s) i = Some k \<Longrightarrow> k < length (ss_entities s)"
  by (simp add: ss_wfD(3))

lemma ss_get_slot: "ss_get s i = map_option ((!) (ss_dense s)) (slot (ss_pages s) i)"
  by (simp add: ss_get_def slot_def split: option.split)

lemma ss_has_slot: "ss_has s i \<longleftrightarrow> slot (ss_pages s) i \<noteq> None"
  by (simp add: ss_has_def slot_def)

lemma ss_has_get: "ss_has s i \<longleftrightarrow> ss_get s i \<noteq> None"
  by (simp add: ss_has_slot ss_get_slot)

lemma ss_has_iff: "ss_wf s \<Longrightarrow> ss_has s i \<longleftrightarrow> i \<in> set (ss_entities s)"
  by (auto simp: ss_has_slot ss_wfD(3) in_set_conv_nth)

lemma distinct_entities: "ss_wf s \<Longrightarrow> distinct (ss_entities s)"
  unfolding distinct_conv_nth by (metis option.inject ss_wfD(3))

lemma ss_wf_new [simp]: "ss_wf (new_sparse_set cid)"
  by (simp add: ss_wf_def new_sparse_set_def pages_wf_def slot_def)

section \<open>Refinement of a finite map\<close>

lemma put_slot:
  "ss_put i c s =
    (case slot (ss_pages s) i of
       None \<Rightarrow> s\<lparr>ss_dense := ss_dense s @ [c], ss_entities := ss_entities s @ [i],
                  ss_pages := set_slot i (Some (length (ss_dense s))) (ensure_page i (ss_pages s))\<rparr>
     | Some k \<Rightarrow> s\<lparr>ss_dense := (ss_dense s)[k := c], ss_entities := (ss_entities s)[k := i],
                    ss_pages := ensure_page i (ss_pages s)\<rparr>)"
proof -
  have "ensure_page i (ss_pages s) ! page_of i ! page_index_of i = slot (ss_pages s) i"
    by (metis page_ensured slot_def slot_ensure)
  then show ?thesis by (simp add: ss_put_def Let_def split: option.split)
qed

lemma ss_put_correct:
  assumes "ss_wf s"
  shows "ss_wf (ss_put i c s)" and "ss_get (ss_put i c s) = (ss_get s)(i \<mapsto> c)"
proof -
  note wf = ss_wfD[OF assms]
  let ?pages = "ensure_page i (ss_pages s)"
  have pages: "pages_wf ?pages" "page_of i < length ?pages"
    using wf(1) by (simp_all add: pages_wf_ensure page_ensured)
  have "ss_wf (ss_put i c s) \<and> (\<forall>j. ss_get (ss_put i c s) j = ((ss_get s)(i \<mapsto> c)) j)"
  proof (cases "slot (ss_pages s) i")
    case None
    note set = slot_set_slot[OF pages, of "Some (length (ss_entities s))"]
    have new: "i \<notin> set (ss_entities s)"
      using None wf(3)[of i] by (auto simp: in_set_conv_nth)
    have "ss_wf (ss_put i c s)"
      unfolding ss_wf_def put_slot None
      using wf(2) pages new by (auto simp: pages_wf_set_slot set wf(3) nth_append less_Suc_eq)
    moreover have "ss_get (ss_put i c s) j = ((ss_get s)(i \<mapsto> c)) j" for j
      by (cases "slot (ss_pages s) j")
        (auto simp: ss_get_slot put_slot None wf(2) set nth_append dest: slot_bound[OF assms])
    ultimately show ?thesis by blast
  next
    case (Some k)
    then have k: "k < length (ss_entities s)" "ss_entities s ! k = i" by (simp_all add: wf(3))
    then have same: "(ss_entities s)[k := i] = ss_entities s" by (metis list_update_id)
    have "ss_wf (ss_put i c s)"
      unfolding ss_wf_def put_slot Some
      using wf(2) pages by (simp add: same wf(3))
    moreover have "ss_get (ss_put i c s) j = ((ss_get s)(i \<mapsto> c)) j" for j
    proof (cases "slot (ss_pages s) j")
      case None
      with Some show ?thesis by (auto simp: ss_get_slot put_slot)
    next
      fix m assume m: "slot (ss_pages s) j = Some m"
      then have "m < length (ss_dense s)" "m = k \<longleftrightarrow> j = i"
        using wf(2) wf(3)[of j m] wf(3)[of j k] k by auto
      with m show ?thesis
        by (cases "m = k") (simp_all add: ss_get_slot put_slot Some)
    qed
    ultimately show ?thesis by blast
  qed
  then show "ss_wf (ss_put i c s)" "ss_get (ss_put i c s) = (ss_get s)(i \<mapsto> c)" by auto
qed

lemma nth_swap_last:
  assumes "k < length xs" and "j < length xs - 1"
  shows "butlast (swap_with_last k xs) ! j = (if j = k then last xs else xs ! j)"
  using assms by (auto simp: swap_with_last_def nth_butlast)

lemma length_swap_last [simp]: "length (swap_with_last k xs) = length xs"
  by (simp add: swap_with_last_def)

lemma remove_slot:
  assumes "slot (ss_pages s) i = Some k"
  shows "ss_remove i s =
    s\<lparr>ss_dense := butlast (swap_with_last k (ss_dense s)),
      ss_entities := butlast (swap_with_last k (ss_entities s)),
      ss_pages := (if k < length (ss_dense s) - 1
        then set_slot (last (ss_entities s)) (Some k) (set_slot i None (ss_pages s))
        else set_slot i None (ss_pages s))\<rparr>"
  using assms by (auto simp: ss_remove_def ss_has_slot slot_def Let_def split: if_splits)

lemma remove_absent: "slot (ss_pages s) i = None \<Longrightarrow> ss_remove i s = s"
  by (simp add: ss_remove_def ss_has_slot)

lemma removed_slots:
  assumes "ss_wf s" and "slot (ss_pages s) i = Some k"
  shows "slot (ss_pages (ss_remove i s)) j =
    (if j = i then None
     else if j = last (ss_entities s) then Some k else slot (ss_pages s) j)"
    and "pages_wf (ss_pages (ss_remove i s))"
proof -
  note wf = ss_wfD[OF assms(1)]
  have k: "k < length (ss_entities s)" "ss_entities s ! k = i" using assms(2) by (simp_all add: wf(3))
  let ?m = "last (ss_entities s)" and ?n = "length (ss_entities s) - 1"
  have last: "ss_entities s ! ?n = ?m" "?n < length (ss_entities s)"
    using k(1) last_is_nth[OF k(1)] by auto
  have "slot (ss_pages s) ?m = Some ?n" using last by (simp add: wf(3))
  then have m: "page_of ?m < length (ss_pages s)" by (rule slot_some_page)
  have i: "page_of i < length (ss_pages s)" using assms(2) by (rule slot_some_page)
  have p: "pages_wf (set_slot i None (ss_pages s))"
    using wf(1) i by (rule pages_wf_set_slot)
  have one: "slot (set_slot i None (ss_pages s)) j = (if j = i then None else slot (ss_pages s) j)" for j
    using wf(1) i by (rule slot_set_slot)
  have two: "slot (set_slot ?m (Some k) (set_slot i None (ss_pages s))) j =
      (if j = ?m then Some k else if j = i then None else slot (ss_pages s) j)" for j
    using slot_set_slot[OF p, of ?m "Some k" j] m one by simp
  show "pages_wf (ss_pages (ss_remove i s))"
    using p pages_wf_set_slot[OF p, of ?m] m by (simp add: remove_slot[OF assms(2)])
  show "slot (ss_pages (ss_remove i s)) j =
    (if j = i then None else if j = ?m then Some k else slot (ss_pages s) j)"
  proof (cases "k < ?n")
    case True
    then have "i \<noteq> ?m"
      using k last wf(3)[of i k] wf(3)[of ?m ?n] by auto
    with True show ?thesis by (simp add: remove_slot[OF assms(2)] wf(2) two)
  next
    case False
    then have "i = ?m" using k last by (metis Suc_pred' less_Suc_eq less_imp_Suc_add zero_less_Suc diff_Suc_1)
    with False show ?thesis
      by (simp add: remove_slot[OF assms(2)] wf(2) one flip: \<open>i = ?m\<close>)
  qed
qed


lemma ss_remove_correct:
  assumes "ss_wf s"
  shows "ss_wf (ss_remove i s)" and "ss_get (ss_remove i s) = (ss_get s)(i := None)"
proof -
  note wf = ss_wfD[OF assms]
  have "ss_wf (ss_remove i s) \<and> (\<forall>j. ss_get (ss_remove i s) j = ((ss_get s)(i := None)) j)"
  proof (cases "slot (ss_pages s) i")
    case None
    with assms show ?thesis by (auto simp: remove_absent ss_get_slot)
  next
    case (Some k)
    let ?E = "ss_entities s" and ?n = "length (ss_entities s) - 1"
    have k: "k < length ?E" "?E ! k = i" using Some by (simp_all add: wf(3))
    have last: "?E ! ?n = last ?E" "last (ss_dense s) = ss_dense s ! ?n"
      using last_is_nth[OF k(1)] last_is_nth[of k "ss_dense s"] k(1) wf(2) by simp_all
    note slots = removed_slots[OF assms Some]
    have ent: "ss_entities (ss_remove i s) = butlast (swap_with_last k ?E)"
      "ss_dense (ss_remove i s) = butlast (swap_with_last k (ss_dense s))"
      by (simp_all add: remove_slot[OF Some])
    have nth: "j < ?n \<Longrightarrow> ss_entities (ss_remove i s) ! j = (if j = k then last ?E else ?E ! j)"
      "j < ?n \<Longrightarrow> ss_dense (ss_remove i s) ! j =
        (if j = k then last (ss_dense s) else ss_dense s ! j)" for j
      using nth_swap_last[OF k(1), of j] nth_swap_last[of k "ss_dense s" j] k(1) wf(2) ent by simp_all
    have uniq: "?E ! a = ?E ! b \<longleftrightarrow> a = b" if "a < length ?E" "b < length ?E" for a b
      using distinct_entities[OF assms] that by (simp add: nth_eq_iff_index_eq)
    have n: "?n < length ?E" using k(1) by simp
    have same: "slot (ss_pages (ss_remove i s)) j = Some m \<longleftrightarrow>
        m < ?n \<and> ss_entities (ss_remove i s) ! m = j" for j m
    proof -
      consider "j = i" | "j \<noteq> i" "j = last ?E" | "j \<noteq> i" "j \<noteq> last ?E" by blast
      then show ?thesis
      proof cases
        case 1
        have "ss_entities (ss_remove i s) ! m \<noteq> i" if "m < ?n"
          using that nth(1)[OF that] uniq[of m k] uniq[of ?n k] k last n by auto
        with 1 show ?thesis by (auto simp: slots(1))
      next
        case 2
        then have "k < ?n" using k last n by (metis Suc_pred' gr_implies_not0 less_Suc_eq not_gr0)
        with 2 show ?thesis
          using nth(1)[of m] uniq[of m ?n] last n by (auto simp: slots(1) split: if_splits)
      next
        case 3
        then show ?thesis
          using nth(1)[of m] wf(3)[of j m] k last n
          by (cases "m = ?n"; cases "m = k") (auto simp: slots(1))
      qed
    qed
    have "ss_get (ss_remove i s) j = ((ss_get s)(i := None)) j" for j
    proof (cases "slot (ss_pages (ss_remove i s)) j")
      case None
      with slots(1)[of j] show ?thesis by (auto simp: ss_get_slot split: if_splits)
    next
      fix m assume m: "slot (ss_pages (ss_remove i s)) j = Some m"
      then have "m < ?n" by (simp add: same)
      with m slots(1)[of j] nth(2)[of m] last wf(3)[of j ?n] wf(3)[of j k] k n show ?thesis
        by (auto simp: ss_get_slot split: if_splits)
    qed
    moreover have "ss_wf (ss_remove i s)"
      unfolding ss_wf_def using slots(2) same wf(2) ent by simp
    ultimately show ?thesis by blast
  qed
  then show "ss_wf (ss_remove i s)" "ss_get (ss_remove i s) = (ss_get s)(i := None)" by auto
qed


section \<open>The contract of a store of instances\<close>

datatype 'a store_call = Put nat 'a | Remove nat | Clear

primrec map_call :: "'a store_call \<Rightarrow> (nat \<rightharpoonup> 'a) \<Rightarrow> nat \<rightharpoonup> 'a" where
  "map_call (Put i c) m = m(i \<mapsto> c)"
| "map_call (Remove i) m = m(i := None)"
| "map_call Clear m = Map.empty"

primrec ss_call :: "'a store_call \<Rightarrow> 'a sparse_set \<Rightarrow> 'a sparse_set" where
  "ss_call (Put i c) s = ss_put i c s"
| "ss_call (Remove i) s = ss_remove i s"
| "ss_call Clear s = ss_clear s"

locale keyed_store =
  fixes wf :: "'s \<Rightarrow> bool"
    and lookup :: "'s \<Rightarrow> nat \<rightharpoonup> 'a"
    and keys :: "'s \<Rightarrow> nat list"
    and call :: "'a store_call \<Rightarrow> 's \<Rightarrow> 's"
  assumes wf_call: "wf s \<Longrightarrow> wf (call c s)"
    and lookup_call: "wf s \<Longrightarrow> lookup (call c s) = map_call c (lookup s)"
    and keys_dom: "wf s \<Longrightarrow> distinct (keys s) \<and> set (keys s) = dom (lookup s)"
begin

lemma run_refines:
  assumes "wf s"
  shows "wf (fold call cs s) \<and> lookup (fold call cs s) = fold map_call cs (lookup s)"
  using assms by (induction cs arbitrary: s) (simp_all add: wf_call lookup_call)

lemma run_keys:
  assumes "wf s"
  shows "distinct (keys (fold call cs s)) \<and>
    set (keys (fold call cs s)) = dom (fold map_call cs (lookup s)) \<and>
    length (keys (fold call cs s)) = card (dom (fold map_call cs (lookup s)))"
  using run_refines[OF assms, of cs] keys_dom[of "fold call cs s"] distinct_card[of "keys (fold call cs s)"]
  by simp

end

interpretation store: keyed_store ss_wf ss_get ss_entities ss_call
proof
  fix s :: "'a sparse_set" and c :: "'a store_call"
  assume wf: "ss_wf s"
  have clear: "ss_wf (ss_clear s)" "ss_get (ss_clear s) = Map.empty"
    by (simp_all add: ss_wf_def ss_clear_def pages_wf_def slot_def ss_get_slot fun_eq_iff)
  show "ss_wf (ss_call c s)"
    using wf clear by (cases c) (simp_all add: ss_put_correct ss_remove_correct)
  show "ss_get (ss_call c s) = map_call c (ss_get s)"
    using wf clear by (cases c) (simp_all add: ss_put_correct ss_remove_correct)
  have "i \<in> set (ss_entities s) \<longleftrightarrow> ss_get s i \<noteq> None" for i
    using ss_has_iff[OF wf] by (simp add: ss_has_slot ss_get_slot)
  then show "distinct (ss_entities s) \<and> set (ss_entities s) = dom (ss_get s)"
    using distinct_entities[OF wf] by (auto simp: dom_def)
qed

section \<open>Properties\<close>

text \<open>C21: after any sequence of \<open>put\<close>, \<open>remove\<close> and \<open>clear\<close>, looking up an entity in a sparse set
  gives what the same sequence of updates leaves in a finite map; \<open>has\<close> is definedness and
  \<open>size\<close> the number of its entities.\<close>

theorem sparse_set_refines_map:
  fixes cs :: "'a store_call list"
  shows "let s = fold ss_call cs (new_sparse_set cid); m = fold map_call cs Map.empty in
   ss_get s = m \<and> (\<forall>i. ss_has s i \<longleftrightarrow> i \<in> dom m) \<and> ss_size s = card (dom m)"
proof -
  let ?s = "fold ss_call cs (new_sparse_set cid)"
  have new: "ss_get (new_sparse_set cid :: 'a sparse_set) = Map.empty"
    by (simp add: fun_eq_iff ss_get_slot slot_def new_sparse_set_def)
  note run = store.run_refines[OF ss_wf_new[of cid], of cs] store.run_keys[OF ss_wf_new[of cid], of cs]
  have "ss_has ?s i \<longleftrightarrow> ss_get ?s i \<noteq> None" for i
    by (simp add: ss_has_slot ss_get_slot)
  with run new show ?thesis
    by (auto simp: Let_def ss_size_def ss_wfD(2))
qed

text \<open>The dense vectors stay aligned: the entities are listed once each, exactly those that
  have an instance, and the instance at a position is the one of the entity at that position.\<close>

theorem sparse_set_dense_aligned:
  "let s = fold ss_call cs (new_sparse_set cid) in
   length (ss_getAll s) = length (ss_getEntities s) \<and> distinct (ss_getEntities s) \<and>
   map (ss_get s) (ss_getEntities s) = map Some (ss_getAll s)"
proof -
  let ?s = "fold ss_call cs (new_sparse_set cid)"
  have wf: "ss_wf ?s" using store.run_refines[OF ss_wf_new[of cid], of cs] by simp
  have "map (ss_get ?s) (ss_entities ?s) = map Some (ss_dense ?s)"
  proof (rule nth_equalityI)
    fix k assume "k < length (map (ss_get ?s) (ss_entities ?s))"
    with wf show "map (ss_get ?s) (ss_entities ?s) ! k = map Some (ss_dense ?s) ! k"
      using ss_wfD(3)[OF wf, of "ss_entities ?s ! k" k] by (simp add: ss_get_slot ss_wfD(2))
  qed (simp add: ss_wfD(2)[OF wf])
  then show ?thesis
    using distinct_entities[OF wf] ss_wfD(2)[OF wf]
    by (simp add: Let_def ss_getAll_def ss_getEntities_def)
qed

end
