(* ===== verification/SparseView.thy ===== *)
theory SparseView
  imports SparseSet
begin

text \<open>
  The class templates \<open>SparseView\<close> (\<^verbatim>\<open>lib/rtecs/include/rtecs/sparse/view/SparseView.hpp\<close>) and
  \<open>SparseGroup\<close> (\<^verbatim>\<open>lib/rtecs/include/rtecs/sparse/group/SparseGroup.hpp\<close>).  A reference to an
  instance is its place in the dense vector of its set.  The values of the components of all
  types are one type \<open>'c\<close>.
\<close>

section \<open>SparseView\<close>

record ('k, 'v) sparse_view =
  sv_keyToIndex :: "'k \<rightharpoonup> nat"
  sv_values :: "'v list"
  sv_indexToKey :: "'k list"

definition new_view :: "('k, 'v) sparse_view" where
  "new_view = \<lparr>sv_keyToIndex = Map.empty, sv_values = [], sv_indexToKey = []\<rparr>"

text \<open>\<open>emplace\<close> keeps the entry of a key that is already there.\<close>

definition view_put :: "'k \<Rightarrow> 'v \<Rightarrow> ('k, 'v) sparse_view \<Rightarrow> ('k, 'v) sparse_view" where
  "view_put key v w =
     (let values = sv_values w @ [v] in
      w\<lparr>sv_values := values,
        sv_keyToIndex := (if sv_keyToIndex w key = None
          then (sv_keyToIndex w)(key \<mapsto> length values - 1) else sv_keyToIndex w),
        sv_indexToKey := sv_indexToKey w @ [key]\<rparr>)"

definition view_has :: "('k, 'v) sparse_view \<Rightarrow> 'k \<Rightarrow> bool" where
  "view_has w key \<longleftrightarrow> sv_keyToIndex w key \<noteq> None"

text \<open>\<open>_keyToIndex[k]\<close>: a missing key is entered with 0.\<close>

definition key_index :: "('k \<rightharpoonup> nat) \<Rightarrow> 'k \<Rightarrow> nat" where
  "key_index m k = (case m k of None \<Rightarrow> 0 | Some i \<Rightarrow> i)"

definition view_erase :: "'k \<Rightarrow> ('k, 'v) sparse_view \<Rightarrow> ('k, 'v) sparse_view" where
  "view_erase key w =
     (case sv_keyToIndex w key of
        None \<Rightarrow> w
      | Some index \<Rightarrow>
          let lastKey = sv_indexToKey w ! (length (sv_values w) - 1);
              m = sv_keyToIndex w;
              m' = m(key \<mapsto> key_index m lastKey, lastKey \<mapsto> key_index m key)
          in w\<lparr>sv_keyToIndex := m'(key := None),
               sv_values := butlast (swap_with_last index (sv_values w)),
               sv_indexToKey := butlast (sv_indexToKey w)\<rparr>)"

definition view_at :: "('k, 'v) sparse_view \<Rightarrow> 'k \<Rightarrow> 'v option" where
  "view_at w key = map_option ((!) (sv_values w)) (sv_keyToIndex w key)"

definition view_getValues :: "('k, 'v) sparse_view \<Rightarrow> 'v list" where "view_getValues w = sv_values w"
definition view_getKeys :: "('k, 'v) sparse_view \<Rightarrow> 'k list" where "view_getKeys w = sv_indexToKey w"
definition view_getIndex :: "('k, 'v) sparse_view \<Rightarrow> 'k \<Rightarrow> nat option" where
  "view_getIndex w key = sv_keyToIndex w key"

text \<open>Entering keys and values one after the other.\<close>

definition view_of :: "('k \<times> 'v) list \<Rightarrow> ('k, 'v) sparse_view" where
  "view_of kvs = fold (\<lambda>(k, v). view_put k v) kvs new_view"

lemma view_of_simps [simp]:
  "view_of [] = new_view"
  "view_of (kvs @ [(k, v)]) = view_put k v (view_of kvs)"
  by (simp_all add: view_of_def)

lemma view_of_fields:
  "sv_values (view_of kvs) = map snd kvs \<and> sv_indexToKey (view_of kvs) = map fst kvs"
  by (induction kvs rule: rev_induct) (auto simp: view_put_def Let_def new_view_def)

lemma view_of_index:
  assumes "distinct (map fst kvs)"
  shows "sv_keyToIndex (view_of kvs) k = Some i \<longleftrightarrow> i < length kvs \<and> fst (kvs ! i) = k"
  using assms
proof (induction kvs arbitrary: k i rule: rev_induct)
  case Nil
  show ?case by (simp add: new_view_def)
next
  case (snoc e kvs)
  obtain j v where e: "e = (j, v)" by fastforce
  have IH: "sv_keyToIndex (view_of kvs) k = Some i \<longleftrightarrow> i < length kvs \<and> fst (kvs ! i) = k" for k i
    using snoc by simp
  have new: "sv_keyToIndex (view_of kvs) j = None"
  proof (rule ccontr)
    assume "sv_keyToIndex (view_of kvs) j \<noteq> None"
    then obtain i where "i < length kvs" "fst (kvs ! i) = j" using IH by auto
    then have "j \<in> set (map fst kvs)" by (metis length_map nth_map nth_mem)
    with snoc.prems e show False by simp
  qed
  then have ne: "fst (kvs ! i) \<noteq> j" if "i < length kvs" for i
    using that IH[of j i] by auto
  show ?case
    unfolding e view_of_simps view_put_def Let_def
    using new ne view_of_fields[of kvs] by (auto simp: IH nth_append less_Suc_eq)
qed

lemma view_of_at:
  assumes "distinct (map fst kvs)"
  shows "view_at (view_of kvs) k = map_of kvs k"
proof (cases "map_of kvs k")
  case None
  then have "k \<notin> set (map fst kvs)" by (simp add: map_of_eq_None_iff)
  then have "sv_keyToIndex (view_of kvs) k \<noteq> Some i" for i
    unfolding view_of_index[OF assms] by (metis length_map nth_map nth_mem)
  then show ?thesis using None by (cases "sv_keyToIndex (view_of kvs) k") (auto simp: view_at_def)
next
  case (Some v)
  then obtain i where i: "i < length kvs" "kvs ! i = (k, v)"
    by (auto dest!: map_of_SomeD simp: in_set_conv_nth)
  then have "sv_keyToIndex (view_of kvs) k = Some i"
    by (simp add: view_of_index[OF assms])
  with i Some view_of_fields[of kvs] show ?thesis by (simp add: view_at_def)
qed

text \<open>A view filled with distinct keys looks up, lists and tests what was entered, keys and
  values at the same positions.\<close>

theorem view_lookup:
  assumes "distinct (map fst kvs)"
  shows "view_at (view_of kvs) = map_of kvs \<and> view_getKeys (view_of kvs) = map fst kvs \<and>
    view_getValues (view_of kvs) = map snd kvs \<and>
    (\<forall>k. view_has (view_of kvs) k \<longleftrightarrow> k \<in> fst ` set kvs)"
proof -
  have "view_has (view_of kvs) k \<longleftrightarrow> k \<in> fst ` set kvs" for k
    using view_of_at[OF assms, of k] map_of_eq_None_iff[of kvs k]
    by (auto simp: view_has_def view_at_def)
  then show ?thesis
    using view_of_fields[of kvs] view_of_at[OF assms]
    by (auto simp: view_getKeys_def view_getValues_def fun_eq_iff)
qed

theorem view_lookup_witness:
  "view_at (view_of [(4 :: nat, ''a''), (2, ''b'')]) = map_of [(4, ''a''), (2, ''b'')] \<and>
   view_getKeys (view_of [(4 :: nat, ''a''), (2, ''b'')]) = [4, 2]"
  using view_lookup[of "[(4 :: nat, ''a''), (2, ''b'')]"] by simp

text \<open>Erasing a key removes it from the lookup and leaves the others, but the key list always
  loses its last entry: unless the erased key was entered last, \<open>getKeys\<close> still lists it and no
  longer lists the one entered last.\<close>

theorem view_erase_keys:
  assumes "distinct (map fst kvs)" and "k \<in> fst ` set kvs"
  shows "view_at (view_erase k (view_of kvs)) = (map_of kvs)(k := None) \<and>
    view_getKeys (view_erase k (view_of kvs)) = butlast (map fst kvs)"
proof -
  let ?w = "view_of kvs" and ?n = "length kvs - 1"
  note idx = view_of_index[OF assms(1)] and fields = view_of_fields[of kvs]
  obtain i where i: "i < length kvs" "fst (kvs ! i) = k"
    using assms(2) by (auto simp: in_set_conv_nth)
  then have k: "sv_keyToIndex ?w k = Some i" by (simp add: idx)
  have n: "?n < length kvs" using i(1) by simp
  define l where "l = fst (kvs ! ?n)"
  have l: "sv_keyToIndex ?w l = Some ?n" "sv_indexToKey ?w ! ?n = l"
    using n fields by (simp_all add: idx l_def)
  let ?v = "butlast (swap_with_last i (sv_values ?w))"
  have lookup: "(if j = k then None else if j = l then Some i else sv_keyToIndex ?w j) = Some m \<Longrightarrow>
      map_of kvs j = Some (?v ! m)" if "j \<noteq> k" for j m
  proof -
    assume a: "(if j = k then None else if j = l then Some i else sv_keyToIndex ?w j) = Some m"
    have at: "map_of kvs j = map_option ((!) (sv_values ?w)) (sv_keyToIndex ?w j)"
      using view_of_at[OF assms(1), of j] by (simp add: view_at_def)
    have swap: "?v ! m = (if m = i then last (sv_values ?w) else sv_values ?w ! m)" if "m < ?n"
      using that i(1) fields by (intro nth_swap_last) simp_all
    show ?thesis
    proof (cases "j = l")
      case True
      with a that have "m = i" by auto
      moreover have "i \<noteq> ?n" using True that l(1) k by (metis idx)
      ultimately show ?thesis
        using True l at swap i n fields last_is_nth[of i "sv_values ?w"] by simp
    next
      case False
      with a that have m: "sv_keyToIndex ?w j = Some m" by simp
      then have "m < length kvs" "m \<noteq> i" "m \<noteq> ?n"
        using False that i l(2) by (auto simp: idx l_def)
      with m at swap show ?thesis by simp
    qed
  qed
  have none: "map_of kvs j = None" if "j \<noteq> k" "j \<noteq> l" "sv_keyToIndex ?w j = None" for j
    using that view_of_at[OF assms(1), of j] by (simp add: view_at_def)
  have "view_at (view_erase k ?w) j = ((map_of kvs)(k := None)) j" for j
    using lookup[of j] none[of j] k l fields
    by (cases "j = k"; cases "j = l"; cases "sv_keyToIndex ?w j")
      (auto simp: view_at_def view_erase_def Let_def key_index_def)
  then show ?thesis
    using k fields by (auto simp: view_getKeys_def view_erase_def Let_def fun_eq_iff)
qed

theorem view_erase_keys_witness:
  "view_at (view_erase 4 (view_of [(4 :: nat, ''a''), (2, ''b'')])) = [2 \<mapsto> ''b''] \<and>
   view_getKeys (view_erase 4 (view_of [(4 :: nat, ''a''), (2, ''b'')])) = [4]"
  using view_erase_keys[of "[(4 :: nat, ''a''), (2, ''b'')]" 4] by (auto simp: fun_eq_iff)

end
