(* ===== verification/SparseGroup.thy ===== *)
theory SparseGroup
  imports SparseView
begin

text \<open>
  The class template \<open>SparseGroup\<close> of \<^verbatim>\<open>lib/rtecs/include/rtecs/sparse/group/SparseGroup.hpp\<close>: the
  entities that have every component of a pack, with one view of references per component.  A
  reference to an instance is its place in the dense vector of its set.  A component type that
  is not registered is \<open>None\<close> in the list of sets.
\<close>

section \<open>Construction\<close>

type_synonym ref_view = "(nat, nat) sparse_view"

text \<open>\<open>set.get(entity)\<close> as a reference.\<close>

definition ss_ref :: "'a sparse_set \<Rightarrow> nat \<Rightarrow> nat option" where
  "ss_ref s i =
     (if page_of i \<ge> length (ss_pages s) then None else ss_pages s ! page_of i ! page_index_of i)"

definition add_entity :: "nat \<Rightarrow> ref_view \<Rightarrow> 'a sparse_set option \<Rightarrow> ref_view" where
  "add_entity i view x =
     (case x of
        None \<Rightarrow> view
      | Some s \<Rightarrow> (case ss_ref s i of None \<Rightarrow> view | Some k \<Rightarrow> view_put i k view))"

text \<open>\<open>std::min_element\<close>.\<close>

primrec min_element :: "('b \<Rightarrow> 'b \<Rightarrow> bool) \<Rightarrow> 'b \<Rightarrow> 'b list \<Rightarrow> 'b" where
  "min_element cmp best [] = best"
| "min_element cmp best (x # xs) = min_element cmp (if cmp x best then x else best) xs"

definition smaller_set :: "'a sparse_set option \<Rightarrow> 'a sparse_set option \<Rightarrow> bool" where
  "smaller_set a b = (case (a, b) of (Some s, Some t) \<Rightarrow> ss_size s < ss_size t | _ \<Rightarrow> False)"

definition driver :: "'a sparse_set option list \<Rightarrow> 'a sparse_set option" where
  "driver sets = min_element smaller_set (hd sets) (tl sets)"

definition in_all :: "'a sparse_set option list \<Rightarrow> nat \<Rightarrow> bool" where
  "in_all sets i \<longleftrightarrow> (\<forall>x \<in> set sets. case x of None \<Rightarrow> False | Some s \<Rightarrow> ss_has s i)"

definition group_step :: "'a sparse_set option list \<Rightarrow> ref_view list \<Rightarrow> nat \<Rightarrow> ref_view list" where
  "group_step sets views i = (if in_all sets i then map2 (add_entity i) views sets else views)"

definition make_group :: "'a sparse_set option list \<Rightarrow> ref_view list" where
  "make_group sets =
     (let views = map (\<lambda>_. new_view) sets in
      case driver sets of
        None \<Rightarrow> views
      | Some d \<Rightarrow> foldl (group_step sets) views (ss_getEntities d))"

section \<open>Use\<close>

definition group_getEntities :: "ref_view list \<Rightarrow> nat list" where
  "group_getEntities g = view_getKeys (hd g)"

definition group_has :: "ref_view list \<Rightarrow> nat \<Rightarrow> bool" where
  "group_has g i = view_has (hd g) i"

text \<open>\<open>getEntity<T>\<close>, with the position of \<open>T\<close> in the pack.\<close>

definition group_getEntity :: "nat \<Rightarrow> ref_view list \<Rightarrow> nat \<Rightarrow> nat option" where
  "group_getEntity t g i = view_at (g ! t) i"

definition apply_helper :: "(nat \<Rightarrow> nat list \<Rightarrow> 's \<Rightarrow> 's) \<Rightarrow> nat \<Rightarrow> nat option list \<Rightarrow> 's \<Rightarrow> 's" where
  "apply_helper callback i refs st =
     (if \<forall>r \<in> set refs. r \<noteq> None then callback i (map the refs) st else st)"

definition group_apply :: "(nat \<Rightarrow> nat list \<Rightarrow> 's \<Rightarrow> 's) \<Rightarrow> ref_view list \<Rightarrow> 's \<Rightarrow> 's" where
  "group_apply callback g st =
     fold (\<lambda>i. apply_helper callback i (map (\<lambda>v. view_at v i) g)) (group_getEntities g) st"

section \<open>Correctness\<close>

lemma ss_ref_slot: "ss_ref s i = slot (ss_pages s) i"
  by (simp add: ss_ref_def slot_def)

lemma min_element_in: "min_element f b xs \<in> insert b (set xs)"
  by (induction xs arbitrary: b) auto

lemma driver_in: "sets \<noteq> [] \<Longrightarrow> driver sets \<in> set sets"
  using min_element_in[of smaller_set "hd sets" "tl sets"] by (cases sets) (auto simp: driver_def)

text \<open>The views as lists of entities with their references.\<close>

definition refs_of :: "'a sparse_set \<Rightarrow> nat list \<Rightarrow> (nat \<times> nat) list" where
  "refs_of s is = map (\<lambda>i. (i, the (ss_ref s i))) is"

lemma group_loop:
  "foldl (group_step (map Some ss)) (map (\<lambda>_. new_view) ss) is =
     map (\<lambda>s. view_of (refs_of s (filter (in_all (map Some ss)) is))) ss"
proof (induction "is" rule: rev_induct)
  case Nil
  show ?case by (simp add: refs_of_def)
next
  case (snoc i "is")
  have step: "map2 (add_entity i) (map (\<lambda>s. view_of (refs_of s js)) ss) (map Some ss) =
      map (\<lambda>s. view_of (refs_of s (js @ [i]))) ss" if "in_all (map Some ss) i" for js
  proof -
    have "add_entity i (view_of (refs_of s js)) (Some s) = view_of (refs_of s (js @ [i]))"
      if "s \<in> set ss" for s
      using that \<open>in_all (map Some ss) i\<close>
      by (auto simp: add_entity_def in_all_def ss_has_slot ss_ref_slot refs_of_def)
    then show ?thesis
      by (simp add: map2_map_map)
  qed
  show ?case
    by (simp add: snoc) (simp add: group_step_def step)
qed

lemma in_all_missing: "None \<in> set sets \<Longrightarrow> \<not> in_all sets i"
  by (force simp: in_all_def)

lemma group_loop_missing:
  "None \<in> set sets \<Longrightarrow> foldl (group_step sets) views is = views"
  by (induction "is") (simp_all add: group_step_def in_all_missing)

text \<open>The shape of a group over registered components.\<close>

lemma group_shape:
  assumes "ss \<noteq> []" and "\<forall>s \<in> set ss. ss_wf s"
  obtains js where "make_group (map Some ss) = map (\<lambda>s. view_of (refs_of s js)) ss"
    and "distinct js" and "set js = {i. in_all (map Some ss) i}"
proof -
  let ?sets = "map Some ss"
  obtain d where d: "driver ?sets = Some d" "d \<in> set ss"
    using driver_in[of ?sets] assms(1) by auto
  have wf: "ss_wf d" using assms(2) d(2) by blast
  define js where "js = filter (in_all ?sets) (ss_entities d)"
  have "make_group ?sets = map (\<lambda>s. view_of (refs_of s js)) ss"
    by (simp add: make_group_def d(1) o_def group_loop js_def ss_getEntities_def)
  moreover have "distinct js"
    using distinct_entities[OF wf] by (simp add: js_def)
  moreover have "in_all ?sets i \<Longrightarrow> i \<in> set (ss_entities d)" for i
    using d(2) ss_has_iff[OF wf, of i] by (auto simp: in_all_def)
  then have "set js = {i. in_all ?sets i}"
    by (auto simp: js_def)
  ultimately show thesis by (rule that)
qed

lemma fst_refs_of [simp]: "map fst (refs_of s js) = js"
  by (simp add: refs_of_def o_def)

lemma refs_of_at:
  assumes "distinct js" and "i \<in> set js"
  shows "view_at (view_of (refs_of s js)) i = Some (the (ss_ref s i))"
proof -
  have "map_of (refs_of s js) i = Some (the (ss_ref s i))"
    using assms by (intro map_of_is_SomeI) (auto simp: refs_of_def o_def)
  then show ?thesis using assms(1) by (simp add: view_of_at)
qed

lemma getEntities_shape:
  assumes "make_group sets = map (\<lambda>s. view_of (refs_of s js)) ss" and "ss \<noteq> []"
  shows "group_getEntities (make_group sets) = js"
  unfolding group_getEntities_def assms(1)
  using assms(2) view_of_fields[of "refs_of (hd ss) js"] by (cases ss) (simp_all add: view_getKeys_def)

lemma all_registered: "None \<notin> set sets \<Longrightarrow> sets = map Some (map the sets)"
  by (auto intro!: nth_equalityI) (metis nth_mem option.exhaust_sel)

text \<open>A group over component types that are all registered holds, once each, exactly the
  entities that have every one of the components, and its views refer to their current
  instances; when a type is not registered the group is empty.\<close>

theorem group_is_intersection:
  assumes "sets \<noteq> []" and "\<forall>s. Some s \<in> set sets \<longrightarrow> ss_wf s"
  shows "distinct (group_getEntities (make_group sets)) \<and>
    set (group_getEntities (make_group sets)) = {i. in_all sets i} \<and>
    (\<forall>t < length sets. \<forall>i \<in> {i. in_all sets i}.
       group_getEntity t (make_group sets) i = ss_ref (the (sets ! t)) i)"
proof (cases "None \<in> set sets")
  case True
  then have "make_group sets = map (\<lambda>_. new_view) sets"
    by (simp add: make_group_def Let_def group_loop_missing split: option.split)
  then show ?thesis
    using assms(1) in_all_missing[OF True]
    by (cases sets) (auto simp: group_getEntities_def view_getKeys_def new_view_def)
next
  case False
  define ss where "ss = map the sets"
  have sets: "sets = map Some ss" using all_registered[OF False] by (simp add: ss_def)
  then have ss: "ss \<noteq> []" "\<forall>s \<in> set ss. ss_wf s" using assms by auto
  obtain js where js: "make_group sets = map (\<lambda>s. view_of (refs_of s js)) ss" "distinct js"
    "set js = {i. in_all sets i}"
    using group_shape[OF ss] by (auto simp: sets)
  have "group_getEntity t (make_group sets) i = ss_ref (the (sets ! t)) i"
    if "t < length sets" "in_all sets i" for t i
  proof -
    have "t < length ss" "ss_ref (ss ! t) i \<noteq> None"
      using that by (auto simp: sets in_all_def ss_has_slot ss_ref_slot)
    with js that show ?thesis
      by (simp add: group_getEntity_def refs_of_at) (simp add: sets)
  qed
  with js getEntities_shape[OF js(1) ss(1)] show ?thesis by simp
qed

text \<open>\<open>apply\<close> calls back once for every entity of the group, in its order, with references to
  all its components, in the order of the pack.\<close>

theorem group_apply_visits:
  assumes "sets \<noteq> []" and "\<forall>x \<in> set sets. \<exists>s. x = Some s \<and> ss_wf s"
  shows "group_apply callback (make_group sets) st =
    fold (\<lambda>i. callback i (map (\<lambda>x. the (ss_ref (the x) i)) sets))
      (group_getEntities (make_group sets)) st"
proof -
  define ss where "ss = map the sets"
  have sets: "sets = map Some ss"
    using all_registered[of sets] assms(2) by (auto simp: ss_def)
  then have ss: "ss \<noteq> []" "\<forall>s \<in> set ss. ss_wf s" using assms by auto
  obtain js where js: "make_group sets = map (\<lambda>s. view_of (refs_of s js)) ss" "distinct js"
    using group_shape[OF ss] by (auto simp: sets)
  have ents: "group_getEntities (make_group sets) = js"
    using js(1) ss(1) by (rule getEntities_shape)
  have call: "apply_helper callback i (map (\<lambda>v. view_at v i) (make_group sets)) =
      callback i (map (\<lambda>x. the (ss_ref (the x) i)) sets)" if "i \<in> set js" for i
    unfolding js(1) unfolding sets
    by (rule ext) (simp add: apply_helper_def refs_of_at[OF js(2) that] o_def)
  show ?thesis
    unfolding group_apply_def ents by (intro fold_cong call) simp_all
qed

theorem group_apply_visits_witness:
  "group_apply (\<lambda>i refs log. log @ [(i, refs)])
     (make_group [Some (ss_put 3 ''a'' (ss_put 1 ''b'' (new_sparse_set 7))),
                  Some (ss_put 3 ''c'' (new_sparse_set 8))]) [] =
   fold (\<lambda>i log. log @ [(i, map (\<lambda>x. the (ss_ref (the x) i))
       [Some (ss_put 3 ''a'' (ss_put 1 ''b'' (new_sparse_set 7))), Some (ss_put 3 ''c'' (new_sparse_set 8))])])
     (group_getEntities (make_group [Some (ss_put 3 ''a'' (ss_put 1 ''b'' (new_sparse_set 7))),
        Some (ss_put 3 ''c'' (new_sparse_set 8))])) []"
  by (rule group_apply_visits) (simp_all add: ss_put_correct)

theorem group_is_intersection_witness:
  "set (group_getEntities (make_group
     [Some (ss_put 3 ''a'' (ss_put 1 ''b'' (new_sparse_set 7))), Some (ss_put 3 ''c'' (new_sparse_set 8))])) =
   {i. in_all
     [Some (ss_put 3 ''a'' (ss_put 1 ''b'' (new_sparse_set 7))), Some (ss_put 3 ''c'' (new_sparse_set 8))] i}"
  using group_is_intersection[of
      "[Some (ss_put 3 ''a'' (ss_put 1 ''b'' (new_sparse_set 7))), Some (ss_put 3 ''c'' (new_sparse_set 8))]"]
  by (simp add: ss_put_correct)

end
