(* ===== verification/Ecs.thy ===== *)
theory Ecs
  imports BitSet SparseGroup
begin

text \<open>
  The class \<open>ECS\<close> of \<^verbatim>\<open>lib/rtecs/include/rtecs/ECS.hpp\<close> and \<^verbatim>\<open>lib/rtecs/src/ECS.cpp\<close>: entities with
  their component masks, one sparse set and one mask bit per registered component type, and the
  systems.  A component type is its \<open>ComponentID\<close>; the instances of all types are one type \<open>'c\<close>,
  and a system is a value of type \<open>'s\<close>.  The unordered maps are lists in key order: no
  statement depends on their order.
\<close>

section \<open>State\<close>

definition NullEntityID :: nat where "NullEntityID = 2 ^ 64 - 1"

record ('c, 's) ecs =
  e_entities :: "(nat, bitset) omap"
  e_systems :: "'s list"
  e_entitiesID :: nat
  e_components :: "(nat, 'c sparse_set) omap"
  e_masks :: "(nat, bitset) omap"
  e_maskIndex :: bitset
  e_emptyMask :: bitset

definition new_ecs :: "('c, 's) ecs" where
  "new_ecs =
     \<lparr>e_entities = [], e_systems = [], e_entitiesID = 0, e_components = [], e_masks = [],
      e_maskIndex = of_blocks [0x8000000000000000], e_emptyMask = empty_bitset\<rparr>"

section \<open>Component types\<close>

definition next_mask_index :: "bitset \<Rightarrow> bitset" where
  "next_mask_index m =
     rightShift 1 (if bs_none (rightShift 1 m) then bs_increase 1 m else m)"

definition registerComponent :: "nat \<Rightarrow> ('c, 's) ecs \<Rightarrow> ('c, 's) ecs" where
  "registerComponent cid e =
     (let e1 = e\<lparr>e_maskIndex := next_mask_index (e_maskIndex e)\<rparr> in
      if om_has (e_components e1) cid then e1
      else e1\<lparr>e_masks := om_put cid (e_maskIndex e1) (e_masks e1),
              e_components := om_put cid (new_sparse_set cid) (e_components e1)\<rparr>)"

definition registerComponents :: "nat list \<Rightarrow> ('c, 's) ecs \<Rightarrow> ('c, 's) ecs" where
  "registerComponents cids e = fold registerComponent cids e"

definition getComponentMaskHelper :: "nat \<Rightarrow> ('c, 's) ecs \<Rightarrow> bitset" where
  "getComponentMaskHelper cid e =
     (case map_of (e_masks e) cid of None \<Rightarrow> e_emptyMask e | Some m \<Rightarrow> m)"

text \<open>\<open>(getComponentMaskHelper<T>() | ...)\<close>, a fold to the right over a pack that is not empty.\<close>

fun getComponentMask :: "nat list \<Rightarrow> ('c, 's) ecs \<Rightarrow> bitset" where
  "getComponentMask [] e = e_emptyMask e"
| "getComponentMask [c] e = getComponentMaskHelper c e"
| "getComponentMask (c # d # cs) e =
     bs_or (getComponentMaskHelper c e) (getComponentMask (d # cs) e)"

definition getComponent :: "nat \<Rightarrow> ('c, 's) ecs \<Rightarrow> 'c sparse_set option" where
  "getComponent cid e = map_of (e_components e) cid"

section \<open>Entities\<close>

definition insertComponentInstance :: "nat \<Rightarrow> nat \<Rightarrow> 'c \<Rightarrow> ('c, 's) ecs \<Rightarrow> ('c, 's) ecs" where
  "insertComponentInstance i cid instance e =
     (case map_of (e_entities e) i of
        None \<Rightarrow> e
      | Some msk \<Rightarrow>
          (case map_of (e_components e) cid of
             None \<Rightarrow> e
           | Some s \<Rightarrow>
               e\<lparr>e_entities := om_put i (bs_or_assign msk (getComponentMask [cid] e)) (e_entities e),
                 e_components := om_put cid (ss_put i instance s) (e_components e)\<rparr>))"

definition addEntityComponents :: "nat \<Rightarrow> (nat \<times> 'c) list \<Rightarrow> ('c, 's) ecs \<Rightarrow> ('c, 's) ecs" where
  "addEntityComponents i instances e =
     fold (\<lambda>(cid, c). insertComponentInstance i cid c) instances e"

definition registerEntity :: "(nat \<times> 'c) list \<Rightarrow> ('c, 's) ecs \<Rightarrow> nat \<times> ('c, 's) ecs" where
  "registerEntity instances e =
     (let i = e_entitiesID e; msk = getComponentMask (map fst instances) e in
      if bs_none msk then (NullEntityID, e)
      else
        let e1 = e\<lparr>e_entities :=
              (if om_has (e_entities e) i then e_entities e else om_put i msk (e_entities e))\<rparr>;
            e2 = addEntityComponents i instances e1
        in (i, e2\<lparr>e_entitiesID := e_entitiesID e2 + 1\<rparr>))"

definition preRegisterEntity :: "('c, 's) ecs \<Rightarrow> nat \<times> ('c, 's) ecs" where
  "preRegisterEntity e =
     (let i = e_entitiesID e in
      (i, e\<lparr>e_entitiesID := i + 1,
            e_entities := (if om_has (e_entities e) i then e_entities e
                           else om_put i empty_bitset (e_entities e))\<rparr>))"

definition updateEntityComponent :: "nat \<Rightarrow> nat \<Rightarrow> 'c \<Rightarrow> ('c, 's) ecs \<Rightarrow> bool \<times> ('c, 's) ecs" where
  "updateEntityComponent i cid instance e =
     (case getComponent cid e of
        None \<Rightarrow> (False, e)
      | Some s \<Rightarrow>
          if \<not> ss_has s i then (False, e)
          else (True, e\<lparr>e_components := om_put cid (ss_put i instance s) (e_components e)\<rparr>))"

text \<open>\<open>(... && updateEntityComponent<Ts>(...))\<close>: stops at the first failure.\<close>

primrec updateEntity :: "nat \<Rightarrow> (nat \<times> 'c) list \<Rightarrow> ('c, 's) ecs \<Rightarrow> bool \<times> ('c, 's) ecs" where
  "updateEntity i [] e = (True, e)"
| "updateEntity i (p # ps) e =
     (case updateEntityComponent i (fst p) (snd p) e of
        (ok, e1) \<Rightarrow> if ok then updateEntity i ps e1 else (False, e1))"

definition getEntityComponent :: "nat \<Rightarrow> nat \<Rightarrow> ('c, 's) ecs \<Rightarrow> 'c option" where
  "getEntityComponent cid i e =
     (case getComponent cid e of None \<Rightarrow> None | Some s \<Rightarrow> ss_get s i)"

definition getEntityMask :: "nat \<Rightarrow> ('c, 's) ecs \<Rightarrow> bitset" where
  "getEntityMask i e = (case map_of (e_entities e) i of None \<Rightarrow> e_emptyMask e | Some m \<Rightarrow> m)"

definition getAllEntities :: "('c, 's) ecs \<Rightarrow> nat list" where
  "getAllEntities e = map fst (e_entities e)"

definition destroyEntity :: "nat \<Rightarrow> ('c, 's) ecs \<Rightarrow> ('c, 's) ecs" where
  "destroyEntity i e =
     e\<lparr>e_components := map (\<lambda>(c, s). (c, if ss_has s i then ss_remove i s else s)) (e_components e),
       e_entities := om_del i (e_entities e)\<rparr>"

definition ecs_group :: "nat list \<Rightarrow> ('c, 's) ecs \<Rightarrow> ref_view list" where
  "ecs_group cids e = make_group (map (\<lambda>c. getComponent c e) cids)"

section \<open>Systems\<close>

definition registerSystem :: "'s \<Rightarrow> ('c, 's) ecs \<Rightarrow> ('c, 's) ecs" where
  "registerSystem system e = e\<lparr>e_systems := e_systems e @ [system]\<rparr>"

text \<open>\<open>run\<close> is \<open>ISystem::apply\<close>.\<close>

definition applyAllSystems ::
    "('s \<Rightarrow> ('c, 's) ecs \<Rightarrow> ('c, 's) ecs) \<Rightarrow> ('c, 's) ecs \<Rightarrow> ('c, 's) ecs" where
  "applyAllSystems run e = fold run (e_systems e) e"

section \<open>Invariant\<close>

definition comp_bits :: "('c, 's) ecs \<Rightarrow> nat \<Rightarrow> nat set" where
  "comp_bits e c = (case map_of (e_masks e) c of None \<Rightarrow> {} | Some m \<Rightarrow> indexes m)"

definition has_component :: "('c, 's) ecs \<Rightarrow> nat \<Rightarrow> nat \<Rightarrow> bool" where
  "has_component e i c \<longleftrightarrow> (case map_of (e_components e) c of None \<Rightarrow> False | Some s \<Rightarrow> ss_has s i)"

text \<open>\<open>k\<close> is the index of the mask bit given out last.\<close>

definition masks_at :: "nat \<Rightarrow> ('c, 's) ecs \<Rightarrow> bool" where
  "masks_at k e \<longleftrightarrow>
     e_emptyMask e = empty_bitset \<and> indexes (e_maskIndex e) = {k} \<and>
     (\<forall>c. om_has (e_components e) c \<longrightarrow> (\<exists>n. comp_bits e c = {n} \<and> 0 < n \<and> n \<le> k)) \<and>
     (\<forall>c. om_has (e_masks e) c = om_has (e_components e) c) \<and>
     (\<forall>c d. om_has (e_components e) c \<longrightarrow> comp_bits e c = comp_bits e d \<longrightarrow> c = d)"

definition masks_wf :: "('c, 's) ecs \<Rightarrow> bool" where
  "masks_wf e \<longleftrightarrow> (\<exists>k. masks_at k e)"

text \<open>The component bits of an entity, from its instances.\<close>

definition bits_of :: "('c, 's) ecs \<Rightarrow> nat \<Rightarrow> nat set" where
  "bits_of e i = (\<Union>c \<in> {c. has_component e i c}. comp_bits e c)"

text \<open>The invariant, with bits \<open>X i\<close> that the mask of entity \<open>i\<close> may have beyond its components:
  \<open>registerEntity\<close> enters the mask before the instances.\<close>

definition ecs_inv :: "(nat \<Rightarrow> nat set) \<Rightarrow> ('c, 's) ecs \<Rightarrow> bool" where
  "ecs_inv X e \<longleftrightarrow>
     masks_wf e \<and> om_wf (e_entities e) \<and> om_wf (e_components e) \<and>
     (\<forall>c s. map_of (e_components e) c = Some s \<longrightarrow> ss_wf s) \<and>
     (\<forall>i c. has_component e i c \<longrightarrow> om_has (e_entities e) i) \<and>
     (\<forall>i. om_has (e_entities e) i \<longrightarrow> i < e_entitiesID e) \<and>
     (\<forall>i m. map_of (e_entities e) i = Some m \<longrightarrow> indexes m = X i \<union> bits_of e i)"

abbreviation ecs_wf :: "('c, 's) ecs \<Rightarrow> bool" where
  "ecs_wf \<equiv> ecs_inv (\<lambda>_. {})"

lemma ecs_invI:
  assumes "masks_wf e" and "om_wf (e_entities e)" and "om_wf (e_components e)"
    and "\<And>c s. map_of (e_components e) c = Some s \<Longrightarrow> ss_wf s"
    and "\<And>i c. has_component e i c \<Longrightarrow> om_has (e_entities e) i"
    and "\<And>i. om_has (e_entities e) i \<Longrightarrow> i < e_entitiesID e"
    and "\<And>i m. map_of (e_entities e) i = Some m \<Longrightarrow> indexes m = X i \<union> bits_of e i"
  shows "ecs_inv X e"
  unfolding ecs_inv_def by (intro conjI allI impI; (elim exE)?; fact assms | rule assms; assumption)

lemma ecs_invD:
  assumes "ecs_inv X e"
  shows "masks_wf e" and "om_wf (e_entities e)" and "om_wf (e_components e)"
    and "map_of (e_components e) c = Some s \<Longrightarrow> ss_wf s"
    and "has_component e i c \<Longrightarrow> om_has (e_entities e) i"
    and "om_has (e_entities e) i \<Longrightarrow> i < e_entitiesID e"
    and "map_of (e_entities e) i = Some m \<Longrightarrow> indexes m = X i \<union> bits_of e i"
  using assms unfolding ecs_inv_def by blast+

subsection \<open>Registering component types\<close>

lemma indexes_shift:
  "indexes (rightShift (Suc 0) b) = {i. i < bs_capacity b \<and> 0 < i \<and> i - 1 \<in> indexes b}"
proof -
  have "bs_test (rightShift (Suc 0) b) i \<longleftrightarrow> i < bs_capacity b \<and> 0 < i \<and> bs_test b (i - 1)" for i
    by (auto simp: bs_test_row rightShift_def row_right_pass bs_capacity_def)
  then show ?thesis by (simp add: indexes_def)
qed

lemma capacity_shift [simp]: "bs_capacity (rightShift n b) = bs_capacity b"
  by (simp add: rightShift_def bs_capacity_def)

lemma indexes_increase [simp]: "indexes (bs_increase n b) = indexes b"
proof -
  have "bs_test (bs_increase n b) i = bs_test b i" for i
    by (cases "block_index i < length (bs_blocks b)"; cases "block_index i < length (bs_blocks b) + n")
      (simp_all add: bs_test_iff raw_bit_def bs_increase_def nth_append)
  then show ?thesis by (simp add: indexes_def)
qed

lemma capacity_increase: "bs_capacity (bs_increase n b) = bs_capacity b + 64 * n"
  by (simp add: bs_capacity_def bs_increase_def)

lemma indexes_less_capacity: "i \<in> indexes b \<Longrightarrow> i < bs_capacity b"
  by (simp add: indexes_def bs_test_capacity)

lemma bs_none_iff: "bs_none b \<longleftrightarrow> indexes b = {}"
  using some_bit[of b] by (auto simp: bs_none_def indexes_def)

text \<open>The mask index is one bit that moves on by one; the vector grows when the bit would leave it.\<close>

lemma single_shift:
  assumes "indexes m = {k}"
  shows "indexes (rightShift (Suc 0) m) = (if Suc k < bs_capacity m then {Suc k} else {})"
proof -
  have "{i. i < bs_capacity m \<and> 0 < i \<and> i - 1 = k} =
      (if Suc k < bs_capacity m then {Suc k} else {})"
    by (auto split: if_splits)
  then show ?thesis by (simp add: indexes_shift assms)
qed

lemma next_mask_index:
  assumes "indexes m = {k}"
  shows "indexes (next_mask_index m) = {Suc k}"
proof -
  have "k < bs_capacity m"
    using assms by (auto intro: indexes_less_capacity)
  moreover have "indexes (bs_increase (Suc 0) m) = {k}" using assms by simp
  ultimately show ?thesis
    using single_shift[OF assms] single_shift[of "bs_increase (Suc 0) m" k]
    by (simp add: next_mask_index_def bs_none_iff capacity_increase)
qed

lemma comp_bits_simps [simp]:
  "comp_bits (e\<lparr>e_maskIndex := m\<rparr>) c = comp_bits e c"
  "comp_bits (e\<lparr>e_components := x\<rparr>) c = comp_bits e c"
  "comp_bits (e\<lparr>e_entities := y\<rparr>) c = comp_bits e c"
  "comp_bits (e\<lparr>e_entitiesID := z\<rparr>) c = comp_bits e c"
  "comp_bits (e\<lparr>e_masks := om_put d b (e_masks e)\<rparr>) c = (if c = d then indexes b else comp_bits e c)"
  by (simp_all add: comp_bits_def)

lemma has_component_simps [simp]:
  "has_component (e\<lparr>e_maskIndex := m\<rparr>) i c = has_component e i c"
  "has_component (e\<lparr>e_masks := w\<rparr>) i c = has_component e i c"
  "has_component (e\<lparr>e_entities := y\<rparr>) i c = has_component e i c"
  "has_component (e\<lparr>e_entitiesID := z\<rparr>) i c = has_component e i c"
  by (simp_all add: has_component_def)

lemma new_set_has [simp]: "\<not> ss_has (new_sparse_set cid) i"
  by (simp add: ss_has_def new_sparse_set_def)

lemma masks_atD:
  assumes "masks_at k e"
  shows "e_emptyMask e = empty_bitset" and "indexes (e_maskIndex e) = {k}"
    and "om_has (e_components e) c \<Longrightarrow> \<exists>n. comp_bits e c = {n} \<and> 0 < n \<and> n \<le> k"
    and "om_has (e_masks e) c = om_has (e_components e) c"
    and "om_has (e_components e) c \<Longrightarrow> comp_bits e c = comp_bits e d \<Longrightarrow> c = d"
  using assms unfolding masks_at_def by blast+

lemma masks_atI:
  assumes "e_emptyMask e = empty_bitset" and "indexes (e_maskIndex e) = {k}"
    and "\<And>c. om_has (e_components e) c \<Longrightarrow> \<exists>n. comp_bits e c = {n} \<and> 0 < n \<and> n \<le> k"
    and "\<And>c. om_has (e_masks e) c = om_has (e_components e) c"
    and "\<And>c d. om_has (e_components e) c \<Longrightarrow> comp_bits e c = comp_bits e d \<Longrightarrow> c = d"
  shows "masks_at k e"
  unfolding masks_at_def by (intro conjI allI impI) (fact assms)+

lemma masks_wf_empty: "masks_wf e \<Longrightarrow> e_emptyMask e = empty_bitset"
  by (auto simp: masks_wf_def dest: masks_atD(1))

lemma comp_bits_unregistered:
  assumes "masks_at k e" and "\<not> om_has (e_components e) c"
  shows "comp_bits e c = {}"
  using masks_atD(4)[OF assms(1), of c] assms(2) by (simp add: comp_bits_def om_has_def)

text \<open>The state after a call with a new component type.\<close>

lemma register_new:
  "\<not> om_has (e_components e) cid \<Longrightarrow>
   registerComponent cid e = e\<lparr>e_maskIndex := next_mask_index (e_maskIndex e),
     e_masks := om_put cid (next_mask_index (e_maskIndex e)) (e_masks e),
     e_components := om_put cid (new_sparse_set cid) (e_components e)\<rparr>"
  by (simp add: registerComponent_def Let_def)

lemma register_old:
  "om_has (e_components e) cid \<Longrightarrow>
   registerComponent cid e = e\<lparr>e_maskIndex := next_mask_index (e_maskIndex e)\<rparr>"
  by (simp add: registerComponent_def Let_def)

lemma masks_at_register:
  assumes "masks_at k e"
  shows "masks_at (Suc k) (registerComponent cid e)"
proof -
  note at = masks_atD[OF assms]
  note next_k = next_mask_index[OF at(2)]
  have older: "\<exists>n. comp_bits e c = {n} \<and> 0 < n \<and> n \<le> Suc k" if "om_has (e_components e) c" for c
    using at(3)[OF that] le_SucI by blast
  show ?thesis
  proof (cases "om_has (e_components e) cid")
    case True
    let ?e = "e\<lparr>e_maskIndex := next_mask_index (e_maskIndex e)\<rparr>"
    have "masks_at (Suc k) ?e"
    proof (rule masks_atI)
      fix c d
      show "\<exists>n. comp_bits ?e c = {n} \<and> 0 < n \<and> n \<le> Suc k" if "om_has (e_components ?e) c"
        using that older[of c] by simp
      show "c = d" if "om_has (e_components ?e) c" "comp_bits ?e c = comp_bits ?e d"
        using that at(5)[of c d] by simp
    qed (use next_k at(1,4) in simp_all)
    then show ?thesis by (simp add: register_old[OF True])
  next
    case False
    let ?e = "registerComponent cid e"
    note e = register_new[OF False]
    have cb: "comp_bits ?e c = (if c = cid then {Suc k} else comp_bits e c)" for c
      using next_k by (simp add: e comp_bits_def)
    have dom: "om_has (e_components ?e) c \<longleftrightarrow> c = cid \<or> om_has (e_components e) c"
      "om_has (e_masks ?e) c \<longleftrightarrow> c = cid \<or> om_has (e_masks e) c" for c
      by (simp_all add: e)
    have not_new: "comp_bits e c \<noteq> {Suc k}" for c
    proof (cases "om_has (e_components e) c")
      case True
      then obtain n where "comp_bits e c = {n}" "n \<le> k" using at(3) by blast
      then show ?thesis by simp
    next
      case False
      then show ?thesis using comp_bits_unregistered[OF assms] by simp
    qed
    have inj: "c = d" if "om_has (e_components ?e) c" "comp_bits ?e c = comp_bits ?e d" for c d
      using that not_new[of c] not_new[of d] at(5)[of c d] unfolding cb dom
      by (cases "c = cid"; cases "d = cid") simp_all
    have bits: "\<exists>n. comp_bits ?e c = {n} \<and> 0 < n \<and> n \<le> Suc k" if "om_has (e_components ?e) c" for c
      using that older[of c] unfolding cb dom by (cases "c = cid") auto
    have "indexes (e_maskIndex ?e) = {Suc k}" "e_emptyMask ?e = empty_bitset"
      using next_k at(1) by (simp_all add: e)
    moreover have "om_has (e_masks ?e) c = om_has (e_components ?e) c" for c
      by (simp add: dom at(4))
    ultimately show ?thesis
      using inj bits by (intro masks_atI)
  qed
qed

lemma masks_wf_register: "masks_wf e \<Longrightarrow> masks_wf (registerComponent cid e)"
  using masks_at_register by (auto simp: masks_wf_def)

lemma ecs_wf_register:
  assumes "ecs_wf e"
  shows "ecs_wf (registerComponent cid e)"
proof -
  let ?e = "registerComponent cid e"
  have masks: "masks_wf ?e"
    using ecs_invD(1)[OF assms] by (rule masks_wf_register)
  have has: "has_component ?e i c = has_component e i c" for i c
    by (auto simp: registerComponent_def Let_def has_component_def om_has_def)
  have cb: "comp_bits ?e c = comp_bits e c" if "has_component e i c" for i c
    using that by (auto simp: registerComponent_def Let_def has_component_def om_has_def comp_bits_def)
  have bits: "bits_of ?e i = bits_of e i" for i
    unfolding bits_of_def has by (rule SUP_cong) (auto simp: cb)
  have same: "e_entities ?e = e_entities e" "e_entitiesID ?e = e_entitiesID e"
    by (simp_all add: registerComponent_def Let_def)
  have comps: "om_wf (e_components ?e)"
    using ecs_invD(3)[OF assms] by (simp add: registerComponent_def Let_def)
  have sets: "ss_wf s" if "map_of (e_components ?e) c = Some s" for c s
    using that ecs_invD(4)[OF assms, of c s]
    by (auto simp: registerComponent_def Let_def split: if_splits)
  show ?thesis
    by (rule ecs_invI[OF masks]) (use ecs_invD[OF assms] comps sets in \<open>simp_all add: same has bits\<close>)
qed

subsection \<open>Adding an instance\<close>

lemma getComponentMask_single: "getComponentMask [c] e = getComponentMaskHelper c e"
  by simp

lemma indexes_helper:
  "e_emptyMask e = empty_bitset \<Longrightarrow> indexes (getComponentMaskHelper c e) = comp_bits e c"
  by (simp add: getComponentMaskHelper_def comp_bits_def split: option.split)

lemma indexes_getComponentMask:
  "e_emptyMask e = empty_bitset \<Longrightarrow> indexes (getComponentMask cs e) = (\<Union>c \<in> set cs. comp_bits e c)"
  by (induction cs e rule: getComponentMask.induct) (simp_all add: indexes_helper indexes_or)

lemma masks_wf_cong:
  assumes "e_emptyMask e' = e_emptyMask e" and "e_maskIndex e' = e_maskIndex e" and "e_masks e' = e_masks e"
    and "\<And>c. om_has (e_components e') c = om_has (e_components e) c"
  shows "masks_wf e' = masks_wf e"
  using assms by (simp add: masks_wf_def masks_at_def comp_bits_def)

lemma has_component_put:
  assumes "map_of (e_components e) cid = Some s" and "ss_wf s"
  shows "has_component (e\<lparr>e_components := om_put cid (ss_put i v s) (e_components e)\<rparr>) j c \<longleftrightarrow>
    has_component e j c \<or> j = i \<and> c = cid"
proof -
  have "ss_has (ss_put i v s) j \<longleftrightarrow> ss_has s j \<or> j = i"
    using ss_put_correct[OF assms(2), of i v]
    by (simp add: ss_has_get)
  with assms(1) show ?thesis by (auto simp: has_component_def)
qed


lemma has_component_entity: "ecs_inv X e \<Longrightarrow> has_component e i c \<Longrightarrow> om_has (e_entities e) i"
  by (rule ecs_invD)

lemma ecs_inv_insert:
  assumes "ecs_inv X e"
  shows "ecs_inv X (insertComponentInstance i cid v e)"
proof (cases "\<exists>m s. map_of (e_entities e) i = Some m \<and> map_of (e_components e) cid = Some s")
  case False
  then show ?thesis
    using assms by (auto simp: insertComponentInstance_def split: option.split)
next
  case True
  then obtain m s where m: "map_of (e_entities e) i = Some m" and s: "map_of (e_components e) cid = Some s"
    by blast
  let ?m = "bs_or_assign m (getComponentMask [cid] e)"
  let ?e = "e\<lparr>e_entities := om_put i ?m (e_entities e),
    e_components := om_put cid (ss_put i v s) (e_components e)\<rparr>"
  note wf = ecs_invD[OF assms]
  have s_wf: "ss_wf s" using s by (rule wf(4))
  have has: "has_component ?e j c \<longleftrightarrow> has_component e j c \<or> j = i \<and> c = cid" for j c
    using has_component_put[OF s s_wf, of i v j c] by (simp add: has_component_def)
  have cb: "comp_bits ?e c = comp_bits e c" for c
    by (simp add: comp_bits_def)
  have bits: "bits_of ?e j = (if j = i then bits_of e j \<union> comp_bits e cid else bits_of e j)" for j
    unfolding bits_of_def has cb by auto
  have "masks_wf ?e = masks_wf e"
    by (rule masks_wf_cong) (use s in \<open>auto simp: om_has_def\<close>)
  then have "ecs_inv X ?e"
  proof (intro ecs_invI)
    show "om_wf (e_entities ?e)" "om_wf (e_components ?e)" using wf(2,3) by simp_all
    show "ss_wf t" if "map_of (e_components ?e) c = Some t" for c t
      using that s_wf wf(4)[of c t] by (auto simp: ss_put_correct split: if_splits)
    show "om_has (e_entities ?e) j" if "has_component ?e j c" for j c
    proof -
      have "has_component e j c \<or> j = i" using that unfolding has by blast
      then show ?thesis using wf(5)[of j c] by auto
    qed
    show "j < e_entitiesID ?e" if "om_has (e_entities ?e) j" for j
      using that m wf(6)[of j] by (cases "j = i") (auto simp: om_has_def)
    show "indexes n = X j \<union> bits_of ?e j" if "map_of (e_entities ?e) j = Some n" for j n
    proof (cases "j = i")
      case True
      have "indexes ?m = X i \<union> bits_of e i \<union> comp_bits e cid"
        using wf(7)[OF m] masks_wf_empty[OF wf(1)] by (simp add: indexes_compound indexes_helper)
      with True that show ?thesis unfolding bits by auto
    next
      case False
      with that wf(7)[of j n] show ?thesis unfolding bits by simp
    qed
  qed (use wf(1) in simp)
  then show ?thesis using m s by (simp add: insertComponentInstance_def)
qed


lemma ecs_inv_add:
  "ecs_inv X e \<Longrightarrow> ecs_inv X (addEntityComponents i ps e)"
  unfolding addEntityComponents_def
  by (induction ps arbitrary: e) (auto intro: ecs_inv_insert)

lemma insert_frame [simp]:
  "e_entitiesID (insertComponentInstance i cid v e) = e_entitiesID e"
  "om_has (e_entities (insertComponentInstance i cid v e)) j = om_has (e_entities e) j"
  "om_has (e_components (insertComponentInstance i cid v e)) c = om_has (e_components e) c"
  "comp_bits (insertComponentInstance i cid v e) c = comp_bits e c"
  by (auto simp: insertComponentInstance_def om_has_def comp_bits_def split: option.split)

lemma add_frame [simp]:
  "e_entitiesID (addEntityComponents i ps e) = e_entitiesID e"
  "om_has (e_entities (addEntityComponents i ps e)) j = om_has (e_entities e) j"
  "om_has (e_components (addEntityComponents i ps e)) c = om_has (e_components e) c"
  "comp_bits (addEntityComponents i ps e) c = comp_bits e c"
  unfolding addEntityComponents_def by (induction ps arbitrary: e; simp add: case_prod_beta)+

text \<open>What an entity has: \<open>getEntityComponent\<close> after adding an instance to an existing entity.\<close>

lemma get_insert:
  assumes "ecs_inv X e" and "om_has (e_entities e) i"
  shows "getEntityComponent c j (insertComponentInstance i cid v e) =
    (if j = i \<and> c = cid \<and> om_has (e_components e) cid then Some v else getEntityComponent c j e)"
proof (cases "map_of (e_components e) cid")
  case None
  then show ?thesis
    by (auto simp: insertComponentInstance_def om_has_def split: option.split)
next
  case (Some s)
  then have "ss_get (ss_put i v s) = (ss_get s)(i \<mapsto> v)"
    using ecs_invD(4)[OF assms(1)] by (simp add: ss_put_correct)
  with Some assms(2) show ?thesis
    by (auto simp: insertComponentInstance_def getEntityComponent_def getComponent_def om_has_def)
qed

lemma get_add:
  assumes "ecs_inv X e" and "om_has (e_entities e) i"
  shows "getEntityComponent c j (addEntityComponents i ps e) =
    (if j = i \<and> om_has (e_components e) c \<and> c \<in> fst ` set ps then map_of (rev ps) c
     else getEntityComponent c j e)"
  using assms
proof (induction ps arbitrary: e)
  case Nil
  then show ?case by (simp add: addEntityComponents_def)
next
  case (Cons p ps)
  obtain d v where p: "p = (d, v)" by fastforce
  let ?e = "insertComponentInstance i d v e"
  have "addEntityComponents i (p # ps) e = addEntityComponents i ps ?e"
    by (simp add: addEntityComponents_def p)
  moreover have "getEntityComponent c j (addEntityComponents i ps ?e) =
      (if j = i \<and> om_has (e_components e) c \<and> c \<in> fst ` set ps then map_of (rev ps) c
       else getEntityComponent c j ?e)"
    using Cons.IH[of ?e] Cons.prems by (simp add: ecs_inv_insert)
  ultimately show ?case
    using get_insert[OF Cons.prems, of c j d v] map_of_rev_Cons[of p ps c]
    by (auto simp: p simp del: rev.simps)
qed


subsection \<open>Registering, updating and destroying entities\<close>

lemma fresh_id: "ecs_inv X e \<Longrightarrow> \<not> om_has (e_entities e) (e_entitiesID e)"
  using ecs_invD(6) by blast

lemma no_fresh_component: "ecs_inv X e \<Longrightarrow> \<not> has_component e (e_entitiesID e) c"
  using has_component_entity fresh_id by blast

lemma has_component_get: "has_component e i c \<longleftrightarrow> getEntityComponent c i e \<noteq> None"
  by (auto simp: has_component_def getEntityComponent_def getComponent_def ss_has_get split: option.split)

lemma ID_insert:
  "insertComponentInstance i cid v (e\<lparr>e_entitiesID := n\<rparr>) =
   (insertComponentInstance i cid v e)\<lparr>e_entitiesID := n\<rparr>"
  by (simp add: insertComponentInstance_def getComponentMaskHelper_def split: option.split)

lemma ID_add:
  "addEntityComponents i ps (e\<lparr>e_entitiesID := n\<rparr>) = (addEntityComponents i ps e)\<lparr>e_entitiesID := n\<rparr>"
  unfolding addEntityComponents_def by (induction ps arbitrary: e) (simp_all add: ID_insert case_prod_beta)

text \<open>\<open>registerEntity\<close> with the increment first: the entity as it is entered.\<close>

definition entered :: "bitset \<Rightarrow> ('c, 's) ecs \<Rightarrow> ('c, 's) ecs" where
  "entered m e = e\<lparr>e_entities := om_put (e_entitiesID e) m (e_entities e),
                   e_entitiesID := e_entitiesID e + 1\<rparr>"

lemma registerEntity_entered:
  assumes "ecs_wf e" and "\<not> bs_none (getComponentMask (map fst ps) e)"
  shows "registerEntity ps e =
    (e_entitiesID e, addEntityComponents (e_entitiesID e) ps (entered (getComponentMask (map fst ps) e) e))"
  using assms(2) fresh_id[OF assms(1)]
  by (simp add: registerEntity_def Let_def entered_def flip: ID_add)

lemma bits_of_cong:
  assumes "\<And>c. has_component e' i c = has_component e i c" and "\<And>c. comp_bits e' c = comp_bits e c"
  shows "bits_of e' i = bits_of e i"
  using assms by (simp add: bits_of_def)

lemma ecs_inv_entered:
  assumes "ecs_wf e"
  shows "ecs_inv (\<lambda>j. if j = e_entitiesID e then indexes m else {}) (entered m e)"
proof -
  let ?i = "e_entitiesID e" and ?e = "entered m e"
  note wf = ecs_invD[OF assms]
  have has: "has_component ?e j c = has_component e j c" and cb: "comp_bits ?e c = comp_bits e c" for j c
    by (simp_all add: entered_def)
  have bits: "bits_of ?e j = bits_of e j" for j
    by (rule bits_of_cong) (simp_all only: has cb)
  have none: "bits_of e ?i = {}"
    using no_fresh_component[OF assms] by (simp add: bits_of_def)
  have masks: "masks_wf ?e"
    using wf(1) masks_wf_cong[of ?e e] by (simp add: entered_def)
  show ?thesis
  proof (rule ecs_invI[OF masks])
    show "om_wf (e_entities ?e)" "om_wf (e_components ?e)" using wf(2,3) by (simp_all add: entered_def)
    show "ss_wf s" if "map_of (e_components ?e) c = Some s" for c s
      using that wf(4)[of c s] by (simp add: entered_def)
    show "om_has (e_entities ?e) j" if "has_component ?e j c" for j c
      using that wf(5)[of j c] by (simp add: entered_def)
    show "j < e_entitiesID ?e" if "om_has (e_entities ?e) j" for j
      using that wf(6)[of j] by (auto simp: entered_def)
    show "indexes n = (if j = ?i then indexes m else {}) \<union> bits_of ?e j"
      if "map_of (e_entities ?e) j = Some n" for j n
      unfolding bits using that wf(7)[of j n] none by (auto simp: entered_def split: if_splits)
  qed
qed

lemma bits_of_added:
  assumes "ecs_inv X e" and "om_has (e_entities e) i"
  shows "(\<Union>c \<in> fst ` set ps. comp_bits e c) \<subseteq> bits_of (addEntityComponents i ps e) i"
proof
  fix n assume "n \<in> (\<Union>c \<in> fst ` set ps. comp_bits e c)"
  then obtain c where c: "c \<in> fst ` set ps" "n \<in> comp_bits e c" by blast
  obtain k where k: "masks_at k e" using ecs_invD(1)[OF assms(1)] by (auto simp: masks_wf_def)
  have reg: "om_has (e_components e) c"
    using comp_bits_unregistered[OF k, of c] c(2) by blast
  have "getEntityComponent c i (addEntityComponents i ps e) = map_of (rev ps) c"
    using get_add[OF assms, of c i] c(1) reg by simp
  moreover have "map_of (rev ps) c \<noteq> None"
    using c(1) by (simp add: map_of_eq_None_iff)
  ultimately have "has_component (addEntityComponents i ps e) i c"
    by (simp add: has_component_get)
  with c(2) show "n \<in> bits_of (addEntityComponents i ps e) i"
    by (auto simp: bits_of_def)
qed

lemma ecs_inv_weaken:
  assumes "ecs_inv X e" and "\<And>i. X i \<subseteq> bits_of e i"
  shows "ecs_wf e"
proof (rule ecs_invI)
  note wf = ecs_invD[OF assms(1)]
  show "indexes m = {} \<union> bits_of e i" if "map_of (e_entities e) i = Some m" for i m
    using wf(7)[OF that] assms(2)[of i] by blast
qed (use ecs_invD[OF assms(1)] in blast)+

lemma ecs_wf_registerEntity:
  assumes "ecs_wf e"
  shows "ecs_wf (snd (registerEntity ps e))"
proof (cases "bs_none (getComponentMask (map fst ps) e)")
  case True
  with assms show ?thesis by (simp add: registerEntity_def Let_def)
next
  case False
  let ?m = "getComponentMask (map fst ps) e" and ?i = "e_entitiesID e"
  note inv = ecs_inv_entered[OF assms, of ?m]
  have empty: "e_emptyMask e = empty_bitset"
    using ecs_invD(1)[OF assms] by (rule masks_wf_empty)
  have "om_has (e_entities (entered ?m e)) ?i" by (simp add: entered_def)
  from bits_of_added[OF inv this]
  have "indexes ?m \<subseteq> bits_of (addEntityComponents ?i ps (entered ?m e)) ?i"
    by (simp add: indexes_getComponentMask[OF empty] entered_def)
  then have "ecs_wf (addEntityComponents ?i ps (entered ?m e))"
    by (intro ecs_inv_weaken[OF ecs_inv_add[OF inv]]) simp
  then show ?thesis
    by (simp add: registerEntity_entered[OF assms False])
qed


lemma ecs_wf_preRegister:
  assumes "ecs_wf e"
  shows "ecs_wf (snd (preRegisterEntity e))"
proof -
  have "snd (preRegisterEntity e) = entered empty_bitset e"
    using fresh_id[OF assms] by (simp add: preRegisterEntity_def Let_def entered_def)
  moreover have "ecs_inv (\<lambda>_. {}) (entered empty_bitset e)"
    using ecs_inv_entered[OF assms, of empty_bitset] by (simp cong: if_cong)
  ultimately show ?thesis by simp
qed

lemma ecs_wf_updateComponent:
  assumes "ecs_wf e"
  shows "ecs_wf (snd (updateEntityComponent i cid v e))"
proof (cases "\<exists>s. map_of (e_components e) cid = Some s \<and> ss_has s i")
  case False
  with assms show ?thesis
    by (auto simp: updateEntityComponent_def getComponent_def split: option.split)
next
  case True
  then obtain s where s: "map_of (e_components e) cid = Some s" "ss_has s i" by blast
  let ?e = "e\<lparr>e_components := om_put cid (ss_put i v s) (e_components e)\<rparr>"
  note wf = ecs_invD[OF assms]
  have s_wf: "ss_wf s" using s(1) by (rule wf(4))
  have here: "has_component e i cid" using s by (simp add: has_component_def)
  then have has: "has_component ?e j c = has_component e j c" for j c
    using has_component_put[OF s(1) s_wf, of i v j c] by auto
  have bits: "bits_of ?e j = bits_of e j" for j
    by (rule bits_of_cong) (simp_all add: has)
  have "masks_wf ?e = masks_wf e"
    by (rule masks_wf_cong) (use s(1) in \<open>auto simp: om_has_def\<close>)
  then have "ecs_wf ?e"
  proof (intro ecs_invI)
    show "ss_wf t" if "map_of (e_components ?e) c = Some t" for c t
      using that s_wf wf(4)[of c t] by (auto simp: ss_put_correct split: if_splits)
    show "indexes m = {} \<union> bits_of ?e j" if "map_of (e_entities ?e) j = Some m" for j m
      unfolding bits using that wf(7)[of j m] by simp
    show "om_has (e_entities ?e) j" if "has_component ?e j c" for j c
      using that wf(5)[of j c] unfolding has by simp
  qed (use wf in simp_all)
  with s show ?thesis by (simp add: updateEntityComponent_def getComponent_def)
qed

lemma ecs_wf_updateEntity:
  "ecs_wf e \<Longrightarrow> ecs_wf (snd (updateEntity i ps e))"
proof (induction ps arbitrary: e)
  case (Cons p ps)
  from ecs_wf_updateComponent[OF Cons.prems, of i "fst p" "snd p"] Cons.IH
  show ?case by (auto split: prod.split)
qed simp

lemma map_of_destroyed:
  "map_of (map (\<lambda>(c, s). (c, f s)) m) c = map_option f (map_of m c)"
  by (induction m) auto

lemma has_destroyed:
  assumes "ecs_wf e"
  shows "has_component (destroyEntity i e) j c \<longleftrightarrow> j \<noteq> i \<and> has_component e j c"
proof (cases "map_of (e_components e) c")
  case None
  then show ?thesis by (simp add: has_component_def destroyEntity_def map_of_destroyed)
next
  case (Some s)
  then have "ss_wf s" by (rule ecs_invD(4)[OF assms])
  with Some show ?thesis
    by (auto simp: has_component_def destroyEntity_def map_of_destroyed ss_has_get ss_remove_correct)
qed

lemma ecs_wf_destroy:
  assumes "ecs_wf e"
  shows "ecs_wf (destroyEntity i e)"
proof -
  let ?e = "destroyEntity i e"
  note wf = ecs_invD[OF assms] and has = has_destroyed[OF assms]
  have cb: "comp_bits ?e c = comp_bits e c" for c
    by (simp add: destroyEntity_def comp_bits_def)
  have bits: "bits_of ?e j = (if j = i then {} else bits_of e j)" for j
    unfolding bits_of_def has cb by simp
  have keys: "map fst (e_components ?e) = map fst (e_components e)"
    by (simp add: destroyEntity_def o_def case_prod_beta)
  have "masks_wf ?e = masks_wf e"
    by (rule masks_wf_cong) (auto simp: destroyEntity_def om_has_def map_of_destroyed)
  then show ?thesis
  proof (intro ecs_invI)
    show "om_wf (e_components ?e)" using wf(3) unfolding om_wf_def keys .
    show "om_wf (e_entities ?e)" using wf(2) by (simp add: destroyEntity_def)
    show "ss_wf t" if "map_of (e_components ?e) c = Some t" for c t
    proof -
      have "map_option (\<lambda>s. if ss_has s i then ss_remove i s else s) (map_of (e_components e) c) = Some t"
        using that by (simp add: destroyEntity_def map_of_destroyed)
      then show ?thesis using wf(4)[of c]
        by (cases "map_of (e_components e) c") (auto simp: ss_remove_correct split: if_splits)
    qed
    show "om_has (e_entities ?e) j" if "has_component ?e j c" for j c
      using that wf(5)[of j c] unfolding has by (simp add: destroyEntity_def)
    show "j < e_entitiesID ?e" if "om_has (e_entities ?e) j" for j
      using that wf(6)[of j] by (simp add: destroyEntity_def)
    show "indexes m = {} \<union> bits_of ?e j" if "map_of (e_entities ?e) j = Some m" for j m
      unfolding bits using that wf(7)[of j m] by (auto simp: destroyEntity_def split: if_splits)
  qed (use wf(1) in simp)
qed

lemma new_mask_index: "indexes (e_maskIndex (new_ecs :: ('c, 's) ecs)) = {0}"
proof -
  have "row_bit [0x8000000000000000] i \<longleftrightarrow> i = 0" for i
    using bit_exp_word[of 63 "63 - i", where ?'a = 64]
    by (cases "i < 64") (auto simp: row_bit_def)
  then show ?thesis by (simp add: new_ecs_def indexes_of_blocks)
qed

lemma ecs_wf_new: "ecs_wf (new_ecs :: ('c, 's) ecs)"
proof -
  have "masks_at 0 (new_ecs :: ('c, 's) ecs)"
    using new_mask_index by (intro masks_atI) (simp_all add: new_ecs_def)
  then show ?thesis
    by (intro ecs_invI) (auto simp: masks_wf_def new_ecs_def has_component_def)
qed

end
