(* ===== verification/EcsCalls.thy ===== *)
theory EcsCalls
  imports Ecs
begin

text \<open>
  The client's side of the entity store of \<^verbatim>\<open>lib/rtecs\<close>: the calls of the class \<open>ECS\<close> as values, the
  stores that sequences of calls reach, and what every reachable store promises.
\<close>

section \<open>Calls and reachable stores\<close>

datatype ('c, 's) ecs_call =
    Call_registerComponents "nat list"
  | Call_registerEntity "(nat \<times> 'c) list"
  | Call_preRegisterEntity
  | Call_addEntityComponents nat "(nat \<times> 'c) list"
  | Call_updateEntity nat "(nat \<times> 'c) list"
  | Call_destroyEntity nat
  | Call_registerSystem 's

primrec perform :: "('c, 's) ecs_call \<Rightarrow> ('c, 's) ecs \<Rightarrow> ('c, 's) ecs" where
  "perform (Call_registerComponents cids) e = registerComponents cids e"
| "perform (Call_registerEntity ps) e = snd (registerEntity ps e)"
| "perform Call_preRegisterEntity e = snd (preRegisterEntity e)"
| "perform (Call_addEntityComponents i ps) e = addEntityComponents i ps e"
| "perform (Call_updateEntity i ps) e = snd (updateEntity i ps e)"
| "perform (Call_destroyEntity i) e = destroyEntity i e"
| "perform (Call_registerSystem sys) e = registerSystem sys e"

inductive ecs_reachable :: "('c, 's) ecs \<Rightarrow> bool" where
  created: "ecs_reachable new_ecs"
| called: "ecs_reachable e \<Longrightarrow> ecs_reachable (perform c e)"

lemma ecs_wf_systems: "ecs_wf e \<Longrightarrow> ecs_wf (registerSystem sys e)"
  by (simp add: registerSystem_def ecs_inv_def masks_wf_def masks_at_def bits_of_def comp_bits_def
      has_component_def)

lemma ecs_wf_registers: "ecs_wf e \<Longrightarrow> ecs_wf (registerComponents cids e)"
  unfolding registerComponents_def by (induction cids arbitrary: e) (simp_all add: ecs_wf_register)

lemma ecs_wf_call: "ecs_wf e \<Longrightarrow> ecs_wf (perform c e)"
  by (cases c) (simp_all add: ecs_wf_systems ecs_wf_registers ecs_wf_registerEntity
      ecs_wf_preRegister ecs_inv_add ecs_wf_updateEntity ecs_wf_destroy)

lemma ecs_reachable_wf: "ecs_reachable e \<Longrightarrow> ecs_wf e"
  by (induction rule: ecs_reachable.induct) (simp_all add: ecs_wf_new ecs_wf_call)

subsection \<open>A store with two component types and two entities\<close>

definition sample_calls :: "(string, unit) ecs_call list" where
  "sample_calls =
     [Call_registerComponents [7, 9], Call_registerEntity [(7, ''pos''), (9, ''hp'')],
      Call_registerEntity [(9, ''hp2'')]]"

definition sample :: "(string, unit) ecs" where
  "sample = fold perform sample_calls new_ecs"

lemma reachable_fold: "ecs_reachable e \<Longrightarrow> ecs_reachable (fold perform cs e)"
  by (induction cs arbitrary: e) (auto intro: called)

lemma sample_reachable: "ecs_reachable sample"
  unfolding sample_def by (intro reachable_fold created)

section \<open>Masks\<close>

lemma wf_masks:
  assumes "ecs_wf e"
  obtains k where "masks_at k e"
  using ecs_invD(1)[OF assms] by (auto simp: masks_wf_def)

lemma mask_bits:
  assumes "ecs_wf e"
  shows "indexes (getEntityMask i e) = bits_of e i"
proof (cases "map_of (e_entities e) i")
  case None
  then have "\<not> has_component e i c" for c
    using ecs_invD(5)[OF assms, of i c] by (auto simp: om_has_def)
  with None show ?thesis
    using masks_wf_empty[OF ecs_invD(1)[OF assms]] by (simp add: getEntityMask_def bits_of_def)
next
  case (Some m)
  then show ?thesis using ecs_invD(7)[OF assms] by (simp add: getEntityMask_def)
qed

lemma registered_of_has: "has_component e i c \<Longrightarrow> om_has (e_components e) c"
  by (auto simp: has_component_def om_has_def split: option.splits)

lemma bit_of_component:
  assumes "ecs_wf e" and "om_has (e_components e) c"
  shows "comp_bits e c \<subseteq> bits_of e i \<longleftrightarrow> has_component e i c"
proof
  assume sub: "comp_bits e c \<subseteq> bits_of e i"
  obtain k where k: "masks_at k e" using wf_masks[OF assms(1)] .
  obtain n where n: "comp_bits e c = {n}" using masks_atD(3)[OF k assms(2)] by blast
  then obtain d where d: "has_component e i d" "n \<in> comp_bits e d"
    using sub by (auto simp: bits_of_def)
  obtain m where "comp_bits e d = {m}" using masks_atD(3)[OF k registered_of_has[OF d(1)]] by blast
  with d(2) n have "comp_bits e c = comp_bits e d" by simp
  then have "c = d" by (rule masks_atD(5)[OF k assms(2)])
  with d(1) show "has_component e i c" by simp
qed (auto simp: bits_of_def)

lemma bs_eq_and_iff:
  "bs_eq (bs_and a b) b \<longleftrightarrow> indexes b \<subseteq> indexes a"
  by (auto simp: bs_eq_iff indexes_and)

text \<open>C22: in every store that calls can reach, an entity's mask tells exactly which components the
  entity has: for a registered type, \<open>(mask & typeMask) == typeMask\<close> holds if and only if
  \<open>getEntityComponent\<close> finds an instance; and for a pack of registered types the same test with
  the joint mask holds if and only if the entity has all of them.\<close>

theorem mask_tells_components:
  assumes "ecs_reachable e" and "\<forall>c \<in> set cids. om_has (e_components e) c"
  shows "bs_eq (bs_and (getEntityMask i e) (getComponentMask cids e)) (getComponentMask cids e) \<longleftrightarrow>
    (\<forall>c \<in> set cids. getEntityComponent c i e \<noteq> None)"
proof -
  have wf: "ecs_wf e" using assms(1) by (rule ecs_reachable_wf)
  have "e_emptyMask e = empty_bitset" using ecs_invD(1)[OF wf] by (rule masks_wf_empty)
  then have "bs_eq (bs_and (getEntityMask i e) (getComponentMask cids e)) (getComponentMask cids e) \<longleftrightarrow>
      (\<forall>c \<in> set cids. comp_bits e c \<subseteq> bits_of e i)"
    by (simp add: bs_eq_and_iff mask_bits[OF wf] indexes_getComponentMask UN_subset_iff)
  also have "\<dots> \<longleftrightarrow> (\<forall>c \<in> set cids. getEntityComponent c i e \<noteq> None)"
    using assms(2) by (simp add: bit_of_component[OF wf] has_component_get del: not_None_eq)
  finally show ?thesis .
qed

section \<open>Registering types\<close>

lemma registers_snoc:
  "registerComponents (cids @ [c]) e = registerComponent c (registerComponents cids e)"
  by (simp add: registerComponents_def)

lemma has_registered:
  "om_has (e_components (registerComponent c e)) d \<longleftrightarrow> d = c \<or> om_has (e_components e) d"
  by (auto simp: registerComponent_def Let_def)

lemma has_registers: "om_has (e_components (registerComponents cids e)) d \<longleftrightarrow>
    d \<in> set cids \<or> om_has (e_components e) d"
  by (induction cids rule: rev_induct) (auto simp: registers_snoc has_registered registerComponents_def)

lemma has_registerEntity [simp]:
  "om_has (e_components (snd (registerEntity ps e))) c = om_has (e_components e) c"
  by (simp add: registerEntity_def Let_def)

lemma sample_types: "om_has (e_components sample) c \<longleftrightarrow> c \<in> {7, 9}"
  by (simp add: sample_def sample_calls_def has_registers) (simp add: new_ecs_def)

theorem mask_tells_components_witness:
  "bs_eq (bs_and (getEntityMask 0 sample) (getComponentMask [7, 9] sample)) (getComponentMask [7, 9] sample) \<longleftrightarrow>
    (\<forall>c \<in> set [7, 9]. getEntityComponent c 0 sample \<noteq> None)"
  by (rule mask_tells_components[OF sample_reachable])
    (simp add: sample_types)

lemma comp_bits_register:
  assumes "masks_at k e"
  shows "comp_bits (registerComponent c e) d =
    (if d = c \<and> \<not> om_has (e_components e) c then {Suc k} else comp_bits e d)"
proof (cases "om_has (e_components e) c")
  case False
  then show ?thesis
    using next_mask_index[OF masks_atD(2)[OF assms]] by (simp add: register_new comp_bits_def)
qed (simp add: register_old)

lemma masks_at_new: "masks_at 0 (new_ecs :: ('c, 's) ecs)"
proof -
  obtain k where "masks_at k (new_ecs :: ('c, 's) ecs)" using wf_masks[OF ecs_wf_new] .
  then show ?thesis unfolding masks_at_def by (simp add: new_mask_index) (simp add: new_ecs_def)
qed

lemma masks_at_registers:
  "masks_at (length cids) (registerComponents cids (new_ecs :: ('c, 's) ecs))"
  by (induction cids rule: rev_induct)
    (simp_all add: registers_snoc masks_at_register registerComponents_def masks_at_new)

lemma bits_registers:
  "n < length cids \<Longrightarrow> cids ! n \<notin> set (take n cids) \<Longrightarrow>
   comp_bits (registerComponents cids (new_ecs :: ('c, 's) ecs)) (cids ! n) = {Suc n}"
proof (induction cids rule: rev_induct)
  case (snoc c cids)
  note step = comp_bits_register[OF masks_at_registers[of cids], of c]
  show ?case
  proof (cases "n < length cids")
    case True
    with snoc have "comp_bits (registerComponents cids (new_ecs :: ('c, 's) ecs)) (cids ! n) = {Suc n}"
      by (simp add: nth_append)
    moreover have "\<not> (cids ! n = c \<and> \<not> om_has (e_components (registerComponents cids (new_ecs :: ('c, 's) ecs))) c)"
      using nth_mem[OF True] has_registers[of cids "new_ecs :: ('c, 's) ecs" c] by metis
    ultimately have "comp_bits (registerComponents (cids @ [c]) (new_ecs :: ('c, 's) ecs)) (cids ! n) = {Suc n}"
      unfolding registers_snoc step by (simp only: if_False)
    with True show ?thesis by (simp add: nth_append)
  next
    case False
    with snoc.prems show ?thesis
      by (simp add: registers_snoc step has_registers nth_append less_Suc_eq) (simp add: new_ecs_def)
  qed
qed simp

text \<open>Registration gives bit \<open>n + 1\<close> to the type that the \<open>n\<close>-th call (from 0) registers for the first
  time: bit 0 is never used, and a call for a type that is registered already uses up a bit.  Types
  have distinct bits, also when there are more than the 64 of one block.\<close>

theorem registration_bits:
  assumes "n < length cids" and "cids ! n \<notin> set (take n cids)"
  shows "indexes (getComponentMask [cids ! n] (registerComponents cids (new_ecs :: ('c, 's) ecs))) = {Suc n}"
proof -
  have "e_emptyMask (registerComponents cids (new_ecs :: ('c, 's) ecs)) = empty_bitset"
    using masks_at_registers by (rule masks_atD(1))
  then show ?thesis
    by (simp add: indexes_helper bits_registers[OF assms])
qed

theorem registration_bits_witness:
  "indexes (getComponentMask [8] (registerComponents [7, 7, 8] (new_ecs :: (string, unit) ecs))) = {3}"
  using registration_bits[of 2 "[7, 7, 8]"] by simp

section \<open>Registering and destroying entities\<close>

lemma keys_of_has: "i \<in> fst ` set m \<longleftrightarrow> om_has m i"
  by (simp add: om_has_def map_of_eq_None_iff)

lemma set_getAllEntities: "set (getAllEntities e) = {i. om_has (e_entities e) i}"
  by (auto simp: getAllEntities_def simp flip: keys_of_has)

lemma mask_none_iff:
  assumes "ecs_wf e"
  shows "bs_none (getComponentMask cids e) \<longleftrightarrow> (\<forall>c \<in> set cids. \<not> om_has (e_components e) c)"
proof -
  obtain k where k: "masks_at k e" using wf_masks[OF assms] .
  have "comp_bits e c = {} \<longleftrightarrow> \<not> om_has (e_components e) c" for c
    using masks_atD(3)[OF k, of c] comp_bits_unregistered[OF k, of c] by blast
  then show ?thesis
    by (simp add: bs_none_iff indexes_getComponentMask[OF masks_atD(1)[OF k]])
qed

text \<open>\<open>registerEntity\<close> with a pack of which at least one type is registered returns a new
  identifier and adds one entity, which has exactly the components of the pack whose types are
  registered, with the given values; nothing else in the store changes.  With no registered type
  it returns \<open>NullEntityID\<close> and changes nothing.\<close>

theorem registerEntity_effect:
  assumes "ecs_reachable e"
  shows "if \<exists>c \<in> fst ` set ps. om_has (e_components e) c
    then \<exists>i e'. registerEntity ps e = (i, e') \<and> i \<notin> set (getAllEntities e) \<and>
      set (getAllEntities e') = insert i (set (getAllEntities e)) \<and> e_entitiesID e' = i + 1 \<and>
      (\<forall>c j. getEntityComponent c j e' =
        (if j = i then (if om_has (e_components e) c then map_of (rev ps) c else None)
         else getEntityComponent c j e))
    else registerEntity ps e = (NullEntityID, e)"
proof (cases "bs_none (getComponentMask (map fst ps) e)")
  case True
  then show ?thesis
    using mask_none_iff[OF ecs_reachable_wf[OF assms], of "map fst ps"]
    by (simp add: registerEntity_def)
next
  case False
  let ?m = "getComponentMask (map fst ps) e" and ?i = "e_entitiesID e"
  have wf: "ecs_wf e" using assms by (rule ecs_reachable_wf)
  have some: "\<exists>c \<in> fst ` set ps. om_has (e_components e) c"
    using mask_none_iff[OF wf, of "map fst ps"] False by auto
  have old: "getEntityComponent c j (entered ?m e) = getEntityComponent c j e"
    "om_has (e_components (entered ?m e)) c = om_has (e_components e) c" for c j
    by (simp_all add: getEntityComponent_def getComponent_def entered_def)
  have none: "getEntityComponent c ?i e = None" for c
    using no_fresh_component[OF wf, of c] by (simp add: has_component_get)
  have missing: "map_of (rev ps) c = None" if "c \<notin> fst ` set ps" for c
    using that by (simp add: map_of_eq_None_iff)
  have "om_has (e_entities (entered ?m e)) ?i" by (simp add: entered_def)
  note get = get_add[OF ecs_inv_entered[OF wf] this, of _ _ ps, unfolded old]
  have "getEntityComponent c j (addEntityComponents ?i ps (entered ?m e)) =
      (if j = ?i then (if om_has (e_components e) c then map_of (rev ps) c else None)
       else getEntityComponent c j e)" for c j
    unfolding get using none missing by auto
  moreover have "set (getAllEntities (addEntityComponents ?i ps (entered ?m e))) =
      insert ?i (set (getAllEntities e))"
    by (auto simp: set_getAllEntities entered_def)
  moreover have "?i \<notin> set (getAllEntities e)"
    using fresh_id[OF wf] by (simp add: set_getAllEntities)
  moreover have "e_entitiesID (addEntityComponents ?i ps (entered ?m e)) = ?i + 1"
    by (simp add: entered_def)
  ultimately show ?thesis
    using registerEntity_entered[OF wf False] some by simp
qed

theorem registerEntity_effect_witness:
  "\<exists>i e'. registerEntity [(9, ''hp3''), (11, ''none'')] sample = (i, e') \<and> i \<notin> set (getAllEntities sample) \<and>
    set (getAllEntities e') = insert i (set (getAllEntities sample)) \<and>
    getEntityComponent 9 i e' = Some ''hp3'' \<and> getEntityComponent 11 i e' = None"
proof -
  have "om_has (e_components sample) 9" "\<not> om_has (e_components sample) 11"
    by (simp_all add: sample_types)
  with registerEntity_effect[OF sample_reachable, of "[(9, ''hp3''), (11, ''none'')]"]
  obtain i e' where "registerEntity [(9, ''hp3''), (11, ''none'')] sample = (i, e')"
    "i \<notin> set (getAllEntities sample)" "set (getAllEntities e') = insert i (set (getAllEntities sample))"
    "\<And>c. getEntityComponent c i e' = (if om_has (e_components sample) c
       then map_of (rev [(9, ''hp3''), (11, ''none'')]) c else None)"
    by (auto simp del: rev.simps)
  with \<open>om_has (e_components sample) 9\<close> \<open>\<not> om_has (e_components sample) 11\<close> show ?thesis
    by (intro exI[of _ i] exI[of _ e']) simp
qed

lemma get_destroy:
  assumes wf: "ecs_wf e"
  shows "getEntityComponent c j (destroyEntity i e) = (if j = i then None else getEntityComponent c j e)"
proof (cases "map_of (e_components e) c")
  case None
  then show ?thesis
    by (simp add: getEntityComponent_def getComponent_def destroyEntity_def map_of_destroyed)
next
  case (Some s)
  then have "ss_wf s" by (rule ecs_invD(4)[OF wf])
  with Some show ?thesis
    by (auto simp: getEntityComponent_def getComponent_def destroyEntity_def map_of_destroyed
        ss_has_get ss_remove_correct)
qed

text \<open>\<open>destroyEntity\<close> removes the entity and all its component instances, and nothing else: the
  other entities keep their components, values and masks.\<close>

theorem destroyEntity_effect:
  assumes "ecs_reachable e"
  shows "set (getAllEntities (destroyEntity i e)) = set (getAllEntities e) - {i} \<and>
    getEntityComponent c j (destroyEntity i e) = (if j = i then None else getEntityComponent c j e) \<and>
    (j \<noteq> i \<longrightarrow> getEntityMask j (destroyEntity i e) = getEntityMask j e)"
proof (intro conjI)
  have wf: "ecs_wf e" using assms by (rule ecs_reachable_wf)
  show "set (getAllEntities (destroyEntity i e)) = set (getAllEntities e) - {i}"
    by (auto simp: set_getAllEntities destroyEntity_def)
  show "j \<noteq> i \<longrightarrow> getEntityMask j (destroyEntity i e) = getEntityMask j e"
    by (simp add: getEntityMask_def destroyEntity_def split: option.split)
  show "getEntityComponent c j (destroyEntity i e) = (if j = i then None else getEntityComponent c j e)"
    by (rule get_destroy[OF wf])
qed

theorem destroyEntity_effect_witness:
  "set (getAllEntities (destroyEntity 0 sample)) = set (getAllEntities sample) - {0} \<and>
    getEntityComponent 9 1 (destroyEntity 0 sample) = getEntityComponent 9 1 sample \<and>
    getEntityMask 1 (destroyEntity 0 sample) = getEntityMask 1 sample"
  using destroyEntity_effect[OF sample_reachable, of 0 9 1] by simp

section \<open>Updating\<close>

lemma get_updateComponent:
  assumes "ecs_wf e"
  shows "fst (updateEntityComponent i d v e) = (getEntityComponent d i e \<noteq> None)"
    and "getEntityComponent c j (snd (updateEntityComponent i d v e)) =
      (if j = i \<and> c = d \<and> getEntityComponent d i e \<noteq> None then Some v else getEntityComponent c j e)"
proof -
  have *: "fst (updateEntityComponent i d v e) = (getEntityComponent d i e \<noteq> None) \<and>
    getEntityComponent c j (snd (updateEntityComponent i d v e)) =
      (if j = i \<and> c = d \<and> getEntityComponent d i e \<noteq> None then Some v else getEntityComponent c j e)"
  proof (cases "map_of (e_components e) d")
    case None
    then show ?thesis
      by (simp add: updateEntityComponent_def getEntityComponent_def getComponent_def)
  next
    case (Some s)
    then have "ss_wf s" by (rule ecs_invD(4)[OF assms])
    with Some show ?thesis
      by (auto simp: updateEntityComponent_def getEntityComponent_def getComponent_def ss_has_get
          ss_put_correct)
  qed
  then show "fst (updateEntityComponent i d v e) = (getEntityComponent d i e \<noteq> None)" by simp
  from * show "getEntityComponent c j (snd (updateEntityComponent i d v e)) =
      (if j = i \<and> c = d \<and> getEntityComponent d i e \<noteq> None then Some v else getEntityComponent c j e)"
    by simp
qed

lemma updateComponent_frame:
  "e_entities (snd (updateEntityComponent i d v e)) = e_entities e"
  by (simp add: updateEntityComponent_def split: option.split)

lemma updateEntity_frame: "e_entities (snd (updateEntity i ps e)) = e_entities e"
  by (induction ps arbitrary: e) (simp_all add: updateComponent_frame case_prod_beta)

text \<open>The part of the pack before the first component that the entity lacks.\<close>

definition accepted_part :: "nat \<Rightarrow> ('c, 's) ecs \<Rightarrow> (nat \<times> 'c) list \<Rightarrow> (nat \<times> 'c) list" where
  "accepted_part i e ps = takeWhile (\<lambda>p. getEntityComponent (fst p) i e \<noteq> None) ps"

lemma updateEntity_step:
  assumes "ecs_wf e"
  shows "(fst (updateEntity i ps e) \<longleftrightarrow> (\<forall>p \<in> set ps. getEntityComponent (fst p) i e \<noteq> None)) \<and>
    getEntityComponent c j (snd (updateEntity i ps e)) =
      (if j = i \<and> c \<in> fst ` set (accepted_part i e ps) then map_of (rev (accepted_part i e ps)) c
       else getEntityComponent c j e)"
  using assms
proof (induction ps arbitrary: e)
  case Nil
  then show ?case by (simp add: accepted_part_def)
next
  case (Cons p ps)
  let ?u = "updateEntityComponent i (fst p) (snd p) e"
  note get = get_updateComponent[OF Cons.prems, where i = i and d = "fst p" and v = "snd p"]
  show ?case
  proof (cases "getEntityComponent (fst p) i e = None")
    case True
    then show ?thesis using get(1) get(2)[of c j] by (simp add: case_prod_beta accepted_part_def)
  next
    case False
    let ?e = "snd ?u" and ?qs = "accepted_part i e ps"
    have wf: "ecs_wf ?e" using Cons.prems by (rule ecs_wf_updateComponent)
    have same: "(getEntityComponent d i ?e = None) = (getEntityComponent d i e = None)" for d
      using get(2)[of d i] False by simp
    have acc: "accepted_part i ?e ps = ?qs" "accepted_part i e (p # ps) = p # ?qs"
      using same False by (simp_all add: accepted_part_def)
    have eq: "updateEntity i (p # ps) e = updateEntity i ps ?e"
      using get(1) False by (simp add: case_prod_beta)
    show ?thesis
      using Cons.IH[OF wf] get(2)[of c j] False same map_of_rev_Cons[of p ?qs c]
      unfolding eq acc by (auto simp del: rev.simps)
  qed
qed

text \<open>\<open>updateEntity\<close> answers whether the entity has every component of the pack; it writes the
  components of the pack up to the first one that the entity lacks (an update that fails is not
  undone), and changes no other instance, no mask and no entity.\<close>

theorem updateEntity_effect:
  assumes "ecs_reachable e"
  shows "(fst (updateEntity i ps e) = list_all (\<lambda>p. getEntityComponent (fst p) i e \<noteq> None) ps) \<and>
    getEntityComponent c j (snd (updateEntity i ps e)) =
      (if j = i \<and> c \<in> fst ` set (accepted_part i e ps) then map_of (rev (accepted_part i e ps)) c
       else getEntityComponent c j e) \<and>
    e_entities (snd (updateEntity i ps e)) = e_entities e"
  using updateEntity_step[OF ecs_reachable_wf[OF assms], of i ps c j]
  by (simp add: list_all_iff updateEntity_frame)

theorem updateEntity_effect_witness:
  "fst (updateEntity 1 [(9, ''x''), (7, ''y'')] sample) =
     list_all (\<lambda>p. getEntityComponent (fst p) 1 sample \<noteq> None) [(9, ''x''), (7, ''y'')] \<and>
   e_entities (snd (updateEntity 1 [(9, ''x''), (7, ''y'')] sample)) = e_entities sample"
  using updateEntity_effect[OF sample_reachable, of 1 "[(9, ''x''), (7, ''y'')]"] by simp

section \<open>Groups and identifiers\<close>

lemma ref_instance:
  assumes "map_of (e_components e) c = Some s" and "ss_ref s i = Some k"
  shows "getEntityComponent c i e = Some (ss_dense s ! k)"
  using assms by (simp add: getEntityComponent_def getComponent_def ss_get_slot ss_ref_slot)

lemma ecs_group_facts:
  assumes "ecs_wf e" and "cids \<noteq> []"
  shows "distinct (group_getEntities (ecs_group cids e)) \<and>
    set (group_getEntities (ecs_group cids e)) = {i. \<forall>c \<in> set cids. getEntityComponent c i e \<noteq> None} \<and>
    (\<forall>t < length cids. \<forall>i \<in> set (group_getEntities (ecs_group cids e)).
       \<exists>k. group_getEntity t (ecs_group cids e) i = Some k \<and>
         getEntityComponent (cids ! t) i e = Some (ss_dense (the (getComponent (cids ! t) e)) ! k))"
proof -
  note wf = assms(1)
  let ?sets = "map (\<lambda>c. getComponent c e) cids"
  have "\<forall>s. Some s \<in> set ?sets \<longrightarrow> ss_wf s"
    using ecs_invD(4)[OF wf] by (force simp: getComponent_def)
  note group = group_is_intersection[of ?sets, OF _ this, folded ecs_group_def]
  have all: "in_all ?sets i \<longleftrightarrow> (\<forall>c \<in> set cids. getEntityComponent c i e \<noteq> None)" for i
    by (simp add: in_all_def has_component_get[symmetric] has_component_def getComponent_def
        del: not_None_eq)
  have "\<exists>k. ss_ref (the (?sets ! t)) i = Some k \<and>
      getEntityComponent (cids ! t) i e = Some (ss_dense (the (getComponent (cids ! t) e)) ! k)"
    if "t < length cids" "in_all ?sets i" for t i
  proof -
    have "getEntityComponent (cids ! t) i e \<noteq> None" using that all by simp
    then obtain s where s: "map_of (e_components e) (cids ! t) = Some s" "ss_get s i \<noteq> None"
      by (auto simp: getEntityComponent_def getComponent_def split: option.splits)
    then obtain k where "ss_ref s i = Some k" by (auto simp: ss_get_slot ss_ref_slot)
    with s that show ?thesis using ref_instance[OF s(1)] by (simp add: getComponent_def)
  qed
  with group assms(2) show ?thesis by (simp add: all)
qed

text \<open>C23: a group of the store holds, once each, exactly the entities that have all the components
  of the pack, and its references give the instances that \<open>getEntityComponent\<close> gives.\<close>

theorem ecs_group_exact:
  assumes "ecs_reachable e" and "cids \<noteq> []"
  shows "distinct (group_getEntities (ecs_group cids e)) \<and>
    set (group_getEntities (ecs_group cids e)) = {i. \<forall>c \<in> set cids. getEntityComponent c i e \<noteq> None} \<and>
    (\<forall>t < length cids. \<forall>i \<in> set (group_getEntities (ecs_group cids e)).
       \<exists>k. group_getEntity t (ecs_group cids e) i = Some k \<and>
         getEntityComponent (cids ! t) i e = Some (ss_dense (the (getComponent (cids ! t) e)) ! k))"
  using ecs_reachable_wf[OF assms(1)] assms(2) by (rule ecs_group_facts)

theorem ecs_group_exact_witness:
  "set (group_getEntities (ecs_group [9, 7] sample)) = {i. \<forall>c \<in> set [9, 7]. getEntityComponent c i sample \<noteq> None}"
  using ecs_group_exact[OF sample_reachable, of "[9, 7]"] by simp

lemma insert_ID: "e_entitiesID (addEntityComponents i ps e) = e_entitiesID e"
  by simp

lemma registers_ID: "e_entitiesID (registerComponents cids e) = e_entitiesID e"
  by (induction cids rule: rev_induct) (simp_all add: registers_snoc registerComponent_def Let_def,
      simp add: registerComponents_def)

lemma update_ID: "e_entitiesID (snd (updateEntity i ps e)) = e_entitiesID e"
proof (induction ps arbitrary: e)
  case (Cons p ps)
  have "e_entitiesID (snd (updateEntityComponent i (fst p) (snd p) e)) = e_entitiesID e"
    by (simp add: updateEntityComponent_def split: option.split)
  with Cons show ?case by (simp add: case_prod_beta)
qed simp

lemma ID_registerEntity:
  "e_entitiesID (snd (registerEntity ps e)) =
     (if bs_none (getComponentMask (map fst ps) e) then e_entitiesID e else e_entitiesID e + 1)"
  by (simp add: registerEntity_def Let_def)

lemma ID_mono: "e_entitiesID e \<le> e_entitiesID (perform c e)"
  by (cases c) (simp_all add: registers_ID update_ID ID_registerEntity preRegisterEntity_def Let_def
      destroyEntity_def registerSystem_def)

lemma ID_mono_fold: "e_entitiesID e \<le> e_entitiesID (fold perform cs e)"
proof (induction cs arbitrary: e)
  case (Cons c cs)
  then show ?case using ID_mono[of e c] order_trans by fastforce
qed simp

text \<open>An identifier that \<open>registerEntity\<close> has returned is never given to another entity, also after
  the entity is destroyed, whatever calls come between (identifiers are unbounded here: the code
  counts them in 64 bits).\<close>

theorem identifiers_unique:
  assumes "fst (registerEntity ps e) \<noteq> NullEntityID"
  shows "fst (registerEntity qs (fold perform cs (snd (registerEntity ps e)))) \<noteq> fst (registerEntity ps e)"
proof -
  let ?e = "fold perform cs (snd (registerEntity ps e))"
  have i: "fst (registerEntity ps e) = e_entitiesID e" "\<not> bs_none (getComponentMask (map fst ps) e)"
    using assms by (auto simp: registerEntity_def Let_def split: if_splits)
  then have "e_entitiesID e < e_entitiesID ?e"
    using ID_mono_fold[of "snd (registerEntity ps e)" cs] by (simp add: ID_registerEntity)
  with i(1) assms show ?thesis by (auto simp: registerEntity_def Let_def)
qed

theorem identifiers_unique_witness:
  "fst (registerEntity [(7, ''new'')] (fold perform [Call_destroyEntity 2]
     (snd (registerEntity [(9, ''old'')] sample)))) \<noteq> fst (registerEntity [(9, ''old'')] sample)"
proof (rule identifiers_unique)
  have "om_has (e_components sample) 9" by (simp add: sample_types)
  moreover have "e_entitiesID sample \<le> 2"
    by (simp add: sample_def sample_calls_def ID_registerEntity registers_ID) (simp add: new_ecs_def)
  ultimately show "fst (registerEntity [(9, ''old'')] sample) \<noteq> NullEntityID"
    using mask_none_iff[OF ecs_reachable_wf[OF sample_reachable], of "[9]"]
    by (simp add: registerEntity_def Let_def NullEntityID_def)
qed

end
