(* ===== verification/Engine.thy ===== *)
theory Engine
  imports GameComponents EcsCalls
begin

text \<open>
  The class \<open>GameEngine\<close> (\<^verbatim>\<open>lib/rteng/include/rteng.hpp\<close>, \<^verbatim>\<open>lib/rteng/src/rteng.cpp\<close>), which
  wraps the entity store, and the \<open>Factory\<close> of \<^verbatim>\<open>common/components/factory.hpp\<close>, which rebuilds
  an entity from the mask and the bytes that \<open>getEntityInfos\<close> produced on another machine.  A
  reference to a component is its place in the dense vector of its sparse set.
\<close>

section \<open>References to components\<close>

definition ecs_deref :: "nat \<Rightarrow> nat \<Rightarrow> (component, 's) ecs \<Rightarrow> component" where
  "ecs_deref c k e = ss_dense (the (getComponent c e)) ! k"

definition ecs_assign :: "nat \<Rightarrow> nat \<Rightarrow> component \<Rightarrow> (component, 's) ecs \<Rightarrow> (component, 's) ecs" where
  "ecs_assign c k v e =
     (case getComponent c e of
        None \<Rightarrow> e
      | Some s \<Rightarrow> e\<lparr>e_components := om_put c (s\<lparr>ss_dense := (ss_dense s)[k := v]\<rparr>) (e_components e)\<rparr>)"

section \<open>The engine\<close>

record 's engine =
  en_ecs :: "(component, 's) ecs"
  en_gameState :: u64
  en_menuState :: u64

definition new_engine :: "component_type list \<Rightarrow> 's engine" where
  "new_engine ts =
     \<lparr>en_ecs = registerComponents (map cid (ts @ [Behaviour])) new_ecs,
      en_gameState = 0, en_menuState = 0\<rparr>"

definition on_ecs :: "((component, 's) ecs \<Rightarrow> (component, 's) ecs) \<Rightarrow> 's engine \<Rightarrow> 's engine" where
  "on_ecs f en = en\<lparr>en_ecs := f (en_ecs en)\<rparr>"

text \<open>A pack of component values, as the store takes it.\<close>

definition pack :: "component list \<Rightarrow> (nat \<times> component) list" where
  "pack xs = map (\<lambda>x. (cid (type_of x), x)) xs"

definition set_behaviour :: "nat \<Rightarrow> nat list \<Rightarrow> (component, 's) ecs \<Rightarrow> (component, 's) ecs" where
  "set_behaviour behav refs e =
     ecs_assign (cid Behaviour) (hd refs) (C_Behaviour \<lparr>bh_instance = Some behav, bh_started = False\<rparr>) e"

definition engine_registerEntity ::
    "nat option \<Rightarrow> component list \<Rightarrow> 's engine \<Rightarrow> nat \<times> 's engine" where
  "engine_registerEntity mono_behaviour xs en =
     (case registerEntity (pack xs) (en_ecs en) of
        (i, e1) \<Rightarrow>
          (case mono_behaviour of
             None \<Rightarrow> (i, en\<lparr>en_ecs := e1\<rparr>)
           | Some behav \<Rightarrow>
               let e2 = addEntityComponents i (pack [C_Behaviour \<lparr>bh_instance = None, bh_started = False\<rparr>]) e1;
                   behaviourGroup = ecs_group [cid Behaviour] e2
               in (i, en\<lparr>en_ecs := group_apply (\<lambda>_. set_behaviour behav) behaviourGroup e2\<rparr>)))"

definition engine_destroyEntity :: "nat \<Rightarrow> 's engine \<Rightarrow> 's engine" where
  "engine_destroyEntity i = on_ecs (destroyEntity i)"

definition engine_updateEntity :: "nat \<Rightarrow> component list \<Rightarrow> 's engine \<Rightarrow> 's engine" where
  "engine_updateEntity i xs = on_ecs (\<lambda>e. snd (updateEntity i (pack xs) e))"

definition engine_addEntityComponents :: "nat \<Rightarrow> component list \<Rightarrow> 's engine \<Rightarrow> 's engine" where
  "engine_addEntityComponents i xs = on_ecs (addEntityComponents i (pack xs))"

definition engine_registerComponents :: "component_type list \<Rightarrow> 's engine \<Rightarrow> 's engine" where
  "engine_registerComponents ts = on_ecs (registerComponents (map cid ts))"

definition engine_registerSystem :: "'s \<Rightarrow> 's engine \<Rightarrow> 's engine" where
  "engine_registerSystem sys = on_ecs (registerSystem sys)"

text \<open>References: \<open>getEntityFromGroup\<close> over a group of several types, and over one type.\<close>

definition getEntityFromGroup ::
    "component_type \<Rightarrow> component_type list \<Rightarrow> nat \<Rightarrow> (component, 's) ecs \<Rightarrow> nat option" where
  "getEntityFromGroup t ts i e = group_getEntity 0 (ecs_group (map cid (t # ts)) e) i"

definition getEntityWithComponent :: "component_type \<Rightarrow> nat \<Rightarrow> (component, 's) ecs \<Rightarrow> nat option" where
  "getEntityWithComponent t i e = group_getEntity 0 (ecs_group [cid t] e) i"

definition pack_if_present ::
    "nat \<Rightarrow> (component, 's) ecs \<Rightarrow> component_type \<Rightarrow> entity_content \<Rightarrow> entity_content" where
  "pack_if_present i e t c =
     (case getEntityWithComponent t i e of
        None \<Rightarrow> c
      | Some k \<Rightarrow> content_component (ecs_deref (cid t) k e) c)"

definition getEntityInfos :: "component_type list \<Rightarrow> nat \<Rightarrow> 's engine \<Rightarrow> nat list \<times> bytes" where
  "getEntityInfos ts i en =
     (let e = en_ecs en; content = fold (pack_if_present i e) ts \<lparr>ec_buffer = []\<rparr>
      in (serialize (getEntityMask i e), ec_buffer content))"

definition setGameState :: "u64 \<Rightarrow> 's engine \<Rightarrow> 's engine" where
  "setGameState s en = en\<lparr>en_gameState := s\<rparr>"
definition getGameState :: "'s engine \<Rightarrow> u64" where "getGameState en = en_gameState en"
definition setMenuState :: "u64 \<Rightarrow> 's engine \<Rightarrow> 's engine" where
  "setMenuState s en = en\<lparr>en_menuState := s\<rparr>"
definition getMenuState :: "'s engine \<Rightarrow> u64" where "getMenuState en = en_menuState en"

definition clearEcs :: "'s engine \<Rightarrow> nat list \<times> 's engine" where
  "clearEcs en =
     (let ids = getAllEntities (en_ecs en) in (ids, on_ecs (fold destroyEntity ids) en))"

definition removeAllOf :: "component \<Rightarrow> 's engine \<Rightarrow> nat list \<times> 's engine" where
  "removeAllOf x en =
     (let e = en_ecs en; t = type_of x;
          toDestroy = filter (\<lambda>i. case getEntityFromGroup t [] i e of
              None \<Rightarrow> False
            | Some k \<Rightarrow> ecs_deref (cid t) k e = x) (getAllEntities e)
      in (toDestroy, fold engine_destroyEntity toDestroy en))"

text \<open>\<open>starts\<close> and \<open>updates\<close> are the virtual members of a \<open>MonoBehaviour\<close>, \<open>run\<close> is
  \<open>ISystem::apply\<close>.\<close>

definition run_behaviour ::
    "(nat \<Rightarrow> (component, 's) ecs \<Rightarrow> (component, 's) ecs) \<Rightarrow> (nat \<Rightarrow> (component, 's) ecs \<Rightarrow> (component, 's) ecs) \<Rightarrow>
     nat list \<Rightarrow> (component, 's) ecs \<Rightarrow> (component, 's) ecs" where
  "run_behaviour starts updates refs e =
     (case ecs_deref (cid Behaviour) (hd refs) e of
        C_Behaviour b \<Rightarrow>
          (case bh_instance b of
             None \<Rightarrow> e
           | Some behav \<Rightarrow>
               let e1 = (if \<not> bh_started b
                         then ecs_assign (cid Behaviour) (hd refs) (C_Behaviour (b\<lparr>bh_started := True\<rparr>)) (starts behav e)
                         else e)
               in updates behav e1)
      | _ \<Rightarrow> e)"

definition runOnce ::
    "(nat \<Rightarrow> (component, 's) ecs \<Rightarrow> (component, 's) ecs) \<Rightarrow> (nat \<Rightarrow> (component, 's) ecs \<Rightarrow> (component, 's) ecs) \<Rightarrow>
     ('s \<Rightarrow> (component, 's) ecs \<Rightarrow> (component, 's) ecs) \<Rightarrow> 's engine \<Rightarrow> 's engine" where
  "runOnce starts updates run en =
     on_ecs (\<lambda>e. applyAllSystems run
       (group_apply (\<lambda>_. run_behaviour starts updates) (ecs_group [cid Behaviour] e) e)) en"

section \<open>The factory\<close>

record factory = f_creators :: "component_type list"

definition factory_registerComponent :: "component_type \<Rightarrow> factory \<Rightarrow> factory" where
  "factory_registerComponent t f = f\<lparr>f_creators := f_creators f @ [t]\<rparr>"

definition new_factory :: "component_type list \<Rightarrow> factory" where
  "new_factory ts = fold factory_registerComponent ts \<lparr>f_creators = []\<rparr>"

text \<open>A creator: read one component and add it; the exception of the stream passes through.\<close>

definition run_creator ::
    "component_type \<Rightarrow> nat \<Rightarrow> (component, 's) ecs \<Rightarrow> packet \<Rightarrow> rt_error + (component, 's) ecs \<times> packet" where
  "run_creator t i e p =
     (case read_component t p of
        (Inl err, _) \<Rightarrow> Inl err
      | (Inr x, p') \<Rightarrow> Inr (addEntityComponents i (pack [x]) e, p'))"

text \<open>\<open>bitmask[i + 1]\<close> is the subscript of a mask that is not const, so it grows the mask.\<close>

primrec factory_loop ::
    "component_type list \<Rightarrow> nat \<Rightarrow> nat \<Rightarrow> bitset \<Rightarrow> (component, 's) ecs \<Rightarrow> packet \<Rightarrow> rt_error + (component, 's) ecs" where
  "factory_loop [] n i bitmask e p = Inr e"
| "factory_loop (t # ts) n i bitmask e p =
     (let bitmask' = bs_grow (n + 1) bitmask in
      if br_bool (bs_ref (n + 1) bitmask)
      then try_bind (run_creator t i e p) (\<lambda>(e', p'). factory_loop ts (n + 1) i bitmask' e' p')
      else factory_loop ts (n + 1) i bitmask' e p)"

definition factory_apply ::
    "factory \<Rightarrow> (component, 's) ecs \<Rightarrow> nat \<Rightarrow> bitset \<Rightarrow> bytes \<Rightarrow> rt_error + (component, 's) ecs" where
  "factory_apply f e i bitmask data =
     factory_loop (f_creators f) 0 i bitmask e (set_payload data (new_packet 0 kUnreliable 0))"

section \<open>Stores of the game\<close>

text \<open>Calls whose packs put every value under its own type, and the stores that such calls and
  writes through references reach from the constructor of the engine, in the server as it is and
  in the client with the types that only the client registers.\<close>

definition ClientComponents :: "component_type list" where
  "ClientComponents = [Animation, Me, Sound, Sprite, TargetPos, ZIndex]"

definition typed_pack :: "(nat \<times> component) list \<Rightarrow> bool" where
  "typed_pack ps \<longleftrightarrow> (\<forall>p \<in> set ps. fst p = cid (type_of (snd p)))"

primrec typed_call :: "(component, 's) ecs_call \<Rightarrow> bool" where
  "typed_call (Call_registerComponents cids) = False"
| "typed_call (Call_registerEntity ps) = typed_pack ps"
| "typed_call Call_preRegisterEntity = True"
| "typed_call (Call_addEntityComponents i ps) = typed_pack ps"
| "typed_call (Call_updateEntity i ps) = typed_pack ps"
| "typed_call (Call_destroyEntity i) = True"
| "typed_call (Call_registerSystem sys) = True"

inductive game_store :: "(component, 's) ecs \<Rightarrow> bool" where
  constructed: "game_store (en_ecs (new_engine GameComponents))"
| client_constructed: "game_store (registerComponents (map cid ClientComponents) (en_ecs (new_engine GameComponents)))"
| call: "game_store e \<Longrightarrow> typed_call c \<Longrightarrow> game_store (perform c e)"
| write_ref: "game_store e \<Longrightarrow> game_store (ecs_assign (cid (type_of x)) k x e)"

text \<open>Bit \<open>n + 1\<close> is the bit of the \<open>n\<close>-th component type.\<close>

definition game_bits :: "(component, 's) ecs \<Rightarrow> bool" where
  "game_bits e \<longleftrightarrow> (\<forall>n < length GameComponents.
     om_has (e_components e) (cid (GameComponents ! n)) \<and> comp_bits e (cid (GameComponents ! n)) = {Suc n})"

definition typed_store :: "(component, 's) ecs \<Rightarrow> bool" where
  "typed_store e \<longleftrightarrow> (\<forall>c i x. getEntityComponent c i e = Some x \<longrightarrow> c = cid (type_of x))"

subsection \<open>Bits of registered types do not change\<close>

lemma registered_perform:
  assumes "ecs_wf e" and "om_has (e_components e) c"
  shows "om_has (e_components (perform call e)) c \<and> comp_bits (perform call e) c = comp_bits e c"
proof -
  have one: "comp_bits (registerComponent d e') c = comp_bits e' c \<and> om_has (e_components (registerComponent d e')) c"
    if "ecs_wf e'" "om_has (e_components e') c" for d and e' :: "('a, 'b) ecs"
    using wf_masks[OF that(1)] that comp_bits_register has_registered by metis
  have many: "comp_bits (registerComponents ds e) c = comp_bits e c \<and> om_has (e_components (registerComponents ds e)) c" for ds
  proof (induction ds rule: rev_induct)
    case Nil
    then show ?case using assms by (simp add: registerComponents_def)
  next
    case (snoc d ds)
    then show ?case using one[OF ecs_wf_registers[OF assms(1)], of ds d] by (simp add: registers_snoc)
  qed
  have upd: "comp_bits (snd (updateEntity i ps e)) c = comp_bits e c \<and>
      om_has (e_components (snd (updateEntity i ps e))) c = om_has (e_components e) c" for i ps
  proof (induction ps arbitrary: e)
    case (Cons p ps)
    have "comp_bits (snd (updateEntityComponent i (fst p) (snd p) e)) c = comp_bits e c \<and>
      om_has (e_components (snd (updateEntityComponent i (fst p) (snd p) e))) c = om_has (e_components e) c"
      by (auto simp: updateEntityComponent_def getComponent_def comp_bits_def om_has_def split: option.split)
    with Cons show ?case by (simp add: case_prod_beta)
  qed simp
  have frames: "comp_bits (e'\<lparr>e_systems := x\<rparr>) c = comp_bits e' c"
    "comp_bits (snd (registerEntity ps e)) c = comp_bits e c" for e' :: "('a, 'b) ecs" and x ps
    by (simp_all add: registerEntity_def Let_def) (simp add: comp_bits_def)
  show ?thesis
  proof (cases call)
    case (Call_destroyEntity i)
    with assms(2) show ?thesis
      by (simp add: destroyEntity_def comp_bits_def om_has_def map_of_destroyed)
  qed (use assms(2) many upd in \<open>simp_all add: preRegisterEntity_def Let_def registerSystem_def frames\<close>)
qed

subsection \<open>Values are under their own type\<close>

lemma typed_packD: "typed_pack ps \<Longrightarrow> map_of (rev ps) c = Some x \<Longrightarrow> c = cid (type_of x)"
  using map_of_SomeD[of "rev ps" c x] by (auto simp: typed_pack_def)

lemma typed_part: "typed_pack ps \<Longrightarrow> typed_pack (accepted_part i e ps)"
  by (auto simp: typed_pack_def accepted_part_def dest: set_takeWhileD)

lemma get_registers [simp]: "getEntityComponent c i (registerComponents cids e) = getEntityComponent c i e"
proof (induction cids rule: rev_induct)
  case (snoc d cids)
  have "getEntityComponent c i (registerComponent d e') = getEntityComponent c i e'" for e' :: "('a, 'b) ecs"
    by (auto simp: registerComponent_def Let_def getEntityComponent_def getComponent_def om_has_def
        ss_get_slot new_sparse_set_def slot_def)
  with snoc show ?case by (simp add: registers_snoc)
qed (simp add: registerComponents_def)

lemma get_frames [simp]:
  "getEntityComponent c i (registerSystem sys e) = getEntityComponent c i e"
  "getEntityComponent c i (snd (preRegisterEntity e)) = getEntityComponent c i e"
  "getEntityComponent c i (entered m e) = getEntityComponent c i e"
  by (simp_all add: getEntityComponent_def getComponent_def registerSystem_def preRegisterEntity_def
      Let_def entered_def)

lemma get_registerEntity:
  assumes "ecs_wf e"
  shows "getEntityComponent c j (snd (registerEntity ps e)) =
    (if j = e_entitiesID e \<and> om_has (e_components e) c \<and> c \<in> fst ` set ps then map_of (rev ps) c
     else getEntityComponent c j e)"
proof (cases "bs_none (getComponentMask (map fst ps) e)")
  case True
  then have "\<not> (om_has (e_components e) c \<and> c \<in> fst ` set ps)"
    using mask_none_iff[OF assms, of "map fst ps"] by auto
  then show ?thesis using True by (auto simp: registerEntity_def)
next
  case False
  let ?m = "getComponentMask (map fst ps) e"
  have "om_has (e_entities (entered ?m e)) (e_entitiesID e)" by (simp add: entered_def)
  note get_add[OF ecs_inv_entered[OF assms] this, of c j ps]
  moreover have "om_has (e_components (entered ?m e)) c = om_has (e_components e) c" by (simp add: entered_def)
  ultimately show ?thesis by (simp add: registerEntity_entered[OF assms False])
qed

lemma get_addEntity:
  assumes "ecs_wf e"
  shows "getEntityComponent c j (addEntityComponents i ps e) =
    (if om_has (e_entities e) i \<and> j = i \<and> om_has (e_components e) c \<and> c \<in> fst ` set ps
     then map_of (rev ps) c else getEntityComponent c j e)"
proof (cases "om_has (e_entities e) i")
  case False
  then have "insertComponentInstance i d v e = e" for d v
    by (simp add: insertComponentInstance_def om_has_def)
  then have "addEntityComponents i ps e = e"
    unfolding addEntityComponents_def by (induction ps) auto
  with False show ?thesis by simp
qed (simp add: get_add[OF assms])

lemma typed_perform:
  assumes "ecs_wf e" and "typed_store e" and "typed_call call"
  shows "typed_store (perform call e)"
proof -
  have "c = cid (type_of x)" if get: "getEntityComponent c j (perform call e) = Some x" for c j x
  proof -
    have old: "getEntityComponent c j e = Some x \<Longrightarrow> c = cid (type_of x)"
      using assms(2) by (simp add: typed_store_def)
    show ?thesis
    proof (cases call)
      case (Call_registerEntity ps)
      with get assms old show ?thesis
        by (auto simp: get_registerEntity dest: typed_packD split: if_splits)
    next
      case (Call_addEntityComponents i ps)
      with get assms old show ?thesis
        by (auto simp: get_addEntity dest: typed_packD split: if_splits)
    next
      case (Call_updateEntity i ps)
      with get assms old typed_part[of ps i e] updateEntity_step[OF assms(1), of i ps c j] show ?thesis
        by (auto dest: typed_packD split: if_splits)
    next
      case (Call_destroyEntity i)
      with get assms(1) old show ?thesis by (simp add: get_destroy split: if_splits)
    qed (use get old in simp_all)
  qed
  then show ?thesis by (simp add: typed_store_def)
qed

subsection \<open>Writes through references\<close>

lemma ss_wf_dense: "ss_wf s \<Longrightarrow> ss_wf (s\<lparr>ss_dense := (ss_dense s)[k := v]\<rparr>)"
  by (simp add: ss_wf_def)

lemma get_assign:
  assumes "ecs_wf e"
  shows "getEntityComponent c j (ecs_assign d k v e) =
    (if c = d \<and> (\<exists>s. getComponent d e = Some s \<and> ss_ref s j = Some k) then Some v else getEntityComponent c j e)"
proof (cases "getComponent d e")
  case None
  then show ?thesis by (simp add: ecs_assign_def)
next
  case (Some s)
  then have wf: "ss_wf s" using ecs_invD(4)[OF assms] by (simp add: getComponent_def)
  have "ss_get (s\<lparr>ss_dense := (ss_dense s)[k := v]\<rparr>) j = (if ss_ref s j = Some k then Some v else ss_get s j)"
    using slot_bound[OF wf, of j] ss_wfD(2)[OF wf]
    by (cases "slot (ss_pages s) j") (auto simp: ss_get_slot ss_ref_slot)
  with Some show ?thesis
    by (simp add: ecs_assign_def getEntityComponent_def getComponent_def)
qed

lemma has_assign: "ecs_wf e \<Longrightarrow> has_component (ecs_assign d k v e) i c = has_component e i c"
proof (cases "getComponent d e")
  case (Some s)
  then show ?thesis
    by (auto simp: ecs_assign_def has_component_def getComponent_def ss_has_slot)
qed (simp add: ecs_assign_def)

lemma ecs_wf_assign:
  assumes "ecs_wf e"
  shows "ecs_wf (ecs_assign d k v e)"
proof (cases "getComponent d e")
  case None
  then show ?thesis using assms by (simp add: ecs_assign_def)
next
  case (Some s)
  let ?e = "ecs_assign d k v e"
  note wf = ecs_invD[OF assms] and has = has_assign[OF assms, of d k v]
  have e: "?e = e\<lparr>e_components := om_put d (s\<lparr>ss_dense := (ss_dense s)[k := v]\<rparr>) (e_components e)\<rparr>"
    using Some by (simp add: ecs_assign_def)
  have s: "map_of (e_components e) d = Some s" using Some by (simp add: getComponent_def)
  have bits: "bits_of ?e j = bits_of e j" for j
    by (rule bits_of_cong, rule has) (simp add: e)
  have "masks_wf ?e = masks_wf e"
    by (rule masks_wf_cong) (use s in \<open>auto simp: e om_has_def\<close>)
  then show ?thesis
  proof (intro ecs_invI)
    show "ss_wf t" if "map_of (e_components ?e) c = Some t" for c t
      using that ss_wf_dense[OF wf(4)[OF s]] wf(4)[of c t] by (auto simp: e split: if_splits)
    show "om_has (e_entities ?e) j" if "has_component ?e j c" for j c
      using that wf(5)[of j c] unfolding has by (simp add: e)
    show "indexes m = {} \<union> bits_of ?e j" if "map_of (e_entities ?e) j = Some m" for j m
      unfolding bits using that wf(7)[of j m] by (simp add: e)
  qed (use wf in \<open>simp_all add: e\<close>)
qed

subsection \<open>The invariant of the stores of the game\<close>

lemma comp_bits_assign [simp]: "comp_bits (ecs_assign d k v e) c = comp_bits e c"
  by (simp add: ecs_assign_def split: option.split)

lemma registered_assign: "om_has (e_components e) c \<Longrightarrow> om_has (e_components (ecs_assign d k v e)) c"
  by (simp add: ecs_assign_def split: option.split)

lemma game_ids_distinct: "distinct (map cid (GameComponents @ [Behaviour]))"
  by (simp add: GameComponents_def)

lemma distinct_nth_take: "distinct xs \<Longrightarrow> n < length xs \<Longrightarrow> xs ! n \<notin> set (take n xs)"
  by (auto simp: distinct_conv_nth in_set_conv_nth)

lemma game_bits_new: "game_bits (en_ecs (new_engine GameComponents :: 's engine))"
  unfolding game_bits_def
proof (intro allI impI conjI)
  fix n assume n: "n < length GameComponents"
  let ?cs = "map cid (GameComponents @ [Behaviour])"
  have "?cs ! n = cid (GameComponents ! n)" using n by (simp add: nth_append)
  moreover have "n < length ?cs" using n by simp
  note distinct_nth_take[OF game_ids_distinct this]
  ultimately show "comp_bits (en_ecs (new_engine GameComponents :: 's engine)) (cid (GameComponents ! n)) = {Suc n}"
    using bits_registers[of n ?cs] n by (simp add: new_engine_def)
  show "om_has (e_components (en_ecs (new_engine GameComponents :: 's engine))) (cid (GameComponents ! n))"
    using n by (simp add: new_engine_def has_registers)
qed

lemma get_new_ecs [simp]: "getEntityComponent c i new_ecs = None"
  by (simp add: getEntityComponent_def getComponent_def new_ecs_def)

lemma game_store_inv: "game_store e \<Longrightarrow> ecs_wf e \<and> game_bits e \<and> typed_store e"
proof (induction rule: game_store.induct)
  case constructed
  have "ecs_wf (en_ecs (new_engine GameComponents :: 'a engine))"
    by (simp add: new_engine_def ecs_wf_registers ecs_wf_new)
  moreover have "typed_store (en_ecs (new_engine GameComponents :: 'a engine))"
    by (simp add: typed_store_def new_engine_def)
  ultimately show ?case using game_bits_new by blast
next
  case client_constructed
  let ?e = "en_ecs (new_engine GameComponents :: 'a engine)" and ?cs = "map cid ClientComponents"
  have wf: "ecs_wf ?e" by (simp add: new_engine_def ecs_wf_registers ecs_wf_new)
  then have "game_bits (registerComponents ?cs ?e)"
    using game_bits_new registered_perform[OF wf, of _ "Call_registerComponents ?cs"] unfolding game_bits_def by auto
  moreover have "typed_store (registerComponents ?cs ?e)" by (simp add: typed_store_def new_engine_def)
  ultimately show ?case using wf by (simp add: ecs_wf_registers)
next
  case (call e c)
  then have "game_bits (perform c e)"
    using registered_perform[of e] by (simp add: game_bits_def)
  with call show ?case by (simp add: ecs_wf_call typed_perform)
next
  case (write_ref e x k)
  then have "game_bits (ecs_assign (cid (type_of x)) k x e)"
    by (simp add: game_bits_def registered_assign)
  moreover have "typed_store (ecs_assign (cid (type_of x)) k x e)"
    using write_ref by (auto simp: typed_store_def get_assign split: if_splits)
  ultimately show ?case using write_ref by (simp add: ecs_wf_assign)
qed

text \<open>No store of the game uses more than 64 bits of a mask.\<close>

lemma client_constructed_registers:
  "registerComponents (map cid ClientComponents) (en_ecs (new_engine GameComponents)) =
    registerComponents (map cid (GameComponents @ [Behaviour] @ ClientComponents)) new_ecs"
  by (simp add: new_engine_def registerComponents_def)

lemma constructed_bits:
  assumes "distinct (map cid ts)" and "length ts < 63" and "om_has (e_components (registerComponents (map cid ts) (new_ecs :: ('c, 's) ecs))) c"
  shows "comp_bits (registerComponents (map cid ts) (new_ecs :: ('c, 's) ecs)) c \<subseteq> {..<64}"
proof -
  have "\<not> om_has (e_components (new_ecs :: ('c, 's) ecs)) c" by (simp add: new_ecs_def)
  then have "c \<in> set (map cid ts)" using assms(3) has_registers[of "map cid ts" "new_ecs :: ('c, 's) ecs" c] by simp
  then obtain n where n: "n < length (map cid ts)" "c = map cid ts ! n" by (metis in_set_conv_nth)
  have "map cid ts ! n \<notin> set (take n (map cid ts))" using distinct_nth_take[OF assms(1) n(1)] .
  note bits_registers[OF n(1) this]
  then have "comp_bits (registerComponents (map cid ts) (new_ecs :: ('c, 's) ecs)) c = {Suc n}" unfolding n(2) .
  with n(1) assms(2) show ?thesis by simp
qed

lemma registered_updates: "om_has (e_components (snd (updateEntity i ps e))) c = om_has (e_components e) c"
proof (induction ps arbitrary: e)
  case (Cons p ps)
  have "om_has (e_components (snd (updateEntityComponent i (fst p) (snd p) e))) c = om_has (e_components e) c"
    by (auto simp: updateEntityComponent_def getComponent_def om_has_def split: option.split)
  with Cons show ?case by (simp add: case_prod_beta)
qed simp

lemma game_store_small: "game_store e \<Longrightarrow> om_has (e_components e) c \<Longrightarrow> comp_bits e c \<subseteq> {..<64}"
proof (induction rule: game_store.induct)
  case constructed
  then show ?case
    using constructed_bits[of "GameComponents @ [Behaviour]" c] by (simp add: new_engine_def GameComponents_def)
next
  case client_constructed
  then show ?case
    using constructed_bits[of "GameComponents @ [Behaviour] @ ClientComponents" c]
    unfolding client_constructed_registers by (simp add: GameComponents_def ClientComponents_def)
next
  case (call e d)
  have "om_has (e_components e) c" using call.prems call.hyps(2)
  proof (cases d)
    case (Call_destroyEntity i)
    with call.prems show ?thesis by (auto simp: destroyEntity_def om_has_def map_of_destroyed)
  qed (simp_all add: preRegisterEntity_def Let_def registerSystem_def registered_updates)
  with call registered_perform[of e c d] game_store_inv[OF call.hyps(1)] show ?case by auto
next
  case (write_ref e x k)
  then have "om_has (e_components e) c"
    by (auto simp: ecs_assign_def getComponent_def om_has_def split: option.splits if_splits)
  with write_ref show ?case by simp
qed

section \<open>An entity as it travels\<close>

lemma lookup_value:
  assumes "ecs_wf e"
  shows "(case getEntityWithComponent t i e of None \<Rightarrow> None | Some k \<Rightarrow> Some (ecs_deref (cid t) k e)) =
    getEntityComponent (cid t) i e"
proof -
  have keys: "group_getEntities g = view_getKeys (hd g)" for g by (simp add: group_getEntities_def)
  note group = ecs_group_facts[OF assms, of "[cid t]"]
  show ?thesis
  proof (cases "getEntityComponent (cid t) i e")
    case None
    have "getComponent (cid t) e = None \<or> (\<exists>s. getComponent (cid t) e = Some s \<and> ss_wf s)"
      using ecs_invD(4)[OF assms] by (auto simp: getComponent_def)
    then have "getEntityWithComponent t i e = None"
    proof
      assume "getComponent (cid t) e = None"
      then show ?thesis
        by (simp add: getEntityWithComponent_def ecs_group_def make_group_def driver_def
            group_getEntity_def view_at_def new_view_def)
    next
      assume "\<exists>s. getComponent (cid t) e = Some s \<and> ss_wf s"
      then obtain s where s: "getComponent (cid t) e = Some s" "ss_wf s" by blast
      obtain js where js: "make_group (map Some [s]) = map (\<lambda>s. view_of (refs_of s js)) [s]" "distinct js"
        "set js = {i. in_all (map Some [s]) i}"
        using group_shape[of "[s]"] s(2) by auto
      have "i \<notin> set js" using None s(1) js(3) by (simp add: in_all_def ss_has_get getEntityComponent_def)
      then have "i \<notin> fst ` set (refs_of s js)" by (metis fst_refs_of image_set)
      with js(1,2) s(1) show ?thesis
        by (simp add: getEntityWithComponent_def ecs_group_def group_getEntity_def view_of_at map_of_eq_None_iff)
    qed
    with None show ?thesis by simp
  next
    case (Some x)
    with group have "i \<in> set (group_getEntities (ecs_group [cid t] e))" by simp
    with group obtain k where "group_getEntity 0 (ecs_group [cid t] e) i = Some k"
      "getEntityComponent (cid t) i e = Some (ss_dense (the (getComponent (cid t) e)) ! k)" by auto
    then show ?thesis by (simp add: getEntityWithComponent_def ecs_deref_def)
  qed
qed

definition bytes_of :: "component option \<Rightarrow> bytes" where
  "bytes_of x = (case x of None \<Rightarrow> [] | Some v \<Rightarrow> component_bytes v)"

lemma pack_if_present_value:
  assumes "ecs_wf e"
  shows "pack_if_present i e t c = content_append (bytes_of (getEntityComponent (cid t) i e)) c"
  unfolding lookup_value[OF assms, symmetric]
  by (simp add: pack_if_present_def bytes_of_def content_component_bytes content_append_def split: option.split)

lemma content_value:
  assumes "ecs_wf e"
  shows "ec_buffer (fold (pack_if_present i e) ts c) =
    ec_buffer c @ concat (map (\<lambda>t. bytes_of (getEntityComponent (cid t) i e)) ts)"
  by (induction ts arbitrary: c) (simp_all add: pack_if_present_value[OF assms] content_append_def)

lemma mask_bit_value:
  assumes "game_store e" and "n < length GameComponents"
  shows "Suc n \<in> indexes (getEntityMask i e) \<longleftrightarrow> getEntityComponent (cid (GameComponents ! n)) i e \<noteq> None"
proof -
  have inv: "ecs_wf e" "game_bits e" using game_store_inv[OF assms(1)] by auto
  let ?c = "cid (GameComponents ! n)"
  have "om_has (e_components e) ?c" "comp_bits e ?c = {Suc n}"
    using inv(2) assms(2) by (simp_all add: game_bits_def)
  then show ?thesis
    using bit_of_component[OF inv(1), of ?c i] has_component_get[of e i ?c]
    by (simp add: mask_bits[OF inv(1)])
qed

lemma br_bool_ref: "br_bool (bs_ref i b) = bs_test b i"
proof -
  have "raw_bit (bs_grow i b) i = bs_test (bs_grow i b) i"
  proof (rule raw_bit_test)
    show "i < bs_capacity (bs_grow i b)"
      by (simp add: bs_grow_def bs_capacity_def) presburger
  qed
  then show ?thesis by (simp add: br_bool_def bs_ref_def raw_bit_def)
qed

lemma type_of_received [simp]: "type_of (as_received x) = type_of x"
  by (cases x) simp_all

lemma run_creator_ok:
  assumes "ecs_wf e" and "om_has (e_entities e) i" and "om_has (e_components e) (cid (type_of x))"
    and "type_of x \<in> set GameComponents" and "unread p = component_bytes x @ rest"
  shows "\<exists>e'. run_creator (type_of x) i e p = Inr (e', advance (length (component_bytes x)) p) \<and> ecs_wf e' \<and>
    (\<forall>j. om_has (e_entities e') j = om_has (e_entities e) j) \<and>
    (\<forall>c. om_has (e_components e') c = om_has (e_components e) c) \<and>
    (\<forall>c j. getEntityComponent c j e' =
      (if j = i \<and> c = cid (type_of x) then Some (as_received x) else getEntityComponent c j e))"
proof -
  let ?e = "addEntityComponents i (pack [as_received x]) e"
  have "run_creator (type_of x) i e p = Inr (?e, advance (length (component_bytes x)) p)"
    using read_component_received[OF assms(4,5)] by (simp add: run_creator_def)
  moreover have "ecs_wf ?e" using assms(1) by (rule ecs_inv_add)
  moreover have "getEntityComponent c j ?e =
      (if j = i \<and> c = cid (type_of x) then Some (as_received x) else getEntityComponent c j e)" for c j
    using get_add[OF assms(1,2), of c j "pack [as_received x]"] assms(3) by (simp add: pack_def)
  ultimately show ?thesis by simp
qed

lemma factory_loop_ok:
  assumes "ecs_wf e" and "om_has (e_entities e) i" and "\<forall>t \<in> set ts. om_has (e_components e) (cid t)"
    and "set ts \<subseteq> set GameComponents" and "distinct ts"
    and "\<forall>m < length ts. bs_test b (Suc (n + m)) \<longleftrightarrow> vals (ts ! m) \<noteq> None"
    and "\<forall>t \<in> set ts. \<forall>x. vals t = Some x \<longrightarrow> type_of x = t"
    and "unread p = concat (map (\<lambda>t. bytes_of (vals t)) ts)"
  shows "\<exists>e'. factory_loop ts n i b e p = Inr e' \<and> ecs_wf e' \<and>
    (\<forall>t \<in> set ts. getEntityComponent (cid t) i e' =
      (case vals t of None \<Rightarrow> getEntityComponent (cid t) i e | Some x \<Rightarrow> Some (as_received x))) \<and>
    (\<forall>c j. j \<noteq> i \<or> c \<notin> cid ` set ts \<longrightarrow> getEntityComponent c j e' = getEntityComponent c j e)"
  using assms
proof (induction ts arbitrary: n b e p)
  case Nil
  then show ?case by simp
next
  case (Cons t ts)
  have here: "bs_test b (Suc n) \<longleftrightarrow> vals t \<noteq> None" using Cons.prems(6) by auto
  have bits: "\<forall>m < length ts. bs_test (bs_grow (Suc n) b) (Suc (Suc n + m)) \<longleftrightarrow> vals (ts ! m) \<noteq> None"
    using Cons.prems(6) by auto
  show ?case
  proof (cases "vals t")
    case None
    have "\<exists>e'. factory_loop ts (Suc n) i (bs_grow (Suc n) b) e p = Inr e' \<and> ecs_wf e' \<and>
        (\<forall>t \<in> set ts. getEntityComponent (cid t) i e' =
          (case vals t of None \<Rightarrow> getEntityComponent (cid t) i e | Some x \<Rightarrow> Some (as_received x))) \<and>
        (\<forall>c j. j \<noteq> i \<or> c \<notin> cid ` set ts \<longrightarrow> getEntityComponent c j e' = getEntityComponent c j e)"
      using Cons.prems None by (intro Cons.IH[OF _ _ _ _ _ bits]) (simp_all add: bytes_of_def)
    then obtain e' where e': "factory_loop ts (Suc n) i (bs_grow (Suc n) b) e p = Inr e'" "ecs_wf e'"
      "\<forall>t \<in> set ts. getEntityComponent (cid t) i e' =
          (case vals t of None \<Rightarrow> getEntityComponent (cid t) i e | Some x \<Rightarrow> Some (as_received x))"
      "\<forall>c j. j \<noteq> i \<or> c \<notin> cid ` set ts \<longrightarrow> getEntityComponent c j e' = getEntityComponent c j e" by blast
    moreover have "cid t \<notin> cid ` set ts" using Cons.prems(5) by auto
    ultimately show ?thesis using None here
      by (intro exI[of _ e']) (simp add: br_bool_ref)
  next
    case (Some x)
    then have x: "type_of x = t" using Cons.prems(7) by simp
    have "unread p = component_bytes x @ concat (map (\<lambda>t. bytes_of (vals t)) ts)"
      using Cons.prems(8) Some by (simp add: bytes_of_def)
    from run_creator_ok[OF Cons.prems(1,2) _ _ this] Cons.prems(3,4)
    obtain e1 where e1: "run_creator t i e p = Inr (e1, advance (length (component_bytes x)) p)" "ecs_wf e1"
      "\<forall>j. om_has (e_entities e1) j = om_has (e_entities e) j"
      "\<forall>c. om_has (e_components e1) c = om_has (e_components e) c"
      "\<forall>c j. getEntityComponent c j e1 =
        (if j = i \<and> c = cid t then Some (as_received x) else getEntityComponent c j e)"
      by (auto simp: x)
    let ?p = "advance (length (component_bytes x)) p"
    have "\<exists>e'. factory_loop ts (Suc n) i (bs_grow (Suc n) b) e1 ?p = Inr e' \<and> ecs_wf e' \<and>
        (\<forall>t \<in> set ts. getEntityComponent (cid t) i e' =
          (case vals t of None \<Rightarrow> getEntityComponent (cid t) i e1 | Some x \<Rightarrow> Some (as_received x))) \<and>
        (\<forall>c j. j \<noteq> i \<or> c \<notin> cid ` set ts \<longrightarrow> getEntityComponent c j e' = getEntityComponent c j e1)"
      using Cons.prems Some e1(2-4) by (intro Cons.IH[OF _ _ _ _ _ bits]) (simp_all add: bytes_of_def)
    then obtain e' where e': "factory_loop ts (Suc n) i (bs_grow (Suc n) b) e1 ?p = Inr e'" "ecs_wf e'"
      "\<forall>t \<in> set ts. getEntityComponent (cid t) i e' =
          (case vals t of None \<Rightarrow> getEntityComponent (cid t) i e1 | Some x \<Rightarrow> Some (as_received x))"
      "\<forall>c j. j \<noteq> i \<or> c \<notin> cid ` set ts \<longrightarrow> getEntityComponent c j e' = getEntityComponent c j e1" by blast
    have t: "cid t \<notin> cid ` set ts" using Cons.prems(5) by auto
    then have "getEntityComponent (cid u) i e' =
        (case vals u of None \<Rightarrow> getEntityComponent (cid u) i e | Some x \<Rightarrow> Some (as_received x))"
      if "u \<in> set (t # ts)" for u
      using that e' e1(5) Some by (cases "u = t") (auto split: option.split)
    moreover have "getEntityComponent c j e' = getEntityComponent c j e"
      if "j \<noteq> i \<or> c \<notin> cid ` set (t # ts)" for c j
      using that e'(4) e1(5) by auto
    ultimately show ?thesis using e1(1) e'(1,2) here Some
      by (intro exI[of _ e']) (simp add: br_bool_ref)
  qed
qed

lemma new_factory_creators: "f_creators (new_factory ts) = ts"
proof -
  have "f_creators (fold factory_registerComponent ts f) = f_creators f @ ts" for f
    by (induction ts arbitrary: f) (simp_all add: factory_registerComponent_def)
  then show ?thesis by (simp add: new_factory_def)
qed

lemma deserialize_serialize:
  assumes "indexes m \<noteq> {}" and "0 \<notin> indexes m"
  shows "\<exists>b. deserialize (serialize m) = Some b \<and> indexes b = indexes m"
proof -
  have set: "set (serialize m) = indexes m" "sorted (serialize m)"
    by (simp_all add: serialize_sorted)
  moreover have "serialize m \<noteq> []" using assms(1) set(1) by auto
  moreover from this have "last (serialize m) \<in> indexes m" using set(1) last_in_set by blast
  then have "0 < last (serialize m)" using assms(2) by (metis gr0I)
  ultimately show ?thesis using deserialize_sorted by metis
qed

lemma zero_bit_unused: "ecs_wf e \<Longrightarrow> 0 \<notin> indexes (getEntityMask i e)"
proof
  assume wf: "ecs_wf e" and "0 \<in> indexes (getEntityMask i e)"
  then obtain c where c: "has_component e i c" "0 \<in> comp_bits e c"
    by (auto simp: mask_bits[OF wf] bits_of_def)
  obtain k where "masks_at k e" using wf_masks[OF wf] .
  from masks_atD(3)[OF this registered_of_has[OF c(1)]] c(2) show False by auto
qed

lemma snapshot_rebuilt:
  assumes "game_store (en_ecs en)" and "game_store e'" and "indexes (getEntityMask i (en_ecs en)) \<noteq> {}"
  shows "case getEntityInfos GameComponents i en of (bits, content) \<Rightarrow>
    case preRegisterEntity e' of (j, e1) \<Rightarrow>
      \<exists>b e2. deserialize bits = Some b \<and> factory_apply (new_factory GameComponents) e1 j b content = Inr e2 \<and>
        (\<forall>t \<in> set GameComponents. getEntityComponent (cid t) j e2 =
          map_option as_received (getEntityComponent (cid t) i (en_ecs en))) \<and>
        (\<forall>k c. k \<noteq> j \<longrightarrow> getEntityComponent c k e2 = getEntityComponent c k e')"
proof -
  let ?e = "en_ecs en" and ?m = "getEntityMask i (en_ecs en)"
  define vals where "vals t = getEntityComponent (cid t) i (en_ecs en)" for t
  obtain j e1 where reg: "preRegisterEntity e' = (j, e1)" by fastforce
  have inv: "ecs_wf ?e" "typed_store ?e" using game_store_inv[OF assms(1)] by auto
  have wf': "ecs_wf e'" "game_bits e'" using game_store_inv[OF assms(2)] by auto
  have e1: "ecs_wf e1" "om_has (e_entities e1) j" "e_components e1 = e_components e'" "j = e_entitiesID e'"
    using ecs_wf_preRegister[OF wf'(1)] reg by (auto simp: preRegisterEntity_def Let_def)
  have same: "getEntityComponent c k e1 = getEntityComponent c k e'" for c k
    using e1(3) by (simp add: getEntityComponent_def getComponent_def)
  have none: "getEntityComponent c j e1 = None" for c
    using no_fresh_component[OF wf'(1), of c] e1(4) by (simp add: same has_component_get)
  obtain b where b: "deserialize (serialize ?m) = Some b" "indexes b = indexes ?m"
    using deserialize_serialize[OF assms(3) zero_bit_unused[OF inv(1)]] by blast
  have content: "snd (getEntityInfos GameComponents i en) = concat (map (\<lambda>t. bytes_of (vals t)) GameComponents)"
    by (simp add: getEntityInfos_def Let_def content_value[OF inv(1)] vals_def)
  have registered: "\<forall>t \<in> set GameComponents. om_has (e_components e1) (cid t)"
    using wf'(2) by (auto simp: game_bits_def e1(3) in_set_conv_nth)
  have bits: "\<forall>n < length GameComponents. bs_test b (Suc (0 + n)) \<longleftrightarrow> vals (GameComponents ! n) \<noteq> None"
    using mask_bit_value[OF assms(1), of _ i] b(2) by (auto simp: vals_def indexes_def)
  have typed: "\<forall>t \<in> set GameComponents. \<forall>x. vals t = Some x \<longrightarrow> type_of x = t"
    using inv(2) unfolding typed_store_def vals_def by (metis cid_inject)
  have "distinct GameComponents" by (simp add: GameComponents_def)
  note loop = factory_loop_ok[OF e1(1,2) registered subset_refl this bits typed]
  have "unread (set_payload (snd (getEntityInfos GameComponents i en)) (new_packet 0 kUnreliable 0)) =
      concat (map (\<lambda>t. bytes_of (vals t)) GameComponents)" by (simp add: content)
  from loop[OF this] obtain e2 where e2: "factory_apply (new_factory GameComponents) e1 j b
      (snd (getEntityInfos GameComponents i en)) = Inr e2"
    "\<forall>t \<in> set GameComponents. getEntityComponent (cid t) j e2 =
      (case vals t of None \<Rightarrow> getEntityComponent (cid t) j e1 | Some x \<Rightarrow> Some (as_received x))"
    "\<forall>c k. k \<noteq> j \<or> c \<notin> cid ` set GameComponents \<longrightarrow> getEntityComponent c k e2 = getEntityComponent c k e1"
    by (auto simp: factory_apply_def new_factory_creators)
  have "\<forall>t \<in> set GameComponents. getEntityComponent (cid t) j e2 = map_option as_received (vals t)"
    using e2(2) none by (simp split: option.split)
  moreover have "fst (getEntityInfos GameComponents i en) = serialize ?m"
    by (simp add: getEntityInfos_def Let_def)
  ultimately show ?thesis using reg b(1) e2(1,3) same
    by (cases "getEntityInfos GameComponents i en") (auto simp: vals_def)
qed

text \<open>C13: an entity survives the trip from one machine to another.  Take any entity with a component
  of a store of the game; let another store of the game register a new empty entity and let the
  factory rebuild it from the mask and the bytes that \<open>getEntityInfos\<close> gives.  Then the reading
  of the mask is defined, the factory raises nothing, the new entity has the same game components
  with the same values (the flag \<open>isUpdated\<close> of a position does not travel), and no other entity
  changes.\<close>

theorem entity_snapshot_roundtrip:
  assumes "game_store (en_ecs en)" and "game_store e'" and "indexes (getEntityMask i (en_ecs en)) \<noteq> {}"
  shows "case getEntityInfos GameComponents i en of (bits, content) \<Rightarrow>
    case preRegisterEntity e' of (j, e1) \<Rightarrow>
      \<exists>b e2. deserialize bits = Some b \<and> factory_apply (new_factory GameComponents) e1 j b content = Inr e2 \<and>
        (\<forall>t \<in> set GameComponents. getEntityComponent (cid t) j e2 =
          map_option as_received (getEntityComponent (cid t) i (en_ecs en))) \<and>
        (\<forall>k c. k \<noteq> j \<longrightarrow> getEntityComponent c k e2 = getEntityComponent c k e')"
  using assms by (rule snapshot_rebuilt)

definition sample_position :: component where
  "sample_position = C_Position \<lparr>pos_x = 0x43480000, pos_y = 0x43960000, pos_isUpdated = True\<rparr>"

definition sample_health :: component where
  "sample_health = C_Health \<lparr>hp = 100, max_hp = 100\<rparr>"

definition sample_engine :: "unit engine" where
  "sample_engine = snd (engine_registerEntity None [sample_health, sample_position] (new_engine GameComponents))"

lemma sample_engine_ecs:
  "en_ecs sample_engine = perform (Call_registerEntity (pack [sample_health, sample_position]))
     (en_ecs (new_engine GameComponents))"
  by (simp add: sample_engine_def engine_registerEntity_def case_prod_beta)

lemma sample_engine_store: "game_store (en_ecs sample_engine)"
  unfolding sample_engine_ecs
  by (intro game_store.call game_store.constructed) (simp add: typed_pack_def pack_def)

lemma sample_engine_mask: "indexes (getEntityMask 0 (en_ecs sample_engine)) \<noteq> {}"
proof -
  let ?e = "en_ecs (new_engine GameComponents :: unit engine)"
  have wf: "ecs_wf ?e" using game_store_inv[OF game_store.constructed] by blast
  have "e_entitiesID ?e = 0" by (simp add: new_engine_def registers_ID) (simp add: new_ecs_def)
  moreover have "om_has (e_components ?e) (cid Health)"
    by (simp add: new_engine_def has_registers GameComponents_def)
  ultimately have "getEntityComponent (cid Health) 0 (en_ecs sample_engine) \<noteq> None"
    using get_registerEntity[OF wf, of "cid Health" 0 "pack [sample_health, sample_position]"]
    by (simp add: sample_engine_ecs pack_def sample_health_def sample_position_def)
  then have "Suc 2 \<in> indexes (getEntityMask 0 (en_ecs sample_engine))"
    using mask_bit_value[OF sample_engine_store, of 2 0] by (simp add: GameComponents_def)
  then show ?thesis by blast
qed

theorem entity_snapshot_roundtrip_witness:
  "case getEntityInfos GameComponents 0 sample_engine of (bits, content) \<Rightarrow>
    case preRegisterEntity (en_ecs (new_engine GameComponents :: unit engine)) of (j, e1) \<Rightarrow>
      \<exists>b e2. deserialize bits = Some b \<and> factory_apply (new_factory GameComponents) e1 j b content = Inr e2 \<and>
        (\<forall>t \<in> set GameComponents. getEntityComponent (cid t) j e2 =
          map_option as_received (getEntityComponent (cid t) 0 (en_ecs sample_engine))) \<and>
        (\<forall>k c. k \<noteq> j \<longrightarrow> getEntityComponent c k e2 =
          getEntityComponent c k (en_ecs (new_engine GameComponents :: unit engine)))"
  by (rule entity_snapshot_roundtrip[OF sample_engine_store game_store.constructed sample_engine_mask])

section \<open>Behaviours\<close>

lemma assign_keeps_pages:
  assumes "getComponent d e = Some s"
  shows "\<exists>s'. getComponent d (fold (\<lambda>i. ecs_assign d (ref i) v) js e) = Some s' \<and> ss_pages s' = ss_pages s"
  using assms
proof (induction js arbitrary: e s)
  case (Cons j js)
  let ?s = "s\<lparr>ss_dense := (ss_dense s)[ref j := v]\<rparr>"
  have "getComponent d (ecs_assign d (ref j) v e) = Some ?s"
    using Cons.prems by (simp add: ecs_assign_def getComponent_def)
  from Cons.IH[OF this] show ?case by simp
qed simp

lemma assign_all_refs:
  assumes "ecs_wf e" and "getComponent d e = Some s" and "\<forall>i \<in> set js. ss_ref s i = Some (ref i)"
  shows "\<forall>i \<in> set js. getEntityComponent d i (fold (\<lambda>i. ecs_assign d (ref i) v) js e) = Some v"
  using assms(3)
proof (induction js rule: rev_induct)
  case (snoc j js)
  have wf: "ecs_wf (fold (\<lambda>i. ecs_assign d (ref i) v) ks e)" for ks
    by (induction ks rule: rev_induct) (simp_all add: ecs_wf_assign assms(1))
  obtain s' where s': "getComponent d (fold (\<lambda>i. ecs_assign d (ref i) v) js e) = Some s'" "ss_pages s' = ss_pages s"
    using assign_keeps_pages[OF assms(2), where ref = ref and v = v and js = js] by blast
  then have "ss_ref s' j = Some (ref j)" using snoc.prems by (simp add: ss_ref_slot)
  with s'(1) snoc show ?case by (auto simp: get_assign[OF wf])
qed simp


lemma behaviour_registered: "game_store e \<Longrightarrow> om_has (e_components e) (cid Behaviour)"
proof (induction rule: game_store.induct)
  case constructed
  show ?case by (simp add: new_engine_def has_registers)
next
  case client_constructed
  show ?case by (simp add: new_engine_def has_registers)
next
  case (call e c)
  then show ?case using registered_perform game_store_inv by blast
next
  case (write_ref e x k)
  then show ?case by (simp add: registered_assign)
qed

text \<open>The engine gives the behaviour of a new entity to every entity that has one: after
  \<open>registerEntity\<close> with a behaviour, all \<open>Behaviour\<close> components of the store hold that behaviour,
  not started.\<close>

theorem behaviour_is_shared:
  assumes "game_store (en_ecs en)" and "typed_pack (pack xs)"
  shows "getEntityComponent (cid Behaviour) j (en_ecs (snd (engine_registerEntity (Some behav) xs en)))
    \<in> {None, Some (C_Behaviour \<lparr>bh_instance = Some behav, bh_started = False\<rparr>)}"
proof -
  let ?d = "cid Behaviour" and ?v = "C_Behaviour \<lparr>bh_instance = Some behav, bh_started = False\<rparr>"
  define i where "i = fst (registerEntity (pack xs) (en_ecs en))"
  define e where "e = addEntityComponents i (pack [C_Behaviour \<lparr>bh_instance = None, bh_started = False\<rparr>])
    (perform (Call_registerEntity (pack xs)) (en_ecs en))"
  have "game_store e"
    unfolding e_def
    using game_store.call[OF game_store.call[OF assms(1)], of "Call_registerEntity (pack xs)"
        "Call_addEntityComponents i (pack [C_Behaviour \<lparr>bh_instance = None, bh_started = False\<rparr>])"] assms(2)
    by (simp add: typed_pack_def pack_def)
  note wf = game_store_inv[OF this, THEN conjunct1] and reg = behaviour_registered[OF this]
  obtain s where s: "getComponent ?d e = Some s" "ss_wf s"
    using reg ecs_invD(4)[OF wf] by (auto simp: getComponent_def om_has_def)
  obtain js where js: "make_group (map Some [s]) = map (\<lambda>s. view_of (refs_of s js)) [s]" "distinct js"
    "set js = {i. in_all (map Some [s]) i}"
    using group_shape[of "[s]"] s(2) by auto
  let ?ref = "\<lambda>i. the (ss_ref s i)"
  have group: "ecs_group [?d] e = [view_of (refs_of s js)]" using js(1) s(1) by (simp add: ecs_group_def)
  have ents: "group_getEntities (ecs_group [?d] e) = js"
    using getEntities_shape[OF js(1)] s(1) by (simp add: ecs_group_def)
  have refs: "\<forall>i \<in> set js. ss_ref s i = Some (?ref i)"
    using js(3) by (auto simp: in_all_def ss_has_slot ss_ref_slot)
  have "group_apply (\<lambda>_. set_behaviour behav) (ecs_group [?d] e) e = fold (\<lambda>i. ecs_assign ?d (?ref i) ?v) js e"
    unfolding group_apply_def ents unfolding group
    by (rule fold_cong) (simp_all add: refs_of_at[OF js(2)] apply_helper_def set_behaviour_def fun_eq_iff)
  moreover have "en_ecs (snd (engine_registerEntity (Some behav) xs en)) =
      group_apply (\<lambda>_. set_behaviour behav) (ecs_group [?d] e) e"
    by (simp add: engine_registerEntity_def e_def i_def case_prod_beta Let_def)
  ultimately have final: "en_ecs (snd (engine_registerEntity (Some behav) xs en)) =
      fold (\<lambda>i. ecs_assign ?d (?ref i) ?v) js e" by simp
  show ?thesis
  proof (cases "j \<in> set js")
    case True
    then show ?thesis using assign_all_refs[OF wf s(1) refs] final by simp
  next
    case False
    then have "ss_ref s j = None"
      using js(3) by (simp add: in_all_def ss_has_slot ss_ref_slot)
    moreover obtain s' where "getComponent ?d (fold (\<lambda>i. ecs_assign ?d (?ref i) ?v) js e) = Some s'" "ss_pages s' = ss_pages s"
      using assign_keeps_pages[OF s(1), where ref = ?ref and v = ?v and js = js] by blast
    ultimately show ?thesis using final by (simp add: getEntityComponent_def ss_get_slot ss_ref_slot)
  qed
qed

theorem behaviour_is_shared_witness:
  "getEntityComponent (cid Behaviour) 0 (en_ecs (snd (engine_registerEntity (Some 2) [sample_health]
     sample_engine)))
    \<in> {None, Some (C_Behaviour \<lparr>bh_instance = Some 2, bh_started = False\<rparr>)}"
  by (rule behaviour_is_shared[OF sample_engine_store]) (simp add: typed_pack_def pack_def)

end
