(* ===== verification/Dispatcher.thy ===== *)
theory Dispatcher
  imports SessionReceive Queues
begin

text \<open>
  The packet dispatcher (\<^verbatim>\<open>lib/rtnt/include/rtnt/core/dispatcher.hpp\<close>,
  \<^verbatim>\<open>lib/rtnt/src/core/dispatcher.cpp\<close>) and the packets of the protocol itself
  (\<^verbatim>\<open>lib/rtnt/include/rtnt/core/packets/\<close>).

  Sessions are shared by pointer between the map of a peer, the queued tasks and the user's
  callbacks.  All sessions that were ever made live in one list; a \<open>shared_ptr<Session>\<close> is a
  place in it.  The record \<open>net_world\<close> is extensible: a server, a client and an application add
  their own fields, so a callback may change all of them.  An exception that leaves a callback is
  caught by the dispatcher, so a callback is a function from the state before to the state at the
  end of the call, whether it returned or raised.
\<close>

section \<open>Packets of the protocol\<close>

definition internal_traits :: "system_message_id \<Rightarrow> packet_traits" where
  "internal_traits i =
     \<lparr>t_kId = system_id i, t_kChannel = Some INTERNAL_CHANNEL_ID, t_kFlag = Some kUnreliable\<rparr>"

definition connect_traits :: packet_traits where "connect_traits = internal_traits kConnect"
definition connect_ack_traits :: packet_traits where "connect_ack_traits = internal_traits kConnectAck"
definition disconnect_traits :: packet_traits where "disconnect_traits = internal_traits kDisconnect"
definition ping_traits :: packet_traits where "ping_traits = internal_traits kPing"
definition pong_traits :: packet_traits where "pong_traits = internal_traits kPong"

lemmas internal_traits_defs =
  internal_traits_def connect_traits_def connect_ack_traits_def disconnect_traits_def
  ping_traits_def pong_traits_def

record connect_ack_msg = assignedSessionId :: u32
record ping_msg = ping_timestamp :: u64
record pong_msg = pong_timestamp :: u64

definition write_connect_ack :: "connect_ack_msg writer" where
  "write_connect_ack m = write_pod (assignedSessionId m)"
definition read_connect_ack :: "connect_ack_msg reader" where
  "read_connect_ack = rd_bind read_pod (\<lambda>i. rd_return \<lparr>assignedSessionId = i\<rparr>)"

definition write_ping :: "ping_msg writer" where
  "write_ping m = write_pod (ping_timestamp m)"
definition read_ping :: "ping_msg reader" where
  "read_ping = rd_bind read_pod (\<lambda>t. rd_return \<lparr>ping_timestamp = t\<rparr>)"

definition write_pong :: "pong_msg writer" where
  "write_pong m = write_pod (pong_timestamp m)"
definition read_pong :: "pong_msg reader" where
  "read_pong = rd_bind read_pod (\<lambda>t. rd_return \<lparr>pong_timestamp = t\<rparr>)"

section \<open>Sessions behind pointers\<close>

record 'ep net_world =
  nw_sessions :: "'ep session list"
  nw_globalSessionIdCounter :: u32

definition session_at :: "nat \<Rightarrow> ('ep, 'm) net_world_scheme \<Rightarrow> 'ep session" where
  "session_at sp w = nw_sessions w ! sp"

definition on_session ::
    "nat \<Rightarrow> ('ep session \<Rightarrow> 'ep session) \<Rightarrow> ('ep, 'm) net_world_scheme \<Rightarrow> ('ep, 'm) net_world_scheme" where
  "on_session sp f w = w\<lparr>nw_sessions := (nw_sessions w)[sp := f (session_at sp w)]\<rparr>"

text \<open>\<open>std::make_shared<Session>(endpoint, function)\<close>.\<close>

definition make_session ::
    "time \<Rightarrow> 'ep \<Rightarrow> ('ep, 'm) net_world_scheme \<Rightarrow> nat \<times> ('ep, 'm) net_world_scheme" where
  "make_session now endpoint w =
     (length (nw_sessions w),
      w\<lparr>nw_sessions := nw_sessions w @ [new_session (nw_globalSessionIdCounter w) endpoint True now],
        nw_globalSessionIdCounter := nw_globalSessionIdCounter w + 1\<rparr>)"

text \<open>\<open>session->send(data)\<close> for a packet struct; a raise of the writer comes before the send.\<close>

definition session_send ::
    "packet_traits \<Rightarrow> 'a writer \<Rightarrow> time \<Rightarrow> 'a \<Rightarrow> nat \<Rightarrow> ('ep, 'm) net_world_scheme \<Rightarrow>
     rt_error + ('ep, 'm) net_world_scheme" where
  "session_send t wr now data sp w =
     try_bind (send_message t wr now data (session_at sp w)) (\<lambda>s. Inr (on_session sp (\<lambda>_. s) w))"

definition keep_on_raise :: "'w \<Rightarrow> rt_error + 'w \<Rightarrow> 'w" where
  "keep_on_raise w r = (case r of Inl _ \<Rightarrow> w | Inr w' \<Rightarrow> w')"

section \<open>The dispatcher\<close>

type_synonym ('a, 'w) callback = "time \<Rightarrow> nat \<Rightarrow> 'a \<Rightarrow> 'w \<Rightarrow> 'w"
type_synonym 'w packet_handler = "time \<Rightarrow> nat \<Rightarrow> packet \<Rightarrow> 'w \<Rightarrow> packet \<times> 'w"
type_synonym 'w dispatcher = "(u16, 'w packet_handler) omap"

definition packet_handler :: "'a reader \<Rightarrow> ('a, 'w) callback \<Rightarrow> 'w packet_handler" where
  "packet_handler rd callback now sp p w =
     (case rd p of
        (Inl _, p') \<Rightarrow> (p', w)
      | (Inr data, p') \<Rightarrow> (p', callback now sp data w))"

definition registerHandler ::
    "packet_traits \<Rightarrow> 'a reader \<Rightarrow> ('a, 'w) callback \<Rightarrow> 'w dispatcher \<Rightarrow> 'w dispatcher" where
  "registerHandler t rd callback d =
     (if om_has d (t_kId t) then d else om_put (t_kId t) (packet_handler rd callback) d)"

text \<open>The two \<open>bind\<close> and the two \<open>_internal_bind\<close>; \<open>None\<close> is a call that does not compile.\<close>

definition bind_packet ::
    "packet_traits \<Rightarrow> 'a reader \<Rightarrow> ('a, 'w) callback \<Rightarrow> 'w dispatcher \<Rightarrow> 'w dispatcher option" where
  "bind_packet t rd callback d =
     (if verifyUserPacketData t then Some (registerHandler t rd callback d) else None)"

definition bind_own ::
    "packet_traits \<Rightarrow> 'a reader \<Rightarrow> ('a, 'w) callback option \<Rightarrow> 'w dispatcher \<Rightarrow> 'w dispatcher option" where
  "bind_own t rd onReceive d =
     (case onReceive of None \<Rightarrow> None | Some callback \<Rightarrow> bind_packet t rd callback d)"

definition internal_bind ::
    "packet_traits \<Rightarrow> 'a reader \<Rightarrow> ('a, 'w) callback \<Rightarrow> 'w dispatcher \<Rightarrow> 'w dispatcher option" where
  "internal_bind t rd callback d =
     (if verifyInternalPacketData t then Some (registerHandler t rd callback d) else None)"

definition internal_bind_own ::
    "packet_traits \<Rightarrow> 'a reader \<Rightarrow> ('a, 'w) callback option \<Rightarrow> 'w dispatcher \<Rightarrow> 'w dispatcher option" where
  "internal_bind_own t rd onReceive d =
     (case onReceive of None \<Rightarrow> None | Some callback \<Rightarrow> internal_bind t rd callback d)"

definition dispatch :: "'w dispatcher \<Rightarrow> 'w packet_handler" where
  "dispatch d now sp p w =
     (case map_of d (p_messageId p) of
        Some handler \<Rightarrow> handler now sp p w
      | None \<Rightarrow> (p, w))"

text \<open>The handlers that every dispatcher has.\<close>

definition Connect_onReceive :: "(unit, ('ep, 'm) net_world_scheme) callback" where
  "Connect_onReceive now sp _ w =
     keep_on_raise w (session_send connect_ack_traits write_connect_ack now
       \<lparr>assignedSessionId = s_id (session_at sp w)\<rparr> sp w)"

definition Disconnect_onReceive :: "(unit, ('ep, 'm) net_world_scheme) callback" where
  "Disconnect_onReceive now sp _ w = on_session sp disconnect w"

definition new_dispatcher :: "(('ep, 'm) net_world_scheme) dispatcher option" where
  "new_dispatcher =
     Option.bind (internal_bind_own connect_traits read_empty (Some Connect_onReceive) [])
       (internal_bind_own disconnect_traits read_empty (Some Disconnect_onReceive))"

section \<open>Lemmas\<close>

lemma world_simps [simp]:
  "nw_sessions (on_session sp f w) = (nw_sessions w)[sp := f (session_at sp w)]"
  "nw_globalSessionIdCounter (on_session sp f w) = nw_globalSessionIdCounter w"
  "net_world.more (on_session sp f w) = net_world.more w"
  by (simp_all add: on_session_def)

lemma session_at_on_session:
  "sp < length (nw_sessions w) \<Longrightarrow>
    session_at q (on_session sp f w) = (if q = sp then f (session_at sp w) else session_at q w)"
  by (simp add: session_at_def on_session_def nth_list_update)

lemma session_at_other [simp]: "q \<noteq> sp \<Longrightarrow> session_at q (on_session sp f w) = session_at q w"
  by (simp add: session_at_def on_session_def)

lemma write_pod_ok: "write_pod w p = Inr (append_bytes (mem_bytes native (endian_swap native w)) p)"
  by (simp add: write_pod_def)

definition connect_ack_packet :: "u8 \<Rightarrow> u32 \<Rightarrow> packet" where
  "connect_ack_packet ch i =
     append_bytes (be_bytes i) (new_packet (system_id kConnectAck) kUnreliable ch)"

lemma write_connect_ack_ok:
  "write_connect_ack \<lparr>assignedSessionId = i\<rparr> (new_packet (system_id kConnectAck) kUnreliable ch) =
    Inr (connect_ack_packet ch i)"
  by (simp add: write_connect_ack_def connect_ack_packet_def u32.wr_enc)

lemma send_connect_ack:
  "send_message connect_ack_traits write_connect_ack now \<lparr>assignedSessionId = i\<rparr> s =
    Inr (send now (connect_ack_packet INTERNAL_CHANNEL_ID i) s)"
  using write_connect_ack_ok[of i INTERNAL_CHANNEL_ID]
  by (simp add: send_message_def make_packet_def internal_traits_defs getFlag_def getChannelId_def)

lemma Connect_onReceive_sends:
  "Connect_onReceive now sp () w =
    on_session sp (send now (connect_ack_packet INTERNAL_CHANNEL_ID (s_id (session_at sp w)))) w"
  by (simp add: Connect_onReceive_def session_send_def send_connect_ack keep_on_raise_def on_session_def)

lemma send_empty:
  "send_message t write_empty now () s = Inr (send now (new_packet (t_kId t) (getFlag t) (getChannelId t)) s)"
  by (simp add: send_message_def make_packet_def write_empty_def)

lemma handler_empty [simp]: "packet_handler read_empty callback now sp p w = (p, callback now sp () w)"
  by (simp add: packet_handler_def read_empty_def)

lemma new_dispatcher_handlers:
  "new_dispatcher = Some [(system_id kConnect, packet_handler read_empty Connect_onReceive),
     (system_id kDisconnect, packet_handler read_empty Disconnect_onReceive)]"
  by (simp add: new_dispatcher_def internal_bind_own_def internal_bind_def registerHandler_def
      internal_traits_defs verifyInternalPacketData_def verifyPacketData_def getChannelId_def
      om_has_def)

lemma map_of_registerHandler:
  "map_of (registerHandler t rd callback d) i =
    (if i = t_kId t \<and> map_of d i = None then Some (packet_handler rd callback) else map_of d i)"
  by (auto simp: registerHandler_def om_has_def)

section \<open>What names a session never changes\<close>

definition identity :: "'ep session \<Rightarrow> u32 \<times> 'ep \<times> bool" where
  "identity s = (s_id s, s_endpoint s, s_hasSendFunction s)"

text \<open>Writing any other member keeps it.\<close>

lemma identity_frame [simp]:
  "identity (s\<lparr>s_sent := x0\<rparr>) = identity s"
  "identity (s\<lparr>hasReceivedRemotePacket := x1\<rparr>) = identity s"
  "identity (s\<lparr>localSequenceId := x2\<rparr>) = identity s"
  "identity (s\<lparr>remoteAcknowledgeId := x3\<rparr>) = identity s"
  "identity (s\<lparr>remoteAcknowledgeBitfield := x4\<rparr>) = identity s"
  "identity (s\<lparr>localOrderIds := x5\<rparr>) = identity s"
  "identity (s\<lparr>nextExpectedOrderIds := x6\<rparr>) = identity s"
  "identity (s\<lparr>reorderBuffers := x7\<rparr>) = identity s"
  "identity (s\<lparr>sentPackets := x8\<rparr>) = identity s"
  "identity (s\<lparr>oldPacketHistory := x9\<rparr>) = identity s"
  "identity (s\<lparr>pendingRichAcks := x10\<rparr>) = identity s"
  "identity (s\<lparr>packetsSinceLastAck := x11\<rparr>) = identity s"
  "identity (s\<lparr>hasUnsentAck := x12\<rparr>) = identity s"
  "identity (s\<lparr>lastAckTime := x13\<rparr>) = identity s"
  "identity (s\<lparr>lastSeen := x14\<rparr>) = identity s"
  "identity (s\<lparr>s_shouldClose := x15\<rparr>) = identity s"
  "identity (s\<lparr>sessionMetrics := x16\<rparr>) = identity s"
  by (simp_all add: identity_def)

lemma identity_rawSend [simp]: "identity (rawSend now p sq oid s) = identity s"
  by (simp add: rawSend_def Let_def)

lemma identity_take_sequence_id [simp]: "identity (take_sequence_id s) = identity s"
  by (simp add: take_sequence_id_def)

lemma identity_send [simp]: "identity (send now p s) = identity s"
  by (simp add: send_def Let_def)

lemma identity_disconnect [simp]:
  "identity (internal_disconnect s) = identity s" "identity (disconnect s) = identity s"
  by (simp_all add: disconnect_def internal_disconnect_def)

lemma identity_retransmit [simp]: "identity (retransmit now k info s) = identity s"
  by (simp add: retransmit_def Let_def)

lemma identity_resend_loop: "identity (snd (resend_loop now es s)) = identity s"
  by (induction es arbitrary: s) simp_all

lemma identity_emit [simp]: "identity (emit now s p) = identity s"
  by (simp add: emit_def)

lemma identity_sendAck: "internal_sendAck now s = Inr s' \<Longrightarrow> identity s' = identity s"
  using sendAck_emits[of now s] foldl_emit_frame[of identity, OF identity_emit] by auto

lemma identity_update: "update now s = Inr s' \<Longrightarrow> identity s' = identity s"
  using identity_resend_loop[of now "sentPackets s" s]
  by (auto simp: update_def split: prod.splits if_splits dest: identity_sendAck)

lemma identity_record:
  "updateAcknowledgeInfo q s = Inr s' \<Longrightarrow> identity s' = identity s"
  by (auto simp: updateAcknowledgeInfo_def Let_def try_bind_Inr_iff split: if_splits)

lemma identity_process_acks [simp]: "identity (process_acks now hdr s) = identity s"
  by (simp add: process_acks_def Let_def split: option.split)

lemma identity_note_arrival [simp]: "identity (note_arrival now hdr n s) = identity s"
  by (simp add: note_arrival_def)

lemma identity_hand_over [simp]: "identity (snd (hand_over data hdr s)) = identity s"
  by (simp add: hand_over_def checkForOldPackets_def deliver_ordered_def Let_def
      split: sum.split prod.split)

lemma identity_count_and_ack: "count_and_ack now s = Inr s' \<Longrightarrow> identity s' = identity s"
  using identity_sendAck[of now "s\<lparr>packetsSinceLastAck := packetsSinceLastAck s + 1\<rparr>"]
  by (auto simp: count_and_ack_def Let_def split: if_splits)

lemma identity_handleIncoming:
  assumes "handleIncoming now data s = Inr (ps, s')"
  shows "identity s' = identity s"
proof (cases "res_header (parse_header data)")
  case None
  with assms show ?thesis by (simp add: handleIncoming_def)
next
  case (Some hdr)
  let ?s1 = "process_acks now hdr (note_arrival now hdr (length data) s)"
  show ?thesis
  proof (cases "isDuplicate (sequenceId hdr) ?s1")
    case True
    with assms Some show ?thesis by (auto simp: handleIncoming_def queue_duplicate_def Let_def)
  next
    case False
    with assms Some obtain s2 s3 where "updateAcknowledgeInfo (sequenceId hdr) ?s1 = Inr s2"
      "count_and_ack now s2 = Inr s3" "(ps, s') = hand_over data hdr s3"
      by (auto simp: handleIncoming_def Let_def try_bind_Inr_iff)
    then show ?thesis
      using identity_record identity_count_and_ack identity_hand_over[of data hdr s3]
      by (metis identity_note_arrival identity_process_acks snd_conv)
  qed
qed

end
