(* ===== verification/Peer.thy ===== *)
theory Peer
  imports Packet
begin

text \<open>
  The class \<open>Peer\<close> (\<^verbatim>\<open>lib/rtnt/include/rtnt/core/peer.hpp\<close>,
  \<^verbatim>\<open>lib/rtnt/src/core/peer.cpp\<close>): the socket of a server or a client.  The operating system and
  \<open>asio\<close> are the arguments of the completion steps: which error code an operation ends with,
  which bytes arrived and from whom.  The number of armed receive operations and the queue of
  sends that have not completed are part of the state.
\<close>

datatype io_error = Operation_aborted | Other_error

record network_metrics =
  totalBytesSent :: u64
  totalBytesReceived :: u64
  totalPacketsSent :: u64
  totalPacketsReceived :: u64

record 'ep peer =
  pr_port :: "u16 option"
  pr_armed :: nat
  pr_sends :: "('ep \<times> bytes) list"
  pr_networkMetrics :: network_metrics

definition new_peer :: "'ep peer" where
  "new_peer =
     \<lparr>pr_port = None, pr_armed = 0, pr_sends = [],
      pr_networkMetrics = \<lparr>totalBytesSent = 0, totalBytesReceived = 0, totalPacketsSent = 0,
        totalPacketsReceived = 0\<rparr>\<rparr>"

definition peer_server :: "u16 \<Rightarrow> 'ep peer \<Rightarrow> 'ep peer" where
  "peer_server port pr = pr\<lparr>pr_port := Some port\<rparr>"

text \<open>Port 0: the system chooses the port.\<close>

definition peer_client :: "u16 \<Rightarrow> 'ep peer \<Rightarrow> 'ep peer" where
  "peer_client chosen pr = pr\<lparr>pr_port := Some chosen\<rparr>"

definition getLocalPort :: "'ep peer \<Rightarrow> u16 option" where
  "getLocalPort pr = pr_port pr"

text \<open>\<open>shutdown\<close> raises when the system refuses it, and then the socket is not closed.\<close>

definition peer_stop :: "bool \<Rightarrow> 'ep peer \<Rightarrow> io_error + 'ep peer" where
  "peer_stop shutdown_ok pr =
     (if shutdown_ok then Inr (pr\<lparr>pr_port := None\<rparr>) else Inl Other_error)"

definition peer_receive :: "'ep peer \<Rightarrow> 'ep peer" where
  "peer_receive pr =
     (if pr_port pr = None then pr else pr\<lparr>pr_armed := pr_armed pr + 1\<rparr>)"

definition peer_start :: "'ep peer \<Rightarrow> 'ep peer" where
  "peer_start pr = peer_receive pr"

definition count_received :: "nat \<Rightarrow> network_metrics \<Rightarrow> network_metrics" where
  "count_received n m =
     m\<lparr>totalBytesReceived := totalBytesReceived m + word_of_nat n,
       totalPacketsReceived := totalPacketsReceived m + 1\<rparr>"

text \<open>The completion handler of \<open>async_receive_from\<close>.\<close>

definition peer_complete_receive ::
    "('ep \<Rightarrow> bytes \<Rightarrow> 's \<Rightarrow> 's) \<Rightarrow> io_error + 'ep \<times> bytes \<Rightarrow> 'ep peer \<times> 's \<Rightarrow> 'ep peer \<times> 's" where
  "peer_complete_receive onReceive result st =
     (case st of (pr0, s) \<Rightarrow>
        let pr = pr0\<lparr>pr_armed := pr_armed pr0 - 1\<rparr> in
        case result of
          Inl ec \<Rightarrow> (if ec \<noteq> Operation_aborted then peer_receive pr else pr, s)
        | Inr (sender, data) \<Rightarrow>
            if length data > 0 then
              (peer_receive (pr\<lparr>pr_networkMetrics := count_received (length data) (pr_networkMetrics pr)\<rparr>),
               onReceive sender data s)
            else (peer_receive pr, s))"

definition peer_sendToTarget :: "'ep \<Rightarrow> bytes \<Rightarrow> 'ep peer \<Rightarrow> 'ep peer" where
  "peer_sendToTarget target data pr = pr\<lparr>pr_sends := pr_sends pr @ [(target, data)]\<rparr>"

definition count_sent :: "nat \<Rightarrow> network_metrics \<Rightarrow> network_metrics" where
  "count_sent n m =
     m\<lparr>totalBytesSent := totalBytesSent m + word_of_nat n,
       totalPacketsSent := totalPacketsSent m + 1\<rparr>"

text \<open>The completion handler of \<open>async_send_to\<close>, for the oldest send.\<close>

definition peer_complete_send :: "io_error option \<Rightarrow> 'ep peer \<Rightarrow> 'ep peer" where
  "peer_complete_send ec pr =
     (case pr_sends pr of
        [] \<Rightarrow> pr
      | (target, data) # rest \<Rightarrow>
          (case ec of
             Some _ \<Rightarrow> pr\<lparr>pr_sends := rest\<rparr>
           | None \<Rightarrow> pr\<lparr>pr_sends := rest,
               pr_networkMetrics := count_sent (length data) (pr_networkMetrics pr)\<rparr>))"

section \<open>Lemmas\<close>

text \<open>A socket that is open stays armed: every completion that is not an abort arms the next
  receive operation.\<close>

lemma receive_rearms:
  assumes "pr_port pr \<noteq> None" and "pr_armed pr > 0" and "result \<noteq> Inl Operation_aborted"
  shows "pr_armed (fst (peer_complete_receive onReceive result (pr, s))) = pr_armed pr"
  using assms
  by (auto simp: peer_complete_receive_def peer_receive_def Let_def split: sum.splits)

end
