(* ===== verification/NetServer.thy ===== *)
theory NetServer
  imports Dispatcher Peer
begin

text \<open>
  The class \<open>Server\<close> (\<^verbatim>\<open>lib/rtnt/include/rtnt/core/server.hpp\<close>,
  \<^verbatim>\<open>lib/rtnt/src/core/server.cpp\<close>).  The socket thread runs \<open>server_onReceive\<close>, the main
  thread runs \<open>server_update\<close>; the queue between them holds the tasks as data.  The world of a
  server is the sessions, the map from endpoints to sessions and, as the extension of the record,
  whatever the application keeps.  What the application registers (its packet handlers and the
  three callbacks) is an argument, the environment.  An instant \<open>now\<close> is read once per operation.
\<close>

section \<open>State\<close>

record 'ep server_world = "'ep net_world" +
  sv_sessions :: "('ep, nat) omap"

datatype server_task = Task_onConnect nat | Task_packet nat packet

record 'w server =
  sv_world :: 'w
  sv_eventQueue :: "server_task ts_queue"

record 'w server_env =
  se_dispatcher :: "'w dispatcher"
  se_onConnect :: "(time \<Rightarrow> nat \<Rightarrow> 'w \<Rightarrow> 'w) option"
  se_onDisconnect :: "(time \<Rightarrow> nat \<Rightarrow> 'w \<Rightarrow> 'w) option"
  se_onMessage :: "(time \<Rightarrow> nat \<Rightarrow> packet \<Rightarrow> 'w \<Rightarrow> 'w) option"

definition new_server :: "'w \<Rightarrow> 'w server" where
  "new_server w = \<lparr>sv_world = w, sv_eventQueue = tsq_new\<rparr>"

section \<open>Events\<close>

definition run_server_task :: "'w server_env \<Rightarrow> time \<Rightarrow> server_task \<Rightarrow> 'w \<Rightarrow> 'w" where
  "run_server_task env now task w =
     (case task of
        Task_onConnect sp \<Rightarrow>
          (case se_onConnect env of Some callback \<Rightarrow> callback now sp w | None \<Rightarrow> w)
      | Task_packet sp pkt0 \<Rightarrow>
          (case dispatch (se_dispatcher env) now sp pkt0 w of
             (pkt, w') \<Rightarrow>
               if p_messageId pkt \<ge> 128
               then case se_onMessage env of Some callback \<Rightarrow> callback now sp pkt w' | None \<Rightarrow> w'
               else w'))"

definition server_processEvents :: "'w server_env \<Rightarrow> time \<Rightarrow> 'w server \<Rightarrow> 'w server" where
  "server_processEvents env now sv =
     (case process_all (run_server_task env now) (sv_eventQueue sv) (sv_world sv) of
        (w, q) \<Rightarrow> \<lparr>sv_world = w, sv_eventQueue = q\<rparr>)"

section \<open>The periodic update\<close>

definition is_gone :: "time \<Rightarrow> int \<Rightarrow> 'ep session \<Rightarrow> bool" where
  "is_gone now timeout s \<longleftrightarrow> (now - lastSeen s) div milliseconds 1 > timeout \<or> s_shouldClose s"

text \<open>The loop over \<open>_sessions\<close>: the sessions that are dropped, the entries that stay, the world.\<close>

fun sweep ::
    "time \<Rightarrow> int \<Rightarrow> ('ep \<times> nat) list \<Rightarrow> ('ep, 'm) net_world_scheme \<Rightarrow>
     fault + nat list \<times> ('ep \<times> nat) list \<times> ('ep, 'm) net_world_scheme" where
  "sweep now timeout [] w = Inr ([], [], w)"
| "sweep now timeout ((ep, sp) # es) w =
     (if is_gone now timeout (session_at sp w)
      then try_bind (sweep now timeout es w) (\<lambda>(gone, kept, w'). Inr (sp # gone, kept, w'))
      else try_bind (update now (session_at sp w)) (\<lambda>s.
        try_bind (sweep now timeout es (on_session sp (\<lambda>_. s) w)) (\<lambda>(gone, kept, w').
          Inr (gone, (ep, sp) # kept, w'))))"

definition notify_disconnect :: "'w server_env \<Rightarrow> time \<Rightarrow> nat \<Rightarrow> 'w \<Rightarrow> 'w" where
  "notify_disconnect env now sp w =
     (case se_onDisconnect env of Some callback \<Rightarrow> callback now sp w | None \<Rightarrow> w)"

definition server_update ::
    "('ep, 'm) server_world_scheme server_env \<Rightarrow> time \<Rightarrow> int \<Rightarrow>
     ('ep, 'm) server_world_scheme server \<Rightarrow> fault + ('ep, 'm) server_world_scheme server" where
  "server_update env now timeout sv0 =
     (let sv = server_processEvents env now sv0; w0 = sv_world sv in
      try_bind (sweep now timeout (sv_sessions w0) w0) (\<lambda>(gone, kept, w).
        Inr (sv\<lparr>sv_world := fold (notify_disconnect env now) gone (w\<lparr>sv_sessions := kept\<rparr>)\<rparr>)))"

section \<open>Receiving\<close>

definition push_packets :: "nat \<Rightarrow> packet list \<Rightarrow> server_task ts_queue \<Rightarrow> server_task ts_queue" where
  "push_packets sp ps q = fold (\<lambda>p. tsq_push (Task_packet sp p)) ps q"

text \<open>From \<open>handleIncoming\<close> on, for a session that was found or made.\<close>

definition server_process ::
    "time \<Rightarrow> nat \<Rightarrow> bytes \<Rightarrow> ('ep, 'm) server_world_scheme server \<Rightarrow>
     fault + ('ep, 'm) server_world_scheme server" where
  "server_process now sp data sv =
     try_bind (handleIncoming now data (session_at sp (sv_world sv))) (\<lambda>(ps, s).
       Inr (sv\<lparr>sv_world := on_session sp (\<lambda>_. s) (sv_world sv),
               sv_eventQueue := push_packets sp ps (sv_eventQueue sv)\<rparr>))"

definition resend_connect_ack ::
    "time \<Rightarrow> nat \<Rightarrow> ('ep, 'm) net_world_scheme \<Rightarrow> ('ep, 'm) net_world_scheme" where
  "resend_connect_ack now sp w =
     (case write_connect_ack \<lparr>assignedSessionId = s_id (session_at sp w)\<rparr>
             (new_packet (t_kId connect_ack_traits) (getFlag connect_ack_traits) 0) of
        Inl _ \<Rightarrow> w
      | Inr p \<Rightarrow> on_session sp (send now p) w)"

definition server_onReceive ::
    "time \<Rightarrow> 'ep::linorder \<Rightarrow> bytes \<Rightarrow> ('ep, 'm) server_world_scheme server \<Rightarrow>
     fault + ('ep, 'm) server_world_scheme server" where
  "server_onReceive now sender data sv =
     (let w = sv_world sv in
      case map_of (sv_sessions w) sender of
        Some sp \<Rightarrow>
          if is_message (t_kId connect_traits) data
          then Inr (sv\<lparr>sv_world := resend_connect_ack now sp w\<rparr>)
          else server_process now sp data sv
      | None \<Rightarrow>
          if \<not> is_message (t_kId connect_traits) data then Inr sv
          else case make_session now sender w of (sp, w') \<Rightarrow>
            server_process now sp data
              (sv\<lparr>sv_world := w'\<lparr>sv_sessions := om_put sender sp (sv_sessions w')\<rparr>,
                  sv_eventQueue := tsq_push (Task_onConnect sp) (sv_eventQueue sv)\<rparr>))"

section \<open>Sending\<close>

definition server_internal_sendTo ::
    "packet_traits \<Rightarrow> 'a writer \<Rightarrow> time \<Rightarrow> nat \<Rightarrow> 'a \<Rightarrow> ('ep, 'm) net_world_scheme \<Rightarrow>
     rt_error + ('ep, 'm) net_world_scheme" where
  "server_internal_sendTo t wr now sp data w =
     try_bind (wr data (new_packet (t_kId t) (getFlag t) (getChannelId t)))
       (\<lambda>p. Inr (on_session sp (send now p) w))"

text \<open>\<open>None\<close> is a call that does not compile.\<close>

definition server_sendTo ::
    "packet_traits \<Rightarrow> 'a writer \<Rightarrow> time \<Rightarrow> nat \<Rightarrow> 'a \<Rightarrow> ('ep, 'm) net_world_scheme \<Rightarrow>
     (rt_error + ('ep, 'm) net_world_scheme) option" where
  "server_sendTo t wr now sp data w =
     (if verifyUserPacketData t then Some (server_internal_sendTo t wr now sp data w) else None)"

text \<open>The loop of \<open>broadcast\<close>; a raise leaves the sessions before it served.\<close>

primrec broadcast_loop ::
    "packet_traits \<Rightarrow> 'a writer \<Rightarrow> time \<Rightarrow> 'a \<Rightarrow> nat list \<Rightarrow> ('ep, 'm) net_world_scheme \<Rightarrow>
     rt_error option \<times> ('ep, 'm) net_world_scheme" where
  "broadcast_loop t wr now data [] w = (None, w)"
| "broadcast_loop t wr now data (sp # sps) w =
     (case server_internal_sendTo t wr now sp data w of
        Inl e \<Rightarrow> (Some e, w)
      | Inr w' \<Rightarrow> broadcast_loop t wr now data sps w')"

definition server_broadcast ::
    "packet_traits \<Rightarrow> 'a writer \<Rightarrow> time \<Rightarrow> 'a \<Rightarrow> ('ep, 'm) server_world_scheme \<Rightarrow>
     (rt_error option \<times> ('ep, 'm) server_world_scheme) option" where
  "server_broadcast t wr now data w =
     (if verifyUserPacketData t
      then Some (broadcast_loop t wr now data (map snd (sv_sessions w)) w) else None)"

lemma sv_sessions_on_session [simp]: "sv_sessions (on_session sp f w) = sv_sessions w"
  by (simp add: on_session_def)

section \<open>Well-formed servers\<close>

definition world_wf :: "('ep::linorder, 'm) server_world_scheme \<Rightarrow> bool" where
  "world_wf w \<longleftrightarrow>
     om_wf (sv_sessions w) \<and>
     (\<forall>ep sp. map_of (sv_sessions w) ep = Some sp \<longrightarrow>
        sp < length (nw_sessions w) \<and> s_endpoint (session_at sp w) = ep) \<and>
     (\<forall>s \<in> set (nw_sessions w). session_wf s)"

definition task_session :: "server_task \<Rightarrow> nat" where
  "task_session task = (case task of Task_onConnect sp \<Rightarrow> sp | Task_packet sp _ \<Rightarrow> sp)"

definition server_wf :: "('ep::linorder, 'm) server_world_scheme server \<Rightarrow> bool" where
  "server_wf sv \<longleftrightarrow>
     world_wf (sv_world sv) \<and>
     (\<forall>task \<in> set (tsq_queue (sv_eventQueue sv)). task_session task < length (nw_sessions (sv_world sv)))"

text \<open>What code outside the server can do to its world: it neither makes nor maps sessions, and it
  changes a session only as the operations of \<open>Session\<close> do.\<close>

definition polite :: "('ep, 'm) server_world_scheme \<Rightarrow> ('ep, 'm) server_world_scheme \<Rightarrow> bool" where
  "polite w w' \<longleftrightarrow>
     sv_sessions w' = sv_sessions w \<and>
     map identity (nw_sessions w') = map identity (nw_sessions w) \<and>
     ((\<forall>s \<in> set (nw_sessions w). session_wf s) \<longrightarrow> (\<forall>s \<in> set (nw_sessions w'). session_wf s))"

lemma polite_refl [simp]: "polite w w"
  by (simp add: polite_def)

lemma polite_trans:
  assumes "polite w w'" and "polite w' w''"
  shows "polite w w''"
  unfolding polite_def
proof (intro conjI impI)
  show "sv_sessions w'' = sv_sessions w"
    using assms by (simp only: polite_def)
  show "map identity (nw_sessions w'') = map identity (nw_sessions w)"
    using assms by (simp only: polite_def)
next
  assume "\<forall>s \<in> set (nw_sessions w). session_wf s"
  then have "\<forall>s \<in> set (nw_sessions w'). session_wf s" using assms(1) unfolding polite_def by blast
  then show "\<forall>s \<in> set (nw_sessions w''). session_wf s" using assms(2) unfolding polite_def by blast
qed

lemma polite_length: "polite w w' \<Longrightarrow> length (nw_sessions w') = length (nw_sessions w)"
  unfolding polite_def using map_eq_imp_length_eq by blast

lemma polite_identity:
  assumes "polite w w'" and "sp < length (nw_sessions w)"
  shows "identity (session_at sp w') = identity (session_at sp w)"
proof -
  have "map identity (nw_sessions w') ! sp = map identity (nw_sessions w) ! sp"
    using assms(1) by (simp add: polite_def)
  then show ?thesis using assms(2) polite_length[OF assms(1)] by (simp add: session_at_def)
qed

lemma on_session_identity:
  assumes "identity s = identity (session_at sp w)"
  shows "map identity (nw_sessions (on_session sp (\<lambda>_. s) w)) = map identity (nw_sessions w)"
proof (cases "sp < length (nw_sessions w)")
  case True
  with assms show ?thesis by (simp add: map_update session_at_def list_update_same_conv)
next
  case False
  then show ?thesis by (simp add: list_update_beyond)
qed

lemma polite_on_session:
  assumes "identity s = identity (session_at sp w)"
    and "session_wf (session_at sp w) \<Longrightarrow> session_wf s"
  shows "polite w (on_session sp (\<lambda>_. s) w)"
proof (cases "sp < length (nw_sessions w)")
  case True
  then have "session_at sp w \<in> set (nw_sessions w)" by (simp add: session_at_def)
  with assms show ?thesis
    using on_session_identity[OF assms(1)] set_update_subset_insert[of "nw_sessions w" sp s]
    by (auto simp: polite_def on_session_def)
next
  case False
  then show ?thesis by (simp add: polite_def on_session_def list_update_beyond)
qed

lemma polite_world_wf: "polite w w' \<Longrightarrow> world_wf w \<Longrightarrow> world_wf w'"
  using polite_length[of w w'] polite_identity[of w w']
  by (auto simp: world_wf_def polite_def identity_def)

section \<open>The application's part\<close>

text \<open>The contract of what an application registers with a server: its handlers and callbacks are
  polite.\<close>

locale server_user =
  fixes env :: "('ep::linorder, 'm) server_world_scheme server_env"
  assumes handler_polite: "map_of (se_dispatcher env) i = Some h \<Longrightarrow> sp < length (nw_sessions w) \<Longrightarrow>
      polite w (snd (h now sp p w))"
    and onConnect_polite: "se_onConnect env = Some f \<Longrightarrow> sp < length (nw_sessions w) \<Longrightarrow> polite w (f now sp w)"
    and onDisconnect_polite: "se_onDisconnect env = Some f \<Longrightarrow> sp < length (nw_sessions w) \<Longrightarrow> polite w (f now sp w)"
    and onMessage_polite: "se_onMessage env = Some g \<Longrightarrow> sp < length (nw_sessions w) \<Longrightarrow> polite w (g now sp p w)"
begin

lemma dispatch_polite:
  "sp < length (nw_sessions w) \<Longrightarrow> polite w (snd (dispatch (se_dispatcher env) now sp p w))"
  by (auto simp: dispatch_def handler_polite split: option.split)

lemma task_polite:
  assumes "task_session task < length (nw_sessions w)"
  shows "polite w (run_server_task env now task w)"
proof (cases task)
  case (Task_onConnect sp)
  with assms show ?thesis
    by (auto simp: run_server_task_def task_session_def onConnect_polite split: option.split)
next
  case (Task_packet sp p)
  obtain p' w' where d: "dispatch (se_dispatcher env) now sp p w = (p', w')" by fastforce
  have sp: "sp < length (nw_sessions w)" using assms Task_packet by (simp add: task_session_def)
  have w': "polite w w'" using dispatch_polite[OF sp, of now p] d by simp
  have "polite w' (g now sp p' w')" if "se_onMessage env = Some g" for g
    using onMessage_polite[OF that] sp polite_length[OF w'] by simp
  with w' d Task_packet show ?thesis
    by (auto simp: run_server_task_def split: option.split intro: polite_trans)
qed

lemma tasks_polite:
  "\<forall>task \<in> set tasks. task_session task < length (nw_sessions w) \<Longrightarrow>
    polite w (fold (run_server_task env now) tasks w)"
proof (induction tasks arbitrary: w)
  case (Cons task tasks)
  then have step: "polite w (run_server_task env now task w)" by (simp add: task_polite)
  show ?case
    using Cons.IH[of "run_server_task env now task w"] Cons.prems polite_length[OF step]
      polite_trans[OF step] by simp
qed simp

lemma notify_polite:
  "\<forall>sp \<in> set sps. sp < length (nw_sessions w) \<Longrightarrow> polite w (fold (notify_disconnect env now) sps w)"
proof (induction sps arbitrary: w)
  case (Cons sp sps)
  then have step: "polite w (notify_disconnect env now sp w)"
    by (auto simp: notify_disconnect_def onDisconnect_polite split: option.split)
  show ?case
    using Cons.IH[of "notify_disconnect env now sp w"] Cons.prems polite_length[OF step]
      polite_trans[OF step] by simp
qed simp

lemma events_run:
  "server_processEvents env now sv =
    \<lparr>sv_world = fold (run_server_task env now) (tsq_queue (sv_eventQueue sv)) (sv_world sv),
     sv_eventQueue = (sv_eventQueue sv)\<lparr>tsq_queue := []\<rparr>\<rparr>"
  by (simp add: server_processEvents_def process_all_fold)

end

text \<open>A server whose application registers nothing.\<close>

definition plain_env :: "('ep, 'm) server_world_scheme server_env" where
  "plain_env = \<lparr>se_dispatcher = the new_dispatcher, se_onConnect = None, se_onDisconnect = None,
     se_onMessage = None\<rparr>"

lemma Connect_polite: "polite w (Connect_onReceive now sp () w)"
  unfolding Connect_onReceive_sends
  using polite_on_session[of "send now (connect_ack_packet INTERNAL_CHANNEL_ID (s_id (session_at sp w))) (session_at sp w)" sp w]
  by (simp add: session_wf_send on_session_def)

lemma Disconnect_polite: "polite w (Disconnect_onReceive now sp () w)"
  unfolding Disconnect_onReceive_def
  using polite_on_session[of "disconnect (session_at sp w)" sp w]
  by (simp add: session_wf_disconnect disconnect_def on_session_def)

interpretation plain: server_user plain_env
  by unfold_locales
    (auto simp: plain_env_def new_dispatcher_handlers Connect_polite Disconnect_polite split: if_splits)

end
