(* ===== verification/ServerLife.thy ===== *)
theory ServerLife
  imports NetServer
begin

text \<open>
  What a server does over its life: the periodic update drops exactly the sessions that are
  silent for too long or closed, a datagram touches only the session of its sender, and in every
  reachable state the map of sessions is sound.
\<close>

section \<open>The loop over the sessions\<close>

lemma update_total: "\<exists>s'. update now s = Inr s'"
  using sendAck_total by (auto simp: update_def split: prod.splits)

definition updated :: "time \<Rightarrow> 'ep session \<Rightarrow> 'ep session" where
  "updated now s = (case update now s of Inr s' \<Rightarrow> s' | Inl _ \<Rightarrow> s)"

lemma update_updated: "update now s = Inr (updated now s)"
  using update_total[of now s] by (auto simp: updated_def)

lemma updated_identity [simp]: "identity (updated now s) = identity s"
  using identity_update[OF update_updated] .

lemma updated_wf: "session_wf s \<Longrightarrow> session_wf (updated now s)"
  using session_wf_update[OF update_updated] .

definition stays :: "time \<Rightarrow> int \<Rightarrow> ('ep, 'm) net_world_scheme \<Rightarrow> 'ep \<times> nat \<Rightarrow> bool" where
  "stays now timeout w e \<longleftrightarrow> \<not> is_gone now timeout (session_at (snd e) w)"

definition update_session :: "time \<Rightarrow> 'ep \<times> nat \<Rightarrow> ('ep, 'm) net_world_scheme \<Rightarrow> ('ep, 'm) net_world_scheme" where
  "update_session now e w = on_session (snd e) (updated now) w"

lemma sweep_spec:
  assumes "distinct (map snd es)"
  shows "sweep now timeout es w =
    Inr (map snd (filter (\<lambda>e. \<not> stays now timeout w e) es), filter (stays now timeout w) es,
         fold (update_session now) (filter (stays now timeout w) es) w)"
  using assms
proof (induction es arbitrary: w)
  case (Cons e es)
  obtain ep sp where e: "e = (ep, sp)" by fastforce
  let ?w = "on_session sp (updated now) w"
  have other: "stays now timeout ?w d = stays now timeout w d" if "d \<in> set es" for d
  proof -
    have "snd d \<noteq> sp" using that Cons.prems e by force
    then show ?thesis by (simp add: stays_def)
  qed
  then have f: "filter (stays now timeout ?w) es = filter (stays now timeout w) es"
    "filter (\<lambda>d. \<not> stays now timeout ?w d) es = filter (\<lambda>d. \<not> stays now timeout w d) es"
    by (auto intro: filter_cong)
  have w: "on_session sp (\<lambda>_. updated now (session_at sp w)) w = ?w"
    by (simp add: on_session_def)
  show ?case
    using Cons.IH[of w] Cons.IH[of ?w] Cons.prems
    by (simp add: f w e update_updated stays_def[of now timeout w "(ep, sp)"] update_session_def)
qed simp

lemma updates_polite: "polite w (fold (update_session now) es w)"
proof (induction es rule: rev_induct)
  case (snoc e es)
  let ?w = "fold (update_session now) es w"
  have "polite ?w (on_session (snd e) (\<lambda>_. updated now (session_at (snd e) ?w)) ?w)"
    by (rule polite_on_session) (simp_all add: updated_wf)
  then have "polite ?w (update_session now e ?w)"
    by (simp add: update_session_def on_session_def)
  then show ?case using polite_trans[OF snoc] by simp
qed simp

lemma updates_at:
  assumes "distinct (map snd es)" and "\<forall>e \<in> set es. snd e < length (nw_sessions w)"
  shows "session_at sp (fold (update_session now) es w) =
    (if sp \<in> snd ` set es then updated now (session_at sp w) else session_at sp w)"
  using assms
proof (induction es arbitrary: w)
  case (Cons e es)
  have "\<forall>d \<in> set es. snd d < length (nw_sessions (update_session now e w))"
    using Cons.prems(2) by (simp add: update_session_def)
  with Cons show ?case
    by (auto simp: update_session_def session_at_on_session)
qed simp

section \<open>Soundness of the map\<close>

lemma world_wf_lookup:
  assumes "world_wf w" and "map_of (sv_sessions w) ep = Some sp"
  shows "sp < length (nw_sessions w)" and "s_endpoint (session_at sp w) = ep"
    and "session_wf (session_at sp w)"
  using assms by (auto simp: world_wf_def session_at_def)

lemma world_wf_entry:
  assumes "world_wf w" and "e \<in> set (sv_sessions w)"
  shows "map_of (sv_sessions w) (fst e) = Some (snd e)"
  using assms by (simp add: world_wf_def om_wf_distinct)

lemma world_wf_distinct:
  assumes "world_wf w"
  shows "distinct (map snd (sv_sessions w))"
proof -
  have "inj_on snd (set (sv_sessions w))"
  proof (rule inj_onI)
    fix d e
    assume de: "d \<in> set (sv_sessions w)" "e \<in> set (sv_sessions w)" "snd d = snd e"
    have "fst d = fst e"
      using world_wf_lookup(2)[OF assms world_wf_entry[OF assms de(1)]]
        world_wf_lookup(2)[OF assms world_wf_entry[OF assms de(2)]] de(3) by simp
    with de(3) show "d = e" by (simp add: prod_eq_iff)
  qed
  moreover have "distinct (sv_sessions w)"
    using assms om_wf_distinct distinct_map unfolding world_wf_def by blast
  ultimately show ?thesis by (simp add: distinct_map)
qed

lemma om_wf_filter: "om_wf m \<Longrightarrow> om_wf (filter P m)"
  by (simp add: om_wf_def sorted_wrt_map sorted_wrt_filter)

lemma map_of_filter:
  "distinct (map fst m) \<Longrightarrow>
    map_of (filter P m) k = (case map_of m k of Some v \<Rightarrow> if P (k, v) then Some v else None | None \<Rightarrow> None)"
  by (induction m) (auto simp: map_of_eq_None_iff image_iff split: option.split)

lemma world_wf_filter:
  assumes "world_wf w"
  shows "world_wf (w\<lparr>sv_sessions := filter P (sv_sessions w)\<rparr>)"
proof -
  have d: "distinct (map fst (sv_sessions w))" using assms by (simp add: world_wf_def om_wf_distinct)
  show ?thesis
    using assms om_wf_filter[of "sv_sessions w" P]
    by (auto simp: world_wf_def map_of_filter[OF d] session_at_def split: option.splits if_splits)
qed

lemma server_wfD:
  assumes "server_wf sv"
  shows "world_wf (sv_world sv)"
    and "\<forall>task \<in> set (tsq_queue (sv_eventQueue sv)). task_session task < length (nw_sessions (sv_world sv))"
  using assms by (simp_all add: server_wf_def)

lemma server_wf_polite:
  assumes "server_wf sv" and "polite (sv_world sv) w"
  shows "server_wf (sv\<lparr>sv_world := w\<rparr>)"
  using assms polite_world_wf[OF assms(2)] polite_length[OF assms(2)] by (simp add: server_wf_def)

section \<open>Update\<close>

context server_user
begin

lemma update_spec:
  fixes now :: time and timeout :: int
  assumes "server_wf sv"
  defines "w1 \<equiv> fold (run_server_task env now) (tsq_queue (sv_eventQueue sv)) (sv_world sv)"
  defines "kept \<equiv> filter (stays now timeout w1) (sv_sessions (sv_world sv))"
    and "gone \<equiv> map snd (filter (\<lambda>e. \<not> stays now timeout w1 e) (sv_sessions (sv_world sv)))"
  shows "server_update env now timeout sv = Inr
    \<lparr>sv_world = fold (notify_disconnect env now) gone ((fold (update_session now) kept w1)\<lparr>sv_sessions := kept\<rparr>),
     sv_eventQueue = (sv_eventQueue sv)\<lparr>tsq_queue := []\<rparr>\<rparr>"
proof -
  have w1: "polite (sv_world sv) w1"
    unfolding w1_def by (rule tasks_polite[OF server_wfD(2)[OF assms(1)]])
  then have same: "sv_sessions w1 = sv_sessions (sv_world sv)" by (simp add: polite_def)
  have "distinct (map snd (sv_sessions w1))"
    using world_wf_distinct server_wfD(1)[OF assms(1)] same by simp
  from sweep_spec[OF this, of now timeout w1] show ?thesis
    by (simp add: server_update_def events_run w1_def[symmetric] same kept_def gone_def)
qed

lemma update_wf:
  assumes "server_wf sv" and "server_update env now timeout sv = Inr sv'"
  shows "server_wf sv'"
proof -
  define w1 where "w1 = fold (run_server_task env now) (tsq_queue (sv_eventQueue sv)) (sv_world sv)"
  define kept where "kept = filter (stays now timeout w1) (sv_sessions (sv_world sv))"
  define gone where "gone = map snd (filter (\<lambda>e. \<not> stays now timeout w1 e) (sv_sessions (sv_world sv)))"
  define w2 where "w2 = fold (update_session now) kept w1"
  have w1: "polite (sv_world sv) w1"
    unfolding w1_def by (rule tasks_polite[OF server_wfD(2)[OF assms(1)]])
  have w2: "polite w1 w2" unfolding w2_def by (rule updates_polite)
  have "polite (sv_world sv) w2" by (rule polite_trans[OF w1 w2])
  then have wf2: "world_wf w2" and s2: "sv_sessions w2 = sv_sessions (sv_world sv)"
    using polite_world_wf server_wfD(1)[OF assms(1)] by (simp_all add: polite_def)
  then have wf3: "world_wf (w2\<lparr>sv_sessions := kept\<rparr>)"
    using world_wf_filter[OF wf2, of "stays now timeout w1"] by (simp add: kept_def)
  have "\<forall>sp \<in> set gone. sp < length (nw_sessions (w2\<lparr>sv_sessions := kept\<rparr>))"
    using world_wf_lookup(1)[OF wf2 world_wf_entry[OF wf2]] s2 by (auto simp: gone_def)
  from polite_world_wf[OF notify_polite[OF this] wf3]
  have "world_wf (fold (notify_disconnect env now) gone (w2\<lparr>sv_sessions := kept\<rparr>))" .
  with assms(2) show ?thesis
    using update_spec[OF assms(1), of now timeout]
    by (auto simp: server_wf_def w1_def kept_def gone_def w2_def)
qed

end

section \<open>Receiving\<close>

lemma push_packets_queue:
  "tsq_queue (push_packets sp ps q) = tsq_queue q @ map (Task_packet sp) ps"
  by (induction ps arbitrary: q) (simp_all add: push_packets_def tsq_push_def)

lemma resend_connect_ack_sends:
  "resend_connect_ack now sp w = on_session sp (send now (connect_ack_packet 0 (s_id (session_at sp w)))) w"
  using write_connect_ack_ok[of "s_id (session_at sp w)" 0]
  by (simp add: resend_connect_ack_def internal_traits_defs getFlag_def)

lemma send_polite: "polite w (on_session sp (send now p) w)"
  using polite_on_session[of "send now p (session_at sp w)" sp w]
  by (simp add: session_wf_send on_session_def)

lemma process_result:
  assumes "server_process now sp data sv = Inr sv'"
  obtains ps s where "handleIncoming now data (session_at sp (sv_world sv)) = Inr (ps, s)"
    and "sv_world sv' = on_session sp (\<lambda>_. s) (sv_world sv)"
    and "tsq_queue (sv_eventQueue sv') = tsq_queue (sv_eventQueue sv) @ map (Task_packet sp) ps"
  using assms by (auto simp: server_process_def try_bind_Inr_iff push_packets_queue)

lemma process_wf:
  assumes "server_wf sv" and "sp < length (nw_sessions (sv_world sv))"
    and "server_process now sp data sv = Inr sv'"
  shows "server_wf sv'"
proof -
  obtain ps s where r: "handleIncoming now data (session_at sp (sv_world sv)) = Inr (ps, s)"
    "sv_world sv' = on_session sp (\<lambda>_. s) (sv_world sv)"
    "tsq_queue (sv_eventQueue sv') = tsq_queue (sv_eventQueue sv) @ map (Task_packet sp) ps"
    using process_result[OF assms(3)] .
  have "polite (sv_world sv) (sv_world sv')"
    unfolding r(2)
    by (rule polite_on_session) (use r(1) in \<open>auto intro: identity_handleIncoming session_wf_handleIncoming\<close>)
  then have "world_wf (sv_world sv')"
    using polite_world_wf server_wfD(1)[OF assms(1)] by blast
  with r(2,3) assms(2) server_wfD(2)[OF assms(1)] show ?thesis
    by (auto simp: server_wf_def task_session_def)
qed

definition accept_session ::
    "time \<Rightarrow> 'ep::linorder \<Rightarrow> ('ep, 'm) server_world_scheme server \<Rightarrow> ('ep, 'm) server_world_scheme server" where
  "accept_session now sender sv =
     (case make_session now sender (sv_world sv) of (sp, w) \<Rightarrow>
        sv\<lparr>sv_world := w\<lparr>sv_sessions := om_put sender sp (sv_sessions w)\<rparr>,
           sv_eventQueue := tsq_push (Task_onConnect sp) (sv_eventQueue sv)\<rparr>)"

lemma accept_wf:
  assumes "server_wf sv"
  shows "server_wf (accept_session now sender sv)"
proof -
  let ?w = "sv_world sv" and ?sv = "accept_session now sender sv"
  let ?n = "length (nw_sessions ?w)"
  have sessions: "nw_sessions (sv_world ?sv) =
      nw_sessions ?w @ [new_session (nw_globalSessionIdCounter ?w) sender True now]"
    and map: "sv_sessions (sv_world ?sv) = om_put sender ?n (sv_sessions ?w)"
    by (simp_all add: accept_session_def make_session_def)
  have old: "session_at sp (sv_world ?sv) = session_at sp ?w" if "sp < ?n" for sp
    using that sessions by (simp add: session_at_def nth_append)
  have new: "s_endpoint (session_at ?n (sv_world ?sv)) = sender"
    using sessions by (simp add: session_at_def new_session_def)
  have "world_wf (sv_world ?sv)"
    using server_wfD(1)[OF assms] old new unfolding world_wf_def map sessions
    by (auto simp: less_SucI)
  moreover have "\<forall>task \<in> set (tsq_queue (sv_eventQueue ?sv)). task_session task < length (nw_sessions (sv_world ?sv))"
    using server_wfD(2)[OF assms] sessions
    by (auto simp: accept_session_def make_session_def tsq_push_def task_session_def less_SucI)
  ultimately show ?thesis by (simp add: server_wf_def)
qed

lemma onReceive_cases:
  assumes "server_onReceive now sender data sv = Inr sv'"
  obtains (known_connect) sp where "map_of (sv_sessions (sv_world sv)) sender = Some sp"
      "is_message (system_id kConnect) data"
      "sv' = sv\<lparr>sv_world := resend_connect_ack now sp (sv_world sv)\<rparr>"
  | (known) sp where "map_of (sv_sessions (sv_world sv)) sender = Some sp"
      "\<not> is_message (system_id kConnect) data" "server_process now sp data sv = Inr sv'"
  | (ignored) "map_of (sv_sessions (sv_world sv)) sender = None"
      "\<not> is_message (system_id kConnect) data" "sv' = sv"
  | (accepted) "map_of (sv_sessions (sv_world sv)) sender = None"
      "is_message (system_id kConnect) data"
      "server_process now (length (nw_sessions (sv_world sv))) data (accept_session now sender sv) = Inr sv'"
  using assms
  by (auto simp: server_onReceive_def Let_def internal_traits_defs accept_session_def make_session_def
      split: option.splits if_splits)

section \<open>Reachable servers\<close>

inductive server_reachable ::
    "('ep::linorder, 'm) server_world_scheme server_env \<Rightarrow> ('ep, 'm) server_world_scheme server \<Rightarrow> bool"
  for env where
  server_start: "nw_sessions w = [] \<Longrightarrow> sv_sessions w = [] \<Longrightarrow> server_reachable env (new_server w)"
| server_received: "server_reachable env sv \<Longrightarrow> server_onReceive now sender data sv = Inr sv' \<Longrightarrow>
    server_reachable env sv'"
| server_updated: "server_reachable env sv \<Longrightarrow> server_update env now timeout sv = Inr sv' \<Longrightarrow>
    server_reachable env sv'"
| server_sent: "server_reachable env sv \<Longrightarrow>
    server_reachable env (sv\<lparr>sv_world := on_session sp (send now p) (sv_world sv)\<rparr>)"
| server_closed: "server_reachable env sv \<Longrightarrow>
    server_reachable env (sv\<lparr>sv_world := on_session sp disconnect (sv_world sv)\<rparr>)"

lemma new_server_wf: "nw_sessions w = [] \<Longrightarrow> sv_sessions w = [] \<Longrightarrow> server_wf (new_server w)"
  by (simp add: server_wf_def new_server_def world_wf_def tsq_new_def)

lemma onReceive_wf:
  assumes "server_wf sv" and "server_onReceive now sender data sv = Inr sv'"
  shows "server_wf sv'"
  using assms(2)
proof (cases rule: onReceive_cases)
  case (known_connect sp)
  with server_wf_polite[OF assms(1) send_polite] show ?thesis
    by (simp add: resend_connect_ack_sends)
next
  case (known sp)
  then show ?thesis
    using process_wf[OF assms(1)] world_wf_lookup(1)[OF server_wfD(1)[OF assms(1)]] by blast
next
  case ignored
  with assms(1) show ?thesis by simp
next
  case accepted
  have "length (nw_sessions (sv_world sv)) < length (nw_sessions (sv_world (accept_session now sender sv)))"
    by (simp add: accept_session_def make_session_def)
  with accepted show ?thesis using process_wf[OF accept_wf[OF assms(1)]] by blast
qed

lemma disconnect_polite: "polite w (on_session sp disconnect w)"
  using polite_on_session[of "disconnect (session_at sp w)" sp w]
  by (simp add: session_wf_disconnect disconnect_def on_session_def)

text \<open>\<open>sendTo\<close> and \<open>broadcast\<close> are such sends.\<close>

lemma sendTo_reachable:
  "server_reachable env sv \<Longrightarrow> server_internal_sendTo t wr now sp data (sv_world sv) = Inr w \<Longrightarrow>
    server_reachable env (sv\<lparr>sv_world := w\<rparr>)"
  by (auto simp: server_internal_sendTo_def try_bind_Inr_iff intro: server_sent)

lemma broadcast_reachable:
  "server_reachable env sv \<Longrightarrow>
    server_reachable env (sv\<lparr>sv_world := snd (broadcast_loop t wr now data sps (sv_world sv))\<rparr>)"
proof (induction sps arbitrary: sv)
  case (Cons sp sps)
  show ?case
  proof (cases "server_internal_sendTo t wr now sp data (sv_world sv)")
    case (Inr w)
    with Cons.IH[OF sendTo_reachable[OF Cons.prems Inr]] show ?thesis by simp
  qed (simp add: Cons.prems)
qed simp

text \<open>Whatever the network delivers and the application sends, broadcasts and closes, the map of
  a server stays sound: its keys are sorted and unique, each names a session whose endpoint is
  that key, every session is well-formed, and every queued task names an existing session.\<close>

theorem server_always_wf:
  assumes "server_user env" and "server_reachable env sv"
  shows "server_wf sv"
  using assms(2)
proof (induction rule: server_reachable.induct)
  case (server_start w)
  then show ?case by (rule new_server_wf)
next
  case (server_received sv now sender data sv')
  then show ?case by (blast intro: onReceive_wf)
next
  case (server_updated sv now timeout sv')
  then show ?case using server_user.update_wf[OF assms(1)] by blast
next
  case (server_sent sv sp now p)
  from server_sent.IH send_polite show ?case by (rule server_wf_polite)
next
  case (server_closed sv sp)
  from server_closed.IH disconnect_polite show ?case by (rule server_wf_polite)
qed

text \<open>A datagram concerns its sender only.  Every other endpoint keeps its session, in the state
  it had; an endpoint gains a session exactly by a \<open>CONNECT\<close>, anything else from a stranger
  changes nothing at all; and the tasks that are queued are all about the session of the sender.\<close>

theorem datagram_touches_sender_only:
  assumes "server_wf sv" and "server_onReceive now sender data sv = Inr sv'"
  shows "(\<forall>ep. ep \<noteq> sender \<longrightarrow>
      map_of (sv_sessions (sv_world sv')) ep = map_of (sv_sessions (sv_world sv)) ep \<and>
      (\<forall>sp. map_of (sv_sessions (sv_world sv)) ep = Some sp \<longrightarrow>
         session_at sp (sv_world sv') = session_at sp (sv_world sv))) \<and>
    (map_of (sv_sessions (sv_world sv)) sender = None \<and> \<not> is_message 2 data \<longrightarrow> sv' = sv) \<and>
    (map_of (sv_sessions (sv_world sv)) sender \<noteq> None \<or> is_message 2 data \<longrightarrow>
      (\<exists>sp tasks. map_of (sv_sessions (sv_world sv')) sender = Some sp \<and>
        tsq_queue (sv_eventQueue sv') = tsq_queue (sv_eventQueue sv) @ tasks \<and>
        (\<forall>task \<in> set tasks. task_session task = sp)))"
proof -
  have other: "spa \<noteq> sp"
    if "map_of (sv_sessions (sv_world sv)) sender = Some sp"
      "ep \<noteq> sender" "map_of (sv_sessions (sv_world sv)) ep = Some spa" for ep spa sp
    using that world_wf_lookup(2)[OF server_wfD(1)[OF assms(1)]] by blast
  show ?thesis
    using assms(2)
  proof (cases rule: onReceive_cases)
    case (known_connect sp)
    with other[OF known_connect(1)] show ?thesis by (auto simp: resend_connect_ack_sends)
  next
    case (known sp)
    from known(3) obtain ps s where "sv_world sv' = on_session sp (\<lambda>_. s) (sv_world sv)"
      "tsq_queue (sv_eventQueue sv') = tsq_queue (sv_eventQueue sv) @ map (Task_packet sp) ps"
      by (rule process_result)
    with known(1,2) other[OF known(1)] show ?thesis by (auto simp: task_session_def)
  next
    case ignored
    then show ?thesis by simp
  next
    case accepted
    let ?n = "length (nw_sessions (sv_world sv))"
    have "session_at q (sv_world (accept_session now sender sv)) = session_at q (sv_world sv)" if "q < ?n" for q
      using that by (simp add: accept_session_def make_session_def session_at_def nth_append)
    moreover have "sp < ?n" if "map_of (sv_sessions (sv_world sv)) ep = Some sp" for ep sp
      using world_wf_lookup(1)[OF server_wfD(1)[OF assms(1)] that] .
    ultimately have "session_at sp (on_session ?n f (sv_world (accept_session now sender sv))) = session_at sp (sv_world sv)"
      if "map_of (sv_sessions (sv_world sv)) ep = Some sp" for ep sp f
      using that by (metis less_irrefl session_at_other)
    with accepted show ?thesis
      by (elim process_result)
        (auto simp: accept_session_def make_session_def tsq_push_def task_session_def)
  qed
qed

text \<open>One \<open>update\<close> of a server runs the queued tasks in their order (which leads to the world
  \<open>w1\<close>), drops exactly the sessions that have then been silent for longer than the timeout or are
  marked as closed, runs the periodic update of each session that stays (which leads to \<open>w2\<close>), and
  reports every dropped session once to \<open>onDisconnect\<close>.  It never fails.\<close>

theorem server_update_drops:
  assumes "server_user env" and "server_wf sv"
  shows "\<exists>sv' w1 w2 gone. server_update env now timeout sv = Inr sv' \<and>
    w1 = fold (run_server_task env now) (tsq_queue (sv_eventQueue sv)) (sv_world sv) \<and>
    (\<forall>ep sp. map_of (sv_sessions w2) ep = Some sp \<longleftrightarrow> map_of (sv_sessions (sv_world sv)) ep = Some sp \<and>
       (now - lastSeen (session_at sp w1)) div 1000000 \<le> timeout \<and> \<not> s_shouldClose (session_at sp w1)) \<and>
    (\<forall>ep sp. map_of (sv_sessions w2) ep = Some sp \<longrightarrow> update now (session_at sp w1) = Inr (session_at sp w2)) \<and>
    distinct gone \<and>
    (\<forall>sp. sp \<in> set gone \<longleftrightarrow> (\<exists>ep. map_of (sv_sessions (sv_world sv)) ep = Some sp \<and>
       map_of (sv_sessions w2) ep = None)) \<and>
    sv_world sv' = fold (notify_disconnect env now) gone w2 \<and>
    tsq_queue (sv_eventQueue sv') = []"
proof -
  define w1 where "w1 = fold (run_server_task env now) (tsq_queue (sv_eventQueue sv)) (sv_world sv)"
  let ?m = "sv_sessions (sv_world sv)"
  define kept where "kept = filter (stays now timeout w1) ?m"
  define gone where "gone = map snd (filter (\<lambda>e. \<not> stays now timeout w1 e) ?m)"
  define w2 where "w2 = (fold (update_session now) kept w1)\<lparr>sv_sessions := kept\<rparr>"
  have wf: "world_wf (sv_world sv)" by (rule server_wfD(1)[OF assms(2)])
  have keys: "distinct (map fst ?m)" using wf by (simp add: world_wf_def om_wf_distinct)
  have places: "distinct (map snd ?m)" by (rule world_wf_distinct[OF wf])
  have w1: "polite (sv_world sv) w1"
    unfolding w1_def by (rule server_user.tasks_polite[OF assms(1) server_wfD(2)[OF assms(2)]])
  have entry: "e \<in> set ?m \<longleftrightarrow> map_of ?m (fst e) = Some (snd e)" for e
    using world_wf_entry[OF wf] map_of_SomeD[of ?m "fst e" "snd e"] by auto
  have lookup: "map_of (sv_sessions w2) ep = Some sp \<longleftrightarrow> map_of ?m ep = Some sp \<and> stays now timeout w1 (ep, sp)" for ep sp
    by (auto simp: w2_def kept_def map_of_filter[OF keys] split: option.splits)
  have none: "map_of (sv_sessions w2) ep = None \<longleftrightarrow>
      (\<forall>sp. map_of ?m ep = Some sp \<longrightarrow> \<not> stays now timeout w1 (ep, sp))" for ep
    by (auto simp: w2_def kept_def map_of_filter[OF keys] split: option.splits)
  have "distinct (map snd kept)"
    using places unfolding kept_def by (rule distinct_map_filter)
  moreover have "\<forall>e \<in> set kept. snd e < length (nw_sessions w1)"
    using world_wf_lookup(1)[OF wf world_wf_entry[OF wf]] polite_length[OF w1] by (auto simp: kept_def)
  ultimately have upd: "session_at sp w2 = updated now (session_at sp w1)" if "sp \<in> snd ` set kept" for sp
    using that updates_at[of kept w1 sp now] by (simp add: w2_def session_at_def)
  have updates: "\<forall>ep sp. map_of (sv_sessions w2) ep = Some sp \<longrightarrow> update now (session_at sp w1) = Inr (session_at sp w2)"
  proof (intro allI impI)
    fix ep sp
    assume "map_of (sv_sessions w2) ep = Some sp"
    then have "(ep, sp) \<in> set kept" using map_of_SomeD by (fastforce simp: w2_def)
    then have "sp \<in> snd ` set kept" by force
    from upd[OF this] show "update now (session_at sp w1) = Inr (session_at sp w2)"
      by (simp add: update_updated)
  qed
  have once: "distinct gone" using places unfolding gone_def by (rule distinct_map_filter)
  have dropped: "\<forall>sp. sp \<in> set gone \<longleftrightarrow> (\<exists>ep. map_of ?m ep = Some sp \<and> map_of (sv_sessions w2) ep = None)"
    using entry by (force simp: gone_def none)
  have result: "server_update env now timeout sv = Inr
      \<lparr>sv_world = fold (notify_disconnect env now) gone w2, sv_eventQueue = (sv_eventQueue sv)\<lparr>tsq_queue := []\<rparr>\<rparr>"
    unfolding w1_def kept_def gone_def w2_def by (rule server_user.update_spec[OF assms])
  have stay: "\<forall>ep sp. map_of (sv_sessions w2) ep = Some sp \<longleftrightarrow> map_of ?m ep = Some sp \<and>
      (now - lastSeen (session_at sp w1)) div 1000000 \<le> timeout \<and> \<not> s_shouldClose (session_at sp w1)"
    by (simp add: lookup stays_def is_gone_def model_defs not_less)
  show ?thesis
    by (rule exI, rule exI[of _ w1], rule exI[of _ w2], rule exI[of _ gone],
        intro conjI, rule result, rule w1_def, rule stay, rule updates, rule once, rule dropped) simp_all
qed

end
