(* ===== verification/NetClient.thy ===== *)
theory NetClient
  imports Dispatcher Peer
begin

text \<open>
  The class \<open>Client\<close> (\<^verbatim>\<open>lib/rtnt/include/rtnt/core/client.hpp\<close>,
  \<^verbatim>\<open>lib/rtnt/src/core/client.cpp\<close>): the handshake with one server, its retries, and the
  periodic update.  The record of a client is extensible by what the application keeps; what the
  application registers is the environment.  A callback may call the public operations, so the
  loop over the event queue can go on for ever (a callback that disconnects queues an event); it is
  a partial function.  An instant \<open>now\<close> is read once per operation.
\<close>

section \<open>State\<close>

definition MAX_RECONNECTION_ATTEMPTS :: u8 where "MAX_RECONNECTION_ATTEMPTS = 3"
definition RECONNECTION_TIMEOUT :: time where "RECONNECTION_TIMEOUT = milliseconds 2000"

datatype client_task = Task_onDisconnect | Task_received nat packet

record 'ep client = "'ep net_world" +
  cl_peer :: "'ep peer"
  cl_serverEndpoint :: 'ep
  cl_serverSession :: "nat option"
  cl_eventQueue :: "client_task ts_queue"
  cl_isConnected :: bool
  cl_reconnectionRetries :: u8
  cl_lastConnectionAttemptTime :: time

record 'c client_env =
  ce_dispatcher :: "'c dispatcher"
  ce_onConnect :: "(time \<Rightarrow> 'c \<Rightarrow> 'c) option"
  ce_onDisconnect :: "(time \<Rightarrow> 'c \<Rightarrow> 'c) option"
  ce_onMessage :: "(time \<Rightarrow> packet \<Rightarrow> 'c \<Rightarrow> 'c) option"

section \<open>Connecting\<close>

definition attemptConnection :: "time \<Rightarrow> ('ep, 'm) client_scheme \<Rightarrow> ('ep, 'm) client_scheme" where
  "attemptConnection now c0 =
     (case make_session now (cl_serverEndpoint c0) c0 of (sp, c1) \<Rightarrow>
        let c = c1\<lparr>cl_serverSession := Some sp, cl_lastConnectionAttemptTime := now\<rparr> in
        keep_on_raise c (session_send connect_traits write_empty now () sp c))"

datatype connect_error = Bad_address

text \<open>\<open>make_address\<close> raises on text that is no address: \<open>None\<close>.\<close>

definition client_connect ::
    "time \<Rightarrow> 'ep option \<Rightarrow> ('ep, 'm) client_scheme \<Rightarrow> connect_error + ('ep, 'm) client_scheme" where
  "client_connect now endpoint c =
     (if cl_isConnected c then Inr c
      else case endpoint of
        None \<Rightarrow> Inl Bad_address
      | Some ep \<Rightarrow>
          Inr (attemptConnection now
            (c\<lparr>cl_serverEndpoint := ep, cl_reconnectionRetries := 0, cl_peer := peer_start (cl_peer c)\<rparr>)))"

definition push_event :: "client_task \<Rightarrow> ('ep, 'm) client_scheme \<Rightarrow> ('ep, 'm) client_scheme" where
  "push_event task c = c\<lparr>cl_eventQueue := tsq_push task (cl_eventQueue c)\<rparr>"

definition client_disconnect :: "time \<Rightarrow> ('ep, 'm) client_scheme \<Rightarrow> ('ep, 'm) client_scheme" where
  "client_disconnect now c =
     (let c1 = (case cl_serverSession c of
                  Some sp \<Rightarrow> if cl_isConnected c
                    then keep_on_raise c (session_send disconnect_traits write_empty now () sp c) else c
                | None \<Rightarrow> c)
      in push_event Task_onDisconnect (c1\<lparr>cl_serverSession := None, cl_isConnected := False\<rparr>))"

section \<open>Handlers and events\<close>

text \<open>The handler that the constructor binds to \<open>CONNECT_ACK\<close>; it calls the callback of the moment.\<close>

definition ConnectAck_handler ::
    "(time \<Rightarrow> ('ep, 'm) client_scheme \<Rightarrow> ('ep, 'm) client_scheme) option \<Rightarrow>
     (connect_ack_msg, ('ep, 'm) client_scheme) callback" where
  "ConnectAck_handler onConnect now _ _ c =
     (if cl_isConnected c then c
      else let c1 = c\<lparr>cl_isConnected := True\<rparr> in
        case onConnect of Some callback \<Rightarrow> callback now c1 | None \<Rightarrow> c1)"

definition client_dispatcher ::
    "(time \<Rightarrow> ('ep, 'm) client_scheme \<Rightarrow> ('ep, 'm) client_scheme) option \<Rightarrow>
     (('ep, 'm) client_scheme) dispatcher option" where
  "client_dispatcher onConnect =
     Option.bind new_dispatcher
       (internal_bind connect_ack_traits read_connect_ack (ConnectAck_handler onConnect))"

text \<open>The constructor; \<open>port\<close> is the local port that the system gives.\<close>

definition new_client :: "u16 \<Rightarrow> 'ep \<Rightarrow> 'ep client" where
  "new_client port no_endpoint =
     \<lparr>nw_sessions = [], nw_globalSessionIdCounter = 0, cl_peer = peer_client port new_peer,
      cl_serverEndpoint = no_endpoint, cl_serverSession = None, cl_eventQueue = tsq_new,
      cl_isConnected = False, cl_reconnectionRetries = 0, cl_lastConnectionAttemptTime = 0\<rparr>"

definition run_client_task ::
    "('ep, 'm) client_scheme client_env \<Rightarrow> time \<Rightarrow> client_task \<Rightarrow> ('ep, 'm) client_scheme \<Rightarrow> ('ep, 'm) client_scheme" where
  "run_client_task env now task c =
     (case task of
        Task_onDisconnect \<Rightarrow>
          (case ce_onDisconnect env of Some callback \<Rightarrow> callback now c | None \<Rightarrow> c)
      | Task_received sp pkt0 \<Rightarrow>
          (case dispatch (ce_dispatcher env) now sp pkt0 c of
             (pkt, c') \<Rightarrow>
               if cl_isConnected c'
               then case ce_onMessage env of Some callback \<Rightarrow> callback now pkt c' | None \<Rightarrow> c'
               else c'))"

partial_function (option) client_processEvents ::
    "('ep, 'm) client_scheme client_env \<Rightarrow> time \<Rightarrow> ('ep, 'm) client_scheme \<Rightarrow> ('ep, 'm) client_scheme option" where
  "client_processEvents env now c =
     (case tsq_pop (cl_eventQueue c) of
        (None, _) \<Rightarrow> Some c
      | (Some task, q) \<Rightarrow> client_processEvents env now (run_client_task env now task (c\<lparr>cl_eventQueue := q\<rparr>)))"

section \<open>The periodic update\<close>

text \<open>The part after the first lock, on the session and the flag that were read under it.\<close>

definition client_service ::
    "time \<Rightarrow> int \<Rightarrow> nat \<Rightarrow> bool \<Rightarrow> ('ep, 'm) client_scheme \<Rightarrow> fault + ('ep, 'm) client_scheme" where
  "client_service now timeout sp isConnected c =
     (if s_shouldClose (session_at sp c) then Inr (client_disconnect now c)
      else if isConnected \<and> (now - lastSeen (session_at sp c)) div milliseconds 1 > timeout
      then Inr (client_disconnect now c)
      else try_bind (update now (session_at sp c)) (\<lambda>s. Inr (on_session sp (\<lambda>_. s) c)))"

definition attempt_failed :: "time \<Rightarrow> nat \<Rightarrow> ('ep, 'm) client_scheme \<Rightarrow> bool" where
  "attempt_failed now sp c \<longleftrightarrow>
     now - cl_lastConnectionAttemptTime c > RECONNECTION_TIMEOUT \<or> s_shouldClose (session_at sp c)"

definition client_maintain ::
    "time \<Rightarrow> int \<Rightarrow> ('ep, 'm) client_scheme \<Rightarrow> fault + ('ep, 'm) client_scheme" where
  "client_maintain now timeout c =
     (case cl_serverSession c of
        None \<Rightarrow> Inr c
      | Some sp \<Rightarrow>
          if \<not> cl_isConnected c \<and> attempt_failed now sp c then
            if cl_reconnectionRetries c < MAX_RECONNECTION_ATTEMPTS
            then Inr (attemptConnection now
                   (c\<lparr>cl_reconnectionRetries := cl_reconnectionRetries c + 1\<rparr>))
            else client_service now timeout sp False (c\<lparr>cl_serverSession := None\<rparr>)
          else client_service now timeout sp (cl_isConnected c) c)"

definition client_update ::
    "('ep, 'm) client_scheme client_env \<Rightarrow> time \<Rightarrow> int \<Rightarrow> ('ep, 'm) client_scheme \<Rightarrow>
     (fault + ('ep, 'm) client_scheme) option" where
  "client_update env now timeout c =
     map_option (client_maintain now timeout) (client_processEvents env now c)"

section \<open>Receiving and sending\<close>

definition client_onReceive ::
    "time \<Rightarrow> 'ep \<Rightarrow> bytes \<Rightarrow> ('ep, 'm) client_scheme \<Rightarrow> fault + ('ep, 'm) client_scheme" where
  "client_onReceive now sender data c =
     (case cl_serverSession c of
        None \<Rightarrow> Inr c
      | Some sp \<Rightarrow>
          if sender \<noteq> cl_serverEndpoint c then Inr c
          else try_bind (handleIncoming now data (session_at sp c)) (\<lambda>(ps, s).
            Inr (fold (\<lambda>p. push_event (Task_received sp p)) ps (on_session sp (\<lambda>_. s) c))))"

definition client_internal_send ::
    "packet_traits \<Rightarrow> 'a writer \<Rightarrow> time \<Rightarrow> 'a \<Rightarrow> ('ep, 'm) client_scheme \<Rightarrow> rt_error + ('ep, 'm) client_scheme" where
  "client_internal_send t wr now data c =
     (case cl_serverSession c of
        None \<Rightarrow> Inr c
      | Some sp \<Rightarrow>
          try_bind (wr data (new_packet (t_kId t) (getFlag t) (getChannelId t)))
            (\<lambda>p. Inr (on_session sp (send now p) c)))"

definition client_send ::
    "packet_traits \<Rightarrow> 'a writer \<Rightarrow> time \<Rightarrow> 'a \<Rightarrow> ('ep, 'm) client_scheme \<Rightarrow>
     (rt_error + ('ep, 'm) client_scheme) option" where
  "client_send t wr now data c =
     (if verifyUserPacketData t then Some (client_internal_send t wr now data c) else None)"

end
