(* ===== verification/ClientLife.thy ===== *)
theory ClientLife
  imports NetClient
begin

text \<open>
  What a client does when no answer comes: the attempts to connect are bounded, and it gives up.
  And what it does with an answer that is queued when the user disconnects.
\<close>

section \<open>A session that only sent its request\<close>

definition connect_packet :: packet where
  "connect_packet = new_packet (system_id kConnect) kUnreliable INTERNAL_CHANNEL_ID"

definition requesting :: "u32 \<Rightarrow> 'ep \<Rightarrow> time \<Rightarrow> 'ep session" where
  "requesting i ep now = send now connect_packet (new_session i ep True now)"

lemma update_idle: "sentPackets s = [] \<Longrightarrow> \<not> hasUnsentAck s \<Longrightarrow> update now s = Inr s"
  by (simp add: update_def)

lemma requesting_simps [simp]:
  "sentPackets (requesting i ep now) = []"
  "hasUnsentAck (requesting i ep now) = False"
  "s_shouldClose (requesting i ep now) = False"
  "hasReceivedRemotePacket (requesting i ep now) = False"
  "pendingRichAcks (requesting i ep now) = []"
  "packetsSinceLastAck (requesting i ep now) = 0"
  "localSequenceId (requesting i ep now) = 1"
  "s_sent (requesting i ep now) = [datagram connect_packet 0 0 (new_session i ep True now)]"
  "s_endpoint (requesting i ep now) = ep"
  by (simp_all add: requesting_def send_def rawSend_def Let_def connect_packet_def new_packet_def
      new_session_def is_ordered_def flag_defs next_order_id_def datagram_def outgoing_header_def)

definition is_request :: "'ep session \<Rightarrow> bool" where
  "is_request s \<longleftrightarrow> (\<exists>i ep t. s = requesting i ep t)"

lemma is_request [simp]: "is_request (requesting i ep t)"
  unfolding is_request_def by blast

lemma attempt_result:
  "attemptConnection now c = c
    \<lparr>nw_sessions := nw_sessions c @
       [requesting (nw_globalSessionIdCounter c) (cl_serverEndpoint c) now],
     nw_globalSessionIdCounter := nw_globalSessionIdCounter c + 1,
     cl_serverSession := Some (length (nw_sessions c)), cl_lastConnectionAttemptTime := now\<rparr>"
  by (simp add: attemptConnection_def make_session_def session_send_def send_empty keep_on_raise_def
      on_session_def session_at_def internal_traits_defs getFlag_def getChannelId_def requesting_def
      connect_packet_def)

lemma no_events: "tsq_queue (cl_eventQueue c) = [] \<Longrightarrow> client_processEvents env now c = Some c"
  by (subst client_processEvents.simps) (simp add: tsq_pop_def)

section \<open>Retries\<close>

text \<open>The state between two attempts: \<open>n\<close> sessions came before, and there were \<open>r\<close> retries.\<close>

definition waiting :: "nat \<Rightarrow> nat \<Rightarrow> ('ep, 'm) client_scheme \<Rightarrow> bool" where
  "waiting n r c \<longleftrightarrow>
     \<not> cl_isConnected c \<and> tsq_queue (cl_eventQueue c) = [] \<and>
     length (nw_sessions c) = Suc (n + r) \<and> r \<le> 3 \<and> cl_reconnectionRetries c = word_of_nat r \<and>
     cl_serverSession c = Some (n + r) \<and>
     (\<forall>sp. n \<le> sp \<and> sp \<le> n + r \<longrightarrow> is_request (session_at sp c))"

definition gave_up :: "nat \<Rightarrow> ('ep, 'm) client_scheme \<Rightarrow> bool" where
  "gave_up n c \<longleftrightarrow>
     \<not> cl_isConnected c \<and> tsq_queue (cl_eventQueue c) = [] \<and> length (nw_sessions c) = n + 4 \<and>
     cl_serverSession c = None \<and>
     (\<forall>sp. n \<le> sp \<and> sp \<le> n + 3 \<longrightarrow> is_request (session_at sp c))"

lemma connect_waits:
  assumes "client_connect now (Some ep) c = Inr c'" and "\<not> cl_isConnected c"
    and "tsq_queue (cl_eventQueue c) = []"
  shows "waiting (length (nw_sessions c)) 0 c'" and "cl_lastConnectionAttemptTime c' = now"
  using assms by (auto simp: client_connect_def attempt_result waiting_def session_at_def)

lemma service_idle:
  assumes "is_request (session_at sp c)"
  shows "client_service now timeout sp False c = Inr c"
proof -
  have "on_session sp (\<lambda>_. session_at sp c) c = c"
    by (simp add: on_session_def session_at_def)
  with assms show ?thesis by (auto simp: client_service_def update_idle is_request_def)
qed

lemma less_three: "r \<le> 3 \<Longrightarrow> (word_of_nat r :: u8) < MAX_RECONNECTION_ATTEMPTS \<longleftrightarrow> r < 3"
  by (simp add: MAX_RECONNECTION_ATTEMPTS_def unat_less_iff unat_of_nat)

lemma maintain_waiting:
  assumes "waiting n r c"
  shows "\<exists>c'. client_maintain now timeout c = Inr c' \<and>
    (if now - cl_lastConnectionAttemptTime c > RECONNECTION_TIMEOUT
     then if r < 3 then waiting n (Suc r) c' \<and> cl_lastConnectionAttemptTime c' = now else gave_up n c'
     else waiting n r c' \<and> cl_lastConnectionAttemptTime c' = cl_lastConnectionAttemptTime c)"
proof -
  have s: "is_request (session_at (n + r) c)" using assms by (simp add: waiting_def)
  then have open_session: "\<not> s_shouldClose (session_at (n + r) c)" by (auto simp: is_request_def)
  have w: "cl_serverSession c = Some (n + r)" "\<not> cl_isConnected c"
    "length (nw_sessions c) = Suc (n + r)" "r \<le> 3" "cl_reconnectionRetries c = word_of_nat r"
    using assms by (simp_all add: waiting_def)
  consider (early) "\<not> now - cl_lastConnectionAttemptTime c > RECONNECTION_TIMEOUT"
    | (retry) "now - cl_lastConnectionAttemptTime c > RECONNECTION_TIMEOUT" "r < 3"
    | (stop) "now - cl_lastConnectionAttemptTime c > RECONNECTION_TIMEOUT" "r = 3"
    using w(4) by linarith
  then show ?thesis
  proof cases
    case early
    then have "client_maintain now timeout c = Inr c"
      using w open_session service_idle[OF s] by (simp add: client_maintain_def attempt_failed_def)
    with early assms show ?thesis by simp
  next
    case retry
    let ?c = "attemptConnection now (c\<lparr>cl_reconnectionRetries := cl_reconnectionRetries c + 1\<rparr>)"
    have "client_maintain now timeout c = Inr ?c"
      using retry w by (simp add: client_maintain_def attempt_failed_def less_three)
    moreover have "waiting n (Suc r) ?c"
      unfolding waiting_def
      using assms retry(2) by (auto simp: waiting_def attempt_result session_at_def nth_append le_Suc_eq)
    ultimately show ?thesis using retry by (simp add: attempt_result)
  next
    case stop
    let ?c = "c\<lparr>cl_serverSession := None\<rparr>"
    have "is_request (session_at (n + r) ?c)" using s by (simp add: session_at_def)
    then have "client_maintain now timeout c = Inr ?c"
      using stop w less_three[of r] service_idle[of "n + r" ?c]
      by (simp add: client_maintain_def attempt_failed_def)
    moreover have "gave_up n ?c"
      using assms stop by (simp add: waiting_def gave_up_def session_at_def)
    ultimately show ?thesis using stop by simp
  qed
qed

lemma maintain_gave_up: "gave_up n c \<Longrightarrow> client_maintain now timeout c = Inr c"
  by (simp add: gave_up_def client_maintain_def)

text \<open>A run of periodic updates at the given instants.\<close>

primrec run_updates ::
    "('ep, 'm) client_scheme client_env \<Rightarrow> int \<Rightarrow> time list \<Rightarrow> ('ep, 'm) client_scheme \<Rightarrow>
     ('ep, 'm) client_scheme option" where
  "run_updates env timeout [] c = Some c"
| "run_updates env timeout (t # ts) c =
     (case client_update env t timeout c of
        Some (Inr c') \<Rightarrow> run_updates env timeout ts c'
      | _ \<Rightarrow> None)"

lemma run_quiet_step:
  assumes "tsq_queue (cl_eventQueue c) = []" and "client_maintain t timeout c = Inr c'"
  shows "run_updates env timeout (t # ts) c = run_updates env timeout ts c'"
  using assms by (simp add: client_update_def no_events)

lemma run_gave_up: "gave_up n c \<Longrightarrow> run_updates env timeout ts c = Some c"
proof (induction ts)
  case (Cons t ts)
  then show ?case
    using run_quiet_step[of c t timeout c env ts] maintain_gave_up[of n c t timeout]
    by (simp add: gave_up_def)
qed simp

lemma run_waiting:
  assumes "waiting n r c"
  shows "\<exists>c'. run_updates env timeout ts c = Some c' \<and> ((\<exists>r'. waiting n r' c') \<or> gave_up n c')"
  using assms
proof (induction ts arbitrary: r c)
  case (Cons t ts)
  from maintain_waiting[OF Cons.prems, of t timeout] obtain c' where
    c': "client_maintain t timeout c = Inr c'" "(\<exists>r'. waiting n r' c') \<or> gave_up n c'"
    by (auto split: if_splits)
  then show ?case
    using run_quiet_step[OF _ c'(1), of env ts] Cons run_gave_up by (fastforce simp: waiting_def[of n r c])
qed auto

lemma run_late:
  assumes "waiting n r c" and "length ts \<ge> 4 - r"
    and "\<forall>i < length ts. ts ! i - (cl_lastConnectionAttemptTime c # ts) ! i > RECONNECTION_TIMEOUT"
  shows "\<exists>c'. run_updates env timeout ts c = Some c' \<and> gave_up n c'"
  using assms
proof (induction ts arbitrary: r c)
  case Nil
  then show ?case by (simp add: waiting_def)
next
  case (Cons t ts)
  have late: "t - cl_lastConnectionAttemptTime c > RECONNECTION_TIMEOUT"
    using Cons.prems(3)[rule_format, of 0] by simp
  have rest: "\<forall>i < length ts. ts ! i - (t # ts) ! i > RECONNECTION_TIMEOUT"
    using Cons.prems(3) by fastforce
  from maintain_waiting[OF Cons.prems(1), of t timeout] late obtain c' where
    c': "client_maintain t timeout c = Inr c'"
      "if r < 3 then waiting n (Suc r) c' \<and> cl_lastConnectionAttemptTime c' = t else gave_up n c'"
    by auto
  have step: "run_updates env timeout (t # ts) c = run_updates env timeout ts c'"
    using run_quiet_step[OF _ c'(1)] Cons.prems(1) by (simp add: waiting_def)
  show ?case
  proof (cases "r < 3")
    case True
    with c'(2) Cons.IH[of "Suc r" c'] Cons.prems(2) rest step show ?thesis by auto
  next
    case False
    with c'(2) have "gave_up n c'" by simp
    with run_gave_up[OF this] step show ?thesis by metis
  qed
qed

lemma one_request: "is_request s \<Longrightarrow> length (s_sent s) = Suc 0"
  by (auto simp: is_request_def)

text \<open>A client that gets no answer makes at most four attempts, whenever its updates run: it never
  has more than four sessions for one \<open>connect\<close>, each of them has sent one datagram, and it never
  believes to be connected.\<close>

theorem connection_attempts_bounded:
  assumes "client_connect t0 (Some ep) c = Inr c0" and "\<not> cl_isConnected c"
    and "tsq_queue (cl_eventQueue c) = []"
  shows "\<exists>c'. run_updates env timeout ts c0 = Some c' \<and> \<not> cl_isConnected c' \<and>
    length (nw_sessions c') \<le> length (nw_sessions c) + 4 \<and>
    (\<forall>sp. length (nw_sessions c) \<le> sp \<and> sp < length (nw_sessions c') \<longrightarrow>
       length (s_sent (session_at sp c')) = 1)"
proof -
  let ?n = "length (nw_sessions c)"
  from run_waiting[OF connect_waits(1)[OF assms], of env timeout ts] obtain c' where
    c': "run_updates env timeout ts c0 = Some c'" "(\<exists>r. waiting ?n r c') \<or> gave_up ?n c'" by blast
  from c'(2) have "\<not> cl_isConnected c' \<and> length (nw_sessions c') \<le> ?n + 4 \<and>
    (\<forall>sp. ?n \<le> sp \<and> sp < length (nw_sessions c') \<longrightarrow> length (s_sent (session_at sp c')) = 1)"
    by (auto simp: waiting_def gave_up_def intro: one_request)
  with c'(1) show ?thesis by blast
qed

text \<open>A client that gets no answer gives up: after four updates that each come more than two
  seconds after the one before, it has no session any more, and it has sent its request four
  times.\<close>

theorem client_gives_up:
  assumes "client_connect t0 (Some ep) c = Inr c0" and "\<not> cl_isConnected c"
    and "tsq_queue (cl_eventQueue c) = []" and "length ts \<ge> 4"
    and "\<forall>i < length ts. ts ! i - (t0 # ts) ! i > 2000000000"
  shows "\<exists>c'. run_updates env timeout ts c0 = Some c' \<and>
    cl_serverSession c' = None \<and> \<not> cl_isConnected c' \<and>
    length (nw_sessions c') = length (nw_sessions c) + 4"
proof -
  have "\<forall>i < length ts. ts ! i - (cl_lastConnectionAttemptTime c0 # ts) ! i > RECONNECTION_TIMEOUT"
    using assms(5) connect_waits(2)[OF assms(1-3)] by (simp add: RECONNECTION_TIMEOUT_def model_defs)
  from run_late[OF connect_waits(1)[OF assms(1-3)] _ this, of env timeout] assms(4)
  show ?thesis by (auto simp: gave_up_def)
qed

section \<open>An answer that comes too late\<close>

text \<open>A client whose application registers nothing.\<close>

definition bare_env :: "('ep, 'm) client_scheme client_env" where
  "bare_env = \<lparr>ce_dispatcher = the (client_dispatcher None), ce_onConnect = None,
     ce_onDisconnect = None, ce_onMessage = None\<rparr>"

lemma client_dispatcher_ack:
  "map_of (the (client_dispatcher onConnect)) (system_id kConnectAck) =
    Some (packet_handler read_connect_ack (ConnectAck_handler onConnect))"
  by (simp add: client_dispatcher_def new_dispatcher_handlers internal_bind_def
      verifyInternalPacketData_def verifyPacketData_def map_of_registerHandler
      internal_traits_defs getChannelId_def)

lemma read_connect_ack_ok:
  assumes "unread p = be_bytes i"
  shows "read_connect_ack p = (Inr \<lparr>assignedSessionId = i\<rparr>, advance 4 p)"
  using u32.rd_enc[of p i "[]"] assms by (simp add: read_connect_ack_def rd_bind_def rd_return_def)

lemma dispatch_connect_ack:
  assumes "map_of d (system_id kConnectAck) = Some (packet_handler read_connect_ack cb)"
    and "p_messageId p = system_id kConnectAck" and "unread p = be_bytes i"
  shows "dispatch d now sp p c = (advance 4 p, cb now sp \<lparr>assignedSessionId = i\<rparr> c)"
  using assms by (simp add: dispatch_def packet_handler_def read_connect_ack_ok)

lemma bare_callbacks [simp]:
  "ce_onConnect bare_env = None" "ce_onDisconnect bare_env = None" "ce_onMessage bare_env = None"
  by (simp_all add: bare_env_def)

text \<open>A step that changes neither the link of the client to its server nor its queue of events, and an
  application all of whose callbacks and handlers are such steps, but for the handler of \<open>CONNECT_ACK\<close>
  that the constructor of the client binds.\<close>

definition keeps_link :: "('ep, 'm) client_scheme \<Rightarrow> ('ep, 'm) client_scheme \<Rightarrow> bool" where
  "keeps_link c c' \<longleftrightarrow> cl_serverSession c' = cl_serverSession c \<and> cl_isConnected c' = cl_isConnected c \<and>
     cl_eventQueue c' = cl_eventQueue c"

definition discreet :: "('ep, 'm) client_scheme client_env \<Rightarrow> bool" where
  "discreet env \<longleftrightarrow>
     (\<forall>f now c. ce_onConnect env = Some f \<longrightarrow> keeps_link c (f now c)) \<and>
     (\<forall>f now c. ce_onDisconnect env = Some f \<longrightarrow> keeps_link c (f now c)) \<and>
     (\<forall>f now p c. ce_onMessage env = Some f \<longrightarrow> keeps_link c (f now p c)) \<and>
     map_of (ce_dispatcher env) (system_id kConnectAck) =
       Some (packet_handler read_connect_ack (ConnectAck_handler (ce_onConnect env))) \<and>
     (\<forall>i h now sp p c. map_of (ce_dispatcher env) i = Some h \<and> i \<noteq> system_id kConnectAck \<longrightarrow>
        keeps_link c (snd (h now sp p c)))"

lemma discreetD:
  assumes "discreet env"
  shows "ce_onConnect env = Some f \<Longrightarrow> keeps_link c (f now c)"
    and "ce_onDisconnect env = Some f \<Longrightarrow> keeps_link c (f now c)"
    and "ce_onMessage env = Some g \<Longrightarrow> keeps_link c (g now p c)"
    and "map_of (ce_dispatcher env) (system_id kConnectAck) =
      Some (packet_handler read_connect_ack (ConnectAck_handler (ce_onConnect env)))"
    and "map_of (ce_dispatcher env) i = Some h \<Longrightarrow> i \<noteq> system_id kConnectAck \<Longrightarrow> keeps_link c (snd (h now sp p c))"
  using assms by (auto simp: discreet_def)

lemma keeps_linkD:
  assumes "keeps_link c c'"
  shows "cl_serverSession c' = cl_serverSession c" "cl_isConnected c' = cl_isConnected c" "cl_eventQueue c' = cl_eventQueue c"
  using assms by (simp_all add: keeps_link_def)

lemma keeps_link_trans: "keeps_link a b \<Longrightarrow> keeps_link b c \<Longrightarrow> keeps_link a c"
  by (simp add: keeps_link_def)

text \<open>What the handler of \<open>CONNECT_ACK\<close> does to the link, and what a task does.\<close>

lemma ack_link:
  assumes "discreet env"
  shows "keeps_link (c\<lparr>cl_isConnected := True\<rparr>) (ConnectAck_handler (ce_onConnect env) now sp m c)"
proof (cases "cl_isConnected c")
  case False
  then show ?thesis
    using discreetD(1)[OF assms]
    by (auto simp: ConnectAck_handler_def Let_def keeps_link_def split: option.split)
qed (simp add: ConnectAck_handler_def keeps_link_def)

lemma dispatch_link:
  assumes "discreet env" and "dispatch (ce_dispatcher env) now sp p c = (p', c')"
  shows "keeps_link c c' \<or> keeps_link (c\<lparr>cl_isConnected := True\<rparr>) c'"
proof (cases "map_of (ce_dispatcher env) (p_messageId p)")
  case (Some h)
  then have c': "c' = snd (h now sp p c)" using assms(2) by (simp add: dispatch_def prod_eq_iff)
  show ?thesis
  proof (cases "p_messageId p = system_id kConnectAck")
    case True
    then have "h = packet_handler read_connect_ack (ConnectAck_handler (ce_onConnect env))"
      using discreetD(4)[OF assms(1)] Some by simp
    with c' ack_link[OF assms(1)] show ?thesis
      by (auto simp: packet_handler_def keeps_link_def split: prod.split sum.split)
  qed (use c' discreetD(5)[OF assms(1) Some] in simp)
qed (use assms(2) in \<open>simp add: dispatch_def keeps_link_def\<close>)

lemma task_link:
  assumes "discreet env"
  shows "keeps_link c (run_client_task env now task c) \<or> keeps_link (c\<lparr>cl_isConnected := True\<rparr>) (run_client_task env now task c)"
proof (cases task)
  case Task_onDisconnect
  with discreetD(2)[OF assms] show ?thesis
    by (auto simp: run_client_task_def keeps_link_def split: option.split)
next
  case (Task_received sp p)
  obtain p' c' where d: "dispatch (ce_dispatcher env) now sp p c = (p', c')" by fastforce
  have "keeps_link c' (run_client_task env now task c)"
    using discreetD(3)[OF assms] Task_received d
    by (auto simp: run_client_task_def keeps_link_def split: option.split)
  with dispatch_link[OF assms d] show ?thesis using keeps_link_trans by blast
qed

lemma ack_task_connects:
  assumes "discreet env" and "p_messageId p = system_id kConnectAck" and "unread p = be_bytes (i :: u32)"
  shows "cl_isConnected (run_client_task env now (Task_received sp p) c)"
proof -
  let ?c = "ConnectAck_handler (ce_onConnect env) now sp \<lparr>assignedSessionId = i\<rparr> c"
  have "cl_isConnected ?c" using keeps_linkD(2)[OF ack_link[OF assms(1)]] by simp
  then show ?thesis
    using keeps_linkD(2)[OF discreetD(3)[OF assms(1)]]
    by (auto simp: run_client_task_def dispatch_connect_ack[OF discreetD(4)[OF assms(1)] assms(2,3)] split: option.split)
qed

definition late_ack :: "client_task \<Rightarrow> bool" where
  "late_ack task \<longleftrightarrow> (\<exists>sp p i. task = Task_received sp p \<and> p_messageId p = 3 \<and> unread p = be_bytes (i :: u32))"

text \<open>The event loop of such a client ends, with the session it had, and connected if an acknowledgement
  was among the events.\<close>

lemma events_link:
  assumes "discreet env"
  shows "\<exists>c'. client_processEvents env now c = Some c' \<and> cl_serverSession c' = cl_serverSession c \<and>
    tsq_queue (cl_eventQueue c') = [] \<and>
    (cl_isConnected c \<or> (\<exists>task \<in> set (tsq_queue (cl_eventQueue c)). late_ack task) \<longrightarrow> cl_isConnected c')"
proof (induction "tsq_queue (cl_eventQueue c)" arbitrary: c)
  case Nil
  then show ?case using no_events[of c env now] by simp
next
  case (Cons task q)
  let ?c = "run_client_task env now task (c\<lparr>cl_eventQueue := (cl_eventQueue c)\<lparr>tsq_queue := q\<rparr>\<rparr>)"
  have step: "client_processEvents env now c = client_processEvents env now ?c"
    using Cons.hyps(2)[symmetric] by (subst client_processEvents.simps) (simp add: tsq_pop_def)
  note link = task_link[OF assms, of "c\<lparr>cl_eventQueue := (cl_eventQueue c)\<lparr>tsq_queue := q\<rparr>\<rparr>" now task]
  then have q: "q = tsq_queue (cl_eventQueue ?c)" "cl_serverSession ?c = cl_serverSession c"
    "cl_isConnected c \<Longrightarrow> cl_isConnected ?c" by (auto simp: keeps_link_def)
  have "cl_isConnected ?c" if "late_ack task"
    using that ack_task_connects[OF assms] by (auto simp: late_ack_def)
  with Cons.hyps(1)[OF q(1)] Cons.hyps(2)[symmetric] q step show ?case by auto
qed

lemma disconnect_link:
  "cl_serverSession (client_disconnect t c) = None" "\<not> cl_isConnected (client_disconnect t c)"
  "set (tsq_queue (cl_eventQueue c)) \<subseteq> set (tsq_queue (cl_eventQueue (client_disconnect t c)))"
  by (auto simp: client_disconnect_def push_event_def tsq_push_def Let_def keep_on_raise_def session_send_def send_empty
      on_session_def split: option.split)

text \<open>C26: an acknowledgement that is still queued when the user disconnects, whatever else is queued, makes
  the client claim to be connected without a session.  From then on it is stuck: every \<open>connect\<close>, every
  update, every datagram and every message it is to send leave it exactly as it is, so it cannot connect
  again until the user, who has disconnected, disconnects once more; after that the next \<open>connect\<close> makes
  a session again.  The application may register whatever it likes, as long as its callbacks and handlers
  do not themselves connect or disconnect.\<close>

theorem stale_ack_blocks_connect:
  assumes "discreet env" and "Task_received sp p \<in> set (tsq_queue (cl_eventQueue c))"
    and "p_messageId p = 3" and "unread p = be_bytes (i :: u32)"
  shows "\<exists>c'. client_update env now timeout (client_disconnect t c) = Some (Inr c') \<and>
    cl_isConnected c' \<and> cl_serverSession c' = None \<and>
    (\<forall>now' ep'. client_connect now' ep' c' = Inr c') \<and>
    (\<forall>now' timeout'. client_update env now' timeout' c' = Some (Inr c')) \<and>
    (\<forall>now' sender data. client_onReceive now' sender data c' = Inr c') \<and>
    (\<forall>v wr now' m. client_internal_send v wr now' m c' = Inr c') \<and>
    (\<forall>t' now' ep'. \<exists>c''. client_connect now' (Some ep') (client_disconnect t' c') = Inr c'' \<and>
       cl_serverSession c'' \<noteq> None \<and> \<not> cl_isConnected c'')"
proof -
  let ?d = "client_disconnect t c"
  have "\<exists>task \<in> set (tsq_queue (cl_eventQueue ?d)). late_ack task"
    using assms(2-4) disconnect_link(3)[of c t] by (auto simp: late_ack_def)
  with events_link[OF assms(1), of now ?d] obtain c' where
    c': "client_processEvents env now ?d = Some c'" "cl_serverSession c' = None" "tsq_queue (cl_eventQueue c') = []" "cl_isConnected c'"
    using disconnect_link(1)[of t c] by auto
  have "client_maintain now' timeout' c' = Inr c'" for now' timeout'
    using c'(2) by (simp add: client_maintain_def)
  then have "client_update env now timeout ?d = Some (Inr c')" "client_update env now' timeout' c' = Some (Inr c')" for now' timeout'
    using c'(1) no_events[OF c'(3)] by (simp_all add: client_update_def)
  moreover have "\<exists>c''. client_connect now' (Some ep') (client_disconnect t' c') = Inr c'' \<and>
      cl_serverSession c'' \<noteq> None \<and> \<not> cl_isConnected c''" for t' now' ep'
    using disconnect_link(2)[of t' c'] by (simp add: client_connect_def attempt_result)
  ultimately show ?thesis
    using c'(2,4) by (auto simp: client_connect_def client_onReceive_def client_internal_send_def)
qed

end
