(* ===== verification/Handshake.thy ===== *)
theory Handshake
  imports ServerLife ClientLife
begin

text \<open>
  A server and a client together: a handshake whose two datagrams arrive completes, and a client
  that leaves is dropped by the server.
\<close>

section \<open>The first datagram of a session\<close>

lemma first_datagram:
  assumes "parse_header data = parse_success hdr" and "\<not> hasReceivedRemotePacket s"
    and "sentPackets s = []" and "packetsSinceLastAck s = 0"
    and "messageId hdr \<noteq> system_id kAck" and "messageId hdr \<noteq> system_id kRichAck"
    and "\<not> is_ordered (flags hdr)"
  shows "\<exists>s'. handleIncoming now data s = Inr ([received_packet data hdr], s') \<and>
    sentPackets s' = [] \<and> s_shouldClose s' = s_shouldClose s \<and> lastSeen s' = now \<and>
    s_sent s' = s_sent s \<and> hasReceivedRemotePacket s' \<and> localSequenceId s' = localSequenceId s \<and>
    localOrderIds s' = localOrderIds s \<and> remoteAcknowledgeId s' = sequenceId hdr"
  using assms
  by (simp add: handleIncoming_def parse_success_def process_acks_def note_arrival_def isDuplicate_def
      updateAcknowledgeInfo_def count_and_ack_def ACK_PACKET_THRESHOLD_def hand_over_def
      received_packet_def set_payload_def new_packet_def Let_def word_le_nat_alt)

text \<open>A datagram with the next number, which asks for no acknowledgement packet.\<close>

lemma next_datagram:
  fixes s :: "'a session"
  assumes "parse_header data = parse_success hdr" and "hasReceivedRemotePacket s"
    and "remoteAcknowledgeId s = 0" and "sequenceId hdr = 1" and "sentPackets s = []"
    and "messageId hdr \<noteq> system_id kAck" and "messageId hdr \<noteq> system_id kRichAck" and "\<not> is_ordered (flags hdr)"
  shows "\<exists>s'. handleIncoming now data s = Inr ([received_packet data hdr], s') \<and>
    sentPackets s' = [] \<and> s_shouldClose s' = s_shouldClose s \<and> lastSeen s' = now"
proof -
  define s1 where "s1 = note_arrival now hdr (length data) s"
  have s1: "process_acks now hdr s1 = s1" "sentPackets s1 = []" "s_shouldClose s1 = s_shouldClose s" "lastSeen s1 = now"
    "remoteAcknowledgeId s1 = 0" "hasReceivedRemotePacket s1"
    using assms(2,3,5) by (simp_all add: s1_def process_acks_def note_arrival_def)
  obtain s2 where s2: "updateAcknowledgeInfo 1 s1 = Inr s2" "sentPackets s2 = []" "s_shouldClose s2 = s_shouldClose s" "lastSeen s2 = now"
    using s1(2-6) by (auto simp: updateAcknowledgeInfo_def shift_left_def Let_def)
  obtain s3 where s3: "count_and_ack now s2 = Inr s3" using count_and_ack_total[of now s2] by blast
  have "lastSeen s' = lastSeen s0" if "internal_sendAck now s0 = Inr s'" for s0 s' :: "'a session"
    using that sendAck_emits[of now s0] by auto
  with s3 s2(2-4) have "sentPackets s3 = [] \<and> s_shouldClose s3 = s_shouldClose s \<and> lastSeen s3 = now"
    by (auto simp: count_and_ack_def Let_def sendAck_simps(1,2) split: if_splits)
  with assms s1 s2(1) s3 show ?thesis
    by (simp add: handleIncoming_def parse_success_def flip: s1_def)
      (simp add: isDuplicate_def hand_over_def received_packet_def set_payload_def new_packet_def)
qed

lemma is_message_datagram: "is_message i (datagram p sq oid s) \<longleftrightarrow> p_messageId p = i"
  by (simp add: is_message_def parse_datagram parse_success_def parse_ok_def)

lemma received_datagram:
  "received_packet (datagram p sq oid s) (outgoing_header p sq oid s) =
    set_payload (p_buffer p) (new_packet (p_messageId p)
      (if hasReceivedRemotePacket s then p_flag p OR kHasAck else p_flag p) 0)"
  by (simp add: received_packet_def)

lemma send_plain:
  assumes "p_flag p = kUnreliable"
  shows "send now p s = rawSend now p (localSequenceId s) 0 (take_sequence_id s)"
  using assms by (simp add: send_def Let_def take_sequence_id_def flag_defs next_order_id_def is_ordered_def)

lemma not_ordered [simp]:
  "\<not> is_ordered kUnreliable" "\<not> is_ordered (kUnreliable OR kHasAck)"
  by (simp_all add: is_ordered_def flag_defs)

lemma send_plain_simps:
  assumes "p_flag p = kUnreliable"
  shows "sentPackets (send now p s) = sentPackets s" and "hasUnsentAck (send now p s) = False"
    and "lastSeen (send now p s) = lastSeen s" and "s_shouldClose (send now p s) = s_shouldClose s"
    and "s_sent (send now p s) = s_sent s @ sent_by s [datagram p (localSequenceId s) 0 (take_sequence_id s)]"
  by (simp_all add: send_plain[OF assms] sent_by_def)

section \<open>The server answers\<close>

text \<open>A callback that leaves the sessions alone.\<close>

definition hands_off :: "(time \<Rightarrow> nat \<Rightarrow> ('ep, 'm) net_world_scheme \<Rightarrow> ('ep, 'm) net_world_scheme) option \<Rightarrow> bool" where
  "hands_off callback \<longleftrightarrow>
     (\<forall>f now sp w. callback = Some f \<longrightarrow> nw_sessions (f now sp w) = nw_sessions w)"

lemma notify_hands_off:
  assumes "hands_off (se_onDisconnect env)"
  shows "nw_sessions (fold (notify_disconnect env now) sps w) = nw_sessions w"
  using assms
  by (induction sps arbitrary: w) (auto simp: notify_disconnect_def hands_off_def split: option.split)

definition request :: "'ep \<Rightarrow> u32 \<Rightarrow> time \<Rightarrow> bytes" where
  "request ep i now = datagram connect_packet 0 0 (new_session i ep True now)"

lemma parse_request:
  "parse_header (request ep i now) = parse_success (outgoing_header connect_packet 0 0 (new_session i ep True now))"
  by (simp add: request_def parse_datagram)

lemma connect_packet_simps [simp]:
  "p_messageId connect_packet = 2" "p_flag connect_packet = kUnreliable" "p_buffer connect_packet = []"
  by (simp_all add: connect_packet_def new_packet_def)

lemma ack_packet_simps [simp]:
  "p_messageId (connect_ack_packet ch i) = 3" "p_flag (connect_ack_packet ch i) = kUnreliable"
  "p_buffer (connect_ack_packet ch i) = be_bytes i"
  by (simp_all add: connect_ack_packet_def new_packet_def)

lemma new_session_simps [simp]:
  "hasReceivedRemotePacket (new_session i ep hasSend now) = False"
  "sentPackets (new_session i ep hasSend now) = []"
  "packetsSinceLastAck (new_session i ep hasSend now) = 0"
  "s_sent (new_session i ep hasSend now) = []"
  "s_shouldClose (new_session i ep hasSend now) = False"
  "s_hasSendFunction (new_session i ep hasSend now) = hasSend"
  "localSequenceId (new_session i ep hasSend now) = 0"
  "s_id (new_session i ep hasSend now) = i"
  by (simp_all add: new_session_def)

lemma server_accepts:
  assumes "map_of (sv_sessions (sv_world sv)) cep = None" and "tsq_queue (sv_eventQueue sv) = []"
  defines "sp \<equiv> length (nw_sessions (sv_world sv))"
  shows "\<exists>sv1 p s. server_onReceive t1 cep (request ep i now) sv = Inr sv1 \<and>
    tsq_queue (sv_eventQueue sv1) = [Task_onConnect sp, Task_packet sp p] \<and> p_messageId p = 2 \<and>
    map_of (sv_sessions (sv_world sv1)) cep = Some sp \<and> sp < length (nw_sessions (sv_world sv1)) \<and>
    session_at sp (sv_world sv1) = s \<and> sentPackets s = [] \<and> \<not> s_shouldClose s \<and> lastSeen s = t1 \<and>
    s_sent s = [] \<and> s_hasSendFunction s \<and> localSequenceId s = 0 \<and> hasReceivedRemotePacket s \<and>
    remoteAcknowledgeId s = 0"
proof -
  let ?s0 = "new_session (nw_globalSessionIdCounter (sv_world sv)) cep True t1"
  let ?hdr = "outgoing_header connect_packet 0 0 (new_session i ep True now)"
  obtain s where s: "handleIncoming t1 (request ep i now) ?s0 = Inr ([received_packet (request ep i now) ?hdr], s)"
    "sentPackets s = []" "\<not> s_shouldClose s" "lastSeen s = t1" "s_sent s = []" "localSequenceId s = 0"
    "hasReceivedRemotePacket s" "remoteAcknowledgeId s = 0"
    using first_datagram[OF parse_request[of ep i now], of ?s0 t1] by auto
  have "identity s = identity ?s0" by (rule identity_handleIncoming[OF s(1)])
  then have has_send: "s_hasSendFunction s" by (simp add: identity_def new_session_def)
  have "is_message (system_id kConnect) (request ep i now)"
    by (simp add: request_def is_message_datagram)
  moreover have "p_messageId (received_packet (request ep i now) ?hdr) = 2"
    by (simp add: received_packet_def set_payload_def new_packet_def)
  ultimately show ?thesis
    using assms s has_send
    by (simp add: server_onReceive_def internal_traits_defs make_session_def server_process_def
        session_at_def push_packets_def tsq_push_def nth_append on_session_def Let_def)
qed

lemma server_answers:
  fixes env :: "('ep::linorder, 'm) server_world_scheme server_env"
  assumes "server_user env" and "server_wf sv1"
    and "map_of (se_dispatcher env) (system_id kConnect) = Some (packet_handler read_empty Connect_onReceive)"
    and "hands_off (se_onConnect env)" and "hands_off (se_onDisconnect env)"
    and "tsq_queue (sv_eventQueue sv1) = [Task_onConnect sp, Task_packet sp p]" and "p_messageId p = 2"
    and "map_of (sv_sessions (sv_world sv1)) cep = Some sp" and "sp < length (nw_sessions (sv_world sv1))"
    and "session_at sp (sv_world sv1) = s" "sentPackets s = []" "\<not> s_shouldClose s" "lastSeen s = t1"
    and "(t2 - t1) div milliseconds 1 \<le> timeout"
  shows "\<exists>sv2. server_update env t2 timeout sv1 = Inr sv2 \<and>
    map_of (sv_sessions (sv_world sv2)) cep = Some sp \<and>
    session_at sp (sv_world sv2) = send t2 (connect_ack_packet INTERNAL_CHANNEL_ID (s_id s)) s"
proof -
  let ?ack = "connect_ack_packet INTERNAL_CHANNEL_ID (s_id s)"
  define w0 where "w0 = run_server_task env t2 (Task_onConnect sp) (sv_world sv1)"
  define w1 where "w1 = fold (run_server_task env t2) (tsq_queue (sv_eventQueue sv1)) (sv_world sv1)"
  define kept where "kept = filter (stays t2 timeout w1) (sv_sessions (sv_world sv1))"
  define gone where "gone = map snd (filter (\<lambda>e. \<not> stays t2 timeout w1 e) (sv_sessions (sv_world sv1)))"
  define w2 where "w2 = (fold (update_session t2) kept w1)\<lparr>sv_sessions := kept\<rparr>"
  have wf: "world_wf (sv_world sv1)" by (rule server_wfD(1)[OF assms(2)])
  have "nw_sessions w0 = nw_sessions (sv_world sv1)"
    using assms(4) by (auto simp: w0_def run_server_task_def hands_off_def split: option.split)
  then have w0: "session_at sp w0 = s" "sp < length (nw_sessions w0)"
    using assms(9,10) by (simp_all add: session_at_def)
  have "w1 = run_server_task env t2 (Task_packet sp p) w0"
    by (simp add: w1_def w0_def assms(6))
  also have "\<dots> = on_session sp (send t2 ?ack) w0"
    using assms(3,7) w0 by (simp add: run_server_task_def dispatch_def Connect_onReceive_sends)
  finally have w1: "session_at sp w1 = send t2 ?ack s"
    using w0 by (simp add: session_at_on_session)
  have "polite (sv_world sv1) w1"
    unfolding w1_def by (rule server_user.tasks_polite[OF assms(1) server_wfD(2)[OF assms(2)]])
  note len = polite_length[OF this]
  have "stays t2 timeout w1 (cep, sp)"
    using assms(12-14) w1 by (simp add: stays_def is_gone_def send_plain_simps not_less)
  then have kept: "(cep, sp) \<in> set kept" "map_of kept cep = Some sp"
    using map_of_SomeD[OF assms(8)] map_of_filter[of "sv_sessions (sv_world sv1)" "stays t2 timeout w1" cep]
      assms(8) wf by (simp_all add: kept_def world_wf_def om_wf_distinct)
  have "distinct (map snd kept)"
    unfolding kept_def by (rule distinct_map_filter[OF world_wf_distinct[OF wf]])
  moreover have "\<forall>e \<in> set kept. snd e < length (nw_sessions w1)"
    using world_wf_lookup(1)[OF wf world_wf_entry[OF wf]] len by (auto simp: kept_def)
  ultimately have "session_at sp w2 = updated t2 (send t2 ?ack s)"
    using updates_at[of kept w1 sp t2] kept(1) w1 by (force simp: w2_def session_at_def)
  also have "\<dots> = send t2 ?ack s"
    using assms(11) by (simp add: updated_def update_idle send_plain_simps)
  finally have w2: "session_at sp w2 = send t2 ?ack s" .
  have w2_wf: "\<forall>q \<in> set gone. q < length (nw_sessions w2)"
    using world_wf_lookup(1)[OF wf world_wf_entry[OF wf]] len
      polite_length[OF updates_polite[of w1 t2 kept]] by (auto simp: gone_def w2_def)
  have "sv_sessions (fold (notify_disconnect env t2) gone w2) = kept"
    using server_user.notify_polite[OF assms(1) w2_wf, of t2] by (simp add: polite_def w2_def)
  moreover have "session_at sp (fold (notify_disconnect env t2) gone w2) = send t2 ?ack s"
    using w2 notify_hands_off[OF assms(5), of t2 gone w2] by (simp add: session_at_def)
  ultimately show ?thesis
    using server_user.update_spec[OF assms(1,2), of t2 timeout] kept(2)
    by (simp add: w1_def[symmetric] kept_def[symmetric] gone_def[symmetric] w2_def[symmetric])
qed

section \<open>The client accepts\<close>

text \<open>A callback that changes only what the application keeps.\<close>

definition own_business :: "(('ep, 'm) client_scheme \<Rightarrow> ('ep, 'm) client_scheme) \<Rightarrow> bool" where
  "own_business f \<longleftrightarrow> (\<forall>c. client.truncate (f c) = client.truncate c)"

lemma own_businessD:
  assumes "own_business f"
  shows "nw_sessions (f c) = nw_sessions c" "cl_serverSession (f c) = cl_serverSession c"
    "cl_eventQueue (f c) = cl_eventQueue c" "cl_isConnected (f c) = cl_isConnected c"
  using assms by (simp_all add: own_business_def client.defs)

definition harmless :: "('ep, 'm) client_scheme client_env \<Rightarrow> bool" where
  "harmless env \<longleftrightarrow>
     (\<forall>f now. ce_onConnect env = Some f \<longrightarrow> own_business (f now)) \<and>
     (\<forall>f now p. ce_onMessage env = Some f \<longrightarrow> own_business (f now p))"

lemma client_accepts:
  fixes env :: "('ep, 'm) client_scheme client_env"
  assumes "map_of (ce_dispatcher env) (system_id kConnectAck) =
      Some (packet_handler read_connect_ack (ConnectAck_handler (ce_onConnect env)))"
    and "harmless env"
    and "cl_serverSession c1 = Some sp" and "sp < length (nw_sessions c1)"
    and "session_at sp c1 = requesting i' sep t0" and "\<not> cl_isConnected c1"
    and "tsq_queue (cl_eventQueue c1) = []" and "cl_serverEndpoint c1 = sep"
    and "(t4 - t3) div milliseconds 1 \<le> timeout"
  shows "\<exists>c2 c3. client_onReceive t3 sep (datagram (connect_ack_packet ch i) sq oid srv) c1 = Inr c2 \<and>
    client_update env t4 timeout c2 = Some (Inr c3) \<and>
    cl_isConnected c3 \<and> cl_serverSession c3 = Some sp"
proof -
  let ?p = "connect_ack_packet ch i" and ?r = "requesting i' sep t0"
  let ?hdr = "outgoing_header ?p sq oid srv" and ?data = "datagram (connect_ack_packet ch i) sq oid srv"
  let ?pkt = "received_packet ?data ?hdr"
  obtain s where s: "handleIncoming t3 ?data ?r = Inr ([?pkt], s)" "\<not> s_shouldClose s" "lastSeen s = t3"
    using first_datagram[OF parse_datagram[of ?p sq oid srv], of ?r t3]
    by (cases "hasReceivedRemotePacket srv") auto
  have pkt: "p_messageId ?pkt = system_id kConnectAck" "unread ?pkt = be_bytes i"
    by (simp_all add: received_datagram set_payload_def new_packet_def unread_def)
  define c2 where "c2 = (on_session sp (\<lambda>_. s) c1)\<lparr>cl_eventQueue := \<lparr>tsq_queue = [Task_received sp ?pkt]\<rparr>\<rparr>"
  have q1: "cl_eventQueue c1 = \<lparr>tsq_queue = []\<rparr>" using assms(7) by (cases "cl_eventQueue c1") simp
  have c2: "client_onReceive t3 sep ?data c1 = Inr c2"
    using assms(3,5,8) s(1) q1 by (simp add: client_onReceive_def push_event_def tsq_push_def on_session_def c2_def)
  define c where "c = run_client_task env t4 (Task_received sp ?pkt) (c2\<lparr>cl_eventQueue := \<lparr>tsq_queue = []\<rparr>\<rparr>)"
  have "\<not> cl_isConnected c2" "nw_sessions c2 = (nw_sessions c1)[sp := s]" "cl_serverSession c2 = Some sp"
    using assms(3,6) by (simp_all add: c2_def on_session_def)
  then have c: "cl_isConnected c" "cl_eventQueue c = \<lparr>tsq_queue = []\<rparr>" "cl_serverSession c = Some sp"
    "nw_sessions c = (nw_sessions c1)[sp := s]"
    using assms(2)
    by (auto simp: c_def run_client_task_def dispatch_connect_ack[OF assms(1) pkt] ConnectAck_handler_def
        harmless_def own_businessD Let_def split: option.split)
  have "client_processEvents env t4 c2 = Some c"
    using c(2) by (subst client_processEvents.simps) (simp add: tsq_pop_def c2_def c_def no_events)
  moreover have at: "session_at sp c = s" using c(4) assms(4) by (simp add: session_at_def)
  then have "client_maintain t4 timeout c = Inr (on_session sp (\<lambda>_. updated t4 s) c)"
    using c(1,3) s(2,3) assms(9) by (simp add: client_maintain_def client_service_def update_updated)
  ultimately have "client_update env t4 timeout c2 = Some (Inr (on_session sp (\<lambda>_. updated t4 s) c))"
    by (simp add: client_update_def)
  with c2 c(1,3) show ?thesis by (auto simp: on_session_def)
qed

text \<open>C14: a handshake completes.  The client connects; its request reaches the server, which has no
  session for it and nothing queued; the next update of the server answers; the answer reaches
  the client; and after its next update the client is connected, and the server has a session for
  its endpoint.  The applications may register whatever handlers they like as long as their
  callbacks leave the sessions alone, and no step may take longer than the timeouts.\<close>

theorem handshake_completes:
  assumes "client_connect t0 (Some sep) c = Inr c1" and "\<not> cl_isConnected c" and "tsq_queue (cl_eventQueue c) = []"
    and "map_of (ce_dispatcher cenv) 3 = Some (packet_handler read_connect_ack (ConnectAck_handler (ce_onConnect cenv)))"
    and "harmless cenv"
    and "server_user env" and "server_wf sv" and "tsq_queue (sv_eventQueue sv) = []"
    and "map_of (sv_sessions (sv_world sv)) cep = None"
    and "map_of (se_dispatcher env) 2 = Some (packet_handler read_empty Connect_onReceive)"
    and "hands_off (se_onConnect env)" and "hands_off (se_onDisconnect env)"
    and "(t2 - t1) div 1000000 \<le> stimeout" and "(t4 - t3) div 1000000 \<le> ctimeout"
  shows "\<exists>csp sp request answer sv1 sv2 c2 c3.
    cl_serverSession c1 = Some csp \<and> s_sent (session_at csp c1) = [request] \<and>
    server_onReceive t1 cep request sv = Inr sv1 \<and> server_update env t2 stimeout sv1 = Inr sv2 \<and>
    map_of (sv_sessions (sv_world sv2)) cep = Some sp \<and> s_sent (session_at sp (sv_world sv2)) = [answer] \<and>
    client_onReceive t3 sep answer c1 = Inr c2 \<and> client_update cenv t4 ctimeout c2 = Some (Inr c3) \<and>
    cl_isConnected c3 \<and> cl_serverSession c3 = Some csp"
proof -
  let ?csp = "length (nw_sessions c)" and ?i = "nw_globalSessionIdCounter c"
  have c1: "cl_serverSession c1 = Some ?csp" "?csp < length (nw_sessions c1)"
    "session_at ?csp c1 = requesting ?i sep t0" "\<not> cl_isConnected c1"
    "tsq_queue (cl_eventQueue c1) = []" "cl_serverEndpoint c1 = sep"
    using assms(1-3) by (auto simp: client_connect_def attempt_result session_at_def)
  have request: "s_sent (session_at ?csp c1) = [request sep ?i t0]"
    using c1(3) by (simp add: request_def)
  obtain sv1 p s sp where sv1: "server_onReceive t1 cep (request sep ?i t0) sv = Inr sv1"
    "tsq_queue (sv_eventQueue sv1) = [Task_onConnect sp, Task_packet sp p]" "p_messageId p = 2"
    "map_of (sv_sessions (sv_world sv1)) cep = Some sp" "sp < length (nw_sessions (sv_world sv1))"
    "session_at sp (sv_world sv1) = s" "sentPackets s = []" "\<not> s_shouldClose s" "lastSeen s = t1"
    "s_sent s = []" "s_hasSendFunction s" "localSequenceId s = 0"
    using server_accepts[OF assms(9,8), of t1 sep ?i t0] by blast
  have wf1: "server_wf sv1" by (rule onReceive_wf[OF assms(7) sv1(1)])
  have stimeout: "(t2 - t1) div milliseconds 1 \<le> stimeout" and ctimeout: "(t4 - t3) div milliseconds 1 \<le> ctimeout"
    using assms(13,14) by (simp_all add: model_defs)
  obtain sv2 where sv2: "server_update env t2 stimeout sv1 = Inr sv2"
    "map_of (sv_sessions (sv_world sv2)) cep = Some sp"
    "session_at sp (sv_world sv2) = send t2 (connect_ack_packet INTERNAL_CHANNEL_ID (s_id s)) s"
    using server_answers[OF assms(6) wf1 _ assms(11,12) sv1(2-6,7-9) stimeout] assms(10) by auto
  let ?answer = "datagram (connect_ack_packet INTERNAL_CHANNEL_ID (s_id s)) 0 0 (take_sequence_id s)"
  have answer: "s_sent (session_at sp (sv_world sv2)) = [?answer]"
    using sv1(10-12) by (simp add: sv2(3) send_plain_simps sent_by_def)
  obtain c2 c3 where "client_onReceive t3 sep ?answer c1 = Inr c2"
    "client_update cenv t4 ctimeout c2 = Some (Inr c3)" "cl_isConnected c3" "cl_serverSession c3 = Some ?csp"
    using client_accepts[OF _ assms(5) c1 ctimeout] assms(4) by (simp add: numeral_eq_Suc) blast
  with c1(1) request sv1(1) sv2(1,2) answer show ?thesis by blast
qed

section \<open>Witnesses\<close>

definition sample_server :: "nat server_world server" where
  "sample_server = new_server \<lparr>nw_sessions = [], nw_globalSessionIdCounter = 5, sv_sessions = []\<rparr>"

lemma sample_server_reachable: "server_reachable plain_env sample_server"
  unfolding sample_server_def by (rule server_start) simp_all

lemma sample_server_wf: "server_wf sample_server"
  unfolding sample_server_def by (rule new_server_wf) simp_all

lemma sample_accepts:
  obtains sv1 sp where "server_onReceive 1 7 (request (9 :: nat) 0 0) sample_server = Inr sv1"
    "map_of (sv_sessions (sv_world sv1)) 7 = Some sp"
  using server_accepts[of sample_server 7 1 "9 :: nat" 0 0]
  by (auto simp: sample_server_def new_server_def tsq_new_def)

lemma plain_connect:
  "map_of (se_dispatcher plain_env) 2 = Some (packet_handler read_empty Connect_onReceive)"
  by (simp add: plain_env_def new_dispatcher_handlers)

lemma bare_connect_ack:
  "map_of (ce_dispatcher bare_env) 3 = Some (packet_handler read_connect_ack (ConnectAck_handler (ce_onConnect bare_env)))"
  using client_dispatcher_ack[of None] by (simp add: bare_env_def)

lemma plain_callbacks [simp]: "se_onConnect plain_env = None" "se_onDisconnect plain_env = None"
  by (simp_all add: plain_env_def)

theorem server_always_wf_witness:
  "\<exists>sv1. server_onReceive 1 7 (request (9 :: nat) 0 0) sample_server = Inr sv1 \<and> server_wf sv1"
proof -
  obtain sv1 where "server_onReceive 1 7 (request (9 :: nat) 0 0) sample_server = Inr sv1"
    using sample_accepts by blast
  with server_always_wf[OF plain.server_user_axioms server_received[OF sample_server_reachable]]
  show ?thesis by blast
qed

theorem datagram_touches_sender_only_witness:
  "\<exists>sv1 sp. server_onReceive 1 7 (request (9 :: nat) 0 0) sample_server = Inr sv1 \<and>
    map_of (sv_sessions (sv_world sv1)) 7 = Some sp \<and> map_of (sv_sessions (sv_world sv1)) 8 = None"
proof -
  obtain sv1 sp where "server_onReceive 1 7 (request (9 :: nat) 0 0) sample_server = Inr sv1"
    "map_of (sv_sessions (sv_world sv1)) 7 = Some sp" by (rule sample_accepts)
  with datagram_touches_sender_only[OF sample_server_wf this(1)]
  show ?thesis by (auto simp: sample_server_def new_server_def)
qed

theorem server_update_drops_witness:
  "\<exists>sv'. server_update plain_env 5 10 sample_server = Inr sv' \<and> tsq_queue (sv_eventQueue sv') = []"
  using server_update_drops[OF plain.server_user_axioms sample_server_wf, of 5 10] by blast

definition sample_client :: "nat client" where "sample_client = new_client 4000 0"

lemma sample_connects:
  obtains c where "client_connect 0 (Some 9) sample_client = Inr c"
  by (auto simp: client_connect_def sample_client_def new_client_def)

lemma sample_client_idle: "\<not> cl_isConnected sample_client" "tsq_queue (cl_eventQueue sample_client) = []"
  by (simp_all add: sample_client_def new_client_def tsq_new_def)

theorem connection_attempts_bounded_witness:
  "\<exists>c c'. client_connect 0 (Some 9) sample_client = Inr c \<and>
    run_updates bare_env 10000 [1, 2, 3] c = Some c' \<and> \<not> cl_isConnected c'"
proof -
  obtain c where c: "client_connect 0 (Some 9) sample_client = Inr c" by (rule sample_connects)
  from connection_attempts_bounded[OF this sample_client_idle] c show ?thesis by blast
qed

theorem client_gives_up_witness:
  "\<exists>c c'. client_connect 0 (Some 9) sample_client = Inr c \<and>
    run_updates bare_env 10000 [3000000000, 6000000000, 9000000000, 12000000000] c = Some c' \<and>
    cl_serverSession c' = None"
proof -
  obtain c where c: "client_connect 0 (Some 9) sample_client = Inr c" by (rule sample_connects)
  have "\<forall>i < length [3000000000, 6000000000, 9000000000, 12000000000 :: time].
      [3000000000, 6000000000, 9000000000, 12000000000] ! i -
      [0, 3000000000, 6000000000, 9000000000, 12000000000] ! i > (2000000000 :: time)"
    by (simp add: All_less_Suc numeral_eq_Suc)
  from client_gives_up[OF c sample_client_idle _ this] c show ?thesis by auto
qed

theorem handshake_completes_witness:
  "\<exists>c1 request sv1 sv2 answer c2 c3. client_connect 0 (Some 9) sample_client = Inr c1 \<and>
    server_onReceive 1 7 request sample_server = Inr sv1 \<and> server_update plain_env 2 10000 sv1 = Inr sv2 \<and>
    client_onReceive 3 9 answer c1 = Inr c2 \<and> client_update bare_env 4 10000 c2 = Some (Inr c3) \<and>
    cl_isConnected c3"
proof -
  obtain c where c: "client_connect 0 (Some 9) sample_client = Inr c" by (rule sample_connects)
  have "harmless bare_env" "hands_off (se_onConnect plain_env)" "hands_off (se_onDisconnect plain_env)"
    "tsq_queue (sv_eventQueue sample_server) = []" "map_of (sv_sessions (sv_world sample_server)) 7 = None"
    by (simp_all add: harmless_def hands_off_def sample_server_def new_server_def tsq_new_def)
  from handshake_completes[OF c sample_client_idle bare_connect_ack this(1) plain.server_user_axioms
      sample_server_wf this(4,5) plain_connect this(2,3), of 2 1 10000 4 3 10000] c
  show ?thesis by fastforce
qed

end
