(* ===== verification/Movement.thy ===== *)
theory Movement
  imports Engine
begin

text \<open>
  The two movement systems of the server (\<^verbatim>\<open>Server/src/systems/apply_enemy_movement.cpp\<close>,
  \<^verbatim>\<open>Server/src/systems/apply_movement.cpp\<close>).  A callback of a group gets the references to the
  components of one entity as places in the dense vectors and reads and writes them through the
  store.  The arithmetic is that of \<open>float\<close>; \<open>std::cos\<close>, whose accuracy the standard leaves open,
  is the argument \<open>cosf\<close>.
\<close>

section \<open>Components behind references\<close>

fun as_position :: "component \<Rightarrow> position" where
  "as_position (C_Position p) = p"
| "as_position _ = \<lparr>pos_x = 0, pos_y = 0, pos_isUpdated = False\<rparr>"

fun as_velocity :: "component \<Rightarrow> velocity" where
  "as_velocity (C_Velocity v) = v"
| "as_velocity _ = \<lparr>vel_vx = 0, vel_vy = 0, vel_max_vx = 0, vel_max_vy = 0\<rparr>"

fun as_hitbox :: "component \<Rightarrow> hitbox" where
  "as_hitbox (C_Hitbox h) = h"
| "as_hitbox _ = \<lparr>hb_shown = False, hb_width = 0, hb_height = 0\<rparr>"

fun as_state :: "component \<Rightarrow> state_comp" where
  "as_state (C_State s) = s"
| "as_state _ = \<lparr>sc_state = 0\<rparr>"

fun as_type :: "component \<Rightarrow> type_comp" where
  "as_type (C_Type t) = t"
| "as_type _ = \<lparr>ty_type = 0\<rparr>"

fun as_move_set :: "component \<Rightarrow> move_set" where
  "as_move_set (C_MoveSet m) = m"
| "as_move_set _ = \<lparr>ms_set = 0\<rparr>"

type_synonym 's store = "(component, 's) ecs"

definition position_at :: "nat \<Rightarrow> 's store \<Rightarrow> position" where
  "position_at k e = as_position (ecs_deref (cid Position) k e)"
definition velocity_at :: "nat \<Rightarrow> 's store \<Rightarrow> velocity" where
  "velocity_at k e = as_velocity (ecs_deref (cid Velocity) k e)"
definition hitbox_at :: "nat \<Rightarrow> 's store \<Rightarrow> hitbox" where
  "hitbox_at k e = as_hitbox (ecs_deref (cid Hitbox) k e)"
definition state_at :: "nat \<Rightarrow> 's store \<Rightarrow> state_comp" where
  "state_at k e = as_state (ecs_deref (cid State) k e)"
definition type_at :: "nat \<Rightarrow> 's store \<Rightarrow> type_comp" where
  "type_at k e = as_type (ecs_deref (cid Type) k e)"
definition move_set_at :: "nat \<Rightarrow> 's store \<Rightarrow> move_set" where
  "move_set_at k e = as_move_set (ecs_deref (cid MoveSet) k e)"

definition put_position_at :: "nat \<Rightarrow> position \<Rightarrow> 's store \<Rightarrow> 's store" where
  "put_position_at k p = ecs_assign (cid Position) k (C_Position p)"
definition put_velocity_at :: "nat \<Rightarrow> velocity \<Rightarrow> 's store \<Rightarrow> 's store" where
  "put_velocity_at k v = ecs_assign (cid Velocity) k (C_Velocity v)"
definition put_state_at :: "nat \<Rightarrow> state_comp \<Rightarrow> 's store \<Rightarrow> 's store" where
  "put_state_at k s = ecs_assign (cid State) k (C_State s)"

section \<open>Movement of the enemies\<close>

definition straightSlow :: "position \<Rightarrow> velocity \<Rightarrow> velocity" where
  "straightSlow pos v =
     (if f32_less (pos_x pos) (f32_of_int 1900) \<and> f32_eq (vel_vx v) 0
      then v\<lparr>vel_vx := vel_max_vx v\<rparr>
      else if f32_less (f32_of_int 1900) (pos_x pos)
      then v\<lparr>vel_vx := f32_div (f32_neg (vel_max_vx v)) (f32_of_int 4)\<rparr>
      else v)"

text \<open>The literal \<open>0.01f\<close> is the bit pattern \<open>0x3C23D70A\<close>.\<close>

definition wave_move :: "(float32 \<Rightarrow> float32) \<Rightarrow> position \<Rightarrow> velocity \<Rightarrow> velocity" where
  "wave_move cosf pos v =
     (let amplitude = f32_of_int 400; frequency = 0x3C23D70A;
          slope = f32_mul (f32_mul amplitude frequency) (cosf (f32_mul (pos_x pos) frequency));
          vx = (if f32_less (pos_x pos) (f32_of_int 700) \<and> f32_eq (vel_vx v) 0
                then f32_div (vel_max_vx v) (f32_of_int 2)
                else f32_div (f32_neg (vel_max_vx v)) (f32_of_int 2))
      in v\<lparr>vel_vx := vx, vel_vy := f32_mul slope vx\<rparr>)"

text \<open>The pairs of \<open>frequAmp\<close>: the frequencies .005, .008 and 0.03, rounded to \<open>float\<close>.\<close>

definition frequAmp :: "(float32 \<times> float32) list" where
  "frequAmp = [(0x3BA3D70A, f32_of_int 400), (0x3C03126F, f32_of_int 150), (0x3CF5C28F, f32_of_int 20)]"

definition zigzag :: "(float32 \<Rightarrow> float32) \<Rightarrow> nat \<Rightarrow> position \<Rightarrow> velocity \<Rightarrow> velocity" where
  "zigzag cosf i pos v =
     (let phaseOffset = f32_of_int (uint (word_of_nat i * 777 :: u64));
          totalSlope = fold (\<lambda>(f, a) total.
              f32_add total (f32_mul (f32_mul a f) (cosf (f32_mul (f32_add (pos_x pos) phaseOffset) f))))
            frequAmp 0;
          vx = (if f32_eq (vel_vx v) 0 then f32_div (f32_neg (vel_max_vx v)) (f32_of_int 2) else vel_vx v);
          vy = f32_mul totalSlope vx;
          vy' = (if f32_less (pos_y pos) (f32_of_int 50) then f32_add vy (f32_of_int 20)
                 else if f32_less (f32_of_int 900) (pos_y pos) then f32_sub vy (f32_of_int 20)
                 else vy)
      in v\<lparr>vel_vx := vx, vel_vy := vy'\<rparr>)"

definition enemy_velocity ::
    "(float32 \<Rightarrow> float32) \<Rightarrow> nat \<Rightarrow> position \<Rightarrow> move_set \<Rightarrow> velocity \<Rightarrow> velocity" where
  "enemy_velocity cosf i pos m v =
     (if ms_set m = ucast (move_kind_value kStraightSlow) then straightSlow pos v
      else if ms_set m = ucast (move_kind_value kWave) then wave_move cosf pos v
      else if ms_set m = ucast (move_kind_value kZigZag) then zigzag cosf i pos v
      else v)"

definition move_enemy :: "(float32 \<Rightarrow> float32) \<Rightarrow> nat \<Rightarrow> nat list \<Rightarrow> 's store \<Rightarrow> 's store" where
  "move_enemy cosf i refs e =
     (let kp = refs ! 0; kv = refs ! 1; km = refs ! 2 in
      put_velocity_at kv (enemy_velocity cosf i (position_at kp e) (move_set_at km e) (velocity_at kv e)) e)"

definition ApplyEnemyMovement_apply :: "(float32 \<Rightarrow> float32) \<Rightarrow> 's store \<Rightarrow> 's store" where
  "ApplyEnemyMovement_apply cosf e =
     group_apply (move_enemy cosf) (ecs_group (map cid [Position, Velocity, MoveSet]) e) e"

section \<open>Collisions\<close>

definition collide :: "position \<Rightarrow> hitbox \<Rightarrow> position \<Rightarrow> hitbox \<Rightarrow> bool" where
  "collide refPos refBox otherPos otherBox \<longleftrightarrow>
     f32_less (pos_x refPos) (f32_add (pos_x otherPos) (hb_width otherBox)) \<and>
     f32_less (pos_x otherPos) (f32_add (pos_x refPos) (hb_width refBox)) \<and>
     f32_less (pos_y refPos) (f32_add (pos_y otherPos) (hb_height otherBox)) \<and>
     f32_less (pos_y otherPos) (f32_add (pos_y refPos) (hb_height refBox))"

text \<open>A collider is the list of its references, to position, hitbox, state and type.\<close>

definition find_step ::
    "nat \<Rightarrow> position \<Rightarrow> hitbox \<Rightarrow> u32 \<Rightarrow> 's store \<Rightarrow> nat \<Rightarrow> nat list \<Rightarrow> nat list option \<Rightarrow> nat list option" where
  "find_step i pos box expectedColliderType e colliderId refs collider =
     (if ty_type (type_at (refs ! 3) e) \<noteq> expectedColliderType \<or> colliderId = i \<or> collider \<noteq> None
      then collider
      else if collide pos box (position_at (refs ! 0) e) (hitbox_at (refs ! 1) e) then Some refs
      else collider)"

definition findCollider ::
    "nat \<Rightarrow> position \<Rightarrow> hitbox \<Rightarrow> ref_view list \<Rightarrow> u32 \<Rightarrow> 's store \<Rightarrow> nat list option" where
  "findCollider i pos box colliders expectedColliderType e =
     group_apply (find_step i pos box expectedColliderType e) colliders None"

section \<open>Movement\<close>

definition entity_dead :: "state_comp" where
  "entity_dead = \<lparr>sc_state = ucast (player_state_value EntityDead)\<rparr>"

definition handleEntityMovement ::
    "nat \<Rightarrow> nat \<Rightarrow> nat \<Rightarrow> nat list option \<Rightarrow> 's store \<Rightarrow> 's store" where
  "handleEntityMovement kp kv ks collider e =
     (case collider of
        Some refs \<Rightarrow>
          put_state_at ks entity_dead (put_state_at (refs ! 2) entity_dead
            (put_velocity_at kv ((velocity_at kv e)\<lparr>vel_vx := 0, vel_vy := 0\<rparr>) e))
      | None \<Rightarrow>
          let p = position_at kp e; v = velocity_at kv e in
          put_position_at kp (p\<lparr>pos_x := f32_add (pos_x p) (vel_vx v), pos_y := f32_add (pos_y p) (vel_vy v)\<rparr>) e)"

definition handlePlayerHorizontalMovement ::
    "nat \<Rightarrow> nat \<Rightarrow> nat \<Rightarrow> nat list option \<Rightarrow> 's store \<Rightarrow> 's store" where
  "handlePlayerHorizontalMovement kp kv kh collider e =
     (let p = position_at kp e; v = velocity_at kv e; box = hitbox_at kh e;
          x = (case collider of
                 Some refs \<Rightarrow>
                   let colliderPos = position_at (refs ! 0) e; colliderBox = hitbox_at (refs ! 1) e in
                   if f32_less 0 (vel_vx v) then f32_sub (pos_x colliderPos) (hb_width box)
                   else if f32_less (vel_vx v) 0 then f32_add (pos_x colliderPos) (hb_width colliderBox)
                   else pos_x p
               | None \<Rightarrow> f32_add (pos_x p) (vel_vx v))
      in put_velocity_at kv (v\<lparr>vel_vx := 0\<rparr>) (put_position_at kp (p\<lparr>pos_x := x\<rparr>) e))"

definition handlePlayerVerticalMovement ::
    "nat \<Rightarrow> nat \<Rightarrow> nat \<Rightarrow> nat list option \<Rightarrow> 's store \<Rightarrow> 's store" where
  "handlePlayerVerticalMovement kp kv kh collider e =
     (let p = position_at kp e; v = velocity_at kv e; box = hitbox_at kh e;
          y = (case collider of
                 Some refs \<Rightarrow>
                   let colliderPos = position_at (refs ! 0) e; colliderBox = hitbox_at (refs ! 1) e in
                   if f32_less 0 (vel_vy v) then f32_sub (pos_y colliderPos) (hb_height box)
                   else if f32_less (vel_vy v) 0 then f32_add (pos_y colliderPos) (hb_height colliderBox)
                   else pos_y p
               | None \<Rightarrow> f32_add (pos_y p) (vel_vy v))
      in put_velocity_at kv (v\<lparr>vel_vy := 0\<rparr>) (put_position_at kp (p\<lparr>pos_y := y\<rparr>) e))"

definition off_screen :: "position \<Rightarrow> hitbox \<Rightarrow> bool" where
  "off_screen pos box \<longleftrightarrow>
     f32_less (f32_sub (pos_x pos) (hb_width box)) 0 \<or> f32_less (f32_of_int 1920) (pos_x pos) \<or>
     f32_less (f32_sub (pos_y pos) (hb_height box)) 0 \<or> f32_less (f32_of_int 1080) (pos_y pos)"

definition moved_to :: "float32 \<Rightarrow> float32 \<Rightarrow> position" where
  "moved_to x y = \<lparr>pos_x = x, pos_y = y, pos_isUpdated = False\<rparr>"

definition move_player :: "ref_view list \<Rightarrow> nat \<Rightarrow> nat list \<Rightarrow> 's store \<Rightarrow> 's store" where
  "move_player colliders i refs e =
     (let kv = refs ! 1; kp = refs ! 2; kh = refs ! 3; box = hitbox_at kh e;
          p = position_at kp e; v = velocity_at kv e;
          horizontal = findCollider i (moved_to (f32_add (pos_x p) (vel_vx v)) (pos_y p)) box colliders
            (entity_type_value kPlayer) e;
          e1 = handlePlayerHorizontalMovement kp kv kh horizontal e;
          p1 = position_at kp e1; v1 = velocity_at kv e1;
          vertical = findCollider i (moved_to (pos_x p1) (f32_add (pos_y p1) (vel_vy v1))) box colliders
            (entity_type_value kPlayer) e1
      in handlePlayerVerticalMovement kp kv kh vertical e1)"

definition move_other :: "ref_view list \<Rightarrow> nat \<Rightarrow> nat list \<Rightarrow> 's store \<Rightarrow> 's store" where
  "move_other colliders i refs e =
     (let kt = refs ! 0; kv = refs ! 1; kp = refs ! 2; kh = refs ! 3; ks = refs ! 4;
          p = position_at kp e; v = velocity_at kv e; bullet = (ty_type (type_at kt e) = entity_type_value kBullet);
          expectedType = (if bullet then entity_type_value kEnemy else entity_type_value kPlayer);
          collider = findCollider i (moved_to (f32_add (pos_x p) (vel_vx v)) (f32_add (pos_y p) (vel_vy v)))
            (hitbox_at kh e) colliders expectedType e;
          e1 = handleEntityMovement kp kv ks collider e
      in if bullet \<and> off_screen (position_at kp e1) (hitbox_at kh e1) then put_state_at ks entity_dead e1 else e1)"

definition move_entity :: "ref_view list \<Rightarrow> nat \<Rightarrow> nat list \<Rightarrow> 's store \<Rightarrow> 's store" where
  "move_entity colliders i refs e =
     (let kt = refs ! 0; kv = refs ! 1; kp = refs ! 2; v = velocity_at kv e;
          e1 = put_position_at kp ((position_at kp e)
            \<lparr>pos_isUpdated := (\<not> f32_eq (vel_vx v) 0 \<or> \<not> f32_eq (vel_vy v) 0)\<rparr>) e
      in if ty_type (type_at kt e1) = entity_type_value kPlayer then move_player colliders i refs e1
         else move_other colliders i refs e1)"

definition ApplyMovement_apply :: "'s store \<Rightarrow> 's store" where
  "ApplyMovement_apply e =
     group_apply (move_entity (ecs_group (map cid [Position, Hitbox, State, Type]) e))
       (ecs_group (map cid [Type, Velocity, Position, Hitbox, State]) e) e"

end
