(* ===== verification/Director.thy ===== *)
theory Director
  imports GameComponents
begin

text \<open>
  The class \<open>level::Director\<close> (\<^verbatim>\<open>Server/src/level_director\<close>): it earns credits, spends them on
  waves that it picks at random, and spawns the enemies of the active waves.  The generator
  \<open>std::mt19937\<close> and the distributions, whose algorithms the standard leaves open, are the record
  \<open>rng_api\<close>; the JSON library is the record \<open>json_api\<close>; the lobby is given by the two of its
  operations that the director calls.  A pointer to an archetype is its place in the pool.
\<close>

section \<open>Data\<close>

record enemy_group =
  eg_type :: entity_type
  eg_patternName :: string
  eg_count :: int

record archetype =
  ar_name :: string
  ar_difficultyCost :: int
  ar_weight :: u64
  ar_spawnInterval :: float32
  ar_postWaveDelay :: float32
  ar_enemies :: "enemy_group list"

record active_wave =
  av_archetype :: nat
  av_timer :: float32
  av_currentGroupIndex :: nat
  av_spawnedInGroup :: int
  av_isFinished :: bool

text \<open>The generator: \<open>uniform_int_distribution(lo, hi)\<close> and \<open>uniform_real_distribution(lo, hi)\<close>.\<close>

record 'g rng_api =
  rg_int :: "u64 \<Rightarrow> u64 \<Rightarrow> 'g \<Rightarrow> u64 \<times> 'g"
  rg_real :: "float32 \<Rightarrow> float32 \<Rightarrow> 'g \<Rightarrow> float32 \<times> 'g"

record 'g director =
  dr_wavePool :: "archetype list"
  dr_rng :: 'g
  dr_credits :: float32
  dr_currentDifficulty :: float32
  dr_gameTime :: float32
  dr_activeWaves :: "active_wave list"

text \<open>\<open>Director() = default\<close> leaves the three numbers indeterminate: they are arguments.\<close>

definition new_director :: "'g \<Rightarrow> float32 \<Rightarrow> float32 \<Rightarrow> float32 \<Rightarrow> 'g director" where
  "new_director seeded credits difficulty gameTime =
     \<lparr>dr_wavePool = [], dr_rng = seeded, dr_credits = credits, dr_currentDifficulty = difficulty,
      dr_gameTime = gameTime, dr_activeWaves = []\<rparr>"

definition director_restart :: "'g director \<Rightarrow> 'g director" where
  "director_restart d =
     d\<lparr>dr_activeWaves := [], dr_credits := 0, dr_currentDifficulty := 0, dr_gameTime := 0\<rparr>"

definition BASE_INCOME :: float32 where "BASE_INCOME = f32_of_int 2"
definition INCOME_MULTIPLIER :: float32 where "INCOME_MULTIPLIER = f32_of_int 2"

section \<open>Loading the waves\<close>

datatype json_fault = Parse_error | Type_error | Out_of_range | Undefined_access

text \<open>\<open>contains\<close>, \<open>is_array\<close>, \<open>operator[]\<close> on a constant value, iteration, \<open>at\<close>, the conversions.\<close>

record 'j json_api =
  js_contains :: "string \<Rightarrow> 'j \<Rightarrow> bool"
  js_is_array :: "'j \<Rightarrow> bool"
  js_index :: "string \<Rightarrow> 'j \<Rightarrow> json_fault + 'j"
  js_elements :: "'j \<Rightarrow> 'j list"
  js_at :: "string \<Rightarrow> 'j \<Rightarrow> json_fault + 'j"
  js_string :: "'j \<Rightarrow> json_fault + string"
  js_int :: "'j \<Rightarrow> json_fault + int"
  js_size :: "'j \<Rightarrow> json_fault + u64"
  js_float :: "'j \<Rightarrow> json_fault + float32"
  js_parse :: "string \<Rightarrow> json_fault + 'j"

definition of_option :: "'e \<Rightarrow> 'a option \<Rightarrow> 'e + 'a" where
  "of_option e x = (case x of None \<Rightarrow> Inl e | Some a \<Rightarrow> Inr a)"

definition parse_enemy :: "'j json_api \<Rightarrow> 'j \<Rightarrow> json_fault + enemy_group" where
  "parse_enemy api e =
     try_bind (try_bind (js_at api ''type'' e) (js_string api)) (\<lambda>name.
     try_bind (of_option Out_of_range (map_of StringToType name)) (\<lambda>type.
     try_bind (try_bind (js_at api ''pattern'' e) (js_string api)) (\<lambda>pattern.
     try_bind (try_bind (js_at api ''count'' e) (js_int api)) (\<lambda>count.
       Inr \<lparr>eg_type = type, eg_patternName = pattern, eg_count = count\<rparr>))))"

primrec parse_enemy_list :: "'j json_api \<Rightarrow> 'j list \<Rightarrow> json_fault + enemy_group list" where
  "parse_enemy_list api [] = Inr []"
| "parse_enemy_list api (e # es) =
     try_bind (parse_enemy api e) (\<lambda>x. try_bind (parse_enemy_list api es) (\<lambda>xs. Inr (x # xs)))"

text \<open>A missing or ill-typed \<open>enemies\<close> is only logged.\<close>

definition parseEnemies :: "'j json_api \<Rightarrow> 'j \<Rightarrow> json_fault + enemy_group list" where
  "parseEnemies api data =
     try_bind (js_index api ''enemies'' data) (\<lambda>es. parse_enemy_list api (js_elements api es))"

definition parse_archetype :: "'j json_api \<Rightarrow> 'j \<Rightarrow> json_fault + archetype" where
  "parse_archetype api w =
     try_bind (try_bind (js_at api ''name'' w) (js_string api)) (\<lambda>name.
     try_bind (try_bind (js_at api ''difficultyCost'' w) (js_int api)) (\<lambda>cost.
     try_bind (try_bind (js_at api ''weight'' w) (js_size api)) (\<lambda>weight.
     try_bind (try_bind (js_at api ''spawnInterval'' w) (js_float api)) (\<lambda>interval.
     try_bind (try_bind (js_at api ''postWaveDelay'' w) (js_float api)) (\<lambda>delay.
     try_bind (parseEnemies api w) (\<lambda>enemies.
       Inr \<lparr>ar_name = name, ar_difficultyCost = cost, ar_weight = weight, ar_spawnInterval = interval,
            ar_postWaveDelay = delay, ar_enemies = enemies\<rparr>))))))"

text \<open>The loop appends to the pool as it goes; what an exception leaves there stays.\<close>

primrec parse_waves ::
    "'j json_api \<Rightarrow> 'j list \<Rightarrow> 'g director \<Rightarrow> json_fault option \<times> 'g director" where
  "parse_waves api [] d = (None, d)"
| "parse_waves api (w # ws) d =
     (case parse_archetype api w of
        Inl e \<Rightarrow> (Some e, d)
      | Inr a \<Rightarrow> parse_waves api ws (d\<lparr>dr_wavePool := dr_wavePool d @ [a]\<rparr>))"

definition parseArchetypes ::
    "'j json_api \<Rightarrow> 'j \<Rightarrow> 'g director \<Rightarrow> json_fault option \<times> 'g director" where
  "parseArchetypes api data d =
     (if \<not> js_contains api ''waves'' data then (None, d)
      else case js_index api ''waves'' data of
        Inl e \<Rightarrow> (Some e, d)
      | Inr ws \<Rightarrow> if \<not> js_is_array api ws then (None, d) else parse_waves api (js_elements api ws) d)"

text \<open>\<open>None\<close> is a file that cannot be opened.  Parse and type errors are caught; what is left in the
  first component leaves \<open>load\<close>.\<close>

definition director_load ::
    "'j json_api \<Rightarrow> string option \<Rightarrow> 'g director \<Rightarrow> json_fault option \<times> 'g director" where
  "director_load api file d =
     (case file of
        None \<Rightarrow> (None, d)
      | Some text \<Rightarrow>
          (case (case js_parse api text of
                   Inl e \<Rightarrow> (Some e, d)
                 | Inr data \<Rightarrow> parseArchetypes api data d) of
             (Some Parse_error, d') \<Rightarrow> (None, d')
           | (Some Type_error, d') \<Rightarrow> (None, d')
           | r \<Rightarrow> r))"

section \<open>Picking waves\<close>

text \<open>\<open>difficultyCost >= _credits * 0.5\<close>, in \<open>double\<close>, where the product is exact.\<close>

definition at_least_half :: "int \<Rightarrow> float32 \<Rightarrow> bool" where
  "at_least_half cost credits \<longleftrightarrow>
     (case f32_unpack credits of
        FNaN \<Rightarrow> False
      | FInf s \<Rightarrow> s
      | FNum s m j \<Rightarrow> num_scaled s m j \<le> 2 * cost * 2 ^ 149)"

definition affordable :: "archetype \<Rightarrow> float32 \<Rightarrow> bool" where
  "affordable a credits \<longleftrightarrow> f32_le (f32_of_int (ar_difficultyCost a)) credits"

definition wave_candidates :: "archetype list \<Rightarrow> float32 \<Rightarrow> nat list" where
  "wave_candidates pool credits =
     (let big = filter (\<lambda>i. affordable (pool ! i) credits \<and> at_least_half (ar_difficultyCost (pool ! i)) credits)
                  [0..<length pool]
      in if big = [] then filter (\<lambda>i. affordable (pool ! i) credits) [0..<length pool] else big)"

definition total_weight :: "archetype list \<Rightarrow> nat list \<Rightarrow> u64" where
  "total_weight pool candidates = fold (\<lambda>i t. t + ar_weight (pool ! i)) candidates 0"

fun pick_weighted :: "archetype list \<Rightarrow> u64 \<Rightarrow> nat list \<Rightarrow> nat option" where
  "pick_weighted pool r [] = None"
| "pick_weighted pool r (i # is) =
     (if r \<le> ar_weight (pool ! i) then Some i else pick_weighted pool (r - ar_weight (pool ! i)) is)"

text \<open>One round of the loop; \<open>None\<close> is \<open>break\<close>.\<close>

definition pick_wave :: "'g rng_api \<Rightarrow> archetype list \<Rightarrow> float32 \<Rightarrow> 'g \<Rightarrow> (nat \<times> 'g) option" where
  "pick_wave api pool credits g =
     (let candidates = wave_candidates pool credits; totalWeight = total_weight pool candidates in
      if candidates = [] \<or> totalWeight = 0 then None
      else case rg_int api 1 totalWeight g of
        (randomValue, g') \<Rightarrow>
          Some (case pick_weighted pool randomValue candidates of Some i \<Rightarrow> i | None \<Rightarrow> last candidates, g'))"

partial_function (option) getPickedWaves ::
    "'g rng_api \<Rightarrow> archetype list \<Rightarrow> float32 \<Rightarrow> 'g \<Rightarrow> nat list \<Rightarrow> (nat list \<times> float32 \<times> 'g) option" where
  "getPickedWaves api pool credits g waves =
     (if f32_less 0 credits then
        (case pick_wave api pool credits g of
           None \<Rightarrow> Some (waves, credits, g)
         | Some (i, g') \<Rightarrow>
             getPickedWaves api pool (f32_sub credits (f32_of_int (ar_difficultyCost (pool ! i)))) g' (waves @ [i]))
      else Some (waves, credits, g))"

text \<open>A new active wave starts with a random delay.\<close>

definition activate :: "'g rng_api \<Rightarrow> nat \<Rightarrow> 'g director \<Rightarrow> 'g director" where
  "activate api i d =
     (case rg_real api 0 (f32_of_int 2) (dr_rng d) of
        (delay, g) \<Rightarrow>
          d\<lparr>dr_rng := g, dr_activeWaves := dr_activeWaves d @
             [\<lparr>av_archetype = i, av_timer = f32_neg delay, av_currentGroupIndex = 0,
               av_spawnedInGroup = 0, av_isFinished = False\<rparr>]\<rparr>)"

definition pickRandomWaves :: "'g rng_api \<Rightarrow> 'g director \<Rightarrow> 'g director option" where
  "pickRandomWaves api d =
     map_option (\<lambda>(waves, credits, g). fold (activate api) waves (d\<lparr>dr_credits := credits, dr_rng := g\<rparr>))
       (getPickedWaves api (dr_wavePool d) (dr_credits d) (dr_rng d) [])"

definition pickNewWaveIfNeeded :: "'g rng_api \<Rightarrow> 'g director \<Rightarrow> 'g director option" where
  "pickNewWaveIfNeeded api d =
     (if dr_activeWaves d \<noteq> [] then Some d else pickRandomWaves api d)"


section \<open>The budget\<close>

text \<open>Costs that a float holds exactly, and credits that are exact down to the least subnormal.\<close>

definition costs_ok :: "archetype list \<Rightarrow> bool" where
  "costs_ok pool \<longleftrightarrow> list_all (\<lambda>a. 1 \<le> ar_difficultyCost a \<and> ar_difficultyCost a < 2 ^ 24) pool"

definition credits_ok :: "float32 \<Rightarrow> bool" where
  "credits_ok c \<longleftrightarrow> f32_finite c \<and> 0 \<le> f32_scaled c \<and> f32_scaled c < 2 ^ 24 * 2 ^ 149"

definition total_cost :: "archetype list \<Rightarrow> nat list \<Rightarrow> int" where
  "total_cost pool waves = sum_list (map (\<lambda>i. ar_difficultyCost (pool ! i)) waves)"

lemma zero_scaled: "f32_finite 0" "f32_scaled 0 = 0"
  by (simp_all add: f32_finite_def f32_scaled_def f32_unpack_def num_scaled_def)

lemma affordable_scaled:
  "f32_finite c \<Longrightarrow> 1 \<le> ar_difficultyCost a \<Longrightarrow> ar_difficultyCost a < 2 ^ 24 \<Longrightarrow>
   affordable a c \<longleftrightarrow> ar_difficultyCost a * 2 ^ 149 \<le> f32_scaled c"
  using of_int_exact[of "ar_difficultyCost a"]
  by (auto simp: affordable_def f32_le_def less_scaled eq_scaled)

lemma candidates_affordable:
  "i \<in> set (wave_candidates pool c) \<Longrightarrow> i < length pool \<and> affordable (pool ! i) c"
  by (auto simp: wave_candidates_def Let_def split: if_splits)

lemma pick_weighted_in: "pick_weighted pool r is = Some i \<Longrightarrow> i \<in> set is"
  by (induction pool r "is" rule: pick_weighted.induct) (auto split: if_splits)

lemma pick_wave_candidate:
  "pick_wave api pool c g = Some (i, g') \<Longrightarrow> i \<in> set (wave_candidates pool c)"
  by (auto simp: pick_wave_def Let_def pick_weighted_in split: if_splits prod.splits option.splits)

lemma pick_wave_pays:
  assumes "pick_wave api pool c g = Some (i, g')" and "costs_ok pool" and "credits_ok c"
  defines "c' \<equiv> f32_sub c (f32_of_int (ar_difficultyCost (pool ! i)))"
  shows "i < length pool" and "credits_ok c'"
    and "f32_scaled c' = f32_scaled c - ar_difficultyCost (pool ! i) * 2 ^ 149"
    and "f32_scaled c' div 2 ^ 149 < f32_scaled c div 2 ^ 149"
proof -
  let ?k = "ar_difficultyCost (pool ! i)"
  have i: "i < length pool" "affordable (pool ! i) c"
    using candidates_affordable[OF pick_wave_candidate[OF assms(1)]] by auto
  then have k: "1 \<le> ?k" "?k < 2 ^ 24"
    using assms(2) by (auto simp: costs_ok_def list_all_length)
  have c: "f32_finite c" "f32_scaled c < 2 ^ 24 * 2 ^ 149"
    using assms(3) by (simp_all add: credits_ok_def)
  have le: "?k * 2 ^ 149 \<le> f32_scaled c" using i(2) affordable_scaled[OF c(1) k] by simp
  have "0 \<le> ?k" using k by simp
  note e = sub_int_exact[OF c this le, folded c'_def]
  show "i < length pool" by (rule i)
  show "f32_scaled c' = f32_scaled c - ?k * 2 ^ 149" by (rule e)
  have "f32_scaled c' < 2 ^ 24 * 2 ^ 149" "0 \<le> f32_scaled c'"
    using e(2) le c(2) k by simp_all
  with e(1) show "credits_ok c'" by (simp add: credits_ok_def)
  have "f32_scaled c = f32_scaled c' + ?k * 2 ^ 149" using e(2) by simp
  then have "f32_scaled c div 2 ^ 149 = ?k + f32_scaled c' div 2 ^ 149"
    by (simp add: add.commute)
  with k show "f32_scaled c' div 2 ^ 149 < f32_scaled c div 2 ^ 149" by simp
qed

text \<open>C30: with costs of at least one and a finite number of credits, the loop that picks the waves ends;
  the picked waves cost together no more than the credits, the credits left are exactly the rest,
  and either nothing is left or no wave that may be drawn is affordable.\<close>

theorem picking_waves_ends_within_budget:
  assumes "costs_ok pool" and "credits_ok c"
  shows "\<exists>ws c' g'. getPickedWaves api pool c g waves = Some (waves @ ws, c', g') \<and>
           list_all (\<lambda>i. i < length pool) ws \<and>
           f32_scaled c' = f32_scaled c - total_cost pool ws * 2 ^ 149 \<and>
           0 \<le> f32_scaled c' \<and> (f32_scaled c' = 0 \<or> pick_wave api pool c' g' = None)"
  using assms(2)
proof (induction "nat (f32_scaled c div 2 ^ 149)" arbitrary: c g waves rule: less_induct)
  case less
  have pos: "f32_less 0 c \<longleftrightarrow> f32_scaled c \<noteq> 0"
    using less.prems less_scaled[of 0 c] zero_scaled by (auto simp: credits_ok_def)
  show ?case
  proof (cases "f32_less 0 c \<and> pick_wave api pool c g \<noteq> None")
    case False
    then have "getPickedWaves api pool c g waves = Some (waves, c, g)"
      by (cases "pick_wave api pool c g") (auto simp: getPickedWaves.simps[of api pool c])
    with False pos less.prems show ?thesis
      by (intro exI[of _ "[]"]) (auto simp: total_cost_def credits_ok_def)
  next
    case True
    then obtain i g1 where p: "pick_wave api pool c g = Some (i, g1)" by auto
    define c1 where "c1 = f32_sub c (f32_of_int (ar_difficultyCost (pool ! i)))"
    note q = pick_wave_pays[OF p assms(1) less.prems, folded c1_def]
    have nn: "0 \<le> f32_scaled c1" using q(2) by (simp add: credits_ok_def)
    then have "0 \<le> f32_scaled c1 div 2 ^ 149" by simp
    with q(4) have "nat (f32_scaled c1 div 2 ^ 149) < nat (f32_scaled c div 2 ^ 149)" by simp
    from less.hyps[OF this q(2), of g1 "waves @ [i]"] obtain ws c' g' where
      r: "getPickedWaves api pool c1 g1 (waves @ [i]) = Some ((waves @ [i]) @ ws, c', g')"
        "list_all (\<lambda>i. i < length pool) ws"
        "f32_scaled c' = f32_scaled c1 - total_cost pool ws * 2 ^ 149"
        "0 \<le> f32_scaled c'" "f32_scaled c' = 0 \<or> pick_wave api pool c' g' = None"
      by blast
    have "getPickedWaves api pool c g waves = Some (waves @ (i # ws), c', g')"
      using True p r(1) by (simp add: getPickedWaves.simps[of api pool c] c1_def)
    moreover have "f32_scaled c' = f32_scaled c - total_cost pool (i # ws) * 2 ^ 149"
      using r(3) q(3) by (simp add: total_cost_def algebra_simps)
    ultimately show ?thesis using r q(1) by (intro exI[of _ "i # ws"] exI[of _ c'] exI[of _ g']) simp
  qed
qed


section \<open>Well-formed directors\<close>

text \<open>Archetypes whose enemies can all be spawned, and active waves that are at a group that exists
  or are finished.\<close>

definition group_ok :: "enemy_group \<Rightarrow> bool" where
  "group_ok g \<longleftrightarrow> eg_type g = kEnemy \<and> eg_patternName g \<in> fst ` set StringToMoveSet"

definition pool_ok :: "archetype list \<Rightarrow> bool" where
  "pool_ok pool \<longleftrightarrow> list_all (\<lambda>a. ar_enemies a \<noteq> [] \<and> list_all group_ok (ar_enemies a)) pool"

definition wave_ok :: "archetype list \<Rightarrow> active_wave \<Rightarrow> bool" where
  "wave_ok pool w \<longleftrightarrow> av_archetype w < length pool \<and>
     (\<not> av_isFinished w \<longrightarrow> av_currentGroupIndex w < length (ar_enemies (pool ! av_archetype w)))"

definition director_ok :: "'g director \<Rightarrow> bool" where
  "director_ok d \<longleftrightarrow> pool_ok (dr_wavePool d) \<and> list_all (wave_ok (dr_wavePool d)) (dr_activeWaves d)"

lemma director_ok_restart: "director_ok d \<Longrightarrow> director_ok (director_restart d)"
  by (simp add: director_ok_def director_restart_def)

lemma picked_waves_exist:
  assumes "getPickedWaves api pool c g ws = Some (ws', c', g')" and "list_all (\<lambda>i. i < length pool) ws"
  shows "list_all (\<lambda>i. i < length pool) ws'"
proof -
  define P where "P = (\<lambda>(api :: 'a rng_api) (pool :: archetype list) (c :: float32) (g :: 'a) ws (r :: nat list \<times> float32 \<times> 'a).
    list_all (\<lambda>i. i < length pool) ws \<longrightarrow> list_all (\<lambda>i. i < length pool) (fst r))"
  have "P api pool c g ws (ws', c', g')"
  proof (rule getPickedWaves.raw_induct[of P, OF _ assms(1)])
    fix rec :: "'a rng_api \<Rightarrow> archetype list \<Rightarrow> float32 \<Rightarrow> 'a \<Rightarrow> nat list \<Rightarrow> (nat list \<times> float32 \<times> 'a) option"
    fix api :: "'a rng_api" and pool c and g :: 'a and ws r
    assume IH: "\<And>api pool c g ws r. rec api pool c g ws = Some r \<Longrightarrow> P api pool c g ws r"
      and eq: "(if f32_less 0 c then
           case pick_wave api pool c g of
             None \<Rightarrow> Some (ws, c, g)
           | Some (i, g') \<Rightarrow> rec api pool (f32_sub c (f32_of_int (ar_difficultyCost (pool ! i)))) g' (ws @ [i])
         else Some (ws, c, g)) = Some r"
    show "P api pool c g ws r"
    proof (cases "f32_less 0 c \<and> pick_wave api pool c g \<noteq> None")
      case True
      then obtain i g1 where p: "pick_wave api pool c g = Some (i, g1)" by auto
      have i: "i < length pool" using candidates_affordable[OF pick_wave_candidate[OF p]] by simp
      have "rec api pool (f32_sub c (f32_of_int (ar_difficultyCost (pool ! i)))) g1 (ws @ [i]) = Some r"
        using eq True p by simp
      from IH[OF this] i show ?thesis by (simp add: P_def)
    next
      case False
      with eq show ?thesis by (auto simp: P_def split: if_splits option.splits)
    qed
  qed
  with assms(2) show ?thesis by (simp add: P_def)
qed

lemma director_ok_pick:
  assumes "director_ok d" and "pickNewWaveIfNeeded api d = Some d'"
  shows "director_ok d'"
proof (cases "dr_activeWaves d = []")
  case True
  then obtain ws c g where p: "getPickedWaves api (dr_wavePool d) (dr_credits d) (dr_rng d) [] = Some (ws, c, g)"
      and d': "d' = fold (activate api) ws (d\<lparr>dr_credits := c, dr_rng := g\<rparr>)"
    using assms(2) by (auto simp: pickNewWaveIfNeeded_def pickRandomWaves_def)
  have "director_ok (fold (activate api) is e)"
    if "director_ok e" "list_all (\<lambda>i. i < length (dr_wavePool e)) is" for "is" e
    using that
  proof (induction "is" arbitrary: e)
    case (Cons i "is")
    have "ar_enemies (dr_wavePool e ! i) \<noteq> []"
      using Cons.prems by (simp add: director_ok_def pool_ok_def list_all_iff)
    then have "director_ok (activate api i e)"
      using Cons.prems by (simp add: director_ok_def activate_def wave_ok_def split: prod.split)
    moreover have "dr_wavePool (activate api i e) = dr_wavePool e" by (simp add: activate_def split: prod.split)
    ultimately show ?case using Cons by simp
  qed simp
  moreover have "list_all (\<lambda>i. i < length (dr_wavePool d)) ws" using picked_waves_exist[OF p] by simp
  ultimately show ?thesis using assms(1) d' by (simp add: director_ok_def)
next
  case False
  with assms show ?thesis by (simp add: pickNewWaveIfNeeded_def)
qed

end
