(* ===== verification/Lobby.thy ===== *)
theory Lobby
  imports Movement Director Queues
begin

text \<open>
  The class \<open>Lobby\<close> (\<^verbatim>\<open>Server/src/lobby/lobby.hpp\<close>, \<^verbatim>\<open>Server/src/lobby/lobby.cpp\<close>), the handler of
  the input of a user (\<^verbatim>\<open>Server/src/handlers\<close>), the systems that broadcast
  (\<^verbatim>\<open>Server/src/systems/broadcast_*.cpp\<close>) and the update of the level director, which spawns through
  the lobby.  A session is its place in the arena of sessions.  The queue of outgoing messages is
  shared by all lobbies: the field is the queue as the running lobby finds it.  The queue of tasks
  holds the four closures that the server pushes, as data.  An exception that leaves the thread
  of the lobby and undefined behaviour are values of \<open>lobby_fault\<close>.
\<close>

section \<open>State\<close>

datatype server_system =
  ApplyEnemyMovement | ApplyMovement | BroadcastUpdatedMovements | BroadcastDeadEntities

datatype lobby_action =
  Act_join nat | Act_leave nat | Act_user_input nat user_input_msg | Act_start

text \<open>A reference to an instance that is gone, \<open>value()\<close> of an empty optional, \<open>at\<close> with a missing
  key, an element of a vector that has none there, a loop without end.\<close>

datatype lobby_fault =
  Dangling_reference | Bad_optional_access | Missing_key | Out_of_bounds | Never_returns

type_synonym send_interface = "nat list \<times> server_variant"

record 'g lobby =
  lb_roomId :: u16
  lb_actionQueue :: "lobby_action concurrent_queue"
  lb_outGoing :: "send_interface concurrent_queue"
  lb_engine :: "server_system engine"
  lb_players :: "(nat, nat) omap"
  lb_isRunning :: bool
  lb_levelDirector :: "'g director"

definition state_number :: "game_state \<Rightarrow> u64" where "state_number s = ucast (game_state_value s)"
definition entity_state :: "player_state \<Rightarrow> u64" where "entity_state s = ucast (player_state_value s)"

definition registerAllSystems :: "server_system engine \<Rightarrow> server_system engine" where
  "registerAllSystems en =
     engine_registerSystem BroadcastDeadEntities
       (engine_registerSystem BroadcastUpdatedMovements
         (engine_registerSystem ApplyMovement
           (engine_registerSystem ApplyEnemyMovement en)))"

definition new_lobby :: "u16 \<Rightarrow> send_interface concurrent_queue \<Rightarrow> 'g director \<Rightarrow> 'g lobby" where
  "new_lobby i outGoing levelDirector =
     \<lparr>lb_roomId = i, lb_actionQueue = cq_new, lb_outGoing = outGoing,
      lb_engine = setGameState (state_number GameWaiting) (registerAllSystems (new_engine GameComponents)),
      lb_players = [], lb_isRunning = False, lb_levelDirector = levelDirector\<rparr>"

abbreviation lobby_store :: "'g lobby \<Rightarrow> server_system store" where
  "lobby_store l \<equiv> en_ecs (lb_engine l)"

definition on_engine :: "(server_system engine \<Rightarrow> server_system engine) \<Rightarrow> 'g lobby \<Rightarrow> 'g lobby" where
  "on_engine f l = l\<lparr>lb_engine := f (lb_engine l)\<rparr>"

section \<open>Players\<close>

definition getPlayerId :: "nat \<Rightarrow> 'g lobby \<Rightarrow> nat option" where
  "getPlayerId sp l = map_of (lb_players l) sp"

text \<open>References, as places: \<open>getPlayerComponent<T>\<close>, and \<open>getPlayerPosition\<close>.\<close>

definition getPlayerComponent :: "component_type \<Rightarrow> nat \<Rightarrow> 'g lobby \<Rightarrow> nat option" where
  "getPlayerComponent t sp l =
     (case map_of (lb_players l) sp of
        None \<Rightarrow> None
      | Some i \<Rightarrow> getEntityWithComponent t i (lobby_store l))"

definition getPlayerPosition :: "nat \<Rightarrow> 'g lobby \<Rightarrow> nat option" where
  "getPlayerPosition sp l =
     (case map_of (lb_players l) sp of
        None \<Rightarrow> None
      | Some i \<Rightarrow> getEntityWithComponent Position i (lobby_store l))"

definition getPlayerPositions :: "'g lobby \<Rightarrow> position list" where
  "getPlayerPositions l =
     List.map_filter (\<lambda>sp. map_option (\<lambda>k. position_at k (lobby_store l)) (getPlayerPosition sp l))
       (map fst (lb_players l))"

definition getAllSessions :: "'g lobby \<Rightarrow> nat list" where
  "getAllSessions l = map fst (lb_players l)"

definition hasPlayerAlive :: "'g lobby \<Rightarrow> bool" where
  "hasPlayerAlive l \<longleftrightarrow>
     getGameState (lb_engine l) \<noteq> state_number GameRunning \<or>
     list_ex (\<lambda>i. case getEntityFromGroup State [] i (lobby_store l) of
         None \<Rightarrow> False
       | Some k \<Rightarrow> sc_state (state_at k (lobby_store l)) = entity_state EntityAlive)
       (map snd (lb_players l))"

section \<open>Messages and entities\<close>

definition lobby_send :: "nat \<Rightarrow> server_variant \<Rightarrow> 'g lobby \<Rightarrow> 'g lobby" where
  "lobby_send sp p l = l\<lparr>lb_outGoing := cq_push ([sp], p) (lb_outGoing l)\<rparr>"

definition lobby_broadcast :: "server_variant \<Rightarrow> 'g lobby \<Rightarrow> 'g lobby" where
  "lobby_broadcast p l = l\<lparr>lb_outGoing := cq_push (getAllSessions l, p) (lb_outGoing l)\<rparr>"

definition destroy_packet :: "nat \<Rightarrow> server_variant" where
  "destroy_packet i = V_Destroy \<lparr>de_id = word_of_nat i, earned_points = 0\<rparr>"

definition spawn_packet :: "nat \<Rightarrow> server_system engine \<Rightarrow> server_variant" where
  "spawn_packet i en =
     (case getEntityInfos GameComponents i en of
        (bits, content) \<Rightarrow> V_Spawn \<lparr>sp_id = word_of_nat i, sp_bitmask = map word_of_nat bits, sp_content = content\<rparr>)"

definition spawnEntity :: "component list \<Rightarrow> nat option \<Rightarrow> 'g lobby \<Rightarrow> nat \<times> 'g lobby" where
  "spawnEntity xs session l =
     (case engine_registerEntity None xs (lb_engine l) of
        (i, en) \<Rightarrow>
          let l1 = l\<lparr>lb_engine := en,
                lb_players := (case session of Some sp \<Rightarrow> om_put sp i (lb_players l) | None \<Rightarrow> lb_players l)\<rparr>
          in (i, lobby_broadcast (spawn_packet i en) l1))"

definition killEntity :: "nat \<Rightarrow> nat option \<Rightarrow> 'g lobby \<Rightarrow> nat \<times> 'g lobby" where
  "killEntity i session l =
     (let l1 = on_engine (engine_destroyEntity i) l;
          l2 = (case session of Some sp \<Rightarrow> l1\<lparr>lb_players := om_del sp (lb_players l1)\<rparr> | None \<Rightarrow> l1)
      in (i, lobby_broadcast (destroy_packet i) l2))"

definition changeGameState :: "u64 \<Rightarrow> 'g lobby \<Rightarrow> 'g lobby" where
  "changeGameState s l =
     lobby_broadcast (V_UpdateGameState \<lparr>ug_gameState = s\<rparr>) (on_engine (setGameState s) l)"

definition broadcast_destroyed :: "nat list \<Rightarrow> 'g lobby \<Rightarrow> 'g lobby" where
  "broadcast_destroyed ids l = fold (\<lambda>i. lobby_broadcast (destroy_packet i)) ids l"

definition revive_player :: "nat \<Rightarrow> 'g lobby \<Rightarrow> lobby_fault + 'g lobby" where
  "revive_player i l =
     (case getEntityFromGroup State [] i (lobby_store l) of
        None \<Rightarrow> Inl Bad_optional_access
      | Some k \<Rightarrow> Inr (on_engine (on_ecs (put_state_at k \<lparr>sc_state = entity_state EntityAlive\<rparr>)) l))"

primrec revive_players :: "nat list \<Rightarrow> 'g lobby \<Rightarrow> lobby_fault + 'g lobby" where
  "revive_players [] l = Inr l"
| "revive_players (i # is) l = try_bind (revive_player i l) (revive_players is)"

text \<open>\<open>for (id : _engine.removeAllOf<Type>({t})) broadcast(Destroy)\<close>.\<close>

definition clear_type :: "entity_type \<Rightarrow> 'g lobby \<Rightarrow> 'g lobby" where
  "clear_type t l =
     (case removeAllOf (C_Type \<lparr>ty_type = entity_type_value t\<rparr>) (lb_engine l) of
        (ids, en) \<Rightarrow> broadcast_destroyed ids (l\<lparr>lb_engine := en\<rparr>))"

definition lobby_restart :: "'g lobby \<Rightarrow> lobby_fault + 'g lobby" where
  "lobby_restart l =
     try_bind (revive_players (map snd (lb_players l))
         (l\<lparr>lb_levelDirector := director_restart (lb_levelDirector l)\<rparr>))
       (\<lambda>l1. Inr (clear_type kBullet (clear_type kEnemy l1)))"

section \<open>Tasks\<close>

definition player_components :: "component list" where
  "player_components =
     [C_Position \<lparr>pos_x = f32_of_int 200, pos_y = f32_of_int 300, pos_isUpdated = False\<rparr>,
      C_Velocity \<lparr>vel_vx = 0, vel_vy = 0, vel_max_vx = f32_of_int 10, vel_max_vy = f32_of_int 10\<rparr>,
      C_Health \<lparr>hp = 100, max_hp = 100\<rparr>,
      C_Type \<lparr>ty_type = entity_type_value kPlayer\<rparr>,
      C_Hitbox \<lparr>hb_shown = True, hb_width = f32_of_int 150, hb_height = f32_of_int 75\<rparr>,
      C_Score \<lparr>playerScore = 0\<rparr>,
      C_Collision \<lparr>isTriggered = False\<rparr>,
      C_State \<lparr>sc_state = entity_state PlayerWaiting\<rparr>]"

text \<open>The snapshot of all entities; the state of the game is narrowed to a byte.\<close>

definition world_init_packet :: "server_system engine \<Rightarrow> server_variant" where
  "world_init_packet en =
     (let ids = getAllEntities (en_ecs en); infos = map (\<lambda>i. getEntityInfos GameComponents i en) ids in
      V_WorldInit \<lparr>wi_state = ucast (getGameState en), wi_bitsets = map (map word_of_nat \<circ> fst) infos,
        wi_ids = map word_of_nat ids, wi_entities = map snd infos\<rparr>)"

definition join_action :: "nat \<Rightarrow> 'g lobby \<Rightarrow> lobby_fault + 'g lobby" where
  "join_action sp l =
     (if om_has (lb_players l) sp then Inr l
      else
        let l1 = (if getGameState (lb_engine l) < state_number GameLobby
                  then changeGameState (state_number GameLobby) l else l)
        in case spawnEntity player_components (Some sp) l1 of
             (i, l2) \<Rightarrow>
               (case map_of (lb_players l2) sp of
                  None \<Rightarrow> Inl Missing_key
                | Some playerId \<Rightarrow>
                    let l3 = lobby_send sp (V_JoinAck \<lparr>ja_id = word_of_nat playerId, ja_roomId = lb_roomId l2,
                          ja_gameState = getGameState (lb_engine l2), ja_status = 1\<rparr>) l2
                    in Inr (if i \<noteq> 0 then lobby_broadcast (world_init_packet (lb_engine l3)) l3 else l3)))"

definition leave_action :: "nat \<Rightarrow> 'g lobby \<Rightarrow> 'g lobby" where
  "leave_action sp l =
     (case map_of (lb_players l) sp of
        None \<Rightarrow> l
      | Some i \<Rightarrow>
          let l1 = lobby_broadcast (destroy_packet i) (on_engine (engine_destroyEntity i) l);
              l2 = l1\<lparr>lb_players := om_del sp (lb_players l1)\<rparr>
          in if lb_players l2 \<noteq> [] then l2
             else case clearEcs (lb_engine l2) of
               (ids, en) \<Rightarrow>
                 let l3 = on_engine (setGameState (state_number GameWaiting))
                       (broadcast_destroyed ids (l2\<lparr>lb_engine := en\<rparr>))
                 in if lb_roomId l3 \<noteq> 0 then l3\<lparr>lb_isRunning := False\<rparr> else l3)"

definition pressed :: "game_input \<Rightarrow> user_input_msg \<Rightarrow> bool" where
  "pressed i p \<longleftrightarrow> input_mask p AND game_input_value i \<noteq> 0"

definition bullet_components :: "nat \<Rightarrow> position \<Rightarrow> component list" where
  "bullet_components i pos =
     [C_Type \<lparr>ty_type = entity_type_value kBullet\<rparr>,
      C_Position \<lparr>pos_x = f32_add (pos_x pos) (f32_of_int 100), pos_y = f32_add (pos_y pos) (f32_of_int 20),
        pos_isUpdated = False\<rparr>,
      C_Owner \<lparr>ow_id = word_of_nat i\<rparr>,
      C_Velocity \<lparr>vel_vx = f32_of_int 20, vel_vy = 0, vel_max_vx = f32_of_int 20, vel_max_vy = 0\<rparr>,
      C_Hitbox \<lparr>hb_shown = True, hb_width = f32_of_int 75, hb_height = f32_of_int 35\<rparr>,
      C_Collision \<lparr>isTriggered = False\<rparr>,
      C_State \<lparr>sc_state = entity_state EntityAlive\<rparr>]"

definition spawnBullet :: "nat \<Rightarrow> position \<Rightarrow> user_input_msg \<Rightarrow> 'g lobby \<Rightarrow> 'g lobby" where
  "spawnBullet i pos p l =
     (if pressed kShoot p then snd (spawnEntity (bullet_components i pos) None l) else l)"

text \<open>\<open>a ? x : 0\<close> plus \<open>b ? -x : 0\<close>, with \<open>x = 10\<close>.\<close>

definition axis :: "game_input \<Rightarrow> game_input \<Rightarrow> user_input_msg \<Rightarrow> float32" where
  "axis forth back p =
     f32_add (if pressed forth p then f32_of_int 10 else 0) (if pressed back p then f32_of_int (- 10) else 0)"

definition handleUserInput :: "nat \<Rightarrow> user_input_msg \<Rightarrow> 'g lobby \<Rightarrow> lobby_fault + 'g lobby" where
  "handleUserInput sp p l =
     (case getPlayerComponent Velocity sp l of
        None \<Rightarrow> (case getPlayerId sp l of None \<Rightarrow> Inl Bad_optional_access | Some _ \<Rightarrow> Inr l)
      | Some kv \<Rightarrow>
          (case getPlayerId sp l of
             None \<Rightarrow> Inr l
           | Some i \<Rightarrow>
               let v = velocity_at kv (lobby_store l);
                   l1 = on_engine (on_ecs (put_velocity_at kv
                     (v\<lparr>vel_vx := axis kRight kLeft p, vel_vy := axis kDown kUp p\<rparr>))) l
               in case getPlayerPosition sp l of
                    None \<Rightarrow> Inl Bad_optional_access
                  | Some kp \<Rightarrow> Inr (spawnBullet i (position_at kp (lobby_store l1)) p l1)))"

definition start_action :: "'g lobby \<Rightarrow> lobby_fault + 'g lobby" where
  "start_action l = lobby_restart (changeGameState (state_number GameRunning) l)"

primrec run_action :: "lobby_action \<Rightarrow> 'g lobby \<Rightarrow> lobby_fault + 'g lobby" where
  "run_action (Act_join sp) l = join_action sp l"
| "run_action (Act_leave sp) l = Inr (leave_action sp l)"
| "run_action (Act_user_input sp p) l = handleUserInput sp p l"
| "run_action Act_start l = start_action l"

definition pushTask :: "lobby_action \<Rightarrow> 'g lobby \<Rightarrow> 'g lobby" where
  "pushTask a l = l\<lparr>lb_actionQueue := cq_push a (lb_actionQueue l)\<rparr>"

definition lobby_join :: "nat \<Rightarrow> 'g lobby \<Rightarrow> 'g lobby" where "lobby_join sp = pushTask (Act_join sp)"
definition lobby_leave :: "nat \<Rightarrow> 'g lobby \<Rightarrow> 'g lobby" where "lobby_leave sp = pushTask (Act_leave sp)"


section \<open>Systems that broadcast\<close>

definition broadcast_movement :: "nat \<Rightarrow> nat list \<Rightarrow> 'g lobby \<Rightarrow> 'g lobby" where
  "broadcast_movement i refs l =
     (let e = lobby_store l; kp = refs ! 0; pos = position_at kp e; velOpt = getEntityWithComponent Velocity i e in
      if pos_isUpdated pos
      then
        let v = (case velOpt of Some kv \<Rightarrow> (vel_vx (velocity_at kv e), vel_vy (velocity_at kv e)) | None \<Rightarrow> (0, 0));
            packet = \<lparr>up_id = word_of_nat i, up_x = pos_x pos, up_y = pos_y pos, up_vx = fst v, up_vy = snd v\<rparr>
        in on_engine (on_ecs (put_position_at kp (pos\<lparr>pos_isUpdated := False\<rparr>)))
             (lobby_broadcast (V_UpdatePosition packet) l)
      else l)"

definition BroadcastUpdatedMovements_apply :: "'g lobby \<Rightarrow> 'g lobby" where
  "BroadcastUpdatedMovements_apply l =
     group_apply broadcast_movement (ecs_group [cid Position] (lobby_store l)) l"

text \<open>The group was made before the loop, and a kill moves the last instance of every set: a
  reference to a place beyond the end is dangling.\<close>

definition live_ref :: "component_type \<Rightarrow> nat \<Rightarrow> 's store \<Rightarrow> bool" where
  "live_ref t k e \<longleftrightarrow> (case getComponent (cid t) e of None \<Rightarrow> False | Some s \<Rightarrow> k < ss_size s)"

definition bury_entity :: "nat \<Rightarrow> nat list \<Rightarrow> 'g lobby \<Rightarrow> lobby_fault + 'g lobby" where
  "bury_entity i refs l =
     (let e = lobby_store l; ks = refs ! 0; kt = refs ! 1 in
      if \<not> live_ref Type kt e then Inl Dangling_reference
      else if ty_type (type_at kt e) = entity_type_value kPlayer then Inr l
      else if \<not> live_ref State ks e then Inl Dangling_reference
      else if sc_state (state_at ks e) = entity_state EntityDead then Inr (snd (killEntity i None l))
      else Inr l)"

definition BroadcastDeadEntities_apply :: "'g lobby \<Rightarrow> lobby_fault + 'g lobby" where
  "BroadcastDeadEntities_apply l =
     group_apply (\<lambda>i refs r. try_bind r (bury_entity i refs))
       (ecs_group (map cid [State, Type]) (lobby_store l)) (Inr l)"

primrec apply_system ::
    "(float32 \<Rightarrow> float32) \<Rightarrow> server_system \<Rightarrow> 'g lobby \<Rightarrow> lobby_fault + 'g lobby" where
  "apply_system cosf ApplyEnemyMovement l = Inr (on_engine (on_ecs (ApplyEnemyMovement_apply cosf)) l)"
| "apply_system cosf ApplyMovement l = Inr (on_engine (on_ecs ApplyMovement_apply) l)"
| "apply_system cosf BroadcastUpdatedMovements l = Inr (BroadcastUpdatedMovements_apply l)"
| "apply_system cosf BroadcastDeadEntities l = BroadcastDeadEntities_apply l"

primrec apply_systems ::
    "(float32 \<Rightarrow> float32) \<Rightarrow> server_system list \<Rightarrow> 'g lobby \<Rightarrow> lobby_fault + 'g lobby" where
  "apply_systems cosf [] l = Inr l"
| "apply_systems cosf (s # ss) l = try_bind (apply_system cosf s l) (apply_systems cosf ss)"

text \<open>\<open>_engine.runOnce\<close>; the server has no class derived from \<open>MonoBehaviour\<close>, so its two virtual
  members do nothing.\<close>

definition lobby_runOnce :: "(float32 \<Rightarrow> float32) \<Rightarrow> 'g lobby \<Rightarrow> lobby_fault + 'g lobby" where
  "lobby_runOnce cosf l =
     (let l1 = on_engine (on_ecs (\<lambda>e. group_apply (\<lambda>_. run_behaviour (\<lambda>_ e. e) (\<lambda>_ e. e))
            (ecs_group [cid Behaviour] e) e)) l
      in apply_systems cosf (e_systems (lobby_store l1)) l1)"

section \<open>The update of the director\<close>

text \<open>\<open>std::ranges::sort\<close> by \<open>x\<close>.\<close>

primrec insert_position :: "position \<Rightarrow> position list \<Rightarrow> position list" where
  "insert_position p [] = [p]"
| "insert_position p (q # qs) =
     (if f32_less (pos_x q) (pos_x p) then q # insert_position p qs else p # q # qs)"

definition sort_positions :: "position list \<Rightarrow> position list" where
  "sort_positions ps = foldr insert_position ps []"

definition on_director :: "('g director \<Rightarrow> 'g director) \<Rightarrow> 'g lobby \<Rightarrow> 'g lobby" where
  "on_director f l = l\<lparr>lb_levelDirector := f (lb_levelDirector l)\<rparr>"

definition set_wave :: "nat \<Rightarrow> active_wave \<Rightarrow> 'g director \<Rightarrow> 'g director" where
  "set_wave i w d = d\<lparr>dr_activeWaves := (dr_activeWaves d)[i := w]\<rparr>"

text \<open>The components of an enemy; a type or a pattern that is not in its table raises.\<close>

definition enemy_components :: "float32 \<Rightarrow> float32 \<Rightarrow> enemy_group \<Rightarrow> component list option" where
  "enemy_components x y g =
     (case (typeToHitbox (eg_type g), typeToVelocity (eg_type g), typeToValue (eg_type g), nameToMoveSet (eg_patternName g)) of
        (Some box, Some v, Some val, Some ms) \<Rightarrow>
          Some [C_Position \<lparr>pos_x = x, pos_y = y, pos_isUpdated = False\<rparr>,
            C_Type \<lparr>ty_type = entity_type_value (eg_type g)\<rparr>, C_Hitbox box, C_Velocity v,
            C_Collision \<lparr>isTriggered = False\<rparr>, C_Value val,
            C_State \<lparr>sc_state = entity_state EntityAlive\<rparr>, C_MoveSet \<lparr>ms_set = ms\<rparr>]
      | _ \<Rightarrow> None)"

text \<open>After the spawn: the next enemy of the group, or the next group, or the end of the wave.\<close>

definition after_spawn :: "archetype \<Rightarrow> enemy_group \<Rightarrow> active_wave \<Rightarrow> active_wave" where
  "after_spawn a g w0 =
     (let w = w0\<lparr>av_spawnedInGroup := av_spawnedInGroup w0 + 1\<rparr> in
      if av_spawnedInGroup w \<ge> eg_count g
      then
        let w1 = w\<lparr>av_spawnedInGroup := 0, av_currentGroupIndex := av_currentGroupIndex w + 1\<rparr>
        in if av_currentGroupIndex w1 \<ge> length (ar_enemies a) then w1\<lparr>av_isFinished := True\<rparr> else w1
      else w)"

definition spawn_enemy ::
    "'g rng_api \<Rightarrow> float32 \<Rightarrow> nat \<Rightarrow> active_wave \<Rightarrow> archetype \<Rightarrow> 'g lobby \<Rightarrow> lobby_fault + 'g lobby" where
  "spawn_enemy api minOffsetX i w a l =
     (if av_currentGroupIndex w \<ge> length (ar_enemies a) then Inl Out_of_bounds
      else
        let g = ar_enemies a ! av_currentGroupIndex w in
        case rg_real api (f32_of_int 150) (f32_of_int 1200) (dr_rng (lb_levelDirector l)) of
          (dx, g1) \<Rightarrow>
            (case rg_real api (f32_of_int 200) (f32_of_int 950) g1 of
               (y, g2) \<Rightarrow>
                 (case enemy_components (f32_add minOffsetX dx) y g of
                    None \<Rightarrow> Inl Missing_key
                  | Some xs \<Rightarrow>
                      Inr (on_director (set_wave i (after_spawn a g w))
                        (snd (spawnEntity xs None (on_director (\<lambda>d. d\<lparr>dr_rng := g2\<rparr>) l)))))))"

definition wave_step ::
    "'g rng_api \<Rightarrow> float32 \<Rightarrow> float32 \<Rightarrow> nat \<Rightarrow> 'g lobby \<Rightarrow> lobby_fault + 'g lobby" where
  "wave_step api dt minOffsetX i l =
     (let d = lb_levelDirector l; w0 = dr_activeWaves d ! i in
      if av_isFinished w0
      then Inr (on_director (\<lambda>d. d\<lparr>dr_activeWaves := take i (dr_activeWaves d) @ drop (Suc i) (dr_activeWaves d)\<rparr>) l)
      else
        let w = w0\<lparr>av_timer := f32_add (av_timer w0) dt\<rparr>; a = dr_wavePool d ! av_archetype w in
        if f32_less (av_timer w) (ar_spawnInterval a)
        then Inr (on_director (set_wave i w) l)
        else spawn_enemy api minOffsetX i (w\<lparr>av_timer := f32_sub (av_timer w) (ar_spawnInterval a)\<rparr>) a l)"

text \<open>\<open>for (i = size - 1; i >= 0; --i)\<close>; the first argument is \<open>i + 1\<close>.\<close>

primrec wave_loop ::
    "nat \<Rightarrow> 'g rng_api \<Rightarrow> float32 \<Rightarrow> float32 \<Rightarrow> 'g lobby \<Rightarrow> lobby_fault + 'g lobby" where
  "wave_loop 0 api dt minOffsetX l = Inr l"
| "wave_loop (Suc i) api dt minOffsetX l =
     try_bind (wave_step api dt minOffsetX i l) (wave_loop i api dt minOffsetX)"

definition earn :: "float32 \<Rightarrow> 'g director \<Rightarrow> 'g director" where
  "earn dt d =
     (let gameTime = f32_add (dr_gameTime d) dt;
          incomeRate = f32_add BASE_INCOME (f32_mul (f32_div gameTime (f32_of_int 60)) INCOME_MULTIPLIER)
      in d\<lparr>dr_gameTime := gameTime, dr_credits := f32_add (dr_credits d) (f32_mul incomeRate dt)\<rparr>)"

definition director_update :: "'g rng_api \<Rightarrow> float32 \<Rightarrow> 'g lobby \<Rightarrow> lobby_fault + 'g lobby" where
  "director_update api dt l =
     (case pickNewWaveIfNeeded api (earn dt (lb_levelDirector l)) of
        None \<Rightarrow> Inl Never_returns
      | Some d \<Rightarrow>
          let l1 = l\<lparr>lb_levelDirector := d\<rparr> in
          if dr_activeWaves d = [] then Inr l1
          else
            let playerPos = sort_positions (getPlayerPositions l1) in
            if playerPos = [] then Inl Out_of_bounds
            else wave_loop (length (dr_activeWaves d)) api dt (f32_add (pos_x (last playerPos)) (f32_of_int 400)) l1)"

section \<open>The thread of the lobby\<close>

text \<open>\<open>TIME_PER_TICK\<close> is \<open>1.0 / 20\<close>, here as a \<open>float\<close>.\<close>

definition TIME_PER_TICK :: float32 where "TIME_PER_TICK = 0x3D4CCCCD"

record 'g lobby_env =
  le_cos :: "float32 \<Rightarrow> float32"
  le_rng :: "'g rng_api"

definition lobby_tick :: "'g lobby_env \<Rightarrow> 'g lobby \<Rightarrow> lobby_fault + 'g lobby" where
  "lobby_tick env l =
     try_bind (if \<not> hasPlayerAlive l then lobby_restart (changeGameState (state_number GameOver) l) else Inr l) (\<lambda>l1.
     try_bind (lobby_runOnce (le_cos env) l1) (\<lambda>l2.
       if getGameState (lb_engine l2) = state_number GameRunning
       then director_update (le_rng env) TIME_PER_TICK l2 else Inr l2))"

text \<open>\<open>while (_actionQueue.pop(callbackFunction)) callbackFunction(*this)\<close>.\<close>

primrec run_actions :: "lobby_action list \<Rightarrow> 'g lobby \<Rightarrow> lobby_fault + 'g lobby" where
  "run_actions [] l = Inr (l\<lparr>lb_actionQueue := cq_new\<rparr>)"
| "run_actions (a # as) l = try_bind (run_action a (l\<lparr>lb_actionQueue := \<lparr>cq_queue = as\<rparr>\<rparr>)) (run_actions as)"

primrec lobby_ticks :: "nat \<Rightarrow> 'g lobby_env \<Rightarrow> 'g lobby \<Rightarrow> lobby_fault + 'g lobby" where
  "lobby_ticks 0 env l = Inr l"
| "lobby_ticks (Suc n) env l = try_bind (lobby_tick env l) (lobby_ticks n env)"

text \<open>One round of the loop of \<open>run\<close>, with \<open>n\<close> ticks of lag.\<close>

definition lobby_round :: "'g lobby_env \<Rightarrow> nat \<Rightarrow> 'g lobby \<Rightarrow> lobby_fault + 'g lobby" where
  "lobby_round env n l =
     (if \<not> lb_isRunning l then Inr l
      else try_bind (run_actions (cq_queue (lb_actionQueue l)) l) (lobby_ticks n env))"

definition lobby_stop :: "'g lobby \<Rightarrow> 'g lobby" where
  "lobby_stop l = (if \<not> lb_isRunning l then l else l\<lparr>lb_isRunning := False\<rparr>)"

text \<open>\<open>start\<close>, with the first statement of the thread; \<open>file\<close> is the contents of the file.\<close>

definition lobby_start :: "'j json_api \<Rightarrow> string option \<Rightarrow> 'g lobby \<Rightarrow> json_fault option \<times> 'g lobby" where
  "lobby_start api file l =
     (case director_load api file (lb_levelDirector l) of
        (Some e, d) \<Rightarrow> (Some e, l\<lparr>lb_levelDirector := d\<rparr>)
      | (None, d) \<Rightarrow>
          (None, on_engine (setGameState (state_number GameWaiting)) (l\<lparr>lb_levelDirector := d, lb_isRunning := True\<rparr>)))"

end
