(* ===== verification/LobbyLife.thy ===== *)
theory LobbyLife
  imports Lobby
begin

text \<open>
  What a lobby keeps: \<open>lobby_ok\<close> holds after every task, every system and every tick.  Its players
  are different entities of type \<open>kPlayer\<close> with the components that the tasks ask for.  The
  relation \<open>touched\<close> relates the stores before and after code that only writes through references
  to positions, velocities and states.
\<close>

named_theorems touching "the steps that only write through references"
named_theorems ok_steps "the operations that keep the invariant of a lobby"

section \<open>References\<close>

lemma from_group_single: "getEntityFromGroup t [] = getEntityWithComponent t"
  by (rule ext, rule ext) (simp add: getEntityFromGroup_def getEntityWithComponent_def)

lemma ref_none: "ecs_wf e \<Longrightarrow> getEntityWithComponent t i e = None \<longleftrightarrow> getEntityComponent (cid t) i e = None"
  by (cases "getEntityWithComponent t i e") (auto dest!: lookup_value[of e t i] simp flip: lookup_value)

lemma ref_value: "ecs_wf e \<Longrightarrow> getEntityWithComponent t i e = Some k \<Longrightarrow>
    getEntityComponent (cid t) i e = Some (ecs_deref (cid t) k e)"
  using lookup_value[of e t i] by simp

lemma ref_exists: "ecs_wf e \<Longrightarrow> getEntityComponent (cid t) i e \<noteq> None \<Longrightarrow>
    \<exists>k. getEntityWithComponent t i e = Some k"
  using ref_none[of e t i] by auto

lemma store_wf: "game_store e \<Longrightarrow> ecs_wf e"
  using game_store_inv by blast

section \<open>Writes through references\<close>

definition touched :: "(component, 's) ecs \<Rightarrow> (component, 's) ecs \<Rightarrow> bool" where
  "touched e e' \<longleftrightarrow>
     (game_store e \<longrightarrow> game_store e' \<and> e_systems e' = e_systems e \<and> e_entities e' = e_entities e \<and>
        e_entitiesID e' = e_entitiesID e \<and>
        (\<forall>c i. getEntityComponent c i e' = None \<longleftrightarrow> getEntityComponent c i e = None) \<and>
        (\<forall>i. getEntityComponent (cid Type) i e' = getEntityComponent (cid Type) i e))"

lemma touched_refl [simp]: "touched e e"
  by (simp add: touched_def)

lemma touched_trans [trans]: "touched e e' \<Longrightarrow> touched e' e'' \<Longrightarrow> touched e e''"
  by (simp add: touched_def)

lemma touched_assign:
  assumes "type_of x \<noteq> Type"
  shows "touched e (ecs_assign (cid (type_of x)) k x e)"
proof -
  have "e_systems (ecs_assign c k x e) = e_systems e" "e_entities (ecs_assign c k x e) = e_entities e"
    "e_entitiesID (ecs_assign c k x e) = e_entitiesID e" for c
    by (simp_all add: ecs_assign_def split: option.split)
  moreover have "getEntityComponent (cid Type) i (ecs_assign (cid (type_of x)) k x e) = getEntityComponent (cid Type) i e"
    if "ecs_wf e" for i
    using get_assign[OF that, of "cid Type" i "cid (type_of x)" k x] assms
    by (metis cid_inject)
  moreover have "getEntityComponent c i (ecs_assign d k x e) = None \<longleftrightarrow> getEntityComponent c i e = None"
    if "ecs_wf e" for c i d
    using has_assign[OF that, of d k x i c] unfolding has_component_get by blast
  ultimately show ?thesis
    using game_store.write_ref[of e x k] store_wf[of e] unfolding touched_def by blast
qed

lemma touched_put [touching]:
  "touched e (put_position_at k p e)" "touched e (put_velocity_at k v e)" "touched e (put_state_at k s e)"
  using touched_assign[of "C_Position p" e k] touched_assign[of "C_Velocity v" e k] touched_assign[of "C_State s" e k]
  by (simp_all add: put_position_at_def put_velocity_at_def put_state_at_def)

lemma touched_after [touching]:
  "touched e e' \<Longrightarrow> touched e (put_position_at k p e')" "touched e e' \<Longrightarrow> touched e (put_velocity_at k v e')"
  "touched e e' \<Longrightarrow> touched e (put_state_at k s e')"
  by (meson touched_put touched_trans)+

lemma touched_fold: "(\<And>i e. touched e (f i e)) \<Longrightarrow> touched e (fold f is e)"
  by (induction "is" arbitrary: e) (auto intro: touched_trans)

lemma touched_apply: "(\<And>i refs e. touched e (f i refs e)) \<Longrightarrow> touched e (group_apply f g e)"
  unfolding group_apply_def by (rule touched_fold) (simp add: apply_helper_def)

lemma touched_enemies: "touched e (ApplyEnemyMovement_apply cosf e)"
  unfolding ApplyEnemyMovement_apply_def
  by (rule touched_apply) (simp add: move_enemy_def Let_def touching)

lemma touched_entity: "touched e (handleEntityMovement kp kv ks c e)"
  by (simp add: handleEntityMovement_def Let_def touching split: option.split)

lemma touched_player: "touched e (handlePlayerHorizontalMovement kp kv kh c e)"
  "touched e (handlePlayerVerticalMovement kp kv kh c e)"
  by (simp_all add: handlePlayerHorizontalMovement_def handlePlayerVerticalMovement_def Let_def touching)

lemma touched_move: "touched e (move_entity colliders i refs e)"
proof -
  have player: "touched e (move_player colliders i refs e)" for e :: "'a store"
    unfolding move_player_def Let_def by (rule touched_trans[OF touched_player(1) touched_player(2)])
  have other: "touched e (move_other colliders i refs e)" for e :: "'a store"
    by (auto simp: move_other_def Let_def touched_entity intro: touched_after)
  have both: "touched e (if b then move_player colliders i refs e1 else move_other colliders i refs e1)"
    if "touched e e1" for b e1
    using touched_trans[OF that player] touched_trans[OF that other] by simp
  show ?thesis
    unfolding move_entity_def Let_def by (rule both) (rule touched_put(1))
qed

lemma touched_movement: "touched e (ApplyMovement_apply e)"
  unfolding ApplyMovement_apply_def by (rule touched_apply) (rule touched_move)

lemma touched_behaviours:
  "touched e (group_apply (\<lambda>_. run_behaviour (\<lambda>_ e. e) (\<lambda>_ e. e)) g e)"
proof (rule touched_apply)
  fix i refs and e :: "'a store"
  have "touched e (ecs_assign (cid Behaviour) k (C_Behaviour b) e)" for k b
    using touched_assign[of "C_Behaviour b" e k] by simp
  then show "touched e (run_behaviour (\<lambda>_ e. e) (\<lambda>_ e. e) refs e)"
    by (simp add: run_behaviour_def Let_def split: component.split option.split)
qed

section \<open>The invariant\<close>

definition is_player :: "nat \<Rightarrow> (component, 's) ecs \<Rightarrow> bool" where
  "is_player i e \<longleftrightarrow>
     list_all (\<lambda>t. getEntityComponent (cid t) i e \<noteq> None) [Position, Velocity, State] \<and>
     getEntityComponent (cid Type) i e = Some (C_Type \<lparr>ty_type = entity_type_value kPlayer\<rparr>)"

definition server_systems :: "server_system list" where
  "server_systems = [ApplyEnemyMovement, ApplyMovement, BroadcastUpdatedMovements, BroadcastDeadEntities]"

definition lobby_ok :: "'g lobby \<Rightarrow> bool" where
  "lobby_ok l \<longleftrightarrow>
     game_store (lobby_store l) \<and> e_systems (lobby_store l) = server_systems \<and>
     om_wf (lb_players l) \<and> distinct (map snd (lb_players l)) \<and>
     list_all (\<lambda>i. is_player i (lobby_store l)) (map snd (lb_players l))"

lemma lobby_okD:
  assumes "lobby_ok l"
  shows "game_store (lobby_store l)" and "ecs_wf (lobby_store l)" and "om_wf (lb_players l)"
    and "distinct (map snd (lb_players l))" and "e_systems (lobby_store l) = server_systems"
    and "map_of (lb_players l) sp = Some i \<Longrightarrow> is_player i (lobby_store l)"
    and "i \<in> set (map snd (lb_players l)) \<Longrightarrow> is_player i (lobby_store l)"
  using assms store_wf by (force simp: lobby_ok_def list_all_iff dest: map_of_SomeD)+

lemma is_player_touched: "touched e e' \<Longrightarrow> game_store e \<Longrightarrow> is_player i e' = is_player i e"
  by (simp add: touched_def is_player_def)

lemma ok_touched [ok_steps]:
  assumes "\<And>e. touched e (f e)" and "lobby_ok l"
  shows "lobby_ok (on_engine (on_ecs f) l)"
proof -
  have "touched (lobby_store l) (f (lobby_store l))" by (rule assms(1))
  with assms(2) is_player_touched[OF this] show ?thesis
    by (auto simp: lobby_ok_def on_engine_def on_ecs_def touched_def)
qed

lemma ok_frames [simp]:
  "lobby_ok (lobby_send sp p l) = lobby_ok l" "lobby_ok (lobby_broadcast p l) = lobby_ok l"
  "lobby_ok (changeGameState s l) = lobby_ok l" "lobby_ok (on_director f l) = lobby_ok l"
  "lobby_ok (l\<lparr>lb_actionQueue := q\<rparr>) = lobby_ok l" "lobby_ok (l\<lparr>lb_levelDirector := d\<rparr>) = lobby_ok l"
  "lobby_ok (l\<lparr>lb_isRunning := b\<rparr>) = lobby_ok l" "lobby_ok (on_engine (setGameState s) l) = lobby_ok l"
  by (simp_all add: lobby_ok_def lobby_send_def lobby_broadcast_def changeGameState_def on_engine_def
      setGameState_def on_director_def)

lemma systems_registers: "e_systems (registerComponents cids e) = e_systems e"
  by (induction cids rule: rev_induct) (simp_all add: registers_snoc registerComponent_def Let_def,
      simp add: registerComponents_def)

lemma ok_new: "lobby_ok (new_lobby i out d)"
proof -
  let ?e = "lobby_store (new_lobby i out d)"
  have "?e = fold (\<lambda>s. perform (Call_registerSystem s)) server_systems (en_ecs (new_engine GameComponents))"
    by (simp add: new_lobby_def registerAllSystems_def engine_registerSystem_def setGameState_def on_ecs_def
        server_systems_def)
  moreover have "game_store (fold (\<lambda>s. perform (Call_registerSystem s)) ss e)"
    if "game_store e" for ss and e :: "server_system store"
    using that
  proof (induction ss arbitrary: e)
    case (Cons s ss)
    from game_store.call[OF Cons.prems, of "Call_registerSystem s"] Cons.IH show ?case by simp
  qed simp
  moreover have "e_systems ?e = server_systems"
    by (simp add: new_lobby_def registerAllSystems_def engine_registerSystem_def setGameState_def on_ecs_def
        server_systems_def registerSystem_def new_engine_def systems_registers) (simp add: new_ecs_def)
  ultimately show ?thesis
    by (simp add: lobby_ok_def game_store.constructed) (simp add: new_lobby_def)
qed


section \<open>Spawning and destroying\<close>

lemma frame_fields [simp]:
  "lb_engine (lobby_send sp p l) = lb_engine l" "lb_players (lobby_send sp p l) = lb_players l"
  "lb_engine (lobby_broadcast p l) = lb_engine l" "lb_players (lobby_broadcast p l) = lb_players l"
  "lb_players (on_engine f l) = lb_players l" "lb_engine (on_engine f l) = f (lb_engine l)"
  "lb_players (changeGameState s l) = lb_players l"
  "lb_engine (changeGameState s l) = setGameState s (lb_engine l)"
  "lb_players (on_director h l) = lb_players l" "lb_engine (on_director h l) = lb_engine l"
  "en_ecs (setGameState s en) = en_ecs en" "en_ecs (on_ecs g en) = g (en_ecs en)"
  "getGameState (setGameState s en) = s" "getGameState (on_ecs g en) = getGameState en"
  by (simp_all add: lobby_send_def lobby_broadcast_def changeGameState_def on_engine_def on_director_def
      setGameState_def getGameState_def on_ecs_def)

lemma destroyed_spec:
  "broadcast_destroyed ids l = l\<lparr>lb_outGoing :=
     \<lparr>cq_queue = cq_queue (lb_outGoing l) @ map (\<lambda>i. (getAllSessions l, destroy_packet i)) ids\<rparr>\<rparr>"
  unfolding broadcast_destroyed_def
  by (induction ids arbitrary: l) (simp_all add: lobby_broadcast_def cq_push_def getAllSessions_def)

lemma destroyed_fields [simp]:
  "lb_engine (broadcast_destroyed ids l) = lb_engine l" "lb_players (broadcast_destroyed ids l) = lb_players l"
  "lobby_ok (broadcast_destroyed ids l) = lobby_ok l"
  unfolding broadcast_destroyed_def by (induction ids arbitrary: l) simp_all

lemma game_registered: "game_store e \<Longrightarrow> t \<in> set GameComponents \<Longrightarrow> om_has (e_components e) (cid t)"
  using game_store_inv[of e] by (auto simp: game_bits_def in_set_conv_nth)

lemma pack_get: "map_of (rev (pack xs)) (cid t) = find (\<lambda>x. type_of x = t) (rev xs)"
proof -
  have "map_of (map (\<lambda>x. (cid (type_of x), x)) ys) (cid t) = find (\<lambda>x. type_of x = t) ys" for ys
    by (induction ys) auto
  then show ?thesis by (simp add: pack_def rev_map)
qed

lemma find_none: "find P (rev xs) = None \<longleftrightarrow> (\<forall>x \<in> set xs. \<not> P x)"
  by (auto simp: find_None_iff)

text \<open>The value of a component of a pack; the last one counts.\<close>

definition pack_value :: "component list \<Rightarrow> component_type \<Rightarrow> component option" where
  "pack_value xs t = find (\<lambda>x. type_of x = t) (rev xs)"

definition game_pack :: "component list \<Rightarrow> bool" where
  "game_pack xs \<longleftrightarrow> xs \<noteq> [] \<and> list_all (\<lambda>x. type_of x \<in> set GameComponents) xs"

lemma registered_entity:
  assumes "game_store (en_ecs en)" and "game_pack xs"
  defines "i \<equiv> e_entitiesID (en_ecs en)"
  shows "\<exists>en'. engine_registerEntity None xs en = (i, en') \<and> game_store (en_ecs en') \<and>
    e_systems (en_ecs en') = e_systems (en_ecs en) \<and> getGameState en' = getGameState en \<and>
    set (getAllEntities (en_ecs en')) = insert i (set (getAllEntities (en_ecs en))) \<and>
    i \<notin> set (getAllEntities (en_ecs en)) \<and>
    (\<forall>t j. t \<in> set GameComponents \<longrightarrow> getEntityComponent (cid t) j (en_ecs en') =
       (if j = i \<and> pack_value xs t \<noteq> None then pack_value xs t else getEntityComponent (cid t) j (en_ecs en)))"
proof -
  let ?e = "en_ecs en"
  note wf = store_wf[OF assms(1)]
  obtain x where x: "x \<in> set xs" "om_has (e_components ?e) (cid (type_of x))"
    using assms(1,2) game_registered[of ?e] by (cases xs) (auto simp: game_pack_def)
  have none: "\<not> bs_none (getComponentMask (map fst (pack xs)) ?e)"
    using x by (auto simp: mask_none_iff[OF wf] pack_def)
  define e' where "e' = snd (registerEntity (pack xs) ?e)"
  have reg: "registerEntity (pack xs) ?e = (i, e')"
    using registerEntity_entered[OF wf none] by (simp add: e'_def i_def)
  have ents: "set (getAllEntities e') = insert i (set (getAllEntities ?e))"
    using registerEntity_entered[OF wf none] reg by (auto simp: set_getAllEntities entered_def i_def)
  have sys: "e_systems e' = e_systems ?e"
  proof -
    have "e_systems (addEntityComponents j ps e) = e_systems e" for j ps and e :: "'a store"
      unfolding addEntityComponents_def
      by (induction ps arbitrary: e) (auto simp: insertComponentInstance_def split: option.split)
    with registerEntity_entered[OF wf none] reg show ?thesis by (simp add: entered_def)
  qed
  have store: "game_store e'"
    using game_store.call[OF assms(1), of "Call_registerEntity (pack xs)"]
    by (auto simp: e'_def typed_pack_def pack_def)
  have "getEntityComponent (cid t) j e' =
      (if j = i \<and> pack_value xs t \<noteq> None then pack_value xs t else getEntityComponent (cid t) j ?e)"
    if "t \<in> set GameComponents" for t j
  proof -
    have "cid t \<in> fst ` set (pack xs) \<longleftrightarrow> pack_value xs t \<noteq> None"
      by (force simp: pack_value_def find_none pack_def)
    with game_registered[OF assms(1) that] show ?thesis
      by (auto simp: e'_def get_registerEntity[OF wf] pack_get i_def simp flip: pack_value_def)
  qed
  with reg store sys ents show ?thesis
    using fresh_id[OF wf] by (auto simp: engine_registerEntity_def set_getAllEntities i_def getGameState_def)
qed

lemma component_entity: "ecs_wf e \<Longrightarrow> getEntityComponent c i e \<noteq> None \<Longrightarrow> i \<in> set (getAllEntities e)"
  using has_component_entity[of "\<lambda>_. {}" e i c] by (simp add: has_component_get set_getAllEntities)

lemma player_exists: "ecs_wf e \<Longrightarrow> is_player i e \<Longrightarrow> i \<in> set (getAllEntities e)"
  using component_entity[of e "cid Type" i] by (simp add: is_player_def)

lemma om_put_snd: "v \<notin> snd ` set m \<Longrightarrow> distinct (map snd m) \<Longrightarrow> distinct (map snd (om_put k v m))"
  by (induction m) (auto dest!: in_om_put)

lemma spawn_store:
  assumes "lobby_ok l" and "game_pack xs"
    and "session \<noteq> None \<longrightarrow> pack_value xs Type = Some (C_Type \<lparr>ty_type = entity_type_value kPlayer\<rparr>) \<and>
      list_all (\<lambda>t. pack_value xs t \<noteq> None) [Position, Velocity, State]"
  shows "lobby_ok (snd (spawnEntity xs session l))"
proof -
  let ?e = "lobby_store l" and ?i = "e_entitiesID (lobby_store l)"
  note ok = lobby_okD[OF assms(1)]
  obtain en where reg: "engine_registerEntity None xs (lb_engine l) = (?i, en)" "game_store (en_ecs en)"
      "e_systems (en_ecs en) = e_systems ?e" "?i \<notin> set (getAllEntities ?e)"
      "\<And>t j. t \<in> set GameComponents \<Longrightarrow> getEntityComponent (cid t) j (en_ecs en) =
        (if j = ?i \<and> pack_value xs t \<noteq> None then pack_value xs t else getEntityComponent (cid t) j ?e)"
    using registered_entity[OF ok(1) assms(2)] by blast
  have comps: "t \<in> set GameComponents" if "t \<in> {Position, Velocity, State, Type}" for t
    using that by (auto simp: GameComponents_def)
  note get = reg(5)[OF comps, of Position] reg(5)[OF comps, of Velocity] reg(5)[OF comps, of State]
    reg(5)[OF comps, of Type]
  have old: "is_player j (en_ecs en)" if "j \<in> set (map snd (lb_players l))" for j
  proof -
    have "is_player j ?e" using ok(7) that .
    moreover from this have "j \<noteq> ?i" using player_exists[OF ok(2)] reg(4) by blast
    ultimately show ?thesis using get by (simp add: is_player_def)
  qed
  have fresh: "?i \<notin> snd ` set (lb_players l)"
    using ok(7) player_exists[OF ok(2)] reg(4) by force
  have "lobby_ok (l\<lparr>lb_engine := en, lb_players := om_put sp ?i (lb_players l)\<rparr>)" if "session = Some sp" for sp
  proof -
    have "is_player ?i (en_ecs en)"
      using assms(3) that get by (simp add: is_player_def)
    then show ?thesis
      using ok(3-5) reg(2,3) old om_put_snd[OF fresh, of sp]
      by (auto simp: lobby_ok_def list_all_iff dest!: in_om_put)
  qed
  moreover have "lobby_ok (l\<lparr>lb_engine := en\<rparr>)"
    using ok(3-5) reg(2,3) old by (auto simp: lobby_ok_def list_all_iff)
  ultimately show ?thesis
    using reg(1) by (cases session) (simp_all add: spawnEntity_def Let_def)
qed

lemma fold_on_ecs: "fold engine_destroyEntity ids en = on_ecs (fold destroyEntity ids) en"
  by (induction ids arbitrary: en) (simp_all add: engine_destroyEntity_def on_ecs_def)

lemma destroyed_store:
  assumes "game_store e"
  shows "game_store (fold destroyEntity ids e)" and "e_systems (fold destroyEntity ids e) = e_systems e"
    and "getEntityComponent c j (fold destroyEntity ids e) = (if j \<in> set ids then None else getEntityComponent c j e)"
    and "set (getAllEntities (fold destroyEntity ids e)) = set (getAllEntities e) - set ids"
proof -
  have "game_store (fold destroyEntity ids e) \<and> e_systems (fold destroyEntity ids e) = e_systems e \<and>
    (\<forall>c j. getEntityComponent c j (fold destroyEntity ids e) = (if j \<in> set ids then None else getEntityComponent c j e)) \<and>
    set (getAllEntities (fold destroyEntity ids e)) = set (getAllEntities e) - set ids"
    using assms
  proof (induction ids arbitrary: e)
    case (Cons i ids)
    have "game_store (destroyEntity i e)" using game_store.call[OF Cons.prems, of "Call_destroyEntity i"] by simp
    note IH = Cons.IH[OF this] and get = get_destroy[OF store_wf[OF Cons.prems], of _ _ i]
    have "e_systems (destroyEntity i e) = e_systems e" by (simp add: destroyEntity_def)
    moreover have "set (getAllEntities (destroyEntity i e)) = set (getAllEntities e) - {i}"
      by (auto simp: getAllEntities_def destroyEntity_def om_del_def)
    ultimately show ?case using IH get by auto
  qed simp
  then show "game_store (fold destroyEntity ids e)" "e_systems (fold destroyEntity ids e) = e_systems e"
    "getEntityComponent c j (fold destroyEntity ids e) = (if j \<in> set ids then None else getEntityComponent c j e)"
    "set (getAllEntities (fold destroyEntity ids e)) = set (getAllEntities e) - set ids" by simp_all
qed

lemma ok_destroyed:
  assumes "lobby_ok l" and "\<forall>i \<in> set ids. i \<notin> set (map snd (lb_players l))"
  shows "lobby_ok (on_engine (on_ecs (fold destroyEntity ids)) l)"
proof -
  note d = destroyed_store[OF lobby_okD(1)[OF assms(1)], where ids = ids]
  have "is_player j (fold destroyEntity ids (lobby_store l))" if "j \<in> set (map snd (lb_players l))" for j
  proof -
    have "j \<notin> set ids" using assms(2) that by blast
    with lobby_okD(7)[OF assms(1) that] show ?thesis by (simp add: is_player_def d(3))
  qed
  with d(1,2) lobby_okD[OF assms(1)] show ?thesis by (auto simp: lobby_ok_def list_all_iff)
qed


lemma removeAllOf_spec:
  assumes "ecs_wf (en_ecs en)"
  shows "removeAllOf x en =
    (let ids = filter (\<lambda>i. getEntityComponent (cid (type_of x)) i (en_ecs en) = Some x) (getAllEntities (en_ecs en))
     in (ids, on_ecs (fold destroyEntity ids) en))"
proof -
  have "(case getEntityWithComponent (type_of x) i (en_ecs en) of None \<Rightarrow> False
      | Some k \<Rightarrow> ecs_deref (cid (type_of x)) k (en_ecs en) = x) \<longleftrightarrow>
    getEntityComponent (cid (type_of x)) i (en_ecs en) = Some x" for i
    by (simp flip: lookup_value[OF assms] split: option.split)
  then show ?thesis by (simp add: removeAllOf_def Let_def from_group_single fold_on_ecs)
qed

section \<open>The tasks keep the invariant\<close>

lemma entity_type_inject [simp]: "entity_type_value a = entity_type_value b \<longleftrightarrow> a = b"
  by (cases a; cases b; simp)

lemma on_engine_upd: "l\<lparr>lb_engine := f (lb_engine l)\<rparr> = on_engine f l"
  by (simp add: on_engine_def)

definition of_type :: "entity_type \<Rightarrow> (component, 's) ecs \<Rightarrow> nat list" where
  "of_type t e = filter (\<lambda>i. getEntityComponent (cid Type) i e = Some (C_Type \<lparr>ty_type = entity_type_value t\<rparr>))
     (getAllEntities e)"

lemma clear_type_spec:
  assumes "lobby_ok l"
  shows "clear_type t l = broadcast_destroyed (of_type t (lobby_store l))
    (on_engine (on_ecs (fold destroyEntity (of_type t (lobby_store l)))) l)"
  using removeAllOf_spec[OF lobby_okD(2)[OF assms]]
  by (simp add: clear_type_def Let_def of_type_def flip: on_engine_upd)

lemma players_not_of_type: "lobby_ok l \<Longrightarrow> t \<noteq> kPlayer \<Longrightarrow> i \<in> set (of_type t (lobby_store l)) \<Longrightarrow>
    i \<notin> set (map snd (lb_players l))"
  using lobby_okD(7)[of l i] entity_type_inject[of kPlayer t] by (auto simp: of_type_def is_player_def)

lemma ok_clear_type: "lobby_ok l \<Longrightarrow> t \<noteq> kPlayer \<Longrightarrow> lobby_ok (clear_type t l)"
  using ok_destroyed[of l "of_type t (lobby_store l)"] players_not_of_type[of l t] clear_type_spec[of l t] by auto

lemma revive_ok:
  assumes "lobby_ok l" and "i \<in> set (map snd (lb_players l))"
  shows "\<exists>k. revive_player i l = Inr (on_engine (on_ecs (put_state_at k \<lparr>sc_state = entity_state EntityAlive\<rparr>)) l)"
proof -
  have "getEntityComponent (cid State) i (lobby_store l) \<noteq> None"
    using lobby_okD(7)[OF assms] by (simp add: is_player_def)
  from ref_exists[OF lobby_okD(2)[OF assms(1)] this] show ?thesis
    by (auto simp: revive_player_def from_group_single)
qed

lemma revives_ok:
  assumes "lobby_ok l" and "set is \<subseteq> set (map snd (lb_players l))"
  shows "\<exists>l'. revive_players is l = Inr l' \<and> lobby_ok l' \<and> lb_players l' = lb_players l"
  using assms
proof (induction "is" arbitrary: l)
  case (Cons i "is")
  then obtain k where "revive_player i l = Inr (on_engine (on_ecs (put_state_at k \<lparr>sc_state = entity_state EntityAlive\<rparr>)) l)"
    using revive_ok[of l i] by auto
  moreover have "lobby_ok (on_engine (on_ecs (put_state_at k \<lparr>sc_state = entity_state EntityAlive\<rparr>)) l)"
    using Cons.prems(1) by (intro ok_touched touching)
  ultimately show ?case using Cons.IH Cons.prems(2) by fastforce
qed simp

lemma ok_restart:
  assumes "lobby_ok l"
  shows "\<exists>l'. lobby_restart l = Inr l' \<and> lobby_ok l' \<and> lb_players l' = lb_players l"
proof -
  let ?l = "l\<lparr>lb_levelDirector := director_restart (lb_levelDirector l)\<rparr>"
  obtain l1 where "revive_players (map snd (lb_players l)) ?l = Inr l1" "lobby_ok l1" "lb_players l1 = lb_players l"
    using revives_ok[of ?l "map snd (lb_players l)"] assms by auto
  moreover have "lb_players (clear_type t l2) = lb_players l2" if "lobby_ok l2" for t and l2 :: "'a lobby"
    using clear_type_spec[OF that] by simp
  ultimately show ?thesis
    using ok_clear_type[of l1 kEnemy] ok_clear_type[of "clear_type kEnemy l1" kBullet] by (simp add: lobby_restart_def)
qed

lemma ok_start: "lobby_ok l \<Longrightarrow> \<exists>l'. start_action l = Inr l' \<and> lobby_ok l' \<and> lb_players l' = lb_players l"
  using ok_restart[of "changeGameState (state_number GameRunning) l"] by (simp add: start_action_def)

lemma spawn_fields:
  "lb_players (snd (spawnEntity xs session l)) =
     (case session of Some sp \<Rightarrow> om_put sp (fst (spawnEntity xs session l)) (lb_players l) | None \<Rightarrow> lb_players l)"
  "lb_isRunning (snd (spawnEntity xs session l)) = lb_isRunning l"
  "lb_actionQueue (snd (spawnEntity xs session l)) = lb_actionQueue l"
  "lb_levelDirector (snd (spawnEntity xs session l)) = lb_levelDirector l"
  "lb_roomId (snd (spawnEntity xs session l)) = lb_roomId l"
  by (simp_all add: spawnEntity_def Let_def lobby_broadcast_def split: prod.split option.split)

lemma player_pack: "game_pack player_components"
  "pack_value player_components Type = Some (C_Type \<lparr>ty_type = entity_type_value kPlayer\<rparr>)"
  "list_all (\<lambda>t. pack_value player_components t \<noteq> None) [Position, Velocity, State]"
  by (simp_all add: game_pack_def player_components_def GameComponents_def pack_value_def)

lemma ok_join:
  assumes "lobby_ok l"
  shows "\<exists>l'. join_action sp l = Inr l' \<and> lobby_ok l' \<and>
    (\<forall>s. om_has (lb_players l') s \<longleftrightarrow> s = sp \<or> om_has (lb_players l) s)"
proof (cases "om_has (lb_players l) sp")
  case True
  with assms show ?thesis by (auto simp: join_action_def)
next
  case False
  define l1 where "l1 = (if getGameState (lb_engine l) < state_number GameLobby
      then changeGameState (state_number GameLobby) l else l)"
  have l1: "lobby_ok l1" "lb_players l1 = lb_players l" using assms by (simp_all add: l1_def)
  obtain i l2 where sp: "spawnEntity player_components (Some sp) l1 = (i, l2)" by fastforce
  have "lobby_ok l2"
    using spawn_store[OF l1(1) player_pack(1), of "Some sp"] player_pack(2,3) sp by simp
  moreover have "lb_players l2 = om_put sp i (lb_players l)"
    using spawn_fields(1)[of player_components "Some sp" l1] sp l1(2) by simp
  ultimately show ?thesis
    using False sp by (simp add: join_action_def Let_def flip: l1_def)
qed

lemma om_del_snd: "distinct (map snd m) \<Longrightarrow> map_of m k = Some v \<Longrightarrow> v \<notin> snd ` set (om_del k m)"
proof
  assume m: "distinct (map snd m)" "map_of m k = Some v" and "v \<in> snd ` set (om_del k m)"
  then obtain j where "(j, v) \<in> set m" "j \<noteq> k" by (auto simp: om_del_def)
  with m show False
    using map_of_SomeD[OF m(2)] inj_onD[of snd "set m" "(j, v)" "(k, v)"] by (simp add: distinct_map)
qed

lemma ok_leave:
  assumes "lobby_ok l"
  shows "lobby_ok (leave_action sp l) \<and> lb_players (leave_action sp l) = om_del sp (lb_players l)"
proof (cases "map_of (lb_players l) sp")
  case None
  then have "om_del sp (lb_players l) = lb_players l"
    by (auto simp: om_del_def map_of_eq_None_iff intro!: filter_True)
  with None assms show ?thesis by (simp add: leave_action_def)
next
  case (Some i)
  define l2 where "l2 = (lobby_broadcast (destroy_packet i) (on_engine (engine_destroyEntity i) l))
      \<lparr>lb_players := om_del sp (lb_players l)\<rparr>"
  have l2: "lb_players l2 = om_del sp (lb_players l)" "lobby_store l2 = destroyEntity i (lobby_store l)"
    by (simp_all add: l2_def engine_destroyEntity_def)
  have "lobby_ok (l\<lparr>lb_players := om_del sp (lb_players l)\<rparr>)"
  proof -
    have "set (om_del sp (lb_players l)) \<subseteq> set (lb_players l)" "distinct (map snd (om_del sp (lb_players l)))"
      using lobby_okD(4)[OF assms] by (auto simp: om_del_def distinct_map_filter)
    then show ?thesis
      using assms om_wf_del[OF lobby_okD(3)[OF assms], of sp] by (auto simp: lobby_ok_def list_all_iff)
  qed
  moreover have "i \<notin> set (map snd (om_del sp (lb_players l)))"
    using om_del_snd[OF lobby_okD(4)[OF assms] Some] by simp
  ultimately have "lobby_ok (on_engine (on_ecs (fold destroyEntity [i])) (l\<lparr>lb_players := om_del sp (lb_players l)\<rparr>))"
    by (intro ok_destroyed) simp_all
  then have ok2: "lobby_ok l2"
    by (simp add: lobby_ok_def l2)
  have act: "leave_action sp l = (if lb_players l2 \<noteq> [] then l2
      else case clearEcs (lb_engine l2) of (ids, en) \<Rightarrow>
        let l3 = on_engine (setGameState (state_number GameWaiting)) (broadcast_destroyed ids (l2\<lparr>lb_engine := en\<rparr>))
        in if lb_roomId l3 \<noteq> 0 then l3\<lparr>lb_isRunning := False\<rparr> else l3)"
    using Some by (simp add: leave_action_def l2_def Let_def)
  have "lobby_ok (on_engine (on_ecs (fold destroyEntity ids)) l2)" if "lb_players l2 = []" for ids
    using ok2 that by (intro ok_destroyed) simp_all
  with ok2 l2(1) act show ?thesis
    by (auto simp: clearEcs_def Let_def on_engine_upd)
qed


lemma spawn_players_none: "lb_players (snd (spawnEntity xs None l)) = lb_players l"
  by (simp add: spawn_fields)

lemma bullet_pack: "game_pack (bullet_components i pos)"
  by (simp add: game_pack_def bullet_components_def GameComponents_def)

lemma ok_spawnBullet: "lobby_ok l \<Longrightarrow> lobby_ok (spawnBullet i pos p l) \<and> lb_players (spawnBullet i pos p l) = lb_players l"
  using spawn_store[of l "bullet_components i pos" None] by (simp add: spawnBullet_def bullet_pack spawn_players_none)

text \<open>The state after the velocity was written.\<close>

definition steered :: "nat \<Rightarrow> user_input_msg \<Rightarrow> 'g lobby \<Rightarrow> 'g lobby" where
  "steered kv p l =
     on_engine (on_ecs (put_velocity_at kv ((velocity_at kv (lobby_store l))
       \<lparr>vel_vx := axis kRight kLeft p, vel_vy := axis kDown kUp p\<rparr>))) l"

lemma handleUserInput_player:
  assumes "lobby_ok l" and "map_of (lb_players l) sp = Some i"
  shows "\<exists>kv kp. getEntityWithComponent Velocity i (lobby_store l) = Some kv \<and>
    getEntityWithComponent Position i (lobby_store l) = Some kp \<and>
    handleUserInput sp p l = Inr (spawnBullet i (position_at kp (lobby_store (steered kv p l))) p (steered kv p l))"
proof -
  have "getEntityComponent (cid Velocity) i (lobby_store l) \<noteq> None" "getEntityComponent (cid Position) i (lobby_store l) \<noteq> None"
    using lobby_okD(6)[OF assms] by (simp_all add: is_player_def)
  then obtain kv kp where "getEntityWithComponent Velocity i (lobby_store l) = Some kv"
      "getEntityWithComponent Position i (lobby_store l) = Some kp"
    using ref_exists[OF lobby_okD(2)[OF assms(1)]] by blast
  with assms(2) show ?thesis
    by (simp add: handleUserInput_def getPlayerComponent_def getPlayerPosition_def getPlayerId_def Let_def steered_def)
qed

lemma ok_steered: "lobby_ok l \<Longrightarrow> lobby_ok (steered kv p l)"
  unfolding steered_def by (rule ok_touched) (rule touched_put)

lemma ok_input:
  assumes "lobby_ok l" and "om_has (lb_players l) sp"
  shows "\<exists>l'. handleUserInput sp p l = Inr l' \<and> lobby_ok l' \<and> lb_players l' = lb_players l"
proof -
  obtain i where "map_of (lb_players l) sp = Some i" using assms(2) by (auto simp: om_has_def)
  moreover have "lb_players (steered kv p l) = lb_players l" for kv by (simp add: steered_def)
  ultimately show ?thesis
    using handleUserInput_player[OF assms(1), of sp i p] ok_spawnBullet[OF ok_steered[OF assms(1)]] by fastforce
qed

text \<open>The players after a task, as a set of sessions, and the tasks whose session plays.\<close>

primrec plays_after :: "lobby_action \<Rightarrow> nat set \<Rightarrow> nat set" where
  "plays_after (Act_join sp) S = insert sp S"
| "plays_after (Act_leave sp) S = S - {sp}"
| "plays_after (Act_user_input sp p) S = S"
| "plays_after Act_start S = S"

primrec from_player :: "nat set \<Rightarrow> lobby_action \<Rightarrow> bool" where
  "from_player S (Act_join sp) = True"
| "from_player S (Act_leave sp) = True"
| "from_player S (Act_user_input sp p) = (sp \<in> S)"
| "from_player S Act_start = True"

primrec from_players :: "nat set \<Rightarrow> lobby_action list \<Rightarrow> bool" where
  "from_players S [] = True"
| "from_players S (a # as) = (from_player S a \<and> from_players (plays_after a S) as)"

definition players_of :: "'g lobby \<Rightarrow> nat set" where
  "players_of l = {sp. om_has (lb_players l) sp}"

lemma ok_action:
  assumes "lobby_ok l" and "from_player (players_of l) a"
  shows "\<exists>l'. run_action a l = Inr l' \<and> lobby_ok l' \<and> players_of l' = plays_after a (players_of l)"
proof (cases a)
  case (Act_join sp)
  then show ?thesis using ok_join[OF assms(1), of sp] by (auto simp: players_of_def)
next
  case (Act_leave sp)
  then show ?thesis using ok_leave[OF assms(1), of sp] by (auto simp: players_of_def)
next
  case (Act_user_input sp p)
  then show ?thesis using ok_input[OF assms(1), of sp p] assms(2) by (auto simp: players_of_def)
next
  case Act_start
  then show ?thesis using ok_start[OF assms(1)] by (auto simp: players_of_def)
qed

lemma players_queue [simp]: "players_of (l\<lparr>lb_actionQueue := q\<rparr>) = players_of l"
  by (simp add: players_of_def)

lemma ok_actions:
  assumes "lobby_ok l" and "from_players (players_of l) as"
  shows "\<exists>l'. run_actions as l = Inr l' \<and> lobby_ok l' \<and> players_of l' = fold plays_after as (players_of l) \<and>
    lb_actionQueue l' = cq_new"
  using assms
proof (induction as arbitrary: l)
  case (Cons a as)
  then obtain l1 where "run_action a (l\<lparr>lb_actionQueue := \<lparr>cq_queue = as\<rparr>\<rparr>) = Inr l1" "lobby_ok l1"
      "players_of l1 = plays_after a (players_of l)"
    using ok_action[of "l\<lparr>lb_actionQueue := \<lparr>cq_queue = as\<rparr>\<rparr>" a] by auto
  with Cons.IH[of l1] Cons.prems show ?case by simp
qed simp

end
