(* ===== verification/DeadSweep.thy ===== *)
theory DeadSweep
  imports LobbyLife
begin

text \<open>
  The system that removes the dead entities of a lobby destroys entities while it walks a group
  of references that was made before the walk.  A reference stays right until the set has become
  too short for it, so a walk that does not run into a dangling reference destroys exactly the
  dead entities that are not players.
\<close>

section \<open>References under removal\<close>

lemma ref_after_remove:
  assumes "ss_wf s" and "ss_has s i" and "j \<noteq> i" and "ss_ref s j = Some k \<or> ss_size s \<le> k"
  shows "ss_ref (ss_remove i s) j = Some k \<or> ss_size (ss_remove i s) \<le> k"
proof -
  obtain m where m: "slot (ss_pages s) i = Some m" using assms(2) by (auto simp: ss_has_slot)
  note wf = ss_wfD[OF assms(1)]
  have mE: "m < length (ss_entities s)" "ss_entities s ! m = i" using m wf(3) by auto
  have size: "ss_size (ss_remove i s) = ss_size s - 1" by (simp add: remove_slot[OF m] ss_size_def)
  show ?thesis
  proof (cases "ss_size s - 1 \<le> k")
    case True
    with size show ?thesis by simp
  next
    case False
    with assms(4) have k: "slot (ss_pages s) j = Some k" by (auto simp: ss_ref_slot)
    have "k < length (ss_entities s)" "ss_entities s ! k = j" using k wf(3) by auto
    have "j \<noteq> last (ss_entities s)"
    proof
      assume "j = last (ss_entities s)"
      moreover have "ss_entities s \<noteq> []" using mE by auto
      ultimately have "ss_entities s ! (length (ss_entities s) - 1) = j" by (simp add: last_conv_nth)
      moreover have "length (ss_entities s) - 1 < length (ss_entities s)" using mE by simp
      ultimately have "slot (ss_pages s) j = Some (length (ss_entities s) - 1)" using wf(3) by blast
      with k False wf(2) show False by (simp add: ss_size_def)
    qed
    then show ?thesis
      using removed_slots(1)[OF assms(1) m, of j] assms(3) k by (simp add: ss_ref_slot)
  qed
qed

lemma destroyed_set:
  "getComponent c (destroyEntity i e) = map_option (\<lambda>s. if ss_has s i then ss_remove i s else s) (getComponent c e)"
  by (simp add: getComponent_def destroyEntity_def map_of_destroyed)

text \<open>The reference \<open>k\<close> to the component \<open>c\<close> of entity \<open>j\<close> is right, or dangling.\<close>

definition good_ref :: "(component, 's) ecs \<Rightarrow> nat \<Rightarrow> nat \<Rightarrow> nat \<Rightarrow> bool" where
  "good_ref e c j k \<longleftrightarrow> (\<exists>s. getComponent c e = Some s \<and> (ss_ref s j = Some k \<or> ss_size s \<le> k))"

lemma good_ref_destroy:
  assumes "ecs_wf e" and "j \<noteq> i" and "good_ref e c j k"
  shows "good_ref (destroyEntity i e) c j k"
proof -
  obtain s where s: "getComponent c e = Some s" "ss_ref s j = Some k \<or> ss_size s \<le> k"
    using assms(3) by (auto simp: good_ref_def)
  have "ss_wf s" using ecs_invD(4)[OF assms(1)] s(1) by (simp add: getComponent_def)
  with ref_after_remove[OF this _ assms(2) s(2)] s show ?thesis
    by (auto simp: good_ref_def destroyed_set)
qed

lemma good_ref_live:
  assumes "good_ref e (cid t) j k" and "live_ref t k e"
  shows "getEntityComponent (cid t) j e = Some (ecs_deref (cid t) k e)"
proof -
  obtain s where "getComponent (cid t) e = Some s" "ss_ref s j = Some k"
    using assms by (auto simp: good_ref_def live_ref_def)
  then show ?thesis
    using ref_instance[of e "cid t" s j k] by (simp add: getComponent_def ecs_deref_def)
qed

lemma group_ref:
  assumes "ecs_wf e" and "cids \<noteq> []" and "n < length cids" and "i \<in> set (group_getEntities (ecs_group cids e))"
  shows "\<exists>k s. view_at (ecs_group cids e ! n) i = Some k \<and> getComponent (cids ! n) e = Some s \<and> ss_ref s i = Some k"
proof -
  let ?sets = "map (\<lambda>c. getComponent c e) cids"
  have "\<forall>s. Some s \<in> set ?sets \<longrightarrow> ss_wf s"
    using ecs_invD(4)[OF assms(1)] by (force simp: getComponent_def)
  note group = group_is_intersection[of ?sets, OF _ this, folded ecs_group_def]
  have all: "in_all ?sets i" using group assms(2,4) by auto
  then have "view_at (ecs_group cids e ! n) i = ss_ref (the (?sets ! n)) i"
    using group assms(2,3) by (simp add: group_getEntity_def)
  moreover have "\<exists>s. getComponent (cids ! n) e = Some s \<and> ss_has s i"
    using all assms(3) by (force simp: in_all_def split: option.splits)
  ultimately show ?thesis
    using assms(3) by (auto simp: ss_ref_slot ss_has_slot)
qed

section \<open>The walk\<close>

definition is_dead :: "(component, 's) ecs \<Rightarrow> nat \<Rightarrow> bool" where
  "is_dead e i \<longleftrightarrow>
     (case (getEntityComponent (cid Type) i e, getEntityComponent (cid State) i e) of
        (Some t, Some s) \<Rightarrow> ty_type (as_type t) \<noteq> entity_type_value kPlayer \<and>
          sc_state (as_state s) = entity_state EntityDead
      | _ \<Rightarrow> False)"

definition dead_entities :: "(component, 's) ecs \<Rightarrow> nat list" where
  "dead_entities e = filter (is_dead e) (group_getEntities (ecs_group (map cid [State, Type]) e))"

definition bury :: "nat list \<Rightarrow> 'g lobby \<Rightarrow> 'g lobby" where
  "bury ids l = broadcast_destroyed ids (on_engine (on_ecs (fold destroyEntity ids)) l)"

lemma bury_Nil: "bury [] l = l"
  by (simp add: bury_def broadcast_destroyed_def on_engine_def on_ecs_def)

lemma bury_snoc: "bury (ids @ [i]) l = snd (killEntity i None (bury ids l))"
proof -
  show ?thesis
    by (simp add: bury_def killEntity_def Let_def destroyed_spec engine_destroyEntity_def)
      (simp add: on_engine_def on_ecs_def lobby_broadcast_def getAllSessions_def cq_push_def)
qed


lemma bury_entity_spec:
  assumes "game_store e0" and "lobby_store l = fold destroyEntity ids e0" and "j \<notin> set ids"
    and "good_ref (lobby_store l) (cid State) j ks" and "good_ref (lobby_store l) (cid Type) j kt"
  shows "bury_entity j [ks, kt] l \<in> {Inl Dangling_reference, Inr (if is_dead e0 j then snd (killEntity j None l) else l)}"
    and "live_ref State ks (lobby_store l) \<Longrightarrow> live_ref Type kt (lobby_store l) \<Longrightarrow>
      bury_entity j [ks, kt] l \<noteq> Inl Dangling_reference"
proof -
  let ?e = "lobby_store l"
  have get: "getEntityComponent c j ?e = getEntityComponent c j e0" for c
    using destroyed_store(3)[OF assms(1), of c j ids] assms(2,3) by simp
  have t: "getEntityComponent (cid Type) j e0 = Some (ecs_deref (cid Type) kt ?e)" if "live_ref Type kt ?e"
    using good_ref_live[OF assms(5) that] get by simp
  have s: "getEntityComponent (cid State) j e0 = Some (ecs_deref (cid State) ks ?e)" if "live_ref State ks ?e"
    using good_ref_live[OF assms(4) that] get by simp
  show "bury_entity j [ks, kt] l \<in> {Inl Dangling_reference, Inr (if is_dead e0 j then snd (killEntity j None l) else l)}"
    using t s by (auto simp: bury_entity_def Let_def is_dead_def type_at_def state_at_def split: option.splits)
  show "live_ref State ks ?e \<Longrightarrow> live_ref Type kt ?e \<Longrightarrow> bury_entity j [ks, kt] l \<noteq> Inl Dangling_reference"
    by (simp add: bury_entity_def Let_def)
qed

definition good_refs :: "(nat \<Rightarrow> nat) \<Rightarrow> (nat \<Rightarrow> nat) \<Rightarrow> nat list \<Rightarrow> (component, 's) ecs \<Rightarrow> bool" where
  "good_refs ks kt js e \<longleftrightarrow> list_all (\<lambda>j. good_ref e (cid State) j (ks j) \<and> good_ref e (cid Type) j (kt j)) js"

lemma good_refs_destroyed:
  assumes "game_store e" and "good_refs ks kt js e" and "set js \<inter> set ids = {}"
  shows "good_refs ks kt js (fold destroyEntity ids e)"
  using assms
proof (induction ids arbitrary: e)
  case (Cons i ids)
  have "game_store (destroyEntity i e)" using game_store.call[OF Cons.prems(1), of "Call_destroyEntity i"] by simp
  moreover have "good_refs ks kt js (destroyEntity i e)"
    using Cons.prems(2,3) good_ref_destroy[OF store_wf[OF Cons.prems(1)], where i = i]
    unfolding good_refs_def list_all_iff by (metis disjoint_iff list.set_intros(1))
  ultimately show ?case using Cons.IH[of "destroyEntity i e"] Cons.prems(3) by simp
qed simp

text \<open>The walk over \<open>js\<close> when the entities \<open>ids\<close> have been visited.\<close>

lemma walk:
  assumes "lobby_ok l" and "distinct (ids @ js)" and "good_refs ks kt js (lobby_store l)"
    and "list_all (\<lambda>j. live_ref State (ks j) (lobby_store l) \<and> live_ref Type (kt j) (lobby_store l)) js"
  defines "dead \<equiv> is_dead (lobby_store l)"
  defines "r \<equiv> fold (\<lambda>j r. try_bind r (bury_entity j [ks j, kt j])) js (Inr (bury (filter dead ids) l))"
  shows "r = Inr (bury (filter dead (ids @ js)) l) \<or>
    r = Inl Dangling_reference \<and> (\<exists>xs i ys. ids @ js = xs @ i # ys \<and> dead i \<and> ys \<noteq> [])"
  using assms(2-4) unfolding r_def
proof (induction js arbitrary: ids)
  case (Cons j js)
  let ?l = "bury (filter dead ids) l"
  have store: "lobby_store ?l = fold destroyEntity (filter dead ids) (lobby_store l)" by (simp add: bury_def)
  have j: "j \<notin> set (filter dead ids)" using Cons.prems(1) by auto
  have "good_refs ks kt (j # js) (lobby_store ?l)"
    unfolding store
    by (rule good_refs_destroyed[OF lobby_okD(1)[OF assms(1)] Cons.prems(2)]) (use Cons.prems(1) in auto)
  then have refs: "good_ref (lobby_store ?l) (cid State) j (ks j)" "good_ref (lobby_store ?l) (cid Type) j (kt j)"
    by (simp_all add: good_refs_def)
  note spec = bury_entity_spec[OF lobby_okD(1)[OF assms(1)] store j refs, folded dead_def]
  have stuck: "fold (\<lambda>j r. try_bind r (bury_entity j [ks j, kt j])) is (Inl f) = Inl f" for "is" f
    by (induction "is") simp_all
  show ?case
  proof (cases "bury_entity j [ks j, kt j] ?l = Inl Dangling_reference")
    case True
    have "filter dead ids \<noteq> []"
    proof
      assume "filter dead ids = []"
      then have "lobby_store ?l = lobby_store l" by (simp add: bury_Nil)
      with True spec(2) Cons.prems(3) show False by simp
    qed
    then obtain i where "i \<in> set ids" "dead i" by (auto simp: filter_empty_conv)
    then obtain xs ys where "ids = xs @ i # ys" by (auto dest: split_list)
    then have "ids @ j # js = xs @ i # (ys @ j # js)" by simp
    with \<open>dead i\<close> True stuck show ?thesis by auto
  next
    case False
    with spec(1) have "bury_entity j [ks j, kt j] ?l = Inr (bury (filter dead (ids @ [j])) l)"
      by (auto simp: bury_snoc)
    with Cons.IH[of "ids @ [j]"] Cons.prems show ?thesis
      by (simp add: good_refs_def)
  qed
qed simp

lemma length_make_group: "length (make_group sets) = length sets"
proof -
  have "length (foldl (group_step sets) vs is) = length sets" if "length vs = length sets" for vs "is"
    using that by (induction "is" arbitrary: vs) (simp_all add: group_step_def)
  then show ?thesis by (simp add: make_group_def Let_def split: option.split)
qed

lemma dead_sweep:
  assumes "lobby_ok l"
  shows "BroadcastDeadEntities_apply l = Inr (bury (dead_entities (lobby_store l)) l) \<or>
    BroadcastDeadEntities_apply l = Inl Dangling_reference \<and>
      (\<exists>xs i ys. group_getEntities (ecs_group (map cid [State, Type]) (lobby_store l)) = xs @ i # ys \<and>
         is_dead (lobby_store l) i \<and> ys \<noteq> [])"
proof -
  let ?e = "lobby_store l" and ?g = "ecs_group (map cid [State, Type]) (lobby_store l)"
  define ks where "ks i = the (view_at (?g ! 0) i)" for i
  define kt where "kt i = the (view_at (?g ! 1) i)" for i
  let ?ents = "group_getEntities ?g"
  note wf = lobby_okD(2)[OF assms]
  have two: "?g = [?g ! 0, ?g ! 1]"
  proof -
    have "length ?g = 2" by (simp add: ecs_group_def length_make_group)
    then show ?thesis by (auto simp: length_Suc_conv numeral_2_eq_2)
  qed
  have view: "\<exists>s. view_at (?g ! 0) i = Some (ks i) \<and> getComponent (cid State) ?e = Some s \<and> ss_ref s i = Some (ks i)"
    "\<exists>s. view_at (?g ! 1) i = Some (kt i) \<and> getComponent (cid Type) ?e = Some s \<and> ss_ref s i = Some (kt i)"
    if "i \<in> set ?ents" for i
    using group_ref[OF wf, of "map cid [State, Type]" 0 i] group_ref[OF wf, of "map cid [State, Type]" 1 i] that
    by (auto simp: ks_def kt_def)
  have bound: "ss_ref s i = Some k \<Longrightarrow> getComponent c ?e = Some s \<Longrightarrow> k < ss_size s" for s i k c
    using slot_bound ss_wfD(2) ecs_invD(4)[OF wf] by (fastforce simp: ss_ref_slot ss_size_def getComponent_def)
  have "good_refs ks kt ?ents ?e"
    using view by (fastforce simp: good_refs_def list_all_iff good_ref_def)
  moreover have "list_all (\<lambda>j. live_ref State (ks j) ?e \<and> live_ref Type (kt j) ?e) ?ents"
    using view bound by (fastforce simp: list_all_iff live_ref_def)
  moreover have "distinct ?ents" using ecs_group_facts[OF wf, of "map cid [State, Type]"] by simp
  moreover have "BroadcastDeadEntities_apply l =
      fold (\<lambda>j r. try_bind r (bury_entity j [ks j, kt j])) ?ents (Inr (bury (filter (is_dead ?e) []) l))"
    unfolding BroadcastDeadEntities_apply_def group_apply_def
  proof (intro fold_cong ext)
    fix i r assume i: "i \<in> set ?ents"
    have "map (\<lambda>v. view_at v i) ?g = [view_at (?g ! 0) i, view_at (?g ! 1) i]"
      by (subst two) simp
    with view[OF i] show "apply_helper (\<lambda>i refs r. try_bind r (bury_entity i refs)) i (map (\<lambda>v. view_at v i) ?g) r =
        try_bind r (bury_entity i [ks i, kt i])"
      by (auto simp: apply_helper_def)
  qed (simp_all add: bury_Nil)
  ultimately show ?thesis
    using walk[OF assms, of "[]" ?ents ks kt] by (simp add: dead_entities_def)
qed

end
