(* ===== verification/LobbyTick.thy ===== *)
theory LobbyTick
  imports DeadSweep
begin

text \<open>
  The systems, the director and the ticks of a lobby keep its invariant and its players, and the
  faults they can run into are known: a dangling reference in the walk over the dead entities,
  and a director whose waves are not well formed.
\<close>

section \<open>What is kept\<close>

definition sound_lobby :: "'g lobby \<Rightarrow> bool" where
  "sound_lobby l \<longleftrightarrow> lobby_ok l \<and> director_ok (lb_levelDirector l)"

text \<open>The same with the waves well formed only under the condition \<open>b\<close>: the file of the waves is an input.\<close>

definition sound_under :: "bool \<Rightarrow> 'g lobby \<Rightarrow> bool" where
  "sound_under b l \<longleftrightarrow> lobby_ok l \<and> (b \<longrightarrow> director_ok (lb_levelDirector l))"

lemma sound_under_True [simp]: "sound_under True l = sound_lobby l"
  by (simp add: sound_under_def sound_lobby_def)

text \<open>The faults of a director whose waves are not well formed: a name that is in no table, and a wave
  without a group.\<close>

definition wave_faults :: "bool \<Rightarrow> lobby_fault set" where
  "wave_faults b = (if b then {} else {Missing_key, Out_of_bounds})"

lemma wave_faults_simps [simp]: "wave_faults True = {}" "f \<in> wave_faults b \<longleftrightarrow> \<not> b \<and> f \<in> {Missing_key, Out_of_bounds}"
  by (simp_all add: wave_faults_def)

text \<open>The result is a fault of \<open>F\<close> or a sound lobby with the same players.\<close>

definition kept :: "bool \<Rightarrow> lobby_fault set \<Rightarrow> 'g lobby \<Rightarrow> lobby_fault + 'g lobby \<Rightarrow> bool" where
  "kept b F l r \<longleftrightarrow> (case r of Inl f \<Rightarrow> f \<in> F | Inr l' \<Rightarrow> sound_under b l' \<and> lb_players l' = lb_players l)"

lemma kept_simps [simp]:
  "kept b F l (Inl f) \<longleftrightarrow> f \<in> F"
  "kept b F l (Inr l') \<longleftrightarrow> sound_under b l' \<and> lb_players l' = lb_players l"
  by (simp_all add: kept_def)

lemma kept_bind:
  assumes "kept b F l r" and "\<And>l'. r = Inr l' \<Longrightarrow> sound_under b l' \<Longrightarrow> lb_players l' = lb_players l \<Longrightarrow> kept b F l' (k l')"
  shows "kept b F l (try_bind r k)"
proof (cases r)
  case (Inr l')
  with assms show ?thesis by (cases "k l'") auto
qed (use assms in simp)

lemma kept_mono: "kept b F l r \<Longrightarrow> F \<subseteq> G \<Longrightarrow> kept b G l r"
  by (cases r) auto

lemma kept_cong: "lb_players m = lb_players l \<Longrightarrow> kept b F m r = kept b F l r"
  by (cases r) simp_all

lemma director_frames [simp]:
  "lb_levelDirector (lobby_send sp p l) = lb_levelDirector l"
  "lb_levelDirector (lobby_broadcast p l) = lb_levelDirector l"
  "lb_levelDirector (on_engine f l) = lb_levelDirector l"
  "lb_levelDirector (changeGameState s l) = lb_levelDirector l"
  "lb_levelDirector (broadcast_destroyed ids l) = lb_levelDirector l"
  "lb_levelDirector (on_director h l) = h (lb_levelDirector l)"
  "lb_levelDirector (bury ids l) = lb_levelDirector l"
  by (simp_all add: lobby_send_def lobby_broadcast_def on_engine_def changeGameState_def destroyed_spec
      on_director_def bury_def)

section \<open>Systems\<close>

lemma ok_movements:
  assumes "lobby_ok l"
  shows "lobby_ok (BroadcastUpdatedMovements_apply l) \<and>
    lb_players (BroadcastUpdatedMovements_apply l) = lb_players l \<and>
    lb_levelDirector (BroadcastUpdatedMovements_apply l) = lb_levelDirector l"
proof -
  have step: "lobby_ok (broadcast_movement i refs m) \<and> lb_players (broadcast_movement i refs m) = lb_players m \<and>
      lb_levelDirector (broadcast_movement i refs m) = lb_levelDirector m"
    if "lobby_ok m" for i refs and m :: "'a lobby"
  proof -
    have "lobby_ok (on_engine (on_ecs (put_position_at k p)) (lobby_broadcast q m))" for k p q
      using that by (intro ok_touched touching) simp
    with that show ?thesis by (simp add: broadcast_movement_def Let_def)
  qed
  have "lobby_ok (fold (\<lambda>i. apply_helper broadcast_movement i (f i)) is m) \<and>
      lb_players (fold (\<lambda>i. apply_helper broadcast_movement i (f i)) is m) = lb_players m \<and>
      lb_levelDirector (fold (\<lambda>i. apply_helper broadcast_movement i (f i)) is m) = lb_levelDirector m"
    if "lobby_ok m" for "is" f and m :: "'a lobby"
    using that
  proof (induction "is" arbitrary: m)
    case (Cons i "is")
    with step[OF Cons.prems, of i] show ?case by (simp add: apply_helper_def)
  qed simp
  with assms show ?thesis by (simp add: BroadcastUpdatedMovements_apply_def group_apply_def)
qed

lemma dead_not_players:
  assumes "lobby_ok l" and "i \<in> set (dead_entities (lobby_store l))"
  shows "i \<notin> set (map snd (lb_players l))"
proof
  assume "i \<in> set (map snd (lb_players l))"
  from lobby_okD(7)[OF assms(1) this] assms(2) show False
    by (simp add: dead_entities_def is_dead_def is_player_def split: option.splits)
qed

lemma ok_bury: "lobby_ok l \<Longrightarrow> lobby_ok (bury (dead_entities (lobby_store l)) l) \<and>
    lb_players (bury (dead_entities (lobby_store l)) l) = lb_players l"
  using ok_destroyed[of l "dead_entities (lobby_store l)"] dead_not_players[of l] by (auto simp: bury_def)

lemma kept_system: "sound_under b l \<Longrightarrow> kept b {Dangling_reference} l (apply_system cosf s l)"
proof (cases s)
  case BroadcastDeadEntities
  assume "sound_under b l"
  then have "lobby_ok l" "b \<longrightarrow> director_ok (lb_levelDirector l)" by (simp_all add: sound_under_def)
  with BroadcastDeadEntities dead_sweep[of l] ok_bury[of l] show ?thesis by (auto simp: sound_under_def)
qed (simp_all add: sound_under_def ok_touched touched_enemies touched_movement ok_movements)

lemma kept_systems: "sound_under b l \<Longrightarrow> kept b {Dangling_reference} l (apply_systems cosf ss l)"
proof (induction ss arbitrary: l)
  case (Cons s ss)
  from kept_bind[OF kept_system[OF Cons.prems] Cons.IH] show ?case by simp
qed simp

lemma kept_runOnce:
  assumes "sound_under b l"
  shows "kept b {Dangling_reference} l (lobby_runOnce cosf l)"
proof -
  let ?f = "\<lambda>e. group_apply (\<lambda>_. run_behaviour (\<lambda>_ e. e) (\<lambda>_ e. e)) (ecs_group [cid Behaviour] e) e"
  have "lobby_ok (on_engine (on_ecs ?f) l)"
    using assms by (intro ok_touched touched_behaviours) (simp add: sound_under_def)
  with assms have "sound_under b (on_engine (on_ecs ?f) l)" by (simp add: sound_under_def)
  from kept_systems[OF this] show ?thesis
    unfolding lobby_runOnce_def Let_def by (subst kept_cong[symmetric]) (rule frame_fields)
qed

section \<open>The director\<close>

lemma enemy_pack:
  assumes "enemy_components x y g = Some xs"
  shows "game_pack xs"
  using assms by (auto simp: enemy_components_def game_pack_def GameComponents_def split: option.splits)

lemma group_ok_components: "group_ok g \<Longrightarrow> \<exists>xs. enemy_components x y g = Some xs"
proof -
  assume g: "group_ok g"
  then obtain k where "map_of StringToMoveSet (eg_patternName g) = Some k"
    by (auto simp: group_ok_def StringToMoveSet_def)
  with g show ?thesis
    by (simp add: group_ok_def enemy_components_def typeToHitbox_def typeToVelocity_def typeToValue_def
        nameToMoveSet_def entityTypeToHitbox_def entityTypeToVelocity_def entityTypeToValue_def)
qed

lemma sound_spawn: "sound_under b l \<Longrightarrow> game_pack xs \<Longrightarrow> sound_under b (snd (spawnEntity xs None l))"
  using spawn_store[of l xs None] by (simp add: sound_under_def spawn_fields)

lemma after_spawn_ok:
  "wave_ok pool w \<Longrightarrow> pool ! av_archetype w = a \<Longrightarrow> \<not> av_isFinished w \<Longrightarrow> wave_ok pool (after_spawn a g w)"
  by (auto simp: wave_ok_def after_spawn_def Let_def)

lemma set_wave_ok: "director_ok d \<Longrightarrow> wave_ok (dr_wavePool d) w \<Longrightarrow> director_ok (set_wave i w d)"
  by (cases "i < length (dr_activeWaves d)")
    (auto simp: director_ok_def set_wave_def list_all_length nth_list_update)

lemma kept_spawn_enemy:
  assumes "sound_under b l" and "b \<longrightarrow> wave_ok (dr_wavePool (lb_levelDirector l)) w" and "\<not> av_isFinished w"
    and "a = dr_wavePool (lb_levelDirector l) ! av_archetype w"
  shows "kept b (wave_faults b) l (spawn_enemy api m i w a l)"
proof -
  define l1 where "l1 g2 = on_director (\<lambda>d. d\<lparr>dr_rng := g2\<rparr>) l" for g2
  have l1: "sound_under b (l1 g2)" "lb_players (l1 g2) = lb_players l" for g2
    using assms(1) by (simp_all add: sound_under_def l1_def director_ok_def)
  have spawn: "sound_under b (on_director (set_wave i (after_spawn a h w)) (snd (spawnEntity xs None (l1 g2))))"
    if "game_pack xs" for xs g2 h
  proof -
    let ?l2 = "snd (spawnEntity xs None (l1 g2))"
    have pool: "dr_wavePool (lb_levelDirector ?l2) = dr_wavePool (lb_levelDirector l)"
      by (simp add: spawn_fields l1_def)
    have "b \<longrightarrow> wave_ok (dr_wavePool (lb_levelDirector ?l2)) (after_spawn a h w)"
      unfolding pool using after_spawn_ok assms(2-4) by blast
    with sound_spawn[OF l1(1) that, of g2] show ?thesis by (simp add: sound_under_def set_wave_ok)
  qed
  show ?thesis
  proof (cases b)
    case True
    with assms have len: "av_currentGroupIndex w < length (ar_enemies a)"
        "av_archetype w < length (dr_wavePool (lb_levelDirector l))" by (auto simp: wave_ok_def)
    have "pool_ok (dr_wavePool (lb_levelDirector l))" using assms(1) True by (simp add: sound_under_def director_ok_def)
    with len assms(4) have g: "group_ok (ar_enemies a ! av_currentGroupIndex w)"
      by (auto simp: pool_ok_def list_all_length)
    obtain f where f: "\<And>x y. enemy_components x y (ar_enemies a ! av_currentGroupIndex w) = Some (f x y)"
      using group_ok_components[OF g] by metis
    then show ?thesis
      using len(1) spawn[OF enemy_pack[OF f]]
      by (simp add: spawn_enemy_def Let_def spawn_players_none f l1(2) flip: l1_def split: prod.split)
  next
    case False
    then show ?thesis
      using spawn[OF enemy_pack]
      by (auto simp: spawn_enemy_def Let_def spawn_players_none l1(2) simp flip: l1_def split: prod.split option.split)
  qed
qed

lemma kept_wave_step:
  assumes "sound_under b l" and "i < length (dr_activeWaves (lb_levelDirector l))"
  shows "kept b (wave_faults b) l (wave_step api dt m i l)"
proof -
  let ?d = "lb_levelDirector l" and ?w = "dr_activeWaves (lb_levelDirector l) ! i"
  have d: "b \<longrightarrow> director_ok ?d" and w: "b \<longrightarrow> wave_ok (dr_wavePool ?d) ?w"
    using assms by (auto simp: sound_under_def director_ok_def list_all_length)
  have "b \<longrightarrow> director_ok (?d\<lparr>dr_activeWaves := take i (dr_activeWaves ?d) @ drop (Suc i) (dr_activeWaves ?d)\<rparr>)"
    using d by (auto simp: director_ok_def list_all_iff dest: in_set_takeD in_set_dropD)
  moreover have w': "b \<longrightarrow> wave_ok (dr_wavePool ?d) (?w\<lparr>av_timer := t\<rparr>)" for t using w by (simp add: wave_ok_def)
  moreover have "b \<longrightarrow> director_ok (set_wave i (?w\<lparr>av_timer := t\<rparr>) ?d)" for t using d w' set_wave_ok by blast
  ultimately show ?thesis
    using assms(1) kept_spawn_enemy[OF assms(1), of "?w\<lparr>av_timer := t\<rparr>" "dr_wavePool ?d ! av_archetype ?w" for t]
    by (simp add: wave_step_def Let_def sound_under_def)
qed

lemma step_length:
  assumes "wave_step api dt m i l = Inr l'" and "i < length (dr_activeWaves (lb_levelDirector l))"
  shows "i \<le> length (dr_activeWaves (lb_levelDirector l'))"
  using assms by (auto simp: wave_step_def spawn_enemy_def Let_def set_wave_def spawn_fields
      split: if_splits prod.splits option.splits)

lemma kept_wave_loop:
  "sound_under b l \<Longrightarrow> n \<le> length (dr_activeWaves (lb_levelDirector l)) \<Longrightarrow> kept b (wave_faults b) l (wave_loop n api dt m l)"
proof (induction n arbitrary: l)
  case (Suc n)
  then have n: "n < length (dr_activeWaves (lb_levelDirector l))" by simp
  show ?case
    unfolding wave_loop.simps
    using kept_wave_step[OF Suc.prems(1) n] by (rule kept_bind) (use Suc.IH step_length[OF _ n] in blast)
qed simp

lemma director_ok_earn: "director_ok d \<Longrightarrow> director_ok (earn dt d)"
  by (simp add: earn_def Let_def director_ok_def)

lemma positions_exist:
  assumes "lobby_ok l" and "lb_players l \<noteq> []"
  shows "sort_positions (getPlayerPositions l) \<noteq> []"
proof -
  obtain sp i where m: "map_of (lb_players l) sp = Some i" "sp \<in> set (map fst (lb_players l))"
    using assms(2) by (cases "lb_players l") force+
  then have "getEntityComponent (cid Position) i (lobby_store l) \<noteq> None"
    using lobby_okD(6)[OF assms(1)] by (simp add: is_player_def)
  from ref_exists[OF lobby_okD(2)[OF assms(1)] this] m(1) obtain k where "getPlayerPosition sp l = Some k"
    by (auto simp: getPlayerPosition_def)
  then have "position_at k (lobby_store l) \<in> set (getPlayerPositions l)"
    using m(2) by (force simp: getPlayerPositions_def List.map_filter_def)
  then have ne: "getPlayerPositions l \<noteq> []" by (simp add: length_pos_if_in_set flip: length_greater_0_conv)
  have "sort_positions ps = [] \<longleftrightarrow> ps = []" for ps
  proof -
    have "insert_position p qs \<noteq> []" for p qs by (cases qs) simp_all
    then show ?thesis by (cases ps) (simp_all add: sort_positions_def)
  qed
  with ne show ?thesis by (simp only: not_False_eq_True)
qed

lemma kept_director:
  assumes "sound_under b l" and "lb_players l \<noteq> []"
  shows "kept b (insert Never_returns (wave_faults b)) l (director_update api dt l)"
proof (cases "pickNewWaveIfNeeded api (earn dt (lb_levelDirector l))")
  case None
  then show ?thesis by (simp add: director_update_def)
next
  case (Some d)
  let ?l = "l\<lparr>lb_levelDirector := d\<rparr>"
  have "b \<longrightarrow> director_ok d"
    using director_ok_pick[OF director_ok_earn Some] assms(1) by (simp add: sound_under_def)
  with assms(1) have s: "sound_under b ?l" by (simp add: sound_under_def)
  have "kept b (wave_faults b) ?l (wave_loop (length (dr_activeWaves d)) api dt m ?l)" for m
    using kept_wave_loop[OF s] by simp
  then have "kept b (wave_faults b) l (wave_loop (length (dr_activeWaves d)) api dt m ?l)" for m
    using kept_cong[of ?l l] by simp
  then have "kept b (insert Never_returns (wave_faults b)) l (wave_loop (length (dr_activeWaves d)) api dt m ?l)" for m
    using kept_mono by blast
  moreover have "sort_positions (getPlayerPositions ?l) \<noteq> []"
    using s assms(2) by (intro positions_exist) (simp_all add: sound_under_def)
  ultimately show ?thesis using Some s by (simp add: director_update_def Let_def)
qed

section \<open>Ticks\<close>

lemma sound_restart: "sound_under b l \<Longrightarrow> \<exists>l'. lobby_restart l = Inr l' \<and> sound_under b l' \<and> lb_players l' = lb_players l"
proof -
  assume s: "sound_under b l"
  have rev: "revive_players is m = Inr m' \<Longrightarrow> lb_levelDirector m' = lb_levelDirector m" for "is" and m m' :: "'a lobby"
  proof (induction "is" arbitrary: m)
    case (Cons i "is")
    then show ?case by (fastforce simp: try_bind_Inr_iff revive_player_def split: option.splits)
  qed simp
  have clear: "lb_levelDirector (clear_type t m) = lb_levelDirector m" for t and m :: "'a lobby"
    by (simp add: clear_type_def split: prod.split)
  from s obtain l' where l': "lobby_restart l = Inr l'" "lobby_ok l'" "lb_players l' = lb_players l"
    using ok_restart[of l] by (auto simp: sound_under_def)
  then have "lb_levelDirector l' = director_restart (lb_levelDirector l)"
    by (auto simp: lobby_restart_def try_bind_Inr_iff clear dest!: rev)
  with s l' show ?thesis by (simp add: sound_under_def director_ok_restart)
qed

definition tick_faults :: "bool \<Rightarrow> lobby_fault set" where
  "tick_faults b = {Dangling_reference, Never_returns} \<union> wave_faults b"

text \<open>What neither the systems nor a restart touch.\<close>

definition meta :: "'g lobby \<Rightarrow> u64 \<times> lobby_action concurrent_queue \<times> u16 \<times> bool" where
  "meta l = (getGameState (lb_engine l), lb_actionQueue l, lb_roomId l, lb_isRunning l)"

lemma meta_frames [simp]:
  "meta (lobby_broadcast p l) = meta l"
  "meta (on_engine (on_ecs f) l) = meta l"
  "meta (on_engine (engine_destroyEntity i) l) = meta l"
  "meta (broadcast_destroyed ids l) = meta l"
  "meta (on_director h l) = meta l"
  "meta (l\<lparr>lb_levelDirector := d\<rparr>) = meta l"
  "meta (snd (spawnEntity xs s l)) = meta l"
proof -
  show "meta (snd (spawnEntity xs s l)) = meta l"
    by (simp add: meta_def spawn_fields) (simp add: spawnEntity_def Let_def lobby_broadcast_def
        engine_registerEntity_def getGameState_def split: prod.split)
qed (simp_all add: meta_def lobby_broadcast_def on_engine_def destroyed_spec on_director_def engine_destroyEntity_def)

lemma runOnce_meta: "lobby_runOnce cosf l = Inr l' \<Longrightarrow> meta l' = meta l"
proof -
  have move: "meta (BroadcastUpdatedMovements_apply m) = meta m" for m :: "'a lobby"
  proof -
    have "meta (fold (\<lambda>i. apply_helper broadcast_movement i (f i)) is m) = meta m" for "is" f and m :: "'a lobby"
      by (induction "is" arbitrary: m) (simp_all add: apply_helper_def broadcast_movement_def Let_def)
    then show ?thesis by (simp add: BroadcastUpdatedMovements_apply_def group_apply_def)
  qed
  have bury: "bury_entity i refs m = Inr m' \<Longrightarrow> meta m' = meta m" for i refs and m m' :: "'a lobby"
    by (auto simp: bury_entity_def Let_def killEntity_def split: if_splits)
  have dead: "BroadcastDeadEntities_apply m = Inr m' \<Longrightarrow> meta m' = meta m" for m m' :: "'a lobby"
  proof -
    have "fold (\<lambda>i. apply_helper (\<lambda>i refs r. try_bind r (bury_entity i refs)) i (f i)) is r = Inr m' \<Longrightarrow>
        \<exists>m. r = Inr m \<and> meta m' = meta m" for "is" f r and m' :: "'a lobby"
    proof (induction "is" arbitrary: r)
      case (Cons i "is")
      then obtain m where "apply_helper (\<lambda>i refs r. try_bind r (bury_entity i refs)) i (f i) r = Inr m"
          "meta m' = meta m" by auto
      then show ?case using bury by (auto simp: apply_helper_def try_bind_Inr_iff split: if_splits)
    qed simp
    from this[of "\<lambda>i. map (\<lambda>v. view_at v i) (ecs_group (map cid [State, Type]) (lobby_store m))"]
    show "BroadcastDeadEntities_apply m = Inr m' \<Longrightarrow> meta m' = meta m"
      by (fastforce simp: BroadcastDeadEntities_apply_def group_apply_def)
  qed
  have one: "apply_system cosf s m = Inr m' \<Longrightarrow> meta m' = meta m" for s and m m' :: "'a lobby"
    by (cases s) (auto simp: move dead)
  have "apply_systems cosf ss m = Inr m' \<Longrightarrow> meta m' = meta m" for ss and m m' :: "'a lobby"
    by (induction ss arbitrary: m) (auto simp: try_bind_Inr_iff dest!: one)
  from this[of _ _ l'] show "lobby_runOnce cosf l = Inr l' \<Longrightarrow> meta l' = meta l"
    by (fastforce simp: lobby_runOnce_def Let_def)
qed

lemma restart_meta:
  assumes "lobby_restart l = Inr l'"
  shows "meta l' = meta l"
proof -
  have rev: "revive_players is m = Inr m' \<Longrightarrow> meta m' = meta m" for "is" and m m' :: "'a lobby"
  proof (induction "is" arbitrary: m)
    case (Cons i "is")
    then show ?case by (fastforce simp: try_bind_Inr_iff revive_player_def split: option.splits)
  qed simp
  have "snd (removeAllOf x en) = on_ecs (\<lambda>_. en_ecs (snd (removeAllOf x en))) en" for x and en :: "server_system engine"
    by (simp add: removeAllOf_def Let_def fold_on_ecs on_ecs_def)
  then have "meta (clear_type t m) = meta m" for t and m :: "'a lobby"
    using meta_frames(2)[of "\<lambda>_. en_ecs (snd (removeAllOf (C_Type \<lparr>ty_type = entity_type_value t\<rparr>) (lb_engine m)))" m]
    unfolding clear_type_def on_engine_def by (simp add: case_prod_beta)
  with assms show ?thesis by (auto simp: lobby_restart_def try_bind_Inr_iff dest!: rev)
qed

lemma metaD: "meta l' = meta l \<Longrightarrow> getGameState (lb_engine l') = getGameState (lb_engine l)"
  by (simp add: meta_def)

lemma kept_tick:
  assumes "sound_under b l"
  shows "kept b (tick_faults b) l (lobby_tick env l)"
proof -
  define l0 where "l0 = (if \<not> hasPlayerAlive l then lobby_restart (changeGameState (state_number GameOver) l) else Inr l)"
  have "sound_under b (changeGameState (state_number GameOver) l)" using assms by (simp add: sound_under_def)
  from sound_restart[OF this] have l0: "kept b {} l l0" using assms by (auto simp: l0_def)
  have running: "lb_players l \<noteq> []"
    if "l0 = Inr l1" "getGameState (lb_engine l1) = state_number GameRunning" for l1
  proof (cases "hasPlayerAlive l")
    case True
    with that show ?thesis by (auto simp: l0_def hasPlayerAlive_def)
  next
    case False
    with that metaD[OF restart_meta[of "changeGameState (state_number GameOver) l" l1]] show ?thesis
      by (simp add: l0_def state_number_def)
  qed
  show ?thesis
    unfolding lobby_tick_def l0_def[symmetric]
  proof (intro kept_bind)
    show "kept b (tick_faults b) l l0" by (rule kept_mono[OF l0]) simp
    fix l1 assume l1: "l0 = Inr l1" "sound_under b l1" "lb_players l1 = lb_players l"
    show "kept b (tick_faults b) l1 (lobby_runOnce (le_cos env) l1)"
      by (rule kept_mono[OF kept_runOnce[OF l1(2)]]) (simp add: tick_faults_def)
    fix l2 assume l2: "lobby_runOnce (le_cos env) l1 = Inr l2" "sound_under b l2" "lb_players l2 = lb_players l1"
    have "lb_players l2 \<noteq> []" if "getGameState (lb_engine l2) = state_number GameRunning"
      using running[OF l1(1)] metaD[OF runOnce_meta[OF l2(1)]] that l1(3) l2(3) by simp
    then show "kept b (tick_faults b) l2 (if getGameState (lb_engine l2) = state_number GameRunning
        then director_update (le_rng env) TIME_PER_TICK l2 else Inr l2)"
      using kept_mono[OF kept_director[OF l2(2)], of "tick_faults b" "le_rng env" TIME_PER_TICK] l2(2)
      by (auto simp: tick_faults_def)
  qed
qed

lemma director_meta: "director_update api dt l = Inr l' \<Longrightarrow> meta l' = meta l"
proof -
  have step: "wave_step api dt m i l = Inr l' \<Longrightarrow> meta l' = meta l" for m i and l l' :: "'a lobby"
    by (auto simp: wave_step_def spawn_enemy_def Let_def split: if_splits prod.splits option.splits)
  have "wave_loop n api dt m l = Inr l' \<Longrightarrow> meta l' = meta l" for n m and l l' :: "'a lobby"
    by (induction n arbitrary: l) (auto simp: try_bind_Inr_iff dest!: step)
  then show "director_update api dt l = Inr l' \<Longrightarrow> meta l' = meta l"
    by (fastforce simp: director_update_def Let_def split: option.splits if_splits)
qed

lemma ticks_queue: "lobby_ticks n env l = Inr l' \<Longrightarrow> lb_actionQueue l' = lb_actionQueue l"
proof (induction n arbitrary: l)
  case (Suc n)
  have queue: "meta b = meta a \<Longrightarrow> lb_actionQueue b = lb_actionQueue a" for a b :: "'a lobby"
    by (simp add: meta_def)
  have "lobby_tick env l = Inr l1 \<Longrightarrow> lb_actionQueue l1 = lb_actionQueue l" for l1
    by (auto simp: lobby_tick_def try_bind_Inr_iff changeGameState_def dest!: queue[OF runOnce_meta]
        queue[OF restart_meta] queue[OF director_meta] split: if_splits)
      (simp_all add: lobby_broadcast_def on_engine_def)
  with Suc show ?case by (auto simp: try_bind_Inr_iff)
qed simp

lemma kept_ticks: "sound_under b l \<Longrightarrow> kept b (tick_faults b) l (lobby_ticks n env l)"
proof (induction n arbitrary: l)
  case (Suc n)
  from kept_bind[OF kept_tick[OF Suc.prems] Suc.IH] show ?case by simp
qed simp

lemma action_director:
  "run_action a l = Inr l' \<Longrightarrow> director_ok (lb_levelDirector l) \<Longrightarrow> sound_lobby l \<Longrightarrow> director_ok (lb_levelDirector l')"
proof (cases a)
  case (Act_join sp)
  then show "run_action a l = Inr l' \<Longrightarrow> director_ok (lb_levelDirector l) \<Longrightarrow> director_ok (lb_levelDirector l')"
    by (auto simp: join_action_def Let_def spawnEntity_def split: if_splits prod.splits option.splits)
next
  case (Act_leave sp)
  then show "run_action a l = Inr l' \<Longrightarrow> director_ok (lb_levelDirector l) \<Longrightarrow> director_ok (lb_levelDirector l')"
    by (auto simp: leave_action_def Let_def clearEcs_def split: option.splits)
next
  case (Act_user_input sp p)
  then show "run_action a l = Inr l' \<Longrightarrow> director_ok (lb_levelDirector l) \<Longrightarrow> director_ok (lb_levelDirector l')"
    by (auto simp: handleUserInput_def Let_def spawnBullet_def spawn_fields split: if_splits option.splits)
next
  case Act_start
  assume "run_action a l = Inr l'" "sound_lobby l"
  with Act_start sound_restart[of True "changeGameState (state_number GameRunning) l"] show "director_ok (lb_levelDirector l')"
    by (auto simp: start_action_def sound_lobby_def)
qed

lemma sound_actions:
  assumes "sound_under b l" and "from_players (players_of l) as"
  shows "\<exists>l'. run_actions as l = Inr l' \<and> sound_under b l' \<and> players_of l' = fold plays_after as (players_of l)"
  using assms
proof (induction as arbitrary: l)
  case (Cons a as)
  let ?l = "l\<lparr>lb_actionQueue := \<lparr>cq_queue = as\<rparr>\<rparr>"
  have s: "sound_under b ?l" using Cons.prems(1) by (simp add: sound_under_def)
  then obtain l1 where l1: "run_action a ?l = Inr l1" "lobby_ok l1" "players_of l1 = plays_after a (players_of l)"
    using ok_action[of ?l a] Cons.prems(2) by (auto simp: sound_under_def)
  have "sound_under b l1" using action_director[OF l1(1)] s l1(2) by (simp add: sound_under_def sound_lobby_def)
  with Cons.IH[of l1] Cons.prems(2) l1 show ?case by simp
qed (simp add: sound_under_def)

end
