(* ===== verification/LobbyTasks.thy ===== *)
theory LobbyTasks
  imports LobbyTick
begin

text \<open>
  What the tasks of a lobby do, on all its entities: the join and the departure of a player, the
  input of a player, the restart of a game and the removal of the dead entities; and the
  properties of whole rounds of the thread.
\<close>

section \<open>Writes through the reference to a component\<close>

lemma write_component:
  assumes "ecs_wf e" and "getEntityWithComponent t i e = Some k"
  shows "getEntityComponent c j (ecs_assign (cid t) k v e) =
    (if c = cid t \<and> j = i then Some v else getEntityComponent c j e)"
proof -
  have "getEntityComponent (cid t) i e \<noteq> None" using ref_value[OF assms] by simp
  then have "i \<in> set (group_getEntities (ecs_group [cid t] e))"
    using ecs_group_facts[OF assms(1), of "[cid t]"] by auto
  from group_ref[OF assms(1) _ _ this, of 0] obtain s where
    s: "getComponent (cid t) e = Some s" "ss_ref s i = Some k"
    using assms(2) by (auto simp: getEntityWithComponent_def group_getEntity_def)
  have wf: "ss_wf s" using ecs_invD(4)[OF assms(1)] s(1) by (simp add: getComponent_def)
  have "ss_ref s j = Some k \<longleftrightarrow> j = i"
    using s(2) ss_wfD(3)[OF wf] by (auto simp: ss_ref_slot)
  then show ?thesis using get_assign[OF assms(1), of c j "cid t" k v] s(1) by auto
qed

lemma entities_assign [simp]: "getAllEntities (ecs_assign c k v e) = getAllEntities e"
  by (simp add: ecs_assign_def getAllEntities_def split: option.split)

section \<open>Joining\<close>

lemma engine_eta: "en_gameState en = getGameState en"
  by (simp add: getGameState_def)

definition messages :: "'g lobby \<Rightarrow> send_interface list" where
  "messages l = cq_queue (lb_outGoing l)"

lemma messages_simps [simp]:
  "messages (lobby_send sp p l) = messages l @ [([sp], p)]"
  "messages (lobby_broadcast p l) = messages l @ [(getAllSessions l, p)]"
  "messages (on_engine f l) = messages l"
  "messages (changeGameState s l) = messages l @ [(getAllSessions l, V_UpdateGameState \<lparr>ug_gameState = s\<rparr>)]"
  "messages (broadcast_destroyed ids l) = messages l @ map (\<lambda>i. (getAllSessions l, destroy_packet i)) ids"
  "messages (l\<lparr>lb_engine := en\<rparr>) = messages l" "messages (l\<lparr>lb_players := ps\<rparr>) = messages l"
  "messages (l\<lparr>lb_levelDirector := d\<rparr>) = messages l" "messages (l\<lparr>lb_isRunning := b\<rparr>) = messages l"
  by (simp_all add: messages_def lobby_send_def lobby_broadcast_def on_engine_def changeGameState_def
      destroyed_spec cq_push_def getAllSessions_def)

lemma sessions_simps [simp]:
  "getAllSessions (lobby_send sp p l) = getAllSessions l" "getAllSessions (lobby_broadcast p l) = getAllSessions l"
  "getAllSessions (on_engine f l) = getAllSessions l" "getAllSessions (changeGameState s l) = getAllSessions l"
  "getAllSessions (l\<lparr>lb_engine := en\<rparr>) = getAllSessions l"
  "getAllSessions (l\<lparr>lb_players := ps\<rparr>) = map fst ps"
  by (simp_all add: getAllSessions_def)

text \<open>The state of the game after a join.\<close>

definition join_state :: "u64 \<Rightarrow> u64" where
  "join_state s = (if s < state_number GameLobby then state_number GameLobby else s)"

text \<open>C28: a session that joins becomes a player: a new entity with exactly the components of a player is
  added and nothing else changes, the game leaves the waiting state, everyone is told of the new
  entity, the session gets its identifier, and (unless that identifier is 0) everyone gets a
  snapshot of the world.\<close>

theorem join_adds_player:
  assumes "lobby_ok l" and "\<not> om_has (lb_players l) sp"
  defines "i \<equiv> e_entitiesID (lobby_store l)" and "s \<equiv> getGameState (lb_engine l)"
    and "ps \<equiv> om_put sp (e_entitiesID (lobby_store l)) (lb_players l)"
  shows "\<exists>l'. join_action sp l = Inr l' \<and> lb_players l' = ps \<and> getGameState (lb_engine l') = join_state s \<and>
    set (getAllEntities (lobby_store l')) = insert i (set (getAllEntities (lobby_store l))) \<and>
    i \<notin> set (getAllEntities (lobby_store l)) \<and>
    (\<forall>t \<in> set GameComponents. \<forall>j. getEntityComponent (cid t) j (lobby_store l') =
       (if j = i \<and> pack_value player_components t \<noteq> None then pack_value player_components t
        else getEntityComponent (cid t) j (lobby_store l))) \<and>
    messages l' = messages l @
      (if s < state_number GameLobby
       then [(getAllSessions l, V_UpdateGameState \<lparr>ug_gameState = state_number GameLobby\<rparr>)] else []) @
      [(map fst ps, spawn_packet i (lb_engine l')),
       ([sp], V_JoinAck \<lparr>ja_id = word_of_nat i, ja_roomId = lb_roomId l, ja_gameState = join_state s, ja_status = 1\<rparr>)] @
      (if i \<noteq> 0 then [(map fst ps, world_init_packet (lb_engine l'))] else [])"
proof -
  define l1 where "l1 = (if getGameState (lb_engine l) < state_number GameLobby
      then changeGameState (state_number GameLobby) l else l)"
  have l1: "lb_players l1 = lb_players l" "lobby_store l1 = lobby_store l" "getGameState (lb_engine l1) = join_state s"
    "lb_roomId l1 = lb_roomId l" "getAllSessions l1 = getAllSessions l"
    "messages l1 = messages l @ (if s < state_number GameLobby
       then [(getAllSessions l, V_UpdateGameState \<lparr>ug_gameState = state_number GameLobby\<rparr>)] else [])"
    by (simp_all add: l1_def join_state_def s_def) (simp add: changeGameState_def lobby_broadcast_def on_engine_def)
  obtain en where reg: "engine_registerEntity None player_components (lb_engine l1) = (i, en)"
      "getGameState en = join_state s"
      "set (getAllEntities (en_ecs en)) = insert i (set (getAllEntities (lobby_store l)))"
      "i \<notin> set (getAllEntities (lobby_store l))"
      "\<forall>t j. t \<in> set GameComponents \<longrightarrow> getEntityComponent (cid t) j (en_ecs en) =
         (if j = i \<and> pack_value player_components t \<noteq> None then pack_value player_components t
          else getEntityComponent (cid t) j (lobby_store l))"
    using registered_entity[of "lb_engine l1" player_components, unfolded l1(2,3), OF lobby_okD(1)[OF assms(1)] player_pack(1)]
    unfolding i_def by blast
  define l2 where "l2 = lobby_broadcast (spawn_packet i en) (l1\<lparr>lb_engine := en, lb_players := ps\<rparr>)"
  have l2: "lb_engine l2 = en" "lb_players l2 = ps" "lb_roomId l2 = lb_roomId l"
    "messages l2 = messages l1 @ [(map fst ps, spawn_packet i en)]" "getAllSessions l2 = map fst ps"
    using l1(4) by (simp_all add: l2_def) (simp add: lobby_broadcast_def)
  have "spawnEntity player_components (Some sp) l1 = (i, l2)"
    using reg(1) l1(1) by (simp add: spawnEntity_def Let_def l2_def ps_def i_def)
  then have act: "join_action sp l =
      (let l3 = lobby_send sp (V_JoinAck \<lparr>ja_id = word_of_nat i, ja_roomId = lb_roomId l, ja_gameState = join_state s, ja_status = 1\<rparr>) l2
       in Inr (if i \<noteq> 0 then lobby_broadcast (world_init_packet en) l3 else l3))"
    using assms(2) l2 reg(2) by (simp add: join_action_def Let_def ps_def i_def flip: l1_def)
  define l3 where "l3 = (if i \<noteq> 0 then lobby_broadcast (world_init_packet en) (lobby_send sp (V_JoinAck
        \<lparr>ja_id = word_of_nat i, ja_roomId = lb_roomId l, ja_gameState = join_state s, ja_status = 1\<rparr>) l2)
      else lobby_send sp (V_JoinAck \<lparr>ja_id = word_of_nat i, ja_roomId = lb_roomId l, ja_gameState = join_state s,
        ja_status = 1\<rparr>) l2)"
  have l3: "join_action sp l = Inr l3" "lb_engine l3 = en" "lb_players l3 = ps"
    "messages l3 = messages l @
      (if s < state_number GameLobby
       then [(getAllSessions l, V_UpdateGameState \<lparr>ug_gameState = state_number GameLobby\<rparr>)] else []) @
      [(map fst ps, spawn_packet i en),
       ([sp], V_JoinAck \<lparr>ja_id = word_of_nat i, ja_roomId = lb_roomId l, ja_gameState = join_state s, ja_status = 1\<rparr>)] @
      (if i \<noteq> 0 then [(map fst ps, world_init_packet en)] else [])"
    using act l2 l1(6) by (simp_all add: l3_def Let_def)
  show ?thesis
    by (rule exI[of _ l3], unfold l3) (use reg in blast)
qed


section \<open>Leaving\<close>

lemma leave_effect:
  assumes "lobby_ok l" and "map_of (lb_players l) sp = Some i"
  defines "ps \<equiv> om_del sp (lb_players l)"
  shows "lb_players (leave_action sp l) = ps"
    and "set (getAllEntities (lobby_store (leave_action sp l))) =
      (if ps = [] then {} else set (getAllEntities (lobby_store l)) - {i})"
    and "getEntityComponent c j (lobby_store (leave_action sp l)) =
      (if ps = [] \<or> j = i then None else getEntityComponent c j (lobby_store l))"
    and "getGameState (lb_engine (leave_action sp l)) =
      (if ps = [] then state_number GameWaiting else getGameState (lb_engine l))"
    and "lb_isRunning (leave_action sp l) \<longleftrightarrow> lb_isRunning l \<and> \<not> (ps = [] \<and> lb_roomId l \<noteq> 0)"
    and "messages (leave_action sp l) = messages l @ [(getAllSessions l, destroy_packet i)] @
      (if ps = [] then map (\<lambda>j. ([], destroy_packet j)) (getAllEntities (destroyEntity i (lobby_store l))) else [])"
proof -
  define l2 where "l2 = (lobby_broadcast (destroy_packet i) (on_engine (engine_destroyEntity i) l))\<lparr>lb_players := ps\<rparr>"
  have l2: "lb_players l2 = ps" "lobby_store l2 = destroyEntity i (lobby_store l)" "lb_roomId l2 = lb_roomId l"
    "lb_isRunning l2 = lb_isRunning l" "getGameState (lb_engine l2) = getGameState (lb_engine l)"
    "messages l2 = messages l @ [(getAllSessions l, destroy_packet i)]" "getAllSessions l2 = map fst ps"
    by (simp_all add: l2_def engine_destroyEntity_def) (simp_all add: lobby_broadcast_def on_engine_def)
  have act: "leave_action sp l = (if ps \<noteq> [] then l2
      else case clearEcs (lb_engine l2) of (ids, en) \<Rightarrow>
        let l3 = on_engine (setGameState (state_number GameWaiting)) (broadcast_destroyed ids (l2\<lparr>lb_engine := en\<rparr>))
        in if lb_roomId l3 \<noteq> 0 then l3\<lparr>lb_isRunning := False\<rparr> else l3)"
    using assms(2) by (simp add: leave_action_def l2_def ps_def Let_def)
  have room: "lb_roomId (on_engine f (broadcast_destroyed ids (m\<lparr>lb_engine := en\<rparr>))) = lb_roomId m"
    "lb_isRunning (on_engine f (broadcast_destroyed ids (m\<lparr>lb_engine := en\<rparr>))) = lb_isRunning m" for f ids en and m :: "'a lobby"
    by (simp_all add: on_engine_def destroyed_spec)
  note store = lobby_okD(1)[OF assms(1)]
  have store2: "game_store (lobby_store l2)"
    using game_store.call[OF store, of "Call_destroyEntity i"] l2(2) by simp
  note d = destroyed_store[OF store2, where ids = "getAllEntities (lobby_store l2)"]
  have ents2: "set (getAllEntities (lobby_store l2)) = set (getAllEntities (lobby_store l)) - {i}"
    unfolding l2(2) by (auto simp: getAllEntities_def destroyEntity_def om_del_def)
  have gone: "getEntityComponent c j (lobby_store l2) = None" if "j \<notin> set (getAllEntities (lobby_store l2))" for c j
    using component_entity[OF store_wf[OF store2]] that by blast
  show "lb_players (leave_action sp l) = ps"
    using l2(1) by (simp add: act clearEcs_def Let_def)
  show "set (getAllEntities (lobby_store (leave_action sp l))) =
      (if ps = [] then {} else set (getAllEntities (lobby_store l)) - {i})"
    using d(4) ents2 by (simp add: act clearEcs_def Let_def)
  show "getEntityComponent c j (lobby_store (leave_action sp l)) =
      (if ps = [] \<or> j = i then None else getEntityComponent c j (lobby_store l))"
    using d(3)[of c j] gone[of j c] get_destroy[OF store_wf[OF store], of c j i] l2(2)
    by (auto simp: act clearEcs_def Let_def)
  show "getGameState (lb_engine (leave_action sp l)) =
      (if ps = [] then state_number GameWaiting else getGameState (lb_engine l))"
    using l2(5) by (simp add: act clearEcs_def Let_def)
  show "lb_isRunning (leave_action sp l) \<longleftrightarrow> lb_isRunning l \<and> \<not> (ps = [] \<and> lb_roomId l \<noteq> 0)"
    using l2(3,4) by (simp add: act clearEcs_def Let_def room)
  show "messages (leave_action sp l) = messages l @ [(getAllSessions l, destroy_packet i)] @
      (if ps = [] then map (\<lambda>j. ([], destroy_packet j)) (getAllEntities (destroyEntity i (lobby_store l))) else [])"
    using l2(2,6,7) by (simp add: act clearEcs_def Let_def)
qed

section \<open>Input\<close>

text \<open>The input of a player sets the velocity of that player from the keys and, when the key to
  shoot is down, adds one bullet that it owns, in front of its position; all other components of
  all entities stay.\<close>

theorem input_steers_and_shoots:
  assumes "lobby_ok l" and "map_of (lb_players l) sp = Some i"
    and "getEntityComponent (cid Velocity) i (lobby_store l) = Some (C_Velocity v)"
    and "getEntityComponent (cid Position) i (lobby_store l) = Some (C_Position p)"
  defines "e \<equiv> lobby_store l" and "b \<equiv> e_entitiesID (lobby_store l)"
  shows "\<exists>l'. handleUserInput sp m l = Inr l' \<and> lb_players l' = lb_players l \<and>
    set (getAllEntities (lobby_store l')) =
      (if pressed kShoot m then insert b (set (getAllEntities e)) else set (getAllEntities e)) \<and>
    b \<notin> set (getAllEntities e) \<and>
    (\<forall>t \<in> set GameComponents. \<forall>j. getEntityComponent (cid t) j (lobby_store l') =
       (if t = Velocity \<and> j = i then Some (C_Velocity (v\<lparr>vel_vx := axis kRight kLeft m, vel_vy := axis kDown kUp m\<rparr>))
        else if pressed kShoot m \<and> j = b \<and> pack_value (bullet_components i p) t \<noteq> None
        then pack_value (bullet_components i p) t
        else getEntityComponent (cid t) j e))"
proof -
  note wf = lobby_okD(2)[OF assms(1)]
  obtain kv kp where k: "getEntityWithComponent Velocity i e = Some kv" "getEntityWithComponent Position i e = Some kp"
      "handleUserInput sp m l = Inr (spawnBullet i (position_at kp (lobby_store (steered kv m l))) m (steered kv m l))"
    using handleUserInput_player[OF assms(1,2), of m] by (auto simp: e_def)
  have "ecs_deref (cid Velocity) kv e = C_Velocity v"
    using ref_value[OF wf, of Velocity i kv] k(1) assms(3) by (simp add: e_def)
  then have v: "velocity_at kv e = v" by (simp add: velocity_at_def)
  define l1 where "l1 = steered kv m l"
  have st: "lobby_store l1 = ecs_assign (cid Velocity) kv
      (C_Velocity (v\<lparr>vel_vx := axis kRight kLeft m, vel_vy := axis kDown kUp m\<rparr>)) e"
    using v by (simp add: l1_def steered_def put_velocity_at_def e_def)
  have get1: "getEntityComponent c j (lobby_store l1) =
      (if c = cid Velocity \<and> j = i
       then Some (C_Velocity (v\<lparr>vel_vx := axis kRight kLeft m, vel_vy := axis kDown kUp m\<rparr>))
       else getEntityComponent c j e)" for c j
    unfolding st by (rule write_component) (use wf k(1) in \<open>simp_all add: e_def\<close>)
  have ok1: "lobby_ok l1" "lb_players l1 = lb_players l"
    using ok_steered[OF assms(1)] by (simp_all add: l1_def) (simp add: steered_def)
  have ids: "e_entitiesID (lobby_store l1) = b" "getAllEntities (lobby_store l1) = getAllEntities e"
    unfolding st b_def e_def by (simp add: ecs_assign_def split: option.split) simp
  have "getEntityWithComponent Position i (lobby_store l1) = Some kp"
  proof -
    have "getComponent c (ecs_assign (cid Velocity) kv x e) = getComponent c e" if "c \<noteq> cid Velocity" for c x
      using that by (simp add: ecs_assign_def getComponent_def split: option.split)
    with k(2) show ?thesis by (simp add: st getEntityWithComponent_def ecs_group_def)
  qed
  from ref_value[OF lobby_okD(2)[OF ok1(1)] this] assms(4) have p: "position_at kp (lobby_store l1) = p"
    unfolding get1 by (simp add: position_at_def e_def)
  have fresh: "b \<notin> set (getAllEntities e)"
    using fresh_id[OF wf] by (simp add: b_def e_def set_getAllEntities)
  have "i \<noteq> b" using component_entity[OF wf, of "cid Velocity" i] assms(3) fresh by (auto simp: e_def)
  obtain en where reg: "engine_registerEntity None (bullet_components i p) (lb_engine l1) = (b, en)"
      "set (getAllEntities (en_ecs en)) = insert b (set (getAllEntities e))"
      "\<And>t j. t \<in> set GameComponents \<Longrightarrow> getEntityComponent (cid t) j (en_ecs en) =
         (if j = b \<and> pack_value (bullet_components i p) t \<noteq> None then pack_value (bullet_components i p) t
          else getEntityComponent (cid t) j (lobby_store l1))"
    using registered_entity[OF lobby_okD(1)[OF ok1(1)] bullet_pack, of i p] unfolding ids by blast
  have bullet: "lobby_store (spawnBullet i p m l1) = (if pressed kShoot m then en_ecs en else lobby_store l1)"
    "lb_players (spawnBullet i p m l1) = lb_players l"
    using reg(1) ok1(2) by (simp_all add: spawnBullet_def spawnEntity_def Let_def)
  have "pack_value (bullet_components i p) Velocity \<noteq> None" by (simp add: pack_value_def bullet_components_def)
  show ?thesis
  proof (intro exI[of _ "spawnBullet i p m l1"] conjI ballI allI)
    show "handleUserInput sp m l = Inr (spawnBullet i p m l1)" using k(3) p by (simp flip: l1_def)
    show "lb_players (spawnBullet i p m l1) = lb_players l" by (rule bullet)
    show "set (getAllEntities (lobby_store (spawnBullet i p m l1))) =
        (if pressed kShoot m then insert b (set (getAllEntities e)) else set (getAllEntities e))"
      using reg(2) ids(2) by (simp add: bullet(1))
    fix t j assume t: "t \<in> set GameComponents"
    show "getEntityComponent (cid t) j (lobby_store (spawnBullet i p m l1)) =
       (if t = Velocity \<and> j = i then Some (C_Velocity (v\<lparr>vel_vx := axis kRight kLeft m, vel_vy := axis kDown kUp m\<rparr>))
        else if pressed kShoot m \<and> j = b \<and> pack_value (bullet_components i p) t \<noteq> None
        then pack_value (bullet_components i p) t
        else getEntityComponent (cid t) j e)"
      unfolding bullet(1) using reg(3)[OF t, of j] get1[of "cid t" j] \<open>i \<noteq> b\<close>
      by (simp only: cid_inject split: if_split) blast
  qed (rule fresh)
qed


section \<open>Restarting\<close>

definition alive_state :: component where
  "alive_state = C_State \<lparr>sc_state = entity_state EntityAlive\<rparr>"

lemma revives_effect:
  assumes "lobby_ok l" and "set is \<subseteq> set (map snd (lb_players l))"
  shows "\<exists>l'. revive_players is l = Inr l' \<and> lobby_ok l' \<and> lb_players l' = lb_players l \<and>
    lb_levelDirector l' = lb_levelDirector l \<and> messages l' = messages l \<and>
    getGameState (lb_engine l') = getGameState (lb_engine l) \<and>
    getAllEntities (lobby_store l') = getAllEntities (lobby_store l) \<and>
    (\<forall>c j. getEntityComponent c j (lobby_store l') =
       (if c = cid State \<and> j \<in> set is then Some alive_state else getEntityComponent c j (lobby_store l)))"
  using assms
proof (induction "is" arbitrary: l)
  case (Cons i "is")
  note wf = lobby_okD(2)[OF Cons.prems(1)]
  have "getEntityComponent (cid State) i (lobby_store l) \<noteq> None"
    using lobby_okD(7)[OF Cons.prems(1), of i] Cons.prems(2) by (simp add: is_player_def)
  from ref_exists[OF wf this] obtain k where k: "getEntityWithComponent State i (lobby_store l) = Some k" by blast
  define l1 where "l1 = on_engine (on_ecs (put_state_at k \<lparr>sc_state = entity_state EntityAlive\<rparr>)) l"
  have r: "revive_player i l = Inr l1" using k by (simp add: revive_player_def from_group_single l1_def)
  have ok: "lobby_ok l1" unfolding l1_def using Cons.prems(1) by (intro ok_touched touching)
  have st: "lobby_store l1 = ecs_assign (cid State) k alive_state (lobby_store l)"
    by (simp add: l1_def put_state_at_def alive_state_def)
  have get: "getEntityComponent c j (lobby_store l1) =
      (if c = cid State \<and> j = i then Some alive_state else getEntityComponent c j (lobby_store l))" for c j
    unfolding st by (rule write_component[OF wf k])
  have fr: "lb_players l1 = lb_players l" "lb_levelDirector l1 = lb_levelDirector l" "messages l1 = messages l"
    "getGameState (lb_engine l1) = getGameState (lb_engine l)"
    "getAllEntities (lobby_store l1) = getAllEntities (lobby_store l)"
    by (simp_all add: l1_def put_state_at_def)
  have "set is \<subseteq> set (map snd (lb_players l1))" using Cons.prems(2) fr(1) by simp
  from Cons.IH[OF ok this] obtain l' where l': "revive_players is l1 = Inr l'" "lobby_ok l'" "lb_players l' = lb_players l1"
      "lb_levelDirector l' = lb_levelDirector l1" "messages l' = messages l1"
      "getGameState (lb_engine l') = getGameState (lb_engine l1)"
      "getAllEntities (lobby_store l') = getAllEntities (lobby_store l1)"
      "\<forall>c j. getEntityComponent c j (lobby_store l') =
         (if c = cid State \<and> j \<in> set is then Some alive_state else getEntityComponent c j (lobby_store l1))"
    by blast
  have "getEntityComponent c j (lobby_store l') =
      (if c = cid State \<and> j \<in> set (i # is) then Some alive_state else getEntityComponent c j (lobby_store l))" for c j
    using l'(8) get by auto
  with r l'(1-7) fr show ?case by (intro exI[of _ l']) simp
qed simp

lemma clear_type_effect:
  assumes "lobby_ok l" and "t \<noteq> kPlayer"
  defines "ids \<equiv> of_type t (lobby_store l)"
  shows "lobby_ok (clear_type t l)" and "lb_players (clear_type t l) = lb_players l"
    and "lb_levelDirector (clear_type t l) = lb_levelDirector l"
    and "set (getAllEntities (lobby_store (clear_type t l))) = set (getAllEntities (lobby_store l)) - set ids"
    and "getEntityComponent c j (lobby_store (clear_type t l)) =
      (if j \<in> set ids then None else getEntityComponent c j (lobby_store l))"
    and "messages (clear_type t l) = messages l @ map (\<lambda>j. (getAllSessions l, destroy_packet j)) ids"
    and "getGameState (lb_engine (clear_type t l)) = getGameState (lb_engine l)"
  using ok_clear_type[OF assms(1,2)] clear_type_spec[OF assms(1), of t]
    destroyed_store(3,4)[OF lobby_okD(1)[OF assms(1)], where ids = ids]
  by (simp_all add: ids_def)

text \<open>A restart never fails in a lobby that keeps its invariant: it revives every player, removes
  exactly the enemies and the bullets, tells the players of each removal, resets the director and
  keeps everything else.\<close>

theorem restart_clears_field:
  assumes "lobby_ok l"
  defines "e \<equiv> lobby_store l"
  shows "\<exists>l'. lobby_restart l = Inr l' \<and> lb_players l' = lb_players l \<and>
    lb_levelDirector l' = director_restart (lb_levelDirector l) \<and>
    set (getAllEntities (lobby_store l')) = set (getAllEntities e) - set (of_type kEnemy e) - set (of_type kBullet e) \<and>
    (\<forall>c j. getEntityComponent c j (lobby_store l') =
       (if j \<in> set (of_type kEnemy e) \<union> set (of_type kBullet e) then None
        else if c = cid State \<and> j \<in> set (map snd (lb_players l)) then Some alive_state
        else getEntityComponent c j e)) \<and>
    messages l' = messages l @
      map (\<lambda>j. (getAllSessions l, destroy_packet j)) (of_type kEnemy e @ of_type kBullet (fold destroyEntity (of_type kEnemy e) e))"
proof -
  let ?l = "l\<lparr>lb_levelDirector := director_restart (lb_levelDirector l)\<rparr>"
  obtain l1 where l1: "revive_players (map snd (lb_players l)) ?l = Inr l1" "lobby_ok l1" "lb_players l1 = lb_players l"
      "lb_levelDirector l1 = director_restart (lb_levelDirector l)" "messages l1 = messages l"
      "getAllEntities (lobby_store l1) = getAllEntities e"
      "\<And>c j. getEntityComponent c j (lobby_store l1) =
         (if c = cid State \<and> j \<in> set (map snd (lb_players l)) then Some alive_state else getEntityComponent c j e)"
    using revives_effect[of ?l "map snd (lb_players l)"] assms(1) by (auto simp: e_def)
  define l2 where "l2 = clear_type kEnemy l1"
  define l3 where "l3 = clear_type kBullet l2"
  have res: "lobby_restart l = Inr l3" using l1(1) by (simp add: lobby_restart_def l2_def l3_def)
  note e2 = clear_type_effect[OF l1(2), of kEnemy, simplified, folded l2_def]
  note e3 = clear_type_effect[OF e2(1), of kBullet, simplified, folded l3_def]
  have type: "getEntityComponent (cid Type) j (lobby_store l1) = getEntityComponent (cid Type) j e" for j
    using l1(7)[of "cid Type" j] by simp
  have en: "of_type kEnemy (lobby_store l1) = of_type kEnemy e"
    unfolding of_type_def l1(6) type ..
  have ents: "getAllEntities (lobby_store l2) = getAllEntities (fold destroyEntity (of_type kEnemy e) e)"
  proof -
    have "getAllEntities (fold destroyEntity ids x) = filter (\<lambda>i. i \<notin> set ids) (getAllEntities x)" for ids and x :: "server_system store"
    proof (induction ids arbitrary: x)
      case (Cons i ids)
      have "getAllEntities (destroyEntity i x) = filter (\<lambda>k. k \<noteq> i) (getAllEntities x)"
        by (simp add: getAllEntities_def destroyEntity_def om_del_def filter_map comp_def)
      with Cons show ?case by (simp add: conj_commute)
    qed simp
    moreover have "lobby_store l2 = fold destroyEntity (of_type kEnemy (lobby_store l1)) (lobby_store l1)"
      using clear_type_spec[OF l1(2), of kEnemy] by (simp add: l2_def)
    ultimately show ?thesis by (simp add: en l1(6))
  qed
  have bu: "of_type kBullet (lobby_store l2) = of_type kBullet (fold destroyEntity (of_type kEnemy e) e)"
    unfolding of_type_def[of kBullet] ents e2(5) type en
      destroyed_store(3)[OF lobby_okD(1)[OF assms(1), folded e_def]] ..
  have enemy_not_bullet: "j \<notin> set (of_type kBullet e)" if "j \<in> set (of_type kEnemy e)" for j
    using that entity_type_inject[of kEnemy kBullet] by (simp add: of_type_def)
  have bs: "set (of_type kBullet (fold destroyEntity (of_type kEnemy e) e)) = set (of_type kBullet e)"
  proof -
    note d = destroyed_store(3,4)[OF lobby_okD(1)[OF assms(1), folded e_def], where ids = "of_type kEnemy e"]
    show ?thesis using enemy_not_bullet by (auto simp: of_type_def[of kBullet] d split: if_splits)
  qed
  show ?thesis
  proof (intro exI[of _ l3] conjI allI)
    show "lb_levelDirector l3 = director_restart (lb_levelDirector l)" using l1(4) e2(3) e3(3) by simp
    show "lb_players l3 = lb_players l" using l1(3) e2(2) e3(2) by simp
    show "set (getAllEntities (lobby_store l3)) = set (getAllEntities e) - set (of_type kEnemy e) - set (of_type kBullet e)"
      using l1(6) e2(4) e3(4) by (simp add: bu bs en)
    show "getEntityComponent c j (lobby_store l3) =
       (if j \<in> set (of_type kEnemy e) \<union> set (of_type kBullet e) then None
        else if c = cid State \<and> j \<in> set (map snd (lb_players l)) then Some alive_state
        else getEntityComponent c j e)" for c j
      unfolding e3(5)[of c j] e2(5)[of c j] bu bs en l1(7)[of c j] by simp
    have "getAllSessions l2 = getAllSessions l" "getAllSessions l1 = getAllSessions l"
      using l1(3) e2(2) by (simp_all add: getAllSessions_def)
    then show "messages l3 = messages l @ map (\<lambda>j. (getAllSessions l, destroy_packet j))
        (of_type kEnemy e @ of_type kBullet (fold destroyEntity (of_type kEnemy e) e))"
      using l1(5) e2(6) e3(6) by (simp add: bu en)
  qed (rule res)
qed


section \<open>Sample lobbies\<close>

definition sample_pool :: "archetype list" where
  "sample_pool = [\<lparr>ar_name = ''scouts'', ar_difficultyCost = 2, ar_weight = 3, ar_spawnInterval = f32_of_int 1,
     ar_postWaveDelay = 0, ar_enemies = [\<lparr>eg_type = kEnemy, eg_patternName = ''wave'', eg_count = 2\<rparr>]\<rparr>]"

definition sample_lobby :: "unit lobby" where
  "sample_lobby = new_lobby 3 cq_new ((new_director () 0 0 0)\<lparr>dr_wavePool := sample_pool\<rparr>)"

definition sample_joined :: "unit lobby" where
  "sample_joined = (case join_action 7 sample_lobby of Inr l \<Rightarrow> l | Inl _ \<Rightarrow> sample_lobby)"

lemma sample_lobby_ok: "lobby_ok sample_lobby" and sample_lobby_sound: "sound_lobby sample_lobby"
proof -
  show "lobby_ok sample_lobby" by (simp add: sample_lobby_def ok_new)
  moreover have "director_ok (lb_levelDirector sample_lobby)"
    by (simp add: sample_lobby_def new_lobby_def new_director_def director_ok_def pool_ok_def sample_pool_def
        group_ok_def StringToMoveSet_def)
  ultimately show "sound_lobby sample_lobby" by (simp add: sound_lobby_def)
qed

lemma sample_lobby_players: "lb_players sample_lobby = []" "players_of sample_lobby = {}" "lb_isRunning sample_lobby = False"
  "lb_actionQueue sample_lobby = cq_new"
  by (simp_all add: sample_lobby_def new_lobby_def players_of_def)

lemma sample_joined_ok: "lobby_ok sample_joined" and sample_joined_player: "\<exists>i. map_of (lb_players sample_joined) 7 = Some i"
proof -
  obtain l where "join_action 7 sample_lobby = Inr l" "lobby_ok l" "om_has (lb_players l) 7"
    using ok_join[OF sample_lobby_ok, of 7] by auto
  then show "lobby_ok sample_joined" "\<exists>i. map_of (lb_players sample_joined) 7 = Some i"
    by (simp_all add: sample_joined_def om_has_def)
qed

definition sample_id :: nat where "sample_id = the (map_of (lb_players sample_joined) 7)"

lemma sample_id: "map_of (lb_players sample_joined) 7 = Some sample_id"
  using sample_joined_player by (auto simp: sample_id_def)

theorem join_adds_player_witness:
  "\<exists>l'. join_action 7 sample_lobby = Inr l' \<and>
    set (getAllEntities (lobby_store l')) =
      insert (e_entitiesID (lobby_store sample_lobby)) (set (getAllEntities (lobby_store sample_lobby)))"
  using join_adds_player[OF sample_lobby_ok, of 7] by (auto simp: sample_lobby_players)

lemma sample_components:
  "\<exists>v. getEntityComponent (cid Velocity) sample_id (lobby_store sample_joined) = Some (C_Velocity v)"
  "\<exists>p. getEntityComponent (cid Position) sample_id (lobby_store sample_joined) = Some (C_Position p)"
proof -
  note p = lobby_okD(6)[OF sample_joined_ok sample_id]
  have "typed_store (lobby_store sample_joined)" using game_store_inv[OF lobby_okD(1)[OF sample_joined_ok]] by blast
  then have ty: "getEntityComponent (cid t) i (lobby_store sample_joined) = Some x \<Longrightarrow> type_of x = t" for t i x
    unfolding typed_store_def by (metis cid_inject)
  have kind: "type_of x = Velocity \<Longrightarrow> \<exists>v. x = C_Velocity v" "type_of x = Position \<Longrightarrow> \<exists>q. x = C_Position q" for x
    by (cases x; simp)+
  obtain x y where "getEntityComponent (cid Velocity) sample_id (lobby_store sample_joined) = Some x"
      "getEntityComponent (cid Position) sample_id (lobby_store sample_joined) = Some y"
    using p unfolding is_player_def by auto
  with ty kind show "\<exists>v. getEntityComponent (cid Velocity) sample_id (lobby_store sample_joined) = Some (C_Velocity v)"
    "\<exists>p. getEntityComponent (cid Position) sample_id (lobby_store sample_joined) = Some (C_Position p)" by metis+
qed

theorem input_steers_and_shoots_witness:
  "\<exists>l'. handleUserInput 7 \<lparr>input_mask = 24\<rparr> sample_joined = Inr l' \<and>
    e_entitiesID (lobby_store sample_joined) \<in> set (getAllEntities (lobby_store l'))"
proof -
  obtain v p where "getEntityComponent (cid Velocity) sample_id (lobby_store sample_joined) = Some (C_Velocity v)"
      "getEntityComponent (cid Position) sample_id (lobby_store sample_joined) = Some (C_Position p)"
    using sample_components by blast
  from input_steers_and_shoots[OF sample_joined_ok sample_id this, of "\<lparr>input_mask = 24\<rparr>"]
  show ?thesis by (auto simp: pressed_def)
qed

theorem restart_clears_field_witness:
  "\<exists>l'. lobby_restart sample_joined = Inr l' \<and> lb_players l' = lb_players sample_joined"
  using restart_clears_field[OF sample_joined_ok] by blast

text \<open>C29: when a player leaves, its entity is destroyed and everyone, itself included, is told; when it
  was the last one, every entity is destroyed, the game waits again, and the lobby stops unless it
  is the first one.\<close>

theorem leave_removes_player:
  assumes "lobby_ok l" and "map_of (lb_players l) sp = Some i"
  shows "let l' = leave_action sp l; empty = (om_del sp (lb_players l) = []) in
    lb_players l' = om_del sp (lb_players l) \<and>
    set (getAllEntities (lobby_store l')) = (if empty then {} else set (getAllEntities (lobby_store l)) - {i}) \<and>
    getEntityComponent c j (lobby_store l') = (if empty \<or> j = i then None else getEntityComponent c j (lobby_store l)) \<and>
    getGameState (lb_engine l') = (if empty then state_number GameWaiting else getGameState (lb_engine l)) \<and>
    (lb_isRunning l' \<longleftrightarrow> lb_isRunning l \<and> (empty \<longrightarrow> lb_roomId l = 0)) \<and>
    messages l' = messages l @ [(getAllSessions l, destroy_packet i)] @
      (if empty then map (\<lambda>j. ([], destroy_packet j)) (getAllEntities (destroyEntity i (lobby_store l))) else [])"
  using leave_effect[OF assms] by (auto simp: Let_def)

theorem leave_removes_player_witness:
  "lb_players (leave_action 7 sample_joined) = om_del 7 (lb_players sample_joined)"
  using leave_removes_player[OF sample_joined_ok sample_id] by (simp add: Let_def)

section \<open>The removal of the dead\<close>

lemma set_dead: "ecs_wf e \<Longrightarrow> set (dead_entities e) = {j. is_dead e j}"
  using ecs_group_facts[of e "map cid [State, Type]"]
  by (auto simp: dead_entities_def is_dead_def split: option.splits)

text \<open>C27: the removal of the dead entities either destroys exactly the entities that are dead and not
  players, with one message for each, or follows a dangling reference; the latter happens only
  when it visits another entity after a dead one.\<close>

theorem dead_are_removed:
  assumes "lobby_ok l"
  defines "e \<equiv> lobby_store l"
  shows "case BroadcastDeadEntities_apply l of
      Inr l' \<Rightarrow> lb_players l' = lb_players l \<and>
        set (getAllEntities (lobby_store l')) = set (getAllEntities e) - {j. is_dead e j} \<and>
        (\<forall>c j. getEntityComponent c j (lobby_store l') = (if is_dead e j then None else getEntityComponent c j e)) \<and>
        messages l' = messages l @ map (\<lambda>j. (getAllSessions l, destroy_packet j)) (dead_entities e) \<and>
        distinct (dead_entities e)
    | Inl f \<Rightarrow> f = Dangling_reference \<and>
        (\<exists>xs i ys. group_getEntities (ecs_group (map cid [State, Type]) e) = xs @ i # ys \<and> is_dead e i \<and> ys \<noteq> [])"
proof -
  note d = destroyed_store(3,4)[OF lobby_okD(1)[OF assms(1)], where ids = "dead_entities (lobby_store l)"]
  note dead = set_dead[OF lobby_okD(2)[OF assms(1)]]
  have "distinct (dead_entities (lobby_store l))"
    using ecs_group_facts[OF lobby_okD(2)[OF assms(1)], of "map cid [State, Type]"]
    unfolding dead_entities_def by (blast intro: distinct_filter)
  moreover have "lobby_store (bury ids l) = fold destroyEntity ids (lobby_store l)" "lb_players (bury ids l) = lb_players l"
    "messages (bury ids l) = messages l @ map (\<lambda>j. (getAllSessions l, destroy_packet j)) ids" for ids
    by (simp_all add: bury_def)
  ultimately have good: ?thesis if "BroadcastDeadEntities_apply l = Inr (bury (dead_entities (lobby_store l)) l)"
    using that by (auto simp: d dead e_def)
  from dead_sweep[OF assms(1)] show ?thesis
  proof
    assume r: "BroadcastDeadEntities_apply l = Inl Dangling_reference \<and>
      (\<exists>xs i ys. group_getEntities (ecs_group (map cid [State, Type]) (lobby_store l)) = xs @ i # ys \<and>
         is_dead (lobby_store l) i \<and> ys \<noteq> [])"
    then have "BroadcastDeadEntities_apply l = Inl Dangling_reference" by (rule conjunct1)
    then show ?thesis unfolding e_def using r by (simp only: sum.case simp_thms)
  qed (rule good)
qed

theorem dead_are_removed_witness:
  "case BroadcastDeadEntities_apply sample_joined of
      Inr l' \<Rightarrow> lb_players l' = lb_players sample_joined
    | Inl f \<Rightarrow> f = Dangling_reference"
  using dead_are_removed[OF sample_joined_ok] by (simp split: sum.splits)

section \<open>Rounds\<close>

lemma sound_round:
  assumes "sound_under b l" and "from_players (players_of l) (cq_queue (lb_actionQueue l))"
  shows "case lobby_round env n l of
      Inr l' \<Rightarrow> sound_under b l' \<and> (if lb_isRunning l
        then players_of l' = fold plays_after (cq_queue (lb_actionQueue l)) (players_of l) \<and> lb_actionQueue l' = cq_new
        else l' = l)
    | Inl f \<Rightarrow> f \<in> tick_faults b"
proof (cases "lb_isRunning l")
  case False
  with assms show ?thesis by (simp add: lobby_round_def)
next
  case True
  obtain l1 where l1: "run_actions (cq_queue (lb_actionQueue l)) l = Inr l1" "sound_under b l1"
      "players_of l1 = fold plays_after (cq_queue (lb_actionQueue l)) (players_of l)"
    using sound_actions[OF assms] by blast
  have "lb_actionQueue l1 = cq_new" using ok_actions[OF _ assms(2)] assms(1) l1(1) by (auto simp: sound_under_def)
  moreover have "lobby_round env n l = lobby_ticks n env l1" using True l1(1) by (simp add: lobby_round_def)
  ultimately show ?thesis
    using kept_ticks[OF l1(2), of n env] l1(3) True ticks_queue[of n env l1]
    by (auto simp: players_of_def kept_def split: sum.splits)
qed

text \<open>C12: a lobby whose queued inputs come from sessions that play when the input is reached keeps its
  invariant through a whole round of its thread, tasks and ticks: no optional is read empty, no
  key is missing and no vector is read beyond its end; the players after the round are those of
  the tasks.  What is left is the dangling reference of the removal of the dead, and the loop of
  the director.\<close>

theorem round_keeps_invariant:
  assumes "sound_lobby l" and "from_players (players_of l) (cq_queue (lb_actionQueue l))"
  shows "case lobby_round env n l of
      Inr l' \<Rightarrow> sound_lobby l' \<and> players_of l' =
        (if lb_isRunning l then fold plays_after (cq_queue (lb_actionQueue l)) (players_of l) else players_of l)
    | Inl f \<Rightarrow> f \<in> {Dangling_reference, Never_returns}"
  using sound_round[of True, OF _ assms(2), of env n] assms(1) by (auto simp: tick_faults_def split: sum.splits)

definition sample_running :: "unit lobby" where
  "sample_running = sample_lobby\<lparr>lb_isRunning := True, lb_actionQueue :=
     \<lparr>cq_queue = [Act_join 7, Act_start, Act_user_input 7 \<lparr>input_mask = 16\<rparr>, Act_join 8, Act_leave 7]\<rparr>\<rparr>"

definition sample_env :: "unit lobby_env" where
  "sample_env = \<lparr>le_cos = (\<lambda>x. x), le_rng = \<lparr>rg_int = (\<lambda>lo hi g. (lo, g)), rg_real = (\<lambda>lo hi g. (lo, g))\<rparr>\<rparr>"

theorem round_keeps_invariant_witness:
  "case lobby_round sample_env 2 sample_running of
      Inr l' \<Rightarrow> sound_lobby l' \<and> players_of l' = {8}
    | Inl f \<Rightarrow> f \<in> {Dangling_reference, Never_returns}"
proof -
  have "sound_lobby sample_running" using sample_lobby_sound by (simp add: sample_running_def sound_lobby_def)
  moreover have "players_of sample_running = {}" using sample_lobby_players(1) by (simp add: sample_running_def players_of_def)
  moreover have "cq_queue (lb_actionQueue sample_running) =
      [Act_join 7, Act_start, Act_user_input 7 \<lparr>input_mask = 16\<rparr>, Act_join 8, Act_leave 7]" "lb_isRunning sample_running"
    by (simp_all add: sample_running_def)
  moreover have "{8, 7} - {7} = {8 :: nat}" by auto
  ultimately show ?thesis
    using round_keeps_invariant[of sample_running sample_env 2] by (auto split: sum.splits)
qed


theorem picking_waves_ends_within_budget_witness:
  "\<exists>ws c' g'. getPickedWaves (le_rng sample_env) sample_pool (f32_of_int 10) () [] = Some (ws, c', g') \<and>
    f32_scaled c' = 10 * 2 ^ 149 - total_cost sample_pool ws * 2 ^ 149"
proof -
  have "costs_ok sample_pool" by (simp add: costs_ok_def sample_pool_def)
  moreover have "credits_ok (f32_of_int 10)" using of_int_exact[of 10] by (simp add: credits_ok_def)
  ultimately show ?thesis
    using picking_waves_ends_within_budget[of sample_pool "f32_of_int 10" "le_rng sample_env" "()" "[]"] of_int_exact(2)[of 10]
    by auto
qed

end
