(* ===== verification/Manager.thy ===== *)
theory Manager
  imports LobbyTasks
begin

text \<open>
  The class \<open>lobby::Manager\<close> (\<^verbatim>\<open>Server/src/lobby/lobby_manager.hpp\<close>,
  \<^verbatim>\<open>Server/src/lobby/lobby_manager.cpp\<close>).  A pointer to a lobby is the identifier of the lobby:
  identifiers are not reused, so it dangles when no lobby has it any more.  The map from
  identifiers to lobbies is unordered in the code; its order here, by identifier, is one of the
  possible ones.  The queue of outgoing messages belongs to the manager; a lobby has it while one
  of its operations runs.
\<close>

section \<open>State\<close>

datatype manager_fault = No_such_key | Dead_lobby | Config_error json_fault | Lobby_fault lobby_fault

record 'g manager =
  lm_outGoing :: "send_interface concurrent_queue"
  lm_lobbies :: "(u16, 'g lobby) omap"
  lm_playerLookup :: "(nat, u16) omap"
  lm_nbLobbies :: u16

text \<open>What \<open>start(_config)\<close> reads: the JSON library and the contents of the file, if it opens; and
  the director that a new lobby has.\<close>

record ('g, 'j) lobby_setup =
  su_json :: "'j json_api"
  su_file :: "string option"
  su_director :: "'g director"

definition new_manager :: "'g manager" where
  "new_manager = \<lparr>lm_outGoing = cq_new, lm_lobbies = [], lm_playerLookup = [], lm_nbLobbies = 0\<rparr>"

definition with_queue :: "'g manager \<Rightarrow> 'g lobby \<Rightarrow> 'g lobby" where
  "with_queue m l = l\<lparr>lb_outGoing := lm_outGoing m\<rparr>"

definition put_lobby :: "u16 \<Rightarrow> 'g lobby \<Rightarrow> 'g manager \<Rightarrow> 'g manager" where
  "put_lobby i l m = m\<lparr>lm_lobbies := om_put i l (lm_lobbies m), lm_outGoing := lb_outGoing l\<rparr>"

section \<open>Operations\<close>

definition createLobby :: "('g, 'j) lobby_setup \<Rightarrow> 'g manager \<Rightarrow> manager_fault + u16 \<times> 'g manager" where
  "createLobby su m =
     (let nbLobbies = lm_nbLobbies m in
      if nbLobbies > 255 then Inr (nbLobbies, m)
      else
        let m1 = (if om_has (lm_lobbies m) nbLobbies then m
                  else put_lobby nbLobbies (new_lobby nbLobbies (lm_outGoing m) (su_director su)) m)
        in case map_of (lm_lobbies m1) nbLobbies of
             None \<Rightarrow> Inl No_such_key
           | Some l \<Rightarrow>
               (case lobby_start (su_json su) (su_file su) (with_queue m1 l) of
                  (Some e, _) \<Rightarrow> Inl (Config_error e)
                | (None, l') \<Rightarrow> Inr (nbLobbies, (put_lobby nbLobbies l' m1)\<lparr>lm_nbLobbies := nbLobbies + 1\<rparr>)))"

text \<open>The loop of \<open>getLobbiesId\<close> over the keys, with its counter \<open>i\<close>.\<close>

primrec page_loop :: "u16 list \<Rightarrow> u32 \<Rightarrow> u32 \<Rightarrow> u16 list \<Rightarrow> u16 list" where
  "page_loop [] offset i roomIds = roomIds"
| "page_loop (k # ks) offset i roomIds =
     (if i < offset then page_loop ks offset (i + 1) roomIds
      else
        let roomIds' = roomIds @ [k] in
        if length roomIds' = 20 then roomIds' else page_loop ks offset i roomIds')"

definition getLobbiesId :: "u32 \<Rightarrow> 'g manager \<Rightarrow> u16 list" where
  "getLobbiesId page m = page_loop (map fst (lm_lobbies m)) (page * 20) 0 []"

definition getLobbiesMaxPage :: "'g manager \<Rightarrow> u32" where
  "getLobbiesMaxPage m = word_of_nat (length (lm_lobbies m) div 20 + 1)"

text \<open>\<open>for (i = size - 1; i > 0; --i)\<close>; the size of an empty map minus one is the largest
  \<open>size_t\<close>.  The key is narrowed to 16 bits.\<close>

fun update_loop :: "nat \<Rightarrow> 'g manager \<Rightarrow> manager_fault + 'g manager" where
  "update_loop i m =
     (if i = 0 then Inr m
      else case map_of (lm_lobbies m) (word_of_nat i) of
        None \<Rightarrow> Inl No_such_key
      | Some l \<Rightarrow>
          update_loop (i - 1)
            (if \<not> lb_isRunning l
             then m\<lparr>lm_lobbies := om_del (word_of_nat i) (om_put (word_of_nat i) (lobby_stop l) (lm_lobbies m))\<rparr>
             else m))"

declare update_loop.simps [simp del]

definition manager_update :: "'g manager \<Rightarrow> manager_fault + 'g manager" where
  "manager_update m =
     update_loop (if lm_lobbies m = [] then 2 ^ 64 - 1 else length (lm_lobbies m) - 1) m"

definition stopAll :: "'g manager \<Rightarrow> 'g manager" where
  "stopAll m = m\<lparr>lm_lobbies := map (\<lambda>(i, l). (i, lobby_stop l)) (lm_lobbies m)\<rparr>"

definition on_lobby :: "u16 \<Rightarrow> ('g lobby \<Rightarrow> 'g lobby) \<Rightarrow> 'g manager \<Rightarrow> manager_fault + 'g manager" where
  "on_lobby i f m =
     (case map_of (lm_lobbies m) i of
        None \<Rightarrow> Inl Dead_lobby
      | Some l \<Rightarrow> Inr (put_lobby i (f (with_queue m l)) m))"

definition pushActionToLobby :: "nat \<Rightarrow> lobby_action \<Rightarrow> 'g manager \<Rightarrow> manager_fault + 'g manager" where
  "pushActionToLobby sp a m =
     (case map_of (lm_playerLookup m) sp of
        None \<Rightarrow> Inr m
      | Some i \<Rightarrow> on_lobby i (pushTask a) m)"

definition join_refused :: server_variant where
  "join_refused = V_JoinAck \<lparr>ja_id = 0, ja_roomId = 0, ja_gameState = state_number GameMenu, ja_status = 0\<rparr>"

definition enter_room :: "nat \<Rightarrow> u16 \<Rightarrow> 'g manager \<Rightarrow> manager_fault + 'g manager" where
  "enter_room sp roomId m =
     (if om_has (lm_lobbies m) roomId
      then try_bind (on_lobby roomId (lobby_join sp) m)
             (\<lambda>m1. Inr (m1\<lparr>lm_playerLookup := om_put sp roomId (lm_playerLookup m1)\<rparr>))
      else Inr m)"

definition joinRoom :: "('g, 'j) lobby_setup \<Rightarrow> nat \<Rightarrow> u16 \<Rightarrow> 'g manager \<Rightarrow> manager_fault + 'g manager" where
  "joinRoom su sp roomId m =
     (if om_has (lm_playerLookup m) sp then Inr m
      else if roomId > 255
      then try_bind (createLobby su m) (\<lambda>(lobbyId, m1).
             if lobbyId \<ge> 255
             then Inr (m1\<lparr>lm_outGoing := cq_push ([sp], join_refused) (lm_outGoing m1)\<rparr>)
             else enter_room sp lobbyId m1)
      else enter_room sp roomId m)"

definition leaveRoom :: "nat \<Rightarrow> 'g manager \<Rightarrow> manager_fault + 'g manager" where
  "leaveRoom sp m =
     (case map_of (lm_playerLookup m) sp of
        None \<Rightarrow> Inr m
      | Some i \<Rightarrow>
          try_bind (on_lobby i (lobby_leave sp) m)
            (\<lambda>m1. Inr (m1\<lparr>lm_playerLookup := om_del sp (lm_playerLookup m1)\<rparr>)))"

text \<open>A round of the thread of one lobby, on the shared queue.\<close>

definition lobby_thread :: "'g lobby_env \<Rightarrow> nat \<Rightarrow> u16 \<Rightarrow> 'g manager \<Rightarrow> manager_fault + 'g manager" where
  "lobby_thread env n i m =
     (case map_of (lm_lobbies m) i of
        None \<Rightarrow> Inl Dead_lobby
      | Some l \<Rightarrow>
          (case lobby_round env n (with_queue m l) of
             Inl f \<Rightarrow> Inl (Lobby_fault f)
           | Inr l' \<Rightarrow> Inr (put_lobby i l' m)))"

section \<open>Pages\<close>

lemma page_loop_take:
  "length acc < 20 \<Longrightarrow> page_loop ks offset offset acc = acc @ take (20 - length acc) ks"
proof (induction ks arbitrary: acc)
  case (Cons k ks)
  show ?case
  proof (cases "length acc = 19")
    case False
    then obtain n where n: "20 - length acc = Suc n" "20 - length (acc @ [k]) = n" using Cons.prems by (cases "20 - length acc") auto
    have "page_loop ks offset offset (acc @ [k]) = (acc @ [k]) @ take (20 - length (acc @ [k])) ks"
      using Cons False by (intro Cons.IH) simp
    with False n show ?thesis by simp
  qed simp
qed simp

lemma page_loop_skip:
  "unat i + n = unat offset \<Longrightarrow> page_loop ks offset i [] = take 20 (drop n ks)"
proof (induction ks arbitrary: i n)
  case (Cons k ks)
  show ?case
  proof (cases n)
    case 0
    then have "i = offset" using Cons.prems by (simp add: word_unat_eq_iff)
    with 0 show ?thesis using page_loop_take[of "[]" "k # ks" offset] by simp
  next
    case (Suc n')
    then have less: "i < offset" using Cons.prems by (simp add: word_less_nat_alt)
    have "unat offset < 2 ^ LENGTH(32)" by (rule unsigned_less)
    then have "unat i + 1 < 2 ^ 32" using Cons.prems Suc by simp
    then have "unat (i + 1) = unat i + 1" by (simp add: unat_word_ariths)
    with Cons Suc less show ?thesis by simp
  qed
qed simp

lemma getLobbiesId_slice:
  assumes "20 * unat page < 2 ^ 32"
  shows "getLobbiesId page m = take 20 (drop (20 * unat page) (map fst (lm_lobbies m)))"
proof -
  have "unat (page * 20) = 20 * unat page" using assms by (simp add: unat_word_ariths)
  then show ?thesis unfolding getLobbiesId_def by (intro page_loop_skip) simp
qed

lemma chunks: "concat (map (\<lambda>i. take k (drop (k * i) xs)) [0..<n]) = take (k * n) xs"
proof (induction n)
  case (Suc n)
  have "take (k * Suc n) xs = take (k * n) xs @ take k (drop (k * n) xs)"
    by (simp add: take_add[symmetric] add.commute)
  with Suc show ?case by simp
qed simp

text \<open>C35: the pages from 0 up to the maximal one list every open lobby exactly once, at most twenty
  on a page.\<close>

theorem pages_list_all_lobbies:
  assumes "length (lm_lobbies m) \<le> 65536"
  shows "concat (map (\<lambda>p. getLobbiesId (word_of_nat p) m) [0..<unat (getLobbiesMaxPage m)]) = map fst (lm_lobbies m) \<and>
    list_all (\<lambda>p. length (getLobbiesId (word_of_nat p) m) \<le> 20) [0..<unat (getLobbiesMaxPage m)]"
proof -
  let ?ks = "map fst (lm_lobbies m)" and ?n = "length (lm_lobbies m) div 20 + 1"
  have n: "?n \<le> 3277" using assms by simp
  then have max: "unat (getLobbiesMaxPage m) = ?n"
    unfolding getLobbiesMaxPage_def unat_of_nat by simp
  have page: "getLobbiesId (word_of_nat p) m = take 20 (drop (20 * p) ?ks)" if "p \<in> set [0..<?n]" for p
  proof -
    have p: "p < 3277" using that n by auto
    then have "unat (word_of_nat p :: u32) = p" by (simp add: unat_of_nat)
    with p getLobbiesId_slice[of "word_of_nat p" m] show ?thesis by simp
  qed
  have "concat (map (\<lambda>p. getLobbiesId (word_of_nat p) m) [0..<?n]) = concat (map (\<lambda>p. take 20 (drop (20 * p) ?ks)) [0..<?n])"
    using page by (intro arg_cong[where f = concat] map_cong) auto
  also have "\<dots> = ?ks" by (subst chunks) simp
  finally show ?thesis unfolding max using page by (simp add: list_all_iff)
qed

definition sample_lobbies :: "unit manager" where
  "sample_lobbies = new_manager\<lparr>lm_lobbies := map (\<lambda>i. (i, sample_lobby)) [0, 1, 2], lm_nbLobbies := 3\<rparr>"

theorem pages_list_all_lobbies_witness:
  "concat (map (\<lambda>p. getLobbiesId (word_of_nat p) sample_lobbies) [0..<unat (getLobbiesMaxPage sample_lobbies)]) = [0, 1, 2]"
proof -
  have "map fst (lm_lobbies sample_lobbies) = [0, 1, 2]" by (simp add: sample_lobbies_def)
  moreover from this have "length (lm_lobbies sample_lobbies) = 3"
    by (metis length_map list.size(3,4) numeral_3_eq_3 One_nat_def add_Suc_right add_0_right)
  ultimately show ?thesis using pages_list_all_lobbies[of sample_lobbies] by simp
qed


section \<open>The periodic update\<close>

lemma del_put [simp]: "om_del k (om_put k x m) = om_del k m"
  by (induction m) (auto simp: om_del_def)

definition closed_upto :: "nat \<Rightarrow> u16 \<times> 'g lobby \<Rightarrow> bool" where
  "closed_upto i e \<longleftrightarrow> 1 \<le> unat (fst e) \<and> unat (fst e) \<le> i \<and> \<not> lb_isRunning (snd e)"

lemma unat_small: "k < 65536 \<Longrightarrow> unat (word_of_nat k :: u16) = k"
  by (simp add: unat_of_nat)

lemma update_loop_spec:
  assumes "i < 65536" and "om_wf (lm_lobbies m)"
  shows "update_loop i m =
    (if list_all (\<lambda>k. om_has (lm_lobbies m) (word_of_nat k)) [1..<Suc i]
     then Inr (m\<lparr>lm_lobbies := filter (\<lambda>e. \<not> closed_upto i e) (lm_lobbies m)\<rparr>) else Inl No_such_key)"
  using assms
proof (induction i arbitrary: m)
  case 0
  have "\<not> closed_upto 0 e" for e :: "u16 \<times> 'a lobby" by (simp add: closed_upto_def)
  then show ?case by (simp add: update_loop.simps)
next
  case (Suc i)
  let ?k = "word_of_nat (Suc i) :: u16"
  show ?case
  proof (cases "map_of (lm_lobbies m) ?k")
    case None
    then have "\<not> om_has (lm_lobbies m) ?k" by (simp add: om_has_def)
    with None show ?thesis by (simp add: update_loop.simps[of "Suc i"] del: of_nat_Suc)
  next
    case (Some l)
    define m1 where "m1 = (if \<not> lb_isRunning l
       then m\<lparr>lm_lobbies := om_del ?k (om_put ?k (lobby_stop l) (lm_lobbies m))\<rparr> else m)"
    have step: "update_loop (Suc i) m = update_loop i m1"
      using Some by (simp add: update_loop.simps[of "Suc i"] m1_def del: of_nat_Suc del_put)
    have wf1: "om_wf (lm_lobbies m1)" using Suc.prems(2) by (simp add: m1_def)
    have k: "unat ?k = Suc i" using unat_small[OF Suc.prems(1)] .
    have other: "om_has (lm_lobbies m1) (word_of_nat j) = om_has (lm_lobbies m) (word_of_nat j)" if "j \<le> i" for j
    proof -
      have "(word_of_nat j :: u16) \<noteq> ?k"
      proof
        assume "(word_of_nat j :: u16) = ?k"
        then have "unat (word_of_nat j :: u16) = Suc i" using k by simp
        with that Suc.prems(1) unat_small[of j] show False by simp
      qed
      then show ?thesis by (simp add: m1_def del: of_nat_Suc)
    qed
    have has: "list_all (\<lambda>k. om_has (lm_lobbies m1) (word_of_nat k)) [1..<Suc i] \<longleftrightarrow>
        list_all (\<lambda>k. om_has (lm_lobbies m) (word_of_nat k)) [1..<Suc (Suc i)]"
      using Some other by (auto simp: list_all_iff om_has_def[of _ ?k] less_Suc_eq simp del: of_nat_Suc)
    have only: "x = l" if "(?k, x) \<in> set (lm_lobbies m)" for x
      using map_of_is_SomeI[OF om_wf_distinct[OF Suc.prems(2)] that] Some by simp
    have key: "a = ?k \<longleftrightarrow> unat a = Suc i" for a :: u16
      using k by (metis word_unat_eq_iff)
    have "filter (\<lambda>e. \<not> closed_upto i e) (lm_lobbies m1) = filter (\<lambda>e. \<not> closed_upto (Suc i) e) (lm_lobbies m)"
    proof (cases "lb_isRunning l")
      case True
      then show ?thesis
        using only by (auto simp: m1_def closed_upto_def le_Suc_eq simp flip: key intro!: filter_cong)
    next
      case False
      have "filter (\<lambda>e. \<not> closed_upto i e) (lm_lobbies m1) =
          filter (\<lambda>e. fst e \<noteq> ?k \<and> \<not> closed_upto i e) (lm_lobbies m)"
      proof -
        have "lm_lobbies m1 = om_del ?k (lm_lobbies m)" using False by (simp add: m1_def del: of_nat_Suc)
        then show ?thesis by (simp add: om_del_def conj_commute del: of_nat_Suc)
      qed
      also have "\<dots> = filter (\<lambda>e. \<not> closed_upto (Suc i) e) (lm_lobbies m)"
        using only False k by (auto simp: closed_upto_def le_Suc_eq simp flip: key simp del: of_nat_Suc intro!: filter_cong)
      finally show ?thesis .
    qed
    moreover have "m1\<lparr>lm_lobbies := x\<rparr> = m\<lparr>lm_lobbies := x\<rparr>" for x by (simp add: m1_def)
    ultimately show ?thesis
      using Suc.IH[OF _ wf1] Suc.prems(1) has step by simp
  qed
qed

text \<open>C33: the periodic update of the lobbies is right only while their identifiers have no gap: it then
  drops exactly the lobbies that have stopped, the first one excepted; with a gap it runs into a
  missing key.\<close>

theorem update_needs_consecutive_ids:
  assumes "om_wf (lm_lobbies m)" and "lm_lobbies m \<noteq> []" and "length (lm_lobbies m) \<le> 65536"
  shows "manager_update m =
    (if list_all (\<lambda>k. om_has (lm_lobbies m) (word_of_nat k)) [1..<length (lm_lobbies m)]
     then Inr (m\<lparr>lm_lobbies := filter (\<lambda>e. \<not> closed_upto (length (lm_lobbies m) - 1) e) (lm_lobbies m)\<rparr>)
     else Inl No_such_key)"
proof -
  have "Suc (length (lm_lobbies m) - 1) = length (lm_lobbies m)" using assms(2) by simp
  moreover have "length (lm_lobbies m) - 1 < 65536" using assms(2,3) by (cases "lm_lobbies m") auto
  ultimately show ?thesis
    using update_loop_spec[OF _ assms(1), of "length (lm_lobbies m) - 1"] assms(2) by (simp add: manager_update_def)
qed

text \<open>When lobby 1 of three has stopped, an update drops it, and the next one fails.\<close>

definition sample_gap :: "unit manager" where
  "sample_gap = new_manager\<lparr>lm_lobbies := [(0, sample_lobby\<lparr>lb_isRunning := True\<rparr>), (1, sample_lobby),
     (2, sample_lobby\<lparr>lb_isRunning := True\<rparr>)], lm_nbLobbies := 3\<rparr>"

theorem update_needs_consecutive_ids_witness:
  "\<exists>m. manager_update sample_gap = Inr m \<and> map fst (lm_lobbies m) = [0, 2] \<and> manager_update m = Inl No_such_key"
proof -
  let ?run = "sample_lobby\<lparr>lb_isRunning := True\<rparr>"
  define m where "m = sample_gap\<lparr>lm_lobbies := [(0, ?run), (2, ?run)]\<rparr>"
  have "manager_update sample_gap = Inr m"
    using update_needs_consecutive_ids[of sample_gap] sample_lobby_players(3)
    by (simp add: sample_gap_def m_def om_wf_def om_has_def closed_upto_def upt_rec)
  moreover have "manager_update m = Inl No_such_key"
    using update_needs_consecutive_ids[of m] by (simp add: m_def om_wf_def om_has_def upt_rec)
  ultimately show ?thesis by (simp add: m_def)
qed

end
