(* ===== verification/ManagerLife.thy ===== *)
theory ManagerLife
  imports Manager
begin

text \<open>
  The lobby manager under any interleaving of its own operations, as the threads of the server
  call them, and of the rounds of the threads of the lobbies: what it keeps, why the threads of
  the lobbies do not meet the input of a stranger, and how a session can be left with a lobby
  that is gone.
\<close>

section \<open>The invariant\<close>

text \<open>The sessions that play when all the queued tasks have run.\<close>

definition plays_in :: "'g lobby \<Rightarrow> nat set" where
  "plays_in l = fold plays_after (cq_queue (lb_actionQueue l)) (players_of l)"

definition tasks_ok :: "'g lobby \<Rightarrow> bool" where
  "tasks_ok l \<longleftrightarrow> from_players (players_of l) (cq_queue (lb_actionQueue l))"

text \<open>The invariant under the condition \<open>b\<close> that the file of the waves is well formed.\<close>

definition lobby_fine :: "bool \<Rightarrow> (nat, u16) omap \<Rightarrow> u16 \<Rightarrow> 'g lobby \<Rightarrow> bool" where
  "lobby_fine b lookup i l \<longleftrightarrow> sound_under b l \<and> tasks_ok l \<and> plays_in l = {sp. map_of lookup sp = Some i}"

definition manager_ok :: "bool \<Rightarrow> 'g manager \<Rightarrow> bool" where
  "manager_ok b m \<longleftrightarrow> unat (lm_nbLobbies m) \<le> 256 \<and> om_wf (lm_lobbies m) \<and>
     (\<forall>i l. map_of (lm_lobbies m) i = Some l \<longrightarrow> i < lm_nbLobbies m \<and> lobby_fine b (lm_playerLookup m) i l) \<and>
     (\<forall>sp i. map_of (lm_playerLookup m) sp = Some i \<longrightarrow> i < lm_nbLobbies m)"

lemma manager_okD:
  assumes "manager_ok b m"
  shows "unat (lm_nbLobbies m) \<le> 256" and "om_wf (lm_lobbies m)"
    and "map_of (lm_lobbies m) i = Some l \<Longrightarrow> i < lm_nbLobbies m"
    and "map_of (lm_lobbies m) i = Some l \<Longrightarrow> lobby_fine b (lm_playerLookup m) i l"
    and "map_of (lm_playerLookup m) sp = Some i \<Longrightarrow> i < lm_nbLobbies m"
  using assms by (auto simp: manager_ok_def)

lemma from_players_snoc:
  "from_players S (as @ [a]) \<longleftrightarrow> from_players S as \<and> from_player (fold plays_after as S) a"
  by (induction as arbitrary: S) simp_all

lemma with_queue_simps [simp]:
  "lb_players (with_queue m l) = lb_players l" "lb_actionQueue (with_queue m l) = lb_actionQueue l"
  "lb_isRunning (with_queue m l) = lb_isRunning l" "lb_levelDirector (with_queue m l) = lb_levelDirector l"
  "lobby_store (with_queue m l) = lobby_store l" "players_of (with_queue m l) = players_of l"
  "lobby_ok (with_queue m l) = lobby_ok l" "sound_under b (with_queue m l) = sound_under b l"
  "tasks_ok (with_queue m l) = tasks_ok l" "plays_in (with_queue m l) = plays_in l"
  by (simp_all add: with_queue_def players_of_def lobby_ok_def sound_under_def tasks_ok_def plays_in_def)

lemma put_lobby_simps [simp]:
  "lm_lobbies (put_lobby i l m) = om_put i l (lm_lobbies m)" "lm_playerLookup (put_lobby i l m) = lm_playerLookup m"
  "lm_nbLobbies (put_lobby i l m) = lm_nbLobbies m"
  by (simp_all add: put_lobby_def)

text \<open>A task at the end of the queue.\<close>

lemma pushTask_spec:
  "sound_under b (pushTask a l) = sound_under b l" "players_of (pushTask a l) = players_of l"
  "plays_in (pushTask a l) = plays_after a (plays_in l)"
  "tasks_ok (pushTask a l) \<longleftrightarrow> tasks_ok l \<and> from_player (plays_in l) a"
  by (simp_all add: pushTask_def sound_under_def lobby_ok_def players_of_def plays_in_def tasks_ok_def cq_push_def
      from_players_snoc)

section \<open>Every operation keeps it\<close>

text \<open>One lobby and the entry of one session change.\<close>

lemma manager_ok_put:
  assumes "manager_ok b m" and "i < lm_nbLobbies m" and "lobby_fine b lookup i l"
    and "\<And>j l'. j \<noteq> i \<Longrightarrow> map_of (lm_lobbies m) j = Some l' \<Longrightarrow> lobby_fine b lookup j l'"
    and "\<And>sp j. map_of lookup sp = Some j \<Longrightarrow> j < lm_nbLobbies m"
  shows "manager_ok b ((put_lobby i l m)\<lparr>lm_playerLookup := lookup\<rparr>)"
  using assms by (auto simp: manager_ok_def split: if_splits)

lemma manager_ok_put_same:
  assumes "manager_ok b m" and "map_of (lm_lobbies m) i = Some l0" and "sound_under b l" and "tasks_ok l"
    and "plays_in l = plays_in l0"
  shows "manager_ok b (put_lobby i l m)"
  using assms manager_okD[OF assms(1)] by (auto simp: manager_ok_def lobby_fine_def split: if_splits)

text \<open>The file of the waves is well formed, as far as the program relies on it: every wave has a group, and
  every group is of enemies with the name of a known pattern (\<open>pool_ok\<close>).  Nothing in the program checks it.\<close>

definition director_loads :: "('g, 'j) lobby_setup \<Rightarrow> bool" where
  "director_loads su \<longleftrightarrow>
     (case director_load (su_json su) (su_file su) (su_director su) of (None, d) \<Rightarrow> director_ok d | (Some e, d) \<Rightarrow> True)"

lemma started_lobby:
  assumes "b \<longrightarrow> director_loads su" and "lobby_start (su_json su) (su_file su) (new_lobby i q (su_director su)) = (None, l)"
  shows "sound_under b l" and "players_of l = {}" and "lb_actionQueue l = cq_new"
proof -
  obtain d where d: "b \<longrightarrow> director_ok d" "l = on_engine (setGameState (state_number GameWaiting))
      ((new_lobby i q (su_director su))\<lparr>lb_levelDirector := d, lb_isRunning := True\<rparr>)"
    using assms by (auto simp: lobby_start_def director_loads_def new_lobby_def split: prod.splits option.splits)
  have "lobby_ok (new_lobby i q (su_director su))" by (rule ok_new)
  then have "lobby_ok l" by (simp add: d(2) lobby_ok_def)
  with d show "sound_under b l" by (simp add: sound_under_def)
  show "players_of l = {}" "lb_actionQueue l = cq_new"
    by (simp_all add: d(2) players_of_def new_lobby_def) (simp add: on_engine_def)
qed

lemma ok_create:
  assumes "manager_ok b m" and "b \<longrightarrow> director_loads su" and "createLobby su m = Inr (i, m')"
  shows "manager_ok b m'" and "lm_playerLookup m' = lm_playerLookup m"
proof -
  let ?n = "lm_nbLobbies m"
  show "lm_playerLookup m' = lm_playerLookup m"
    using assms(3) by (auto simp: createLobby_def Let_def split: if_splits option.splits prod.splits)
  show "manager_ok b m'"
  proof (cases "?n > 255")
    case True
    with assms(1,3) show ?thesis by (simp add: createLobby_def)
  next
    case False
    then have n: "unat ?n \<le> 255" by (simp add: word_le_nat_alt not_less)
    have fresh: "map_of (lm_lobbies m) ?n = None"
      using manager_okD(3)[OF assms(1), of ?n] by (cases "map_of (lm_lobbies m) ?n") auto
    define l0 where "l0 = new_lobby ?n (lm_outGoing m) (su_director su)"
    have "with_queue (put_lobby ?n l0 m) l0 = l0" by (simp add: with_queue_def put_lobby_def)
    then obtain l where l: "lobby_start (su_json su) (su_file su) l0 = (None, l)"
        "m' = (put_lobby ?n l (put_lobby ?n l0 m))\<lparr>lm_nbLobbies := ?n + 1\<rparr>"
      using assms(3) False fresh by (auto simp: createLobby_def Let_def om_has_def l0_def split: prod.splits option.splits)
    note start = started_lobby[OF assms(2) l(1)[unfolded l0_def]]
    have nb: "unat (?n + 1) = unat ?n + 1" using n by (simp add: unat_word_ariths)
    then have less: "j < ?n + 1 \<longleftrightarrow> j < ?n \<or> j = ?n" for j
      by (auto simp: word_less_nat_alt word_unat_eq_iff)
    have "lobby_fine b (lm_playerLookup m) ?n l"
      using start manager_okD(5)[OF assms(1), of _ ?n]
      by (auto simp: lobby_fine_def tasks_ok_def plays_in_def cq_new_def)
    then show ?thesis
      using manager_okD[OF assms(1)] n nb by (auto simp: manager_ok_def l(2) less split: if_splits)
  qed
qed

lemma ok_push:
  assumes "manager_ok b m" and "a = Act_start \<or> (\<exists>p. a = Act_user_input sp p)" and "pushActionToLobby sp a m = Inr m'"
  shows "manager_ok b m'"
proof (cases "map_of (lm_playerLookup m) sp")
  case (Some i)
  then obtain l where l: "map_of (lm_lobbies m) i = Some l" "m' = put_lobby i (pushTask a (with_queue m l)) m"
    using assms(3) by (auto simp: pushActionToLobby_def on_lobby_def split: option.splits)
  have fine: "sound_under b l" "tasks_ok l" "sp \<in> plays_in l"
    using manager_okD(4)[OF assms(1) l(1)] Some by (auto simp: lobby_fine_def)
  have "from_player (plays_in l) a" "plays_after a (plays_in l) = plays_in l" using assms(2) fine(3) by auto
  then show ?thesis
    unfolding l(2) using fine by (intro manager_ok_put_same[OF assms(1) l(1)]) (simp_all add: pushTask_spec)
qed (use assms in \<open>simp add: pushActionToLobby_def\<close>)

lemma ok_enter:
  assumes "manager_ok b m" and "\<not> om_has (lm_playerLookup m) sp" and "enter_room sp i m = Inr m'"
  shows "manager_ok b m'"
proof (cases "om_has (lm_lobbies m) i")
  case True
  then obtain l where l: "map_of (lm_lobbies m) i = Some l" by (auto simp: om_has_def)
  have m': "m' = (put_lobby i (lobby_join sp (with_queue m l)) m)\<lparr>lm_playerLookup := om_put sp i (lm_playerLookup m)\<rparr>"
    using assms(3) True l by (simp add: enter_room_def on_lobby_def)
  show ?thesis
    unfolding m'
  proof (rule manager_ok_put[OF assms(1)])
    show "i < lm_nbLobbies m" using manager_okD(3)[OF assms(1) l] .
    show "lobby_fine b (om_put sp i (lm_playerLookup m)) i (lobby_join sp (with_queue m l))"
      using manager_okD(4)[OF assms(1) l] by (auto simp: lobby_fine_def lobby_join_def pushTask_spec)
    show "lobby_fine b (om_put sp i (lm_playerLookup m)) j l'" if "j \<noteq> i" "map_of (lm_lobbies m) j = Some l'" for j l'
      using manager_okD(4)[OF assms(1) that(2)] that(1) assms(2) by (auto simp: lobby_fine_def om_has_def)
    show "j < lm_nbLobbies m" if "map_of (om_put sp i (lm_playerLookup m)) sp' = Some j" for sp' j
      using that manager_okD(3)[OF assms(1) l] manager_okD(5)[OF assms(1)] by (auto split: if_splits)
  qed
qed (use assms in \<open>simp add: enter_room_def\<close>)

lemma ok_join_room:
  assumes "manager_ok b m" and "b \<longrightarrow> director_loads su" and "joinRoom su sp i m = Inr m'"
  shows "manager_ok b m'"
proof -
  have sent: "manager_ok b (m\<lparr>lm_outGoing := q\<rparr>) = manager_ok b m" for q and m :: "'a manager" by (simp add: manager_ok_def)
  have "manager_ok b m'" if "createLobby su m = Inr (k, m1)" "\<not> om_has (lm_playerLookup m) sp"
    "enter_room sp k m1 = Inr m'" for k m1
    using ok_enter[OF ok_create(1)[OF assms(1,2) that(1)] _ that(3)] that(2) ok_create(2)[OF assms(1,2) that(1)] by simp
  with assms(3) show ?thesis
    using ok_enter[OF assms(1)] ok_create(1)[OF assms(1,2)] assms(1)
    by (auto simp: joinRoom_def try_bind_Inr_iff sent split: if_splits)
qed

lemma ok_leave_room:
  assumes "manager_ok b m" and "leaveRoom sp m = Inr m'"
  shows "manager_ok b m'"
proof (cases "map_of (lm_playerLookup m) sp")
  case (Some i)
  then obtain l where l: "map_of (lm_lobbies m) i = Some l"
      "m' = (put_lobby i (lobby_leave sp (with_queue m l)) m)\<lparr>lm_playerLookup := om_del sp (lm_playerLookup m)\<rparr>"
    using assms(2) by (auto simp: leaveRoom_def on_lobby_def split: option.splits)
  show ?thesis
    unfolding l(2)
  proof (rule manager_ok_put[OF assms(1)])
    show "i < lm_nbLobbies m" using manager_okD(3)[OF assms(1) l(1)] .
    show "lobby_fine b (om_del sp (lm_playerLookup m)) i (lobby_leave sp (with_queue m l))"
      using manager_okD(4)[OF assms(1) l(1)] by (auto simp: lobby_fine_def lobby_leave_def pushTask_spec)
    show "lobby_fine b (om_del sp (lm_playerLookup m)) j l'" if "j \<noteq> i" "map_of (lm_lobbies m) j = Some l'" for j l'
      using manager_okD(4)[OF assms(1) that(2)] that(1) Some by (auto simp: lobby_fine_def)
    show "j < lm_nbLobbies m" if "map_of (om_del sp (lm_playerLookup m)) sp' = Some j" for sp' j
      using that manager_okD(5)[OF assms(1)] by (auto split: if_splits)
  qed
qed (use assms in \<open>simp add: leaveRoom_def\<close>)

lemma thread_spec:
  assumes "manager_ok b m" and "map_of (lm_lobbies m) i = Some l"
  shows "case lobby_thread env n i m of
      Inr m' \<Rightarrow> manager_ok b m' \<and> (\<exists>l'. lm_lobbies m' = om_put i l' (lm_lobbies m) \<and>
        players_of l' = (if lb_isRunning l then plays_in l else players_of l))
    | Inl f \<Rightarrow> f \<in> Lobby_fault ` tick_faults b"
proof -
  let ?l = "with_queue m l"
  have fine: "sound_under b ?l" "tasks_ok ?l" using manager_okD(4)[OF assms] by (simp_all add: lobby_fine_def)
  note round = sound_round[OF fine(1) fine(2)[unfolded tasks_ok_def], of env n]
  show ?thesis
  proof (cases "lobby_round env n ?l")
    case (Inl f)
    with round assms(2) show ?thesis by (auto simp: lobby_thread_def)
  next
    case (Inr l')
    have "sound_under b l'" using round Inr by simp
    moreover have "tasks_ok l' \<and> plays_in l' = plays_in l"
      using round Inr fine(2) by (auto simp: tasks_ok_def plays_in_def cq_new_def split: if_splits)
    ultimately have "manager_ok b (put_lobby i l' m)" by (intro manager_ok_put_same[OF assms]) simp_all
    moreover have "players_of l' = (if lb_isRunning l then plays_in l else players_of l)"
      using round Inr by (auto simp: plays_in_def split: if_splits)
    ultimately show ?thesis using Inr assms(2) by (auto simp: lobby_thread_def)
  qed
qed

lemma ok_update:
  assumes "manager_ok b m" and "manager_update m = Inr m'"
  shows "manager_ok b m'"
proof -
  have erase: "manager_ok b (m\<lparr>lm_lobbies := om_del k (om_put k (lobby_stop l) (lm_lobbies m))\<rparr>)" if "manager_ok b m" for k l and m :: "'a manager"
    using that by (auto simp: manager_ok_def split: if_splits)
  have "update_loop n m = Inr m' \<Longrightarrow> manager_ok b m \<Longrightarrow> manager_ok b m'" for n and m :: "'a manager"
  proof (induction n m rule: update_loop.induct)
    case (1 i m)
    then show ?case
      using erase by (subst (asm) (2) update_loop.simps) (auto split: if_splits option.splits)
  qed
  with assms show ?thesis by (auto simp: manager_update_def)
qed

lemma stopped_lobby: "map_of (map (\<lambda>(i, l). (i, lobby_stop l)) ls) i = map_option lobby_stop (map_of ls i)"
  by (induction ls) auto

lemma ok_stopAll: "manager_ok b m \<Longrightarrow> manager_ok b (stopAll m)"
proof -
  have stop: "lobby_fine b lk i (lobby_stop l) = lobby_fine b lk i l" for lk i and l :: "'a lobby"
    by (simp add: lobby_stop_def lobby_fine_def sound_under_def lobby_ok_def tasks_ok_def plays_in_def players_of_def)
  have keys: "om_wf (map (\<lambda>(i, l). (i, lobby_stop l)) ls) = om_wf ls" for ls :: "(u16 \<times> 'a lobby) list"
    by (simp add: om_wf_def comp_def case_prod_beta)
  show "manager_ok b m \<Longrightarrow> manager_ok b (stopAll m)"
    by (auto simp: manager_ok_def stopAll_def stopped_lobby stop keys)
qed

section \<open>The server, as the manager sees it\<close>

text \<open>The states that the manager reaches when the callbacks of the server, its main loop and the
  threads of the lobbies take turns.  The tasks that the server pushes are inputs and starts; the
  main loop empties the queue of outgoing messages at any time.\<close>

inductive managed :: "('g, 'j) lobby_setup \<Rightarrow> 'g lobby_env \<Rightarrow> 'g manager \<Rightarrow> bool"
  for su :: "('g, 'j) lobby_setup" and env :: "'g lobby_env" where
  started: "managed su env new_manager"
| created: "managed su env m \<Longrightarrow> createLobby su m = Inr (i, m') \<Longrightarrow> managed su env m'"
| joined: "managed su env m \<Longrightarrow> joinRoom su sp i m = Inr m' \<Longrightarrow> managed su env m'"
| left: "managed su env m \<Longrightarrow> leaveRoom sp m = Inr m' \<Longrightarrow> managed su env m'"
| steered: "managed su env m \<Longrightarrow> pushActionToLobby sp (Act_user_input sp p) m = Inr m' \<Longrightarrow> managed su env m'"
| game_started: "managed su env m \<Longrightarrow> pushActionToLobby sp Act_start m = Inr m' \<Longrightarrow> managed su env m'"
| ran: "managed su env m \<Longrightarrow> lobby_thread env n i m = Inr m' \<Longrightarrow> managed su env m'"
| updated: "managed su env m \<Longrightarrow> manager_update m = Inr m' \<Longrightarrow> managed su env m'"
| sent: "managed su env m \<Longrightarrow> managed su env (m\<lparr>lm_outGoing := q\<rparr>)"
| stopped: "managed su env m \<Longrightarrow> managed su env (stopAll m)"

lemma managed_ok: "managed su env m \<Longrightarrow> manager_ok (director_loads su) m"
proof (induction rule: managed.induct)
  case started
  then show ?case by (simp add: manager_ok_def new_manager_def)
next
  case (ran m n i m')
  then obtain l where l: "map_of (lm_lobbies m) i = Some l"
    by (auto simp: lobby_thread_def split: option.splits)
  from thread_spec[OF ran.IH l, of env n] ran.hyps show ?case by simp
next
  case (sent m q)
  then show ?case by (simp add: manager_ok_def)
qed (blast intro: ok_create ok_join_room ok_leave_room ok_push ok_update ok_stopAll)+

text \<open>C7: however the callbacks, the main loop and the threads of the lobbies interleave, no thread of
  a lobby meets the input of a session that does not play there.  Whatever the file of the waves holds, a
  round of a thread reads no empty optional, and leaves as players the sessions that its tasks leave; it
  fails by a missing key or an element beyond the end of a vector only if the file has a wave without a
  group or a group that is not of enemies with a known pattern.  What is left are the dangling reference
  of the removal of the dead and the loop of the director, which need not end.\<close>

theorem lobby_threads_are_safe:
  assumes "managed su env m" and "map_of (lm_lobbies m) i = Some l"
  shows "case lobby_thread env n i m of
      Inr m' \<Rightarrow> \<exists>l'. lm_lobbies m' = om_put i l' (lm_lobbies m) \<and>
        players_of l' = (if lb_isRunning l then plays_in l else players_of l)
    | Inl f \<Rightarrow> f \<in> {Lobby_fault Dangling_reference, Lobby_fault Never_returns} \<or>
        \<not> director_loads su \<and> f \<in> {Lobby_fault Missing_key, Lobby_fault Out_of_bounds}"
  using thread_spec[OF managed_ok[OF assms(1)] assms(2), of env n] by (auto simp: tick_faults_def split: sum.splits)

text \<open>C31: once their queued tasks have run, a session plays in the lobby that the manager looks it up
  in, and in no other; there are at most 256 lobbies, and a number is never used twice.\<close>

theorem sessions_play_in_one_lobby:
  assumes "managed su env m"
  shows "(\<forall>i l. map_of (lm_lobbies m) i = Some l \<longrightarrow> i < lm_nbLobbies m \<and> i \<le> 255 \<and>
      plays_in l = {sp. map_of (lm_playerLookup m) sp = Some i}) \<and>
    length (lm_lobbies m) \<le> 256"
proof -
  note ok = manager_okD[OF managed_ok[OF assms]]
  have small: "unat i < 256" if "map_of (lm_lobbies m) i = Some l" for i l
    using ok(1) ok(3)[OF that] by (simp add: word_less_nat_alt)
  have "unat ` set (map fst (lm_lobbies m)) \<subseteq> {..<256}"
  proof
    fix n assume "n \<in> unat ` set (map fst (lm_lobbies m))"
    then obtain i l where "n = unat i" "map_of (lm_lobbies m) i = Some l"
      using om_wf_distinct[OF ok(2)] by fastforce
    with small show "n \<in> {..<256}" by simp
  qed
  then have "card (unat ` set (map fst (lm_lobbies m))) \<le> 256" using card_mono[of "{..<256::nat}"] by fastforce
  moreover have "card (unat ` set (map fst (lm_lobbies m))) = card (set (map fst (lm_lobbies m)))"
    by (rule card_image) (auto intro: inj_onI simp: word_unat_eq_iff)
  moreover have "card (set (map fst (lm_lobbies m))) = length (lm_lobbies m)"
    using distinct_card[OF om_wf_distinct[OF ok(2)]] by simp
  ultimately have "length (lm_lobbies m) \<le> 256" by simp
  moreover have "i < lm_nbLobbies m \<and> i \<le> 255 \<and> plays_in l = {sp. map_of (lm_playerLookup m) sp = Some i}"
    if "map_of (lm_lobbies m) i = Some l" for i l
    using ok(3,4)[OF that] small[OF that] by (simp add: lobby_fine_def word_le_nat_alt)
  ultimately show ?thesis by blast
qed

section \<open>A lobby that is gone\<close>

text \<open>C34: a session that joins a lobby (not the first one) after its last player has left, but before
  the next update, is left with a pointer to a destroyed lobby: the update drops the lobby, and
  the next input of the session, and its departure too, go to the freed object.\<close>

theorem join_of_stopping_lobby_dangles:
  assumes "om_wf (lm_lobbies m)" and "length (lm_lobbies m) \<le> 256"
    and "list_all (\<lambda>k. om_has (lm_lobbies m) (word_of_nat k)) [1..<length (lm_lobbies m)]"
    and "map_of (lm_lobbies m) i = Some l" and "\<not> lb_isRunning l" and "0 < i" and "unat i < length (lm_lobbies m)"
    and "\<not> om_has (lm_playerLookup m) sp"
  shows "\<exists>m1 m2. joinRoom su sp i m = Inr m1 \<and> manager_update m1 = Inr m2 \<and>
    pushActionToLobby sp a m2 = Inl Dead_lobby \<and> leaveRoom sp m2 = Inl Dead_lobby"
proof -
  let ?l = "lobby_join sp (with_queue m l)" and ?n = "length (lm_lobbies m) - 1"
  define m1 where "m1 = (put_lobby i ?l m)\<lparr>lm_playerLookup := om_put sp i (lm_playerLookup m)\<rparr>"
  have len: "length (om_put i ?l (lm_lobbies m)) = length (lm_lobbies m)"
  proof -
    have "i \<in> fst ` set (lm_lobbies m)" using map_of_SomeD[OF assms(4)] by force
    then have "set (map fst (om_put i ?l (lm_lobbies m))) = set (map fst (lm_lobbies m))" by auto
    then show ?thesis
      using distinct_card[OF om_wf_distinct[OF assms(1)]] distinct_card[OF om_wf_distinct[OF om_wf_put[OF assms(1)], of i ?l]]
      by simp
  qed
  have "unat i \<le> 255" using assms(2,7) by simp
  then have "\<not> i > 255" by (simp add: word_less_nat_alt)
  then have join: "joinRoom su sp i m = Inr m1"
    using assms(4,8) by (simp add: joinRoom_def enter_room_def on_lobby_def om_has_def m1_def)
  define m2 where "m2 = m1\<lparr>lm_lobbies := filter (\<lambda>e. \<not> closed_upto ?n e) (lm_lobbies m1)\<rparr>"
  have ne: "lm_lobbies m \<noteq> []" using assms(4) by auto
  then have n: "?n < 65536" "Suc ?n = length (lm_lobbies m)" using assms(2) by auto
  have has: "list_all (\<lambda>k. om_has (lm_lobbies m1) (word_of_nat k)) [1..<Suc ?n]"
    using assms(3) n(2) unfolding m1_def list_all_iff by (auto simp: om_has_def)
  have wf1: "om_wf (lm_lobbies m1)" using assms(1) by (simp add: m1_def)
  have "lm_lobbies m1 \<noteq> []" "length (lm_lobbies m1) = length (lm_lobbies m)" using len ne by (auto simp: m1_def)
  then have upd: "manager_update m1 = Inr m2"
    using update_loop_spec[OF n(1) wf1] has by (simp add: manager_update_def m2_def)
  have "closed_upto ?n (i, x)" if "map_of (lm_lobbies m1) i = Some x" for x
    using that assms(5-7) by (auto simp: closed_upto_def m1_def lobby_join_def pushTask_def word_less_nat_alt)
  then have "map_of (lm_lobbies m2) i = None"
    using wf1 by (auto simp: m2_def map_of_eq_None_iff dest!: map_of_is_SomeI[OF om_wf_distinct])
  moreover have "map_of (lm_playerLookup m2) sp = Some i" by (simp add: m2_def m1_def)
  ultimately show ?thesis
    using join upd by (auto simp: pushActionToLobby_def leaveRoom_def on_lobby_def)
qed

section \<open>A sample server\<close>

definition sample_json :: "unit json_api" where
  "sample_json = \<lparr>js_contains = (\<lambda>k j. False), js_is_array = (\<lambda>j. False), js_index = (\<lambda>k j. Inl Out_of_range),
     js_elements = (\<lambda>j. []), js_at = (\<lambda>k j. Inl Out_of_range), js_string = (\<lambda>j. Inl Type_error),
     js_int = (\<lambda>j. Inl Type_error), js_size = (\<lambda>j. Inl Type_error), js_float = (\<lambda>j. Inl Type_error),
     js_parse = (\<lambda>text. Inr ())\<rparr>"

text \<open>The file of the waves cannot be opened; the director has its waves from before.\<close>

definition sample_setup :: "(unit, unit) lobby_setup" where
  "sample_setup = \<lparr>su_json = sample_json, su_file = None, su_director = lb_levelDirector sample_lobby\<rparr>"

text \<open>The server has created its first lobby, and session 7 has joined it.\<close>

definition sample_room :: "unit lobby" where
  "sample_room = on_engine (setGameState (state_number GameWaiting))
     ((new_lobby 0 cq_new (lb_levelDirector sample_lobby))\<lparr>lb_isRunning := True\<rparr>)"

definition sample_open :: "unit manager" where
  "sample_open = \<lparr>lm_outGoing = cq_new, lm_lobbies = [(0, sample_room)], lm_playerLookup = [], lm_nbLobbies = 1\<rparr>"

definition sample_hosted :: "unit manager" where
  "sample_hosted = \<lparr>lm_outGoing = cq_new, lm_lobbies = [(0, lobby_join 7 sample_room)],
     lm_playerLookup = [(7, 0)], lm_nbLobbies = 1\<rparr>"

lemma sample_room_queue: "sample_room\<lparr>lb_outGoing := cq_new\<rparr> = sample_room" "lb_outGoing sample_room = cq_new"
  "lb_outGoing (lobby_join 7 sample_room) = cq_new"
  by (simp_all add: sample_room_def new_lobby_def on_engine_def lobby_join_def pushTask_def)

lemma sample_loads: "director_loads sample_setup"
  using sample_lobby_sound by (simp add: director_loads_def director_load_def sample_setup_def sound_lobby_def)

lemma sample_creates: "createLobby sample_setup new_manager = Inr (0, sample_open)"
  by (simp add: createLobby_def new_manager_def put_lobby_def with_queue_def lobby_start_def sample_setup_def
      director_load_def sample_open_def sample_room_def Let_def on_engine_def new_lobby_def)

lemma sample_managed: "managed sample_setup sample_env sample_hosted"
proof -
  have "managed sample_setup sample_env sample_open" by (rule managed.created[OF managed.started sample_creates])
  moreover have "joinRoom sample_setup 7 0 sample_open = Inr sample_hosted"
    by (simp add: joinRoom_def enter_room_def on_lobby_def with_queue_def put_lobby_def sample_open_def
        sample_hosted_def sample_room_queue om_has_def)
  ultimately show ?thesis by (rule managed.joined)
qed

lemma sample_hosted_lobby: "map_of (lm_lobbies sample_hosted) 0 = Some (lobby_join 7 sample_room)"
  by (simp add: sample_hosted_def)

text \<open>A file with a wave of an unknown pattern.\<close>

definition bad_setup :: "(unit, unit) lobby_setup" where
  "bad_setup = \<lparr>su_json = sample_json, su_file = None, su_director = (new_director () 0 0 0)\<lparr>dr_wavePool :=
     [\<lparr>ar_name = ''x'', ar_difficultyCost = 1, ar_weight = 1, ar_spawnInterval = 0, ar_postWaveDelay = 0,
       ar_enemies = [\<lparr>eg_type = kEnemy, eg_patternName = ''spiral'', eg_count = 1\<rparr>]\<rparr>]\<rparr>\<rparr>"

lemma bad_waves: "\<not> director_loads bad_setup"
  by (simp add: director_loads_def director_load_def bad_setup_def new_director_def director_ok_def pool_ok_def
      group_ok_def StringToMoveSet_def)

theorem lobby_threads_are_safe_witness:
  "director_loads sample_setup \<and> (case lobby_thread sample_env 3 0 sample_hosted of
      Inr m' \<Rightarrow> \<exists>l'. lm_lobbies m' = [(0, l')] \<and> players_of l' = {7}
    | Inl f \<Rightarrow> f \<in> {Lobby_fault Dangling_reference, Lobby_fault Never_returns})"
proof -
  have "lb_isRunning (lobby_join 7 sample_room)" "plays_in (lobby_join 7 sample_room) = {7}"
    by (simp_all add: lobby_join_def pushTask_def plays_in_def cq_push_def sample_room_def new_lobby_def on_engine_def
        cq_new_def players_of_def)
  with lobby_threads_are_safe[OF sample_managed sample_hosted_lobby, of 3] sample_loads show ?thesis
    by (auto simp: sample_hosted_def split: sum.splits)
qed

theorem sessions_play_in_one_lobby_witness:
  "plays_in (lobby_join 7 sample_room) = {7} \<and> length (lm_lobbies sample_hosted) \<le> 256"
proof -
  have "{sp. map_of (lm_playerLookup sample_hosted) sp = Some 0} = {7}" by (auto simp: sample_hosted_def)
  with sessions_play_in_one_lobby[OF sample_managed] sample_hosted_lobby show ?thesis by metis
qed

definition sample_two :: "unit manager" where
  "sample_two = new_manager\<lparr>lm_lobbies := [(0, sample_room), (1, sample_lobby)], lm_nbLobbies := 2\<rparr>"

theorem join_of_stopping_lobby_dangles_witness:
  "\<exists>m1 m2. joinRoom sample_setup 9 1 sample_two = Inr m1 \<and> manager_update m1 = Inr m2 \<and>
    pushActionToLobby 9 Act_start m2 = Inl Dead_lobby \<and> leaveRoom 9 m2 = Inl Dead_lobby"
proof -
  have "om_wf (lm_lobbies sample_two)" "map_of (lm_lobbies sample_two) 1 = Some sample_lobby"
    "\<not> om_has (lm_playerLookup sample_two) 9" "length (lm_lobbies sample_two) \<le> 256"
    "unat (1 :: u16) < length (lm_lobbies sample_two)"
    "list_all (\<lambda>k. om_has (lm_lobbies sample_two) (word_of_nat k)) [1..<length (lm_lobbies sample_two)]"
    by (simp_all add: sample_two_def om_wf_def new_manager_def om_has_def upt_rec)
  from join_of_stopping_lobby_dangles[OF this(1,4,6,2) sample_lobby_players(3)[simplified] _ this(5,3)]
  show ?thesis by simp
qed

end
