(* ===== verification/ServerApp.thy ===== *)
theory ServerApp
  imports ManagerLife Handshake
begin

text \<open>
  The class \<open>server::App\<close> (\<^verbatim>\<open>Server/src/app.hpp\<close>, \<^verbatim>\<open>Server/src/app.cpp\<close>): the application
  that puts the server of the network library and the lobby manager together.  Its world is the
  world of the server with the manager as one more member.  A fault of the manager stays there:
  what follows a fault (a use of freed memory, or a raise out of a half-finished operation) is
  not modelled.
\<close>

section \<open>State\<close>

record ('ep, 'g) app_world = "'ep server_world" +
  ap_lobbyManager :: "manager_fault + 'g manager"

type_synonym ('ep, 'g) app = "('ep, 'g) app_world server"

definition on_manager ::
    "('g manager \<Rightarrow> manager_fault + 'g manager) \<Rightarrow> ('ep, 'g) app_world \<Rightarrow> ('ep, 'g) app_world" where
  "on_manager f w = w\<lparr>ap_lobbyManager := try_bind (ap_lobbyManager w) f\<rparr>"

section \<open>What the application registers\<close>

definition onUserInput :: "(user_input_msg, ('ep, 'g) app_world) callback" where
  "onUserInput now sp u = on_manager (pushActionToLobby sp (Act_user_input sp u))"

definition onJoin :: "('g, 'j) lobby_setup \<Rightarrow> (join_msg, ('ep, 'g) app_world) callback" where
  "onJoin su now sp j = on_manager (joinRoom su sp (join_room_id j))"

definition onStart :: "(unit, ('ep, 'g) app_world) callback" where
  "onStart now sp _ = on_manager (pushActionToLobby sp Act_start)"

definition lobby_list_ack :: "u32 \<Rightarrow> 'g manager \<Rightarrow> lobby_list_ack_msg" where
  "lobby_list_ack page m =
     \<lparr>la_roomIds = getLobbiesId page m, la_page = page, la_maxPage = getLobbiesMaxPage m\<rparr>"

definition onLobbyList :: "(lobby_list_msg, ('ep, 'g) app_world) callback" where
  "onLobbyList now sp packet w =
     (case ap_lobbyManager w of
        Inl _ \<Rightarrow> w
      | Inr m \<Rightarrow>
          (case server_sendTo lobby_list_ack_traits write_lobby_list_ack now sp (lobby_list_ack (ll_page packet) m) w of
             None \<Rightarrow> w
           | Some r \<Rightarrow> keep_on_raise w r))"

definition registerCallbacks ::
    "('g, 'j) lobby_setup \<Rightarrow> ('ep, 'g) app_world dispatcher \<Rightarrow> ('ep, 'g) app_world dispatcher option" where
  "registerCallbacks su d =
     Option.bind (bind_packet user_input_traits read_user_input onUserInput d) (\<lambda>d1.
     Option.bind (bind_packet join_traits read_join (onJoin su) d1) (\<lambda>d2.
     Option.bind (bind_packet start_traits read_empty onStart d2) (\<lambda>d3.
       bind_packet lobby_list_traits read_lobby_list onLobbyList d3)))"

text \<open>The callbacks that only write to the log are the identity.\<close>

definition app_env :: "('g, 'j) lobby_setup \<Rightarrow> ('ep, 'g) app_world server_env" where
  "app_env su =
     \<lparr>se_dispatcher = the (Option.bind new_dispatcher (registerCallbacks su)),
      se_onConnect = Some (\<lambda>now sp w. w),
      se_onDisconnect = Some (\<lambda>now sp. on_manager (leaveRoom sp)),
      se_onMessage = Some (\<lambda>now sp p w. w)\<rparr>"

definition new_app :: "('g, 'j) lobby_setup \<Rightarrow> ('ep, 'g) app" where
  "new_app su = new_server
     \<lparr>nw_sessions = [], nw_globalSessionIdCounter = 0, sv_sessions = [],
      ap_lobbyManager = try_bind (createLobby su new_manager) (\<lambda>(i, m). Inr m)\<rparr>"

section \<open>The main loop\<close>

text \<open>What leaves \<open>start\<close>, which ends the program.\<close>

datatype app_fault = App_manager manager_fault | App_raise rt_error | App_session fault

definition app_sendTo ::
    "time \<Rightarrow> server_variant \<Rightarrow> nat \<Rightarrow> ('ep, 'm) net_world_scheme \<Rightarrow> rt_error + ('ep, 'm) net_world_scheme" where
  "app_sendTo now p sp w = try_bind (server_variant_packet p) (\<lambda>pkt. Inr (on_session sp (send now pkt) w))"

primrec send_each ::
    "time \<Rightarrow> server_variant \<Rightarrow> nat list \<Rightarrow> ('ep, 'm) net_world_scheme \<Rightarrow> rt_error + ('ep, 'm) net_world_scheme" where
  "send_each now p [] w = Inr w"
| "send_each now p (sp # sps) w = try_bind (app_sendTo now p sp w) (send_each now p sps)"

text \<open>\<open>while (_outGoing.pop(sendInterface))\<close>, for the elements that are in the queue.\<close>

primrec send_all ::
    "time \<Rightarrow> send_interface list \<Rightarrow> ('ep, 'm) net_world_scheme \<Rightarrow> rt_error + ('ep, 'm) net_world_scheme" where
  "send_all now [] w = Inr w"
| "send_all now (x # xs) w = try_bind (send_each now (snd x) (fst x) w) (send_all now xs)"

definition flush_outgoing :: "time \<Rightarrow> ('ep, 'g) app_world \<Rightarrow> app_fault + ('ep, 'g) app_world" where
  "flush_outgoing now w =
     (case ap_lobbyManager w of
        Inl f \<Rightarrow> Inl (App_manager f)
      | Inr m \<Rightarrow>
          raise_as App_raise (send_all now (cq_queue (lm_outGoing m))
            (w\<lparr>ap_lobbyManager := Inr (m\<lparr>lm_outGoing := cq_new\<rparr>)\<rparr>)))"

definition update_manager :: "('ep, 'g) app_world \<Rightarrow> app_fault + ('ep, 'g) app_world" where
  "update_manager w =
     raise_as App_manager (try_bind (try_bind (ap_lobbyManager w) manager_update)
       (\<lambda>m. Inr (w\<lparr>ap_lobbyManager := Inr m\<rparr>)))"

definition app_turn ::
    "('g, 'j) lobby_setup \<Rightarrow> time \<Rightarrow> int \<Rightarrow> ('ep, 'g) app \<Rightarrow> app_fault + ('ep, 'g) app" where
  "app_turn su now timeout sv =
     try_bind (flush_outgoing now (sv_world sv)) (\<lambda>w1.
     try_bind (update_manager w1) (\<lambda>w2.
       raise_as App_session (server_update (app_env su) now timeout (sv\<lparr>sv_world := w2\<rparr>))))"

definition app_stop :: "('ep, 'g) app_world \<Rightarrow> ('ep, 'g) app_world" where
  "app_stop = on_manager (\<lambda>m. Inr (stopAll m))"

section \<open>The handlers\<close>

lemma manager_frames [simp]:
  "ap_lobbyManager (on_session sp f w) = ap_lobbyManager w"
  "nw_sessions (on_manager g w) = nw_sessions w" "sv_sessions (on_manager g w) = sv_sessions w"
  "ap_lobbyManager (on_manager g w) = try_bind (ap_lobbyManager w) g"
  by (simp_all add: on_session_def on_manager_def)

lemma polite_on_manager: "polite w (on_manager f w)"
  by (simp add: polite_def)

lemma app_dispatcher:
  "map_of (se_dispatcher (app_env su)) i =
    (if i = system_id kConnect then Some (packet_handler read_empty Connect_onReceive)
     else if i = system_id kDisconnect then Some (packet_handler read_empty Disconnect_onReceive)
     else if i = t_kId user_input_traits then Some (packet_handler read_user_input onUserInput)
     else if i = t_kId join_traits then Some (packet_handler read_join (onJoin su))
     else if i = t_kId start_traits then Some (packet_handler read_empty onStart)
     else if i = t_kId lobby_list_traits then Some (packet_handler read_lobby_list onLobbyList)
     else None)"
proof -
  have "verifyUserPacketData t" if "t \<in> {user_input_traits, join_traits, start_traits, lobby_list_traits}" for t
    using that by (auto simp: verifyUserPacketData_def verifyPacketData_def getChannelId_def traits_defs
        INTERNAL_CHANNEL_ID_def DEFAULT_CHANNEL_ID_def)
  then show ?thesis
    by (simp add: app_env_def registerCallbacks_def new_dispatcher_handlers bind_packet_def map_of_registerHandler
        traits_defs)
qed

lemma app_handlers:
  assumes "map_of (se_dispatcher (app_env su)) i = Some h"
  shows "h \<in> {packet_handler read_empty Connect_onReceive, packet_handler read_empty Disconnect_onReceive,
    packet_handler read_user_input onUserInput, packet_handler read_join (onJoin su),
    packet_handler read_empty onStart, packet_handler read_lobby_list onLobbyList}"
  using assms unfolding app_dispatcher by (auto split: if_splits)

lemma LobbyList_polite: "polite w (onLobbyList now sp p w)"
  using send_polite
  by (auto simp: onLobbyList_def server_sendTo_def server_internal_sendTo_def keep_on_raise_def try_bind_def
      split: sum.splits)

lemma handler_polite:
  assumes "\<And>x w. polite w (callback now sp x w)"
  shows "polite w (snd (packet_handler rd callback now sp p w))"
  using assms by (simp add: packet_handler_def split: prod.split sum.split)

lemmas callbacks_polite = Connect_polite Disconnect_polite LobbyList_polite polite_on_manager

lemma app_server_user: "server_user (app_env su :: ('ep::linorder, 'g) app_world server_env)"
proof unfold_locales
  fix i h sp and w :: "('ep, 'g) app_world" and now p
  assume "map_of (se_dispatcher (app_env su :: ('ep, 'g) app_world server_env)) i = Some h"
  then show "polite w (snd (h now sp p w))"
    by (auto simp: app_dispatcher onUserInput_def onJoin_def onStart_def callbacks_polite
        intro!: handler_polite split: if_splits)
qed (auto simp: app_env_def polite_on_manager)

interpretation app: server_user "app_env su" for su :: "('g, 'j) lobby_setup"
  by (rule app_server_user)

section \<open>From a packet to the lobby\<close>

text \<open>C9: what a client says is what the server does: the packet that a client makes of one of its
  messages, however it travels, makes the server call the operation of that name with the fields of
  the message: an input or a start goes to the lobby that the session is in, a join to the manager,
  and a request for a page is answered with that page.\<close>

theorem client_messages_are_obeyed:
  assumes "client_variant_fits v" and "client_variant_packet v = Inr p"
    and "p_messageId q = p_messageId p" and "unread q = p_buffer p"
  shows "run_server_task (app_env su) now (Task_packet sp q) w =
    (case v of
       V_Join j \<Rightarrow> on_manager (joinRoom su sp (join_room_id j)) w
     | V_Start \<Rightarrow> on_manager (pushActionToLobby sp Act_start) w
     | V_UserInput u \<Rightarrow> on_manager (pushActionToLobby sp (Act_user_input sp u)) w
     | V_LobbyList l \<Rightarrow> onLobbyList now sp l w)"
proof -
  have run: "run_server_task (app_env su) now (Task_packet sp q) w = callback now sp m w"
    if "map_of (se_dispatcher (app_env su)) (p_messageId q) = Some (packet_handler rd callback)" "rd q = (Inr m, r)"
    for callback rd m r
    using that by (simp add: run_server_task_def dispatch_def packet_handler_def app_env_def)
  note ids = app_dispatcher[of su] traits_defs
  show ?thesis
  proof (cases v)
    case (V_Join j)
    then have "length (join_username j) \<le> 65535" "make_packet join_traits write_join j = Inr p" using assms by simp_all
    from codec_received[OF join_codec this assms(4)] assms(3) run[of read_join "onJoin su" j] V_Join show ?thesis
      by (auto simp: ids onJoin_def)
  next
    case V_Start
    then have "make_packet start_traits write_empty () = Inr p" using assms by simp
    from codec_received[OF codec_empty TrueI this assms(4)] assms(3) run[of read_empty onStart "()"] V_Start show ?thesis
      by (auto simp: ids onStart_def)
  next
    case (V_UserInput u)
    then have "make_packet user_input_traits write_user_input u = Inr p" using assms by simp
    from codec_received[OF user_input_codec TrueI this assms(4)] assms(3) run[of read_user_input onUserInput u] V_UserInput
    show ?thesis by (auto simp: ids onUserInput_def)
  next
    case (V_LobbyList l)
    then have "make_packet lobby_list_traits write_lobby_list l = Inr p" using assms by simp
    from codec_received[OF lobby_list_codec TrueI this assms(4)] assms(3) run[of read_lobby_list onLobbyList l] V_LobbyList
    show ?thesis by (auto simp: ids)
  qed
qed

section \<open>Players and sessions\<close>

text \<open>What each operation does to the map from sessions to lobbies.\<close>

lemma on_lobby_lookup: "on_lobby i f m = Inr m' \<Longrightarrow> lm_playerLookup m' = lm_playerLookup m"
  by (auto simp: on_lobby_def split: option.splits)

lemma push_lookup: "pushActionToLobby sp a m = Inr m' \<Longrightarrow> lm_playerLookup m' = lm_playerLookup m"
  by (auto simp: pushActionToLobby_def on_lobby_lookup split: option.splits)

lemma enter_lookup: "enter_room sp i m = Inr m' \<Longrightarrow>
    lm_playerLookup m' \<in> {lm_playerLookup m, om_put sp i (lm_playerLookup m)}"
  by (auto simp: enter_room_def try_bind_Inr_iff on_lobby_lookup split: if_splits)

lemma create_lookup: "createLobby su m = Inr (i, m') \<Longrightarrow> lm_playerLookup m' = lm_playerLookup m"
  by (auto simp: createLobby_def Let_def split: if_splits option.splits prod.splits)

lemma join_lookup: "joinRoom su sp i m = Inr m' \<Longrightarrow>
    \<exists>k. lm_playerLookup m' \<in> {lm_playerLookup m, om_put sp k (lm_playerLookup m)}"
  by (auto simp: joinRoom_def try_bind_Inr_iff create_lookup split: if_splits dest!: enter_lookup)

lemma leave_lookup: "leaveRoom sp m = Inr m' \<Longrightarrow>
    om_has (lm_playerLookup m') q \<longleftrightarrow> q \<noteq> sp \<and> om_has (lm_playerLookup m) q"
  by (auto simp: leaveRoom_def try_bind_Inr_iff on_lobby_lookup om_has_def split: option.splits if_splits)

lemma update_lookup: "manager_update m = Inr m' \<Longrightarrow> lm_playerLookup m' = lm_playerLookup m"
proof -
  have "update_loop n m = Inr m' \<Longrightarrow> lm_playerLookup m' = lm_playerLookup m" for n and m :: "'a manager"
  proof (induction n m rule: update_loop.induct)
    case (1 i m)
    then show ?case by (subst (asm) (2) update_loop.simps) (auto split: if_splits option.splits)
  qed
  then show "manager_update m = Inr m' \<Longrightarrow> lm_playerLookup m' = lm_playerLookup m" by (auto simp: manager_update_def)
qed

lemma thread_lookup: "lobby_thread env n i m = Inr m' \<Longrightarrow> lm_playerLookup m' = lm_playerLookup m"
  by (auto simp: lobby_thread_def split: option.splits sum.splits)

definition players :: "('ep, 'g) app_world \<Rightarrow> nat set" where
  "players w = {sp. \<exists>m. ap_lobbyManager w = Inr m \<and> om_has (lm_playerLookup m) sp}"

lemma players_on_session [simp]: "players (on_session sp f w) = players w"
  by (simp add: players_def)

lemma players_task: "players (run_server_task (app_env su) now task w) \<subseteq> insert (task_session task) (players w)"
proof (cases task)
  case (Task_onConnect sp)
  then show ?thesis by (auto simp: run_server_task_def app_env_def)
next
  case (Task_packet sp q)
  have on: "players (on_manager f w) \<subseteq> insert sp (players w)"
    if keeps: "\<And>m m'. f m = Inr m' \<Longrightarrow> \<exists>k. lm_playerLookup m' \<in> {lm_playerLookup m, om_put sp k (lm_playerLookup m)}" for f w
  proof
    fix q assume "q \<in> players (on_manager f w)"
    then obtain m m' where m: "ap_lobbyManager w = Inr m" "f m = Inr m'" "om_has (lm_playerLookup m') q"
      by (auto simp: players_def try_bind_Inr_iff)
    obtain k where "lm_playerLookup m' \<in> {lm_playerLookup m, om_put sp k (lm_playerLookup m)}" using keeps[OF m(2)] by blast
    with m show "q \<in> insert sp (players w)" by (auto simp: players_def)
  qed
  have same: "players (onLobbyList now sp l w) = players w" for l w
    by (auto simp: players_def onLobbyList_def server_sendTo_def server_internal_sendTo_def keep_on_raise_def try_bind_def
        split: sum.split)
  have handler: "players (snd (packet_handler rd callback now sp q w)) \<subseteq> insert sp (players w)"
    if "\<And>x w. players (callback now sp x w) \<subseteq> insert sp (players w)" for rd callback w
    using that by (auto simp: packet_handler_def split: prod.split sum.split)
  have each: "players (onUserInput now sp u w) \<subseteq> insert sp (players w)" "players (onJoin su now sp j w) \<subseteq> insert sp (players w)"
    "players (onStart now sp x w) \<subseteq> insert sp (players w)" "players (onLobbyList now sp l w) \<subseteq> insert sp (players w)" for u j x l w
    unfolding onUserInput_def onJoin_def onStart_def same
    by (rule on, simp add: push_lookup) (rule on, erule join_lookup, rule on, simp add: push_lookup, blast)
  have system: "players (Connect_onReceive now sp x w) \<subseteq> insert sp (players w)"
    "players (Disconnect_onReceive now sp x w) \<subseteq> insert sp (players w)" for x w
    using Connect_onReceive_sends[of now sp w] by (auto simp: Disconnect_onReceive_def)
  have "players (snd (h now sp q w)) \<subseteq> insert sp (players w)"
    if "map_of (se_dispatcher (app_env su)) i = Some h" for h i
    using app_handlers[OF that] by (elim insertE emptyE; hypsubst) (rule handler, rule each system)+
  then have "players (snd (dispatch (se_dispatcher (app_env su)) now sp q w)) \<subseteq> insert sp (players w)"
    by (auto simp: dispatch_def split: option.splits)
  then show ?thesis
    unfolding Task_packet by (simp add: run_server_task_def task_session_def app_env_def case_prod_beta)
qed

lemma players_tasks: "players (fold (run_server_task (app_env su) now) tasks w) \<subseteq> task_session ` set tasks \<union> players w"
proof (induction tasks arbitrary: w)
  case (Cons task tasks)
  show ?case using Cons[of "run_server_task (app_env su) now task w"] players_task[of su now task w] by auto
qed simp

lemma players_notify: "players (fold (notify_disconnect (app_env su) now) gone w) \<subseteq> players w - set gone"
proof (induction gone arbitrary: w)
  case (Cons sp gone)
  have "players (notify_disconnect (app_env su) now sp w) \<subseteq> players w - {sp}"
    by (auto simp: notify_disconnect_def app_env_def players_def try_bind_Inr_iff leave_lookup)
  with Cons[of "notify_disconnect (app_env su) now sp w"] show ?case by auto
qed simp

section \<open>The managers of reachable servers\<close>

text \<open>The faults of a manager: what is left when no thread of a lobby meets a stranger.\<close>

definition expected_faults :: "bool \<Rightarrow> manager_fault set" where
  "expected_faults b = {No_such_key, Dead_lobby, Lobby_fault Dangling_reference, Lobby_fault Never_returns} \<union> range Config_error \<union>
     (if b then {} else {Lobby_fault Missing_key, Lobby_fault Out_of_bounds})"

definition good_manager :: "('g, 'j) lobby_setup \<Rightarrow> 'g lobby_env \<Rightarrow> manager_fault + 'g manager \<Rightarrow> bool" where
  "good_manager su env r \<longleftrightarrow> (case r of Inl f \<Rightarrow> f \<in> expected_faults (director_loads su) | Inr m \<Rightarrow> managed su env m)"

lemma good_manager_simps [simp]:
  "good_manager su env (Inl f) \<longleftrightarrow> f \<in> expected_faults (director_loads su)" "good_manager su env (Inr m) \<longleftrightarrow> managed su env m"
  by (simp_all add: good_manager_def)

lemma fault_simps [simp]:
  "No_such_key \<in> expected_faults b" "Dead_lobby \<in> expected_faults b" "Config_error e \<in> expected_faults b"
  by (simp_all add: expected_faults_def)

lemma good_bind: "good_manager su env r \<Longrightarrow> (\<And>m. managed su env m \<Longrightarrow> good_manager su env (f m)) \<Longrightarrow>
    good_manager su env (try_bind r f)"
  by (cases r) simp_all

lemma good_lobby: "on_lobby i f m = Inl e \<Longrightarrow> e \<in> expected_faults b"
  by (auto simp: on_lobby_def split: option.splits)

lemma good_ops:
  assumes "managed su env m"
  shows "good_manager su env (pushActionToLobby sp (Act_user_input sp u) m)"
    and "good_manager su env (pushActionToLobby sp Act_start m)"
    and "good_manager su env (joinRoom su sp i m)" and "good_manager su env (leaveRoom sp m)"
    and "good_manager su env (manager_update m)"
    and "om_has (lm_lobbies m) k \<Longrightarrow> good_manager su env (lobby_thread env n k m)"
proof -
  have push: "pushActionToLobby sp a m = Inl e \<Longrightarrow> e \<in> expected_faults (director_loads su)" for a e
    using good_lobby by (auto simp: pushActionToLobby_def split: option.splits)
  show "good_manager su env (pushActionToLobby sp (Act_user_input sp u) m)"
    using push managed.steered[OF assms] by (cases "pushActionToLobby sp (Act_user_input sp u) m") auto
  show "good_manager su env (pushActionToLobby sp Act_start m)"
    using push managed.game_started[OF assms] by (cases "pushActionToLobby sp Act_start m") auto
  have create: "createLobby su m = Inl e \<Longrightarrow> e \<in> expected_faults (director_loads su)" for e
    by (auto simp: createLobby_def Let_def split: if_splits option.splits prod.splits)
  have enter: "enter_room sp k m' = Inl e \<Longrightarrow> e \<in> expected_faults (director_loads su)" for k m' e
    using good_lobby by (auto simp: enter_room_def try_bind_Inl_iff split: if_splits)
  have "joinRoom su sp i m = Inl e \<Longrightarrow> e \<in> expected_faults (director_loads su)" for e
    using create enter by (auto simp: joinRoom_def try_bind_Inl_iff split: if_splits)
  then show "good_manager su env (joinRoom su sp i m)"
    using managed.joined[OF assms] by (cases "joinRoom su sp i m") auto
  have "leaveRoom sp m = Inl e \<Longrightarrow> e \<in> expected_faults (director_loads su)" for e
    using good_lobby by (auto simp: leaveRoom_def try_bind_Inl_iff split: option.splits)
  then show "good_manager su env (leaveRoom sp m)"
    using managed.left[OF assms] by (cases "leaveRoom sp m") auto
  have "update_loop n m = Inl e \<Longrightarrow> e \<in> expected_faults (director_loads su)" for n e and m :: "'a manager"
  proof (induction n m rule: update_loop.induct)
    case (1 i m)
    then show ?case by (subst (asm) (2) update_loop.simps) (auto split: if_splits option.splits)
  qed
  then have "manager_update m = Inl e \<Longrightarrow> e \<in> expected_faults (director_loads su)" for e by (auto simp: manager_update_def)
  then show "good_manager su env (manager_update m)"
    using managed.updated[OF assms] by (cases "manager_update m") auto
  show "good_manager su env (lobby_thread env n k m)" if d: "om_has (lm_lobbies m) k"
  proof -
    obtain l where "map_of (lm_lobbies m) k = Some l" using d by (auto simp: om_has_def)
    from thread_spec[OF managed_ok[OF assms] this, of env n] managed.ran[OF assms] show ?thesis
      by (cases "lobby_thread env n k m") (auto simp: expected_faults_def tick_faults_def)
  qed
qed

abbreviation good_world :: "('g, 'j) lobby_setup \<Rightarrow> 'g lobby_env \<Rightarrow> ('ep, 'g) app_world \<Rightarrow> bool" where
  "good_world su env w \<equiv> good_manager su env (ap_lobbyManager w)"

lemma good_task: "good_world su env w \<Longrightarrow> good_world su env (run_server_task (app_env su) now task w)"
proof (cases task)
  case (Task_onConnect sp)
  then show "good_world su env w \<Longrightarrow> good_world su env (run_server_task (app_env su) now task w)"
    by (simp add: run_server_task_def app_env_def)
next
  case (Task_packet sp q)
  assume good: "good_world su env w"
  have handler: "good_world su env (snd (packet_handler rd callback now sp q w))"
    if "\<And>x. good_world su env (callback now sp x w)" for rd callback
    using that good by (auto simp: packet_handler_def split: prod.split sum.split)
  have same: "ap_lobbyManager (onLobbyList now sp l w) = ap_lobbyManager w" for l
    by (auto simp: onLobbyList_def server_sendTo_def server_internal_sendTo_def keep_on_raise_def try_bind_def
        split: sum.split)
  have each: "good_world su env (onUserInput now sp u w)" "good_world su env (onJoin su now sp j w)"
    "good_world su env (onStart now sp x w)" "good_world su env (onLobbyList now sp l w)"
    "good_world su env (Connect_onReceive now sp x w)" "good_world su env (Disconnect_onReceive now sp x w)" for u j x l
    using good Connect_onReceive_sends[of now sp w]
    by (auto simp: onUserInput_def onJoin_def onStart_def same Disconnect_onReceive_def intro!: good_bind good_ops)
  have "good_world su env (snd (h now sp q w))" if "map_of (se_dispatcher (app_env su)) i = Some h" for h i
    using app_handlers[OF that] by (elim insertE emptyE; hypsubst) (rule handler, rule each)+
  then have "good_world su env (snd (dispatch (se_dispatcher (app_env su)) now sp q w))"
    using good by (auto simp: dispatch_def split: option.splits)
  then show "good_world su env (run_server_task (app_env su) now task w)"
    unfolding Task_packet by (simp add: run_server_task_def app_env_def case_prod_beta)
qed

lemma good_tasks: "good_world su env w \<Longrightarrow> good_world su env (fold (run_server_task (app_env su) now) tasks w)"
  by (induction tasks arbitrary: w) (simp_all add: good_task)

lemma good_notify: "good_world su env w \<Longrightarrow> good_world su env (fold (notify_disconnect (app_env su) now) gone w)"
  by (induction gone arbitrary: w) (simp_all add: notify_disconnect_def app_env_def good_bind good_ops)

section \<open>Reachable applications\<close>

text \<open>The socket thread, the main thread and the threads of the lobbies take turns; a lobby has a
  thread while the manager has the lobby.\<close>

inductive app_reachable :: "('g, 'j) lobby_setup \<Rightarrow> 'g lobby_env \<Rightarrow> ('ep::linorder, 'g) app \<Rightarrow> bool"
  for su :: "('g, 'j) lobby_setup" and env :: "'g lobby_env" where
  app_started: "app_reachable su env (new_app su)"
| app_received: "app_reachable su env sv \<Longrightarrow> server_onReceive now sender data sv = Inr sv' \<Longrightarrow> app_reachable su env sv'"
| app_turned: "app_reachable su env sv \<Longrightarrow> app_turn su now timeout sv = Inr sv' \<Longrightarrow> app_reachable su env sv'"
| app_ran: "app_reachable su env sv \<Longrightarrow> ap_lobbyManager (sv_world sv) = Inr m \<Longrightarrow> om_has (lm_lobbies m) i \<Longrightarrow>
    app_reachable su env (sv\<lparr>sv_world := on_manager (lobby_thread env n i) (sv_world sv)\<rparr>)"

definition connected :: "('ep, 'm) server_world_scheme \<Rightarrow> nat set" where
  "connected w = snd ` set (sv_sessions w)"

definition app_ok :: "('g, 'j) lobby_setup \<Rightarrow> 'g lobby_env \<Rightarrow> ('ep::linorder, 'g) app \<Rightarrow> bool" where
  "app_ok su env sv \<longleftrightarrow> server_wf sv \<and> good_world su env (sv_world sv) \<and>
     players (sv_world sv) \<subseteq> connected (sv_world sv) \<and>
     task_session ` set (tsq_queue (sv_eventQueue sv)) \<subseteq> connected (sv_world sv)"

lemma app_okD:
  assumes "app_ok su env sv"
  shows "server_wf sv" and "good_world su env (sv_world sv)" and "players (sv_world sv) \<subseteq> connected (sv_world sv)"
    and "task_session ` set (tsq_queue (sv_eventQueue sv)) \<subseteq> connected (sv_world sv)"
  using assms by (simp_all add: app_ok_def)

text \<open>A step that leaves the sessions that are known and the queue of events alone.\<close>

lemma app_ok_world:
  assumes "app_ok su env sv" and "polite (sv_world sv) w" and "good_world su env w" and "players w \<subseteq> players (sv_world sv)"
  shows "app_ok su env (sv\<lparr>sv_world := w\<rparr>)"
proof -
  have "connected w = connected (sv_world sv)" using assms(2) by (simp add: polite_def connected_def)
  with app_okD[OF assms(1)] server_wf_polite[OF _ assms(2)] assms(3,4) show ?thesis by (auto simp: app_ok_def)
qed

lemma ok_started: "app_ok su env (new_app su)"
proof -
  have "createLobby su new_manager = Inl e \<Longrightarrow> e \<in> expected_faults (director_loads su)" for e
    by (auto simp: createLobby_def Let_def split: if_splits option.splits prod.splits)
  then have "good_manager su env (try_bind (createLobby su new_manager) (\<lambda>(i, m). Inr m))"
    using managed.created[OF managed.started] by (cases "createLobby su new_manager") auto
  moreover have "\<not> om_has (lm_playerLookup m) sp" if "createLobby su new_manager = Inr (i, m)" for i m sp
    using create_lookup[OF that] by (simp add: new_manager_def om_has_def)
  ultimately show ?thesis
    by (auto simp: app_ok_def new_app_def new_server_def tsq_new_def players_def connected_def try_bind_Inr_iff
        server_wf_def world_wf_def)
qed

lemma snd_put: "map_of m k = None \<Longrightarrow> snd ` set (om_put k v m) = insert v (snd ` set m)"
  by (induction m) (auto split: if_splits)

lemma connected_lookup: "map_of (sv_sessions w) ep = Some sp \<Longrightarrow> sp \<in> connected w"
  using map_of_SomeD by (force simp: connected_def)

lemma ok_received:
  assumes "app_ok su env sv" and "server_onReceive now sender data sv = Inr sv'"
  shows "app_ok su env sv'"
proof -
  note ok = app_okD[OF assms(1)]
  have more: "app_ok su env sv'"
    if "ap_lobbyManager (sv_world sv') = ap_lobbyManager (sv_world sv)" "connected (sv_world sv) \<subseteq> connected (sv_world sv')"
      "set (tsq_queue (sv_eventQueue sv')) = set (tsq_queue (sv_eventQueue sv)) \<union> tasks"
      "task_session ` tasks \<subseteq> connected (sv_world sv')" for tasks
    using that ok onReceive_wf[OF ok(1) assms(2)] unfolding app_ok_def players_def by auto
  from assms(2) show ?thesis
  proof (cases rule: onReceive_cases)
    case (known_connect sp)
    then show ?thesis by (intro more[of "{}"]) (auto simp: resend_connect_ack_sends connected_def)
  next
    case (known sp)
    from known(3) obtain ps s where "sv_world sv' = on_session sp (\<lambda>_. s) (sv_world sv)"
        "tsq_queue (sv_eventQueue sv') = tsq_queue (sv_eventQueue sv) @ map (Task_packet sp) ps"
      by (rule process_result)
    with connected_lookup[OF known(1)] show ?thesis
      by (intro more[of "set (map (Task_packet sp) ps)"])
        (auto simp: connected_def task_session_def intro: rev_image_eqI)
  next
    case ignored
    with assms(1) show ?thesis by simp
  next
    case accepted
    let ?sp = "length (nw_sessions (sv_world sv))"
    from accepted(3) obtain ps s where "sv_world sv' = on_session ?sp (\<lambda>_. s) (sv_world (accept_session now sender sv))"
        "tsq_queue (sv_eventQueue sv') = tsq_queue (sv_eventQueue (accept_session now sender sv)) @ map (Task_packet ?sp) ps"
      by (rule process_result)
    with snd_put[OF accepted(1)] show ?thesis
      by (intro more[of "insert (Task_onConnect ?sp) (set (map (Task_packet ?sp) ps))"])
        (auto simp: connected_def task_session_def accept_session_def make_session_def tsq_push_def)
  qed
qed

lemma send_all_frame:
  fixes w w' :: "('ep, 'g) app_world"
  assumes "send_all now xs w = Inr w'"
  shows "polite w w'" and "ap_lobbyManager w' = ap_lobbyManager w"
proof -
  have each: "send_each now p sps v = Inr v' \<Longrightarrow> polite v v' \<and> ap_lobbyManager v' = ap_lobbyManager v"
    for p sps and v v' :: "('ep, 'g) app_world"
  proof (induction sps arbitrary: v)
    case (Cons sp sps)
    then obtain pkt where "send_each now p sps (on_session sp (send now pkt) v) = Inr v'"
      by (auto simp: app_sendTo_def try_bind_Inr_iff)
    from Cons.IH[OF this] polite_trans[OF send_polite[of v sp now pkt]] show ?case by auto
  qed simp
  have "send_all now xs v = Inr v' \<Longrightarrow> polite v v' \<and> ap_lobbyManager v' = ap_lobbyManager v"
    for v v' :: "('ep, 'g) app_world"
  proof (induction xs arbitrary: v)
    case (Cons x xs)
    then obtain v1 where v1: "send_each now (snd x) (fst x) v = Inr v1" "send_all now xs v1 = Inr v'"
      by (auto simp: try_bind_Inr_iff)
    from each[OF v1(1)] Cons.IH[OF v1(2)] polite_trans[of v v1] show ?case by auto
  qed simp
  with assms show "polite w w'" "ap_lobbyManager w' = ap_lobbyManager w" by blast+
qed

lemma ok_turned:
  fixes sv sv' :: "('ep::linorder, 'g) app"
  assumes "app_ok su env sv" and "app_turn su now timeout sv = Inr sv'"
  shows "app_ok su env sv'"
proof -
  have raise: "raise_as c r = Inr x \<longleftrightarrow> r = Inr x" for c :: "'x \<Rightarrow> app_fault" and r and x :: 'y
    by (simp add: raise_as_def split: sum.split)
  obtain w1 w2 where w: "flush_outgoing now (sv_world sv) = Inr w1" "update_manager w1 = Inr w2"
      "server_update (app_env su) now timeout (sv\<lparr>sv_world := w2\<rparr>) = Inr sv'"
    using assms(2) by (auto simp: app_turn_def try_bind_Inr_iff raise)
  note ok = app_okD[OF assms(1)]
  obtain m where m: "ap_lobbyManager (sv_world sv) = Inr m"
      "send_all now (cq_queue (lm_outGoing m)) ((sv_world sv)\<lparr>ap_lobbyManager := Inr (m\<lparr>lm_outGoing := cq_new\<rparr>)\<rparr>) = Inr w1"
    using w(1) by (auto simp: flush_outgoing_def raise split: sum.splits)
  obtain m2 where m2: "manager_update (m\<lparr>lm_outGoing := cq_new\<rparr>) = Inr m2" "w2 = w1\<lparr>ap_lobbyManager := Inr m2\<rparr>"
    using w(2) send_all_frame(2)[OF m(2)] by (auto simp: update_manager_def try_bind_Inr_iff raise)
  have "managed su env m" using ok(2) m(1) by simp
  then have good: "managed su env m2" by (rule managed.updated[OF managed.sent m2(1)])
  have "polite (sv_world sv) w2"
    using send_all_frame(1)[OF m(2)] by (simp add: m2(2) polite_def)
  moreover have "players w2 = players (sv_world sv)"
    using update_lookup[OF m2(1)] m(1) by (simp add: players_def m2(2))
  ultimately have ok2: "app_ok su env (sv\<lparr>sv_world := w2\<rparr>)"
    using good by (intro app_ok_world[OF assms(1)]) (simp_all add: m2(2))
  define v where "v = fold (run_server_task (app_env su) now) (tsq_queue (sv_eventQueue sv)) w2"
  define kept where "kept = filter (stays now timeout v) (sv_sessions w2)"
  define gone where "gone = map snd (filter (\<lambda>e. \<not> stays now timeout v e) (sv_sessions w2))"
  define u where "u = (fold (update_session now) kept v)\<lparr>sv_sessions := kept\<rparr>"
  have sv': "sv_world sv' = fold (notify_disconnect (app_env su) now) gone u" "tsq_queue (sv_eventQueue sv') = []"
    using w(3) app.update_spec[OF app_okD(1)[OF ok2], of su now timeout]
    by (auto simp: v_def kept_def gone_def u_def)
  have "ap_lobbyManager (fold (update_session now) es x) = ap_lobbyManager x" for es and x :: "('ep, 'g) app_world"
    by (induction es arbitrary: x) (simp_all add: update_session_def)
  then have u: "ap_lobbyManager u = ap_lobbyManager v" "players u = players v" by (simp_all add: u_def players_def)
  have "good_world su env (sv_world sv')"
    unfolding sv'(1) using good u(1) by (intro good_notify) (simp add: v_def good_tasks m2(2))
  moreover have "players v \<subseteq> connected w2"
    using players_tasks[of su now "tsq_queue (sv_eventQueue sv)" w2] app_okD(3,4)[OF ok2] by (auto simp: v_def)
  then have "players (sv_world sv') \<subseteq> connected w2 - set gone"
    using players_notify[of su now gone u] u(2) unfolding sv'(1) by auto
  moreover have "polite u (sv_world sv')" unfolding sv'(1)
  proof (rule app.notify_polite)
    have "polite w2 v" unfolding v_def
      using app.tasks_polite server_wfD(2)[OF app_okD(1)[OF ok2]] by simp
    then have "length (nw_sessions u) = length (nw_sessions w2)"
      using polite_length polite_length[OF updates_polite[of v now kept]] by (simp add: u_def)
    then show "\<forall>sp \<in> set gone. sp < length (nw_sessions u)"
      using world_wf_lookup(1)[OF _ world_wf_entry] server_wfD(1)[OF app_okD(1)[OF ok2]] by (auto simp: gone_def)
  qed
  then have "connected w2 - set gone \<subseteq> connected (sv_world sv')"
    by (auto simp: polite_def connected_def u_def kept_def gone_def)
  ultimately show ?thesis
    using app.update_wf[OF app_okD(1)[OF ok2] w(3)] sv'(2) by (auto simp: app_ok_def)
qed

lemma ok_ran:
  assumes "app_ok su env sv" and "ap_lobbyManager (sv_world sv) = Inr m" and "om_has (lm_lobbies m) i"
  shows "app_ok su env (sv\<lparr>sv_world := on_manager (lobby_thread env n i) (sv_world sv)\<rparr>)"
proof (rule app_ok_world[OF assms(1) polite_on_manager])
  have "managed su env m" using app_okD(2)[OF assms(1)] assms(2) by simp
  with assms(2,3) show "good_world su env (on_manager (lobby_thread env n i) (sv_world sv))" by (simp add: good_ops)
  show "players (on_manager (lobby_thread env n i) (sv_world sv)) \<subseteq> players (sv_world sv)"
    using assms(2) by (auto simp: players_def thread_lookup)
qed

lemma app_reachable_ok: "app_reachable su env sv \<Longrightarrow> app_ok su env sv"
  by (induction rule: app_reachable.induct) (rule ok_started ok_received ok_turned ok_ran; assumption)+

text \<open>A player whom the queued tasks take out of the game has left.\<close>

lemma taken_out_leaves: "sp \<in> S \<Longrightarrow> sp \<notin> fold plays_after as S \<Longrightarrow> Act_leave sp \<in> set as"
proof (induction as arbitrary: S)
  case (Cons a as)
  show ?case
  proof (cases "a = Act_leave sp")
    case False
    then have "sp \<in> plays_after a S" using Cons.prems(1) by (cases a) simp_all
    with Cons.IH[of "plays_after a S"] Cons.prems(2) show ?thesis by simp
  qed simp
qed simp

text \<open>C4: the server as a whole, in every state it can reach, whatever the file of the waves holds: the network
  server keeps its map of sessions sound; a session among the players of a lobby is connected, or
  its departure is queued at that lobby; every session that plays once the queued tasks have run is
  connected, so the next round of the lobby's thread leaves no player without a connection; and the
  manager has not failed in another way than a missing lobby, a destroyed lobby, a configuration that
  cannot be read, or the faults of a lobby's thread, where a missing key and a read beyond the end of a
  vector come only with a file of waves that is not well formed.\<close>

theorem no_player_without_session:
  assumes "app_reachable su env sv"
  shows "server_wf sv \<and>
    (case ap_lobbyManager (sv_world sv) of
       Inr m \<Rightarrow> \<forall>i l. map_of (lm_lobbies m) i = Some l \<longrightarrow>
         (\<forall>sp \<in> players_of l. sp \<in> connected (sv_world sv) \<or> Act_leave sp \<in> set (cq_queue (lb_actionQueue l))) \<and>
         plays_in l \<subseteq> connected (sv_world sv) \<and>
         (\<forall>n m'. lobby_thread env n i m = Inr m' \<and> lb_isRunning l \<longrightarrow>
            (\<exists>l'. map_of (lm_lobbies m') i = Some l' \<and> players_of l' \<subseteq> connected (sv_world sv)))
     | Inl f \<Rightarrow> f \<in> expected_faults (director_loads su))"
proof -
  note ok = app_okD[OF app_reachable_ok[OF assms]]
  show ?thesis
  proof (cases "ap_lobbyManager (sv_world sv)")
    case (Inl f)
    with ok show ?thesis by simp
  next
    case (Inr m)
    then have managed: "managed su env m" using ok(2) by simp
    have play: "plays_in l \<subseteq> connected (sv_world sv)" if "map_of (lm_lobbies m) i = Some l" for i l
    proof -
      from manager_okD(4)[OF managed_ok[OF managed] that]
      have "plays_in l = {sp. map_of (lm_playerLookup m) sp = Some i}" by (simp add: lobby_fine_def)
      then have "plays_in l \<subseteq> players (sv_world sv)" using Inr by (auto simp: players_def om_has_def)
      with ok(3) show ?thesis by blast
    qed
    moreover have "sp \<in> connected (sv_world sv) \<or> Act_leave sp \<in> set (cq_queue (lb_actionQueue l))"
      if "map_of (lm_lobbies m) i = Some l" "sp \<in> players_of l" for i l sp
      using play[OF that(1)] taken_out_leaves[OF that(2), of "cq_queue (lb_actionQueue l)"] by (auto simp: plays_in_def)
    moreover have "\<exists>l'. map_of (lm_lobbies m') i = Some l' \<and> players_of l' \<subseteq> connected (sv_world sv)"
      if "map_of (lm_lobbies m) i = Some l" "lobby_thread env n i m = Inr m'" "lb_isRunning l" for i l n m'
      using thread_spec[OF managed_ok[OF managed] that(1), of env n] that(2,3) play[OF that(1)] by auto
    ultimately show ?thesis using ok(1) Inr by simp blast
  qed
qed

section \<open>Delivery\<close>

definition packet_of :: "server_variant \<Rightarrow> packet" where
  "packet_of v = (case server_variant_packet v of Inr p \<Rightarrow> p | Inl _ \<Rightarrow> new_packet 0 0 0)"

lemma packet_of: "server_variant_fits v \<Longrightarrow> server_variant_packet v = Inr (packet_of v)"
  using server_variant_roundtrip[of v] by (auto simp: packet_of_def)

text \<open>The packets for one session, in the order of the queue.\<close>

definition packets_for :: "nat \<Rightarrow> send_interface list \<Rightarrow> packet list" where
  "packets_for sp xs = concat (map (\<lambda>x. replicate (count_list (fst x) sp) (packet_of (snd x))) xs)"

lemma send_each_spec:
  assumes "server_variant_fits v" and "set sps \<subseteq> {..<length (nw_sessions w)}"
  shows "\<exists>w'. send_each now v sps w = Inr w' \<and> length (nw_sessions w') = length (nw_sessions w) \<and>
    (\<forall>sp. session_at sp w' = fold (send now) (replicate (count_list sps sp) (packet_of v)) (session_at sp w))"
  using assms(2)
proof (induction sps arbitrary: w)
  case (Cons q sps)
  let ?w = "on_session q (send now (packet_of v)) w"
  have q: "q < length (nw_sessions w)" "set sps \<subseteq> {..<length (nw_sessions ?w)}" using Cons.prems by auto
  from Cons.IH[OF q(2)] obtain w' where w': "send_each now v sps ?w = Inr w'" "length (nw_sessions w') = length (nw_sessions ?w)"
      "\<And>sp. session_at sp w' = fold (send now) (replicate (count_list sps sp) (packet_of v)) (session_at sp ?w)"
    by blast
  have "send_each now v (q # sps) w = Inr w'" using w'(1) by (simp add: app_sendTo_def packet_of[OF assms(1)])
  moreover have "session_at sp w' = fold (send now) (replicate (count_list (q # sps) sp) (packet_of v)) (session_at sp w)" for sp
    using w'(3) session_at_on_session[OF q(1), of sp "send now (packet_of v)"] by (auto simp: funpow_swap1)
  ultimately show ?case using w'(2) by auto
qed simp

lemma send_all_spec:
  assumes "list_all (\<lambda>x. server_variant_fits (snd x) \<and> set (fst x) \<subseteq> {..<length (nw_sessions w)}) xs"
  shows "\<exists>w'. send_all now xs w = Inr w' \<and> (\<forall>sp. session_at sp w' = fold (send now) (packets_for sp xs) (session_at sp w))"
  using assms
proof (induction xs arbitrary: w)
  case (Cons x xs)
  then obtain w1 where w1: "send_each now (snd x) (fst x) w = Inr w1" "length (nw_sessions w1) = length (nw_sessions w)"
      "\<And>sp. session_at sp w1 = fold (send now) (replicate (count_list (fst x) sp) (packet_of (snd x))) (session_at sp w)"
    using send_each_spec[of "snd x" "fst x" w now] by auto
  with Cons.IH[of w1] Cons.prems show ?case by (auto simp: packets_for_def)
qed (simp add: packets_for_def)

text \<open>C32: a turn of the main loop hands every queued message to every session it is addressed to, once
  and in the order in which the lobbies queued them, and leaves the queue empty; no session gets a
  message that is not for it.\<close>

theorem outgoing_is_delivered:
  assumes "ap_lobbyManager w = Inr m"
    and "list_all (\<lambda>x. server_variant_fits (snd x) \<and> set (fst x) \<subseteq> {..<length (nw_sessions w)}) (cq_queue (lm_outGoing m))"
  shows "\<exists>w'. flush_outgoing now w = Inr w' \<and> ap_lobbyManager w' = Inr (m\<lparr>lm_outGoing := cq_new\<rparr>) \<and>
    (\<forall>sp. session_at sp w' = fold (send now) (packets_for sp (cq_queue (lm_outGoing m))) (session_at sp w))"
proof -
  let ?w = "w\<lparr>ap_lobbyManager := Inr (m\<lparr>lm_outGoing := cq_new\<rparr>)\<rparr>"
  have at: "session_at sp ?w = session_at sp w" for sp by (simp add: session_at_def)
  obtain w' where w': "send_all now (cq_queue (lm_outGoing m)) ?w = Inr w'"
      "\<And>sp. session_at sp w' = fold (send now) (packets_for sp (cq_queue (lm_outGoing m))) (session_at sp w)"
    using send_all_spec[of ?w "cq_queue (lm_outGoing m)" now] assms(2) at by auto
  from send_all_frame(2)[OF w'(1)] w' show ?thesis
    by (auto simp: flush_outgoing_def assms(1) raise_as_def)
qed

section \<open>A sample application\<close>

definition sample_world :: "(nat, unit) app_world" where
  "sample_world = \<lparr>nw_sessions = [new_session 5 7 True 0, new_session 6 8 True 0], nw_globalSessionIdCounter = 7,
     sv_sessions = [(7, 0), (8, 1)],
     ap_lobbyManager = Inr (sample_hosted\<lparr>lm_outGoing := \<lparr>cq_queue =
       [([0, 1], V_UpdateGameState \<lparr>ug_gameState = 2\<rparr>), ([1], join_refused)]\<rparr>\<rparr>)\<rparr>"

theorem outgoing_is_delivered_witness:
  "\<exists>w'. flush_outgoing 3 sample_world = Inr w' \<and>
    session_at 1 w' = send 3 (packet_of join_refused)
      (send 3 (packet_of (V_UpdateGameState \<lparr>ug_gameState = 2\<rparr>)) (session_at 1 sample_world)) \<and>
    session_at 0 w' = send 3 (packet_of (V_UpdateGameState \<lparr>ug_gameState = 2\<rparr>)) (session_at 0 sample_world)"
proof -
  define m where "m = sample_hosted\<lparr>lm_outGoing := \<lparr>cq_queue =
    [([0, 1], V_UpdateGameState \<lparr>ug_gameState = 2\<rparr>), ([1], join_refused)]\<rparr>\<rparr>"
  have "ap_lobbyManager sample_world = Inr m" by (simp add: sample_world_def m_def)
  moreover have "list_all (\<lambda>x. server_variant_fits (snd x) \<and> set (fst x) \<subseteq> {..<length (nw_sessions sample_world)})
      (cq_queue (lm_outGoing m))"
    by (simp add: m_def sample_world_def join_refused_def)
  ultimately show ?thesis
    using outgoing_is_delivered[of sample_world m 3] by (auto simp: m_def packets_for_def)
qed

theorem client_messages_are_obeyed_witness:
  "\<exists>q. run_server_task (app_env sample_setup) 3 (Task_packet 1 q) sample_world =
    on_manager (pushActionToLobby 1 (Act_user_input 1 \<lparr>input_mask = 5\<rparr>)) sample_world"
proof -
  obtain p where "client_variant_packet (V_UserInput \<lparr>input_mask = 5\<rparr>) = Inr p"
    using client_variant_roundtrip[of "V_UserInput \<lparr>input_mask = 5\<rparr>"] by auto
  from client_messages_are_obeyed[OF _ this, where q = "set_payload (p_buffer p) (new_packet (p_messageId p) 0 0)"
      and su = sample_setup and now = 3 and sp = 1 and w = sample_world]
  show ?thesis by (auto simp: set_payload_def new_packet_def unread_def)
qed

text \<open>An application with a player: session 0 connects, its request to join arrives, the main loop turns,
  and the thread of the first lobby runs the tasks.\<close>

lemma accepted_world:
  fixes sv :: "('ep::linorder, 'g) app"
  assumes "server_onReceive now sender data sv = Inr sv1" and "sv_sessions (sv_world sv) = []"
    and "map_of (sv_sessions (sv_world sv1)) sender = Some sp"
  shows "sv_sessions (sv_world sv1) = [(sender, sp)] \<and> ap_lobbyManager (sv_world sv1) = ap_lobbyManager (sv_world sv)"
  using assms(1)
proof (cases rule: onReceive_cases)
  case accepted
  from accepted(3) obtain s where
    "sv_world sv1 = on_session (length (nw_sessions (sv_world sv))) (\<lambda>_. s) (sv_world (accept_session now sender sv))"
    by (rule process_result)
  with assms(2,3) show ?thesis by (simp add: accept_session_def make_session_def)
qed (use assms(2,3) in simp_all)

lemma join_request:
  obtains p :: packet where "p_messageId p = t_kId join_traits" "p_flag p = kUnreliable"
    "\<forall>q. unread q = p_buffer p \<longrightarrow> (\<exists>r. read_join q = (Inr \<lparr>join_username = [], join_room_id = 0\<rparr>, r))"
proof -
  let ?j = "\<lparr>join_username = [], join_room_id = 0\<rparr>"
  obtain p where p: "client_variant_packet (V_Join ?j) = Inr p"
    using client_variant_roundtrip[of "V_Join ?j"] by auto
  then have m: "make_packet join_traits write_join ?j = Inr p" by simp
  obtain enc where codec: "wire_codec (\<lambda>j. length (join_username j) \<le> 65535) enc write_join read_join"
    using join_codec by (auto simp: codec_for_def)
  have "p = append_bytes (enc ?j) (new_packet (t_kId join_traits) (getFlag join_traits) (getChannelId join_traits))"
    using m wire_codec.wr_enc[OF codec, of ?j] by (simp add: make_packet_def)
  then have "p_messageId p = t_kId join_traits" "p_flag p = kUnreliable"
    by (simp_all add: getFlag_def traits_defs new_packet_def)
  with codec_received(2)[OF join_codec _ m] show thesis by (intro that[of p]) simp_all
qed

lemma app_callbacks:
  "se_onConnect (app_env su) = Some (\<lambda>now sp w. w)" "se_onMessage (app_env su) = Some (\<lambda>now sp p w. w)"
  by (simp_all add: app_env_def)

lemma sample_app_joins:
  obtains sv m l where "app_reachable sample_setup sample_env (sv :: (nat, unit) app)"
    and "ap_lobbyManager (sv_world sv) = Inr m" and "map_of (lm_lobbies m) 0 = Some l" and "lb_isRunning l"
    and "players_of l = {}" and "plays_in l = {0}"
proof -
  let ?sv0 = "new_app sample_setup :: (nat, unit) app"
  have r0: "app_reachable sample_setup sample_env ?sv0" by (rule app_reachable.app_started)
  have w0: "sv_sessions (sv_world ?sv0) = []" "nw_sessions (sv_world ?sv0) = []" "tsq_queue (sv_eventQueue ?sv0) = []"
    "ap_lobbyManager (sv_world ?sv0) = Inr sample_open"
    by (simp_all add: new_app_def new_server_def tsq_new_def sample_creates)
  obtain sv1 p s where sv1: "server_onReceive 1 7 (request (9 :: nat) 0 0) ?sv0 = Inr sv1"
    "tsq_queue (sv_eventQueue sv1) = [Task_onConnect 0, Task_packet 0 p]" "p_messageId p = 2"
    "map_of (sv_sessions (sv_world sv1)) 7 = Some 0" "0 < length (nw_sessions (sv_world sv1))"
    "session_at 0 (sv_world sv1) = s" "sentPackets s = []" "\<not> s_shouldClose s" "hasReceivedRemotePacket s"
    "remoteAcknowledgeId s = 0"
    using server_accepts[of ?sv0 7 1 "9 :: nat" 0 0] w0 by auto
  note frame1 = accepted_world[OF sv1(1) w0(1) sv1(4)]
  have r1: "app_reachable sample_setup sample_env sv1" by (rule app_received[OF r0 sv1(1)])
  obtain jp :: packet where jp: "p_messageId jp = t_kId join_traits" "p_flag jp = kUnreliable"
    "\<forall>q. unread q = p_buffer jp \<longrightarrow> (\<exists>r. read_join q = (Inr \<lparr>join_username = [], join_room_id = 0\<rparr>, r))"
    by (rule join_request)
  define client where "client = new_session 0 (9 :: nat) True 0"
  define data where "data = datagram jp 1 0 client"
  define hdr where "hdr = outgoing_header jp 1 0 client"
  have hdr: "parse_header data = parse_success hdr" "sequenceId hdr = 1" "messageId hdr = t_kId join_traits"
    "flags hdr = kUnreliable"
    by (simp_all add: data_def hdr_def parse_datagram jp client_def)
  define q where "q = received_packet data hdr"
  have q: "p_messageId q = t_kId join_traits" "unread q = p_buffer jp"
    by (simp_all add: q_def data_def hdr_def received_datagram jp set_payload_def new_packet_def unread_def)
  obtain s2 where s2: "handleIncoming 2 data s = Inr ([q], s2)" "\<not> s_shouldClose s2" "lastSeen s2 = 2"
    using next_datagram[OF hdr(1) sv1(9,10) hdr(2) sv1(7)] hdr(3,4) sv1(8) by (auto simp: q_def traits_defs)
  define sv2 where "sv2 = sv1\<lparr>sv_world := on_session 0 (\<lambda>_. s2) (sv_world sv1),
    sv_eventQueue := push_packets 0 [q] (sv_eventQueue sv1)\<rparr>"
  have "\<not> is_message (system_id kConnect) data" by (simp add: data_def is_message_datagram jp traits_defs)
  then have "server_onReceive 2 7 data sv1 = Inr sv2"
    using sv1(4,6) s2(1) by (simp add: server_onReceive_def server_process_def sv2_def internal_traits_defs Let_def)
  then have r2: "app_reachable sample_setup sample_env sv2" by (rule app_received[OF r1])
  have queue2: "tsq_queue (sv_eventQueue sv2) = [Task_onConnect 0, Task_packet 0 p, Task_packet 0 q]"
    by (simp add: sv2_def push_packets_queue sv1(2))
  have w2: "ap_lobbyManager (sv_world sv2) = Inr sample_open" "sv_sessions (sv_world sv2) = [(7, 0)]"
    "session_at 0 (sv_world sv2) = s2" "0 < length (nw_sessions (sv_world sv2))"
    using frame1 w0(4) sv1(5) by (simp_all add: sv2_def session_at_on_session)
  have open_room: "sample_open\<lparr>lm_outGoing := cq_new\<rparr> = sample_open" "cq_queue (lm_outGoing sample_open) = []"
    by (simp_all add: sample_open_def cq_new_def)
  have "(sv_world sv2)\<lparr>ap_lobbyManager := Inr sample_open\<rparr> = sv_world sv2" using w2(1) by (cases "sv_world sv2") simp
  then have flush: "flush_outgoing 3 (sv_world sv2) = Inr (sv_world sv2)" "update_manager (sv_world sv2) = Inr (sv_world sv2)"
    using w2(1) open_room by (simp_all add: flush_outgoing_def raise_as_def update_manager_def manager_update_def
        update_loop.simps sample_open_def)
  define v where "v = fold (run_server_task (app_env sample_setup) 3) (tsq_queue (sv_eventQueue sv2)) (sv_world sv2)"
  define room where "room = lobby_join 0 (with_queue sample_open sample_room)"
  define m1 where "m1 = (put_lobby 0 room sample_open)\<lparr>lm_playerLookup := om_put 0 0 (lm_playerLookup sample_open)\<rparr>"
  have enter: "joinRoom sample_setup 0 0 sample_open = Inr m1"
    by (simp add: joinRoom_def enter_room_def on_lobby_def om_has_def m1_def room_def) (simp add: sample_open_def)
  define w where "w = on_session 0 (send 3 (connect_ack_packet INTERNAL_CHANNEL_ID (s_id s2))) (sv_world sv2)"
  have "run_server_task (app_env sample_setup) 3 (Task_packet 0 p) (sv_world sv2) = w"
    using sv1(3) w2(3)
    by (simp add: app_dispatcher run_server_task_def dispatch_def Connect_onReceive_sends w_def)
  moreover have "run_server_task (app_env sample_setup) 3 (Task_packet 0 q) w = on_manager (joinRoom sample_setup 0 0) w"
  proof -
    obtain r where "read_join q = (Inr \<lparr>join_username = [], join_room_id = 0\<rparr>, r)" using jp(3) q(2) by blast
    then show ?thesis
      using q(1)
      by (simp add: app_dispatcher run_server_task_def dispatch_def packet_handler_def onJoin_def app_callbacks traits_defs)
  qed
  ultimately have v: "v = on_manager (joinRoom sample_setup 0 0) w"
    by (simp add: v_def queue2 run_server_task_def[of _ _ "Task_onConnect 0"] app_callbacks)
  have v_world: "ap_lobbyManager v = Inr m1" "sv_sessions v = [(7, 0)]"
    using w2(1,2) enter by (simp_all add: v w_def)
  have "session_at 0 v = send 3 (connect_ack_packet INTERNAL_CHANNEL_ID (s_id s2)) s2"
    using w2(3,4) session_at_on_session[OF w2(4), of 0] by (simp add: v w_def session_at_def)
  then have stays: "stays 3 10000 v (7, 0)"
    using s2(2,3) by (simp add: stays_def is_gone_def send_plain_simps model_defs)
  define sv3 where "sv3 = \<lparr>sv_world = (update_session 3 (7, 0) v)\<lparr>sv_sessions := [(7, 0)]\<rparr>,
    sv_eventQueue = (sv_eventQueue sv2)\<lparr>tsq_queue := []\<rparr>\<rparr>"
  have "app_turn sample_setup 3 10000 sv2 = Inr sv3"
    using app.update_spec[OF app_okD(1)[OF app_reachable_ok[OF r2]], of sample_setup 3 10000] stays flush w2(2)
    by (simp add: app_turn_def raise_as_def sv3_def flip: v_def)
  then have r3: "app_reachable sample_setup sample_env sv3" by (rule app_turned[OF r2])
  have "cq_queue (lb_actionQueue room) = [Act_join 0]" "players_of room = {}" "lb_isRunning room"
    by (simp_all add: room_def lobby_join_def pushTask_def cq_push_def players_of_def sample_room_def new_lobby_def
        on_engine_def cq_new_def)
  then have "lb_isRunning room" "players_of room = {}" "plays_in room = {0}"
    by (simp_all add: plays_in_def)
  moreover have "ap_lobbyManager (sv_world sv3) = Inr m1" "map_of (lm_lobbies m1) 0 = Some room"
    using v_world(1) by (simp_all add: sv3_def update_session_def m1_def)
  ultimately show thesis by (intro that[OF r3])
qed

theorem no_player_without_session_witness:
  "\<exists>(sv :: (nat, unit) app) m l. app_reachable sample_setup sample_env sv \<and> ap_lobbyManager (sv_world sv) = Inr m \<and>
    map_of (lm_lobbies m) 0 = Some l \<and> players_of l = {0} \<and> 0 \<in> connected (sv_world sv)"
proof -
  obtain sv :: "(nat, unit) app" and m l where sv: "app_reachable sample_setup sample_env sv"
    "ap_lobbyManager (sv_world sv) = Inr m" "map_of (lm_lobbies m) 0 = Some l" "lb_isRunning l"
    "players_of l = {}" "plays_in l = {0}"
    by (rule sample_app_joins)
  define sv' where "sv' = sv\<lparr>sv_world := on_manager (lobby_thread sample_env 0 0) (sv_world sv)\<rparr>"
  have r: "app_reachable sample_setup sample_env sv'"
    unfolding sv'_def by (rule app_ran[OF sv(1,2)]) (simp add: om_has_def sv(3))
  have fine: "lobby_fine (director_loads sample_setup) (lm_playerLookup m) 0 l" and ok: "manager_ok (director_loads sample_setup) m"
    using app_okD(2)[OF app_reachable_ok[OF sv(1)]] sv(2) managed_ok manager_okD(4)[OF _ sv(3)] by auto
  obtain m' l' where run: "lobby_thread sample_env 0 0 m = Inr m'" "map_of (lm_lobbies m') 0 = Some l'" "players_of l' = {0}"
  proof -
    let ?l = "with_queue m l"
    have "sound_under (director_loads sample_setup) ?l" "from_players (players_of ?l) (cq_queue (lb_actionQueue l))"
      using fine by (simp_all add: lobby_fine_def tasks_ok_def)
    then obtain l1 where "run_actions (cq_queue (lb_actionQueue l)) ?l = Inr l1" using sound_actions by blast
    then have "lobby_thread sample_env 0 0 m = Inr (put_lobby 0 l1 m)"
      using sv(3,4) by (simp add: lobby_thread_def lobby_round_def)
    with thread_spec[OF ok sv(3), of sample_env 0] sv(4,6) that show thesis by auto
  qed
  have m': "ap_lobbyManager (sv_world sv') = Inr m'" using sv(2) run(1) by (simp add: sv'_def)
  have "\<exists>l'. map_of (lm_lobbies m') 0 = Some l' \<and> players_of l' \<subseteq> connected (sv_world sv)"
    using no_player_without_session[OF sv(1)] sv(2-4) run(1) by fastforce
  then have "0 \<in> connected (sv_world sv)" using run(2,3) by auto
  then have "0 \<in> connected (sv_world sv')" by (simp add: sv'_def connected_def)
  with r m' run(2,3) show ?thesis by blast
qed

end
