(* ===== verification/ClientHandlers.thy ===== *)
theory ClientHandlers
  imports Movement GamePackets Queues
begin

text \<open>
  The handlers of the client (\<^verbatim>\<open>Client/src/handlers\<close>), which rebuild the world of the lobby from
  the messages of the server: the toolbox holds the engine of the client and the map from the
  identifiers of the server to those of the client.  An exception that leaves a handler and a read
  beyond the end of a vector are values of \<open>client_fault\<close>.
\<close>

section \<open>State\<close>

datatype client_system =
  AnimationSystem | Interpolation | IO | NetworkSystem | Renderer | MenuRenderer

datatype client_fault = Unknown_id | Empty_mask | Short_message | Bad_content rt_error

record toolbox =
  tb_componentFactory :: factory
  tb_engine :: "client_system engine"
  tb_serverToClient :: "(u64, nat) omap"

definition registerAllComponents :: "client_system engine \<Rightarrow> client_system engine" where
  "registerAllComponents =
     on_ecs (registerComponents (map cid ClientComponents))"

definition registerAllClientSystems :: "client_system engine \<Rightarrow> client_system engine" where
  "registerAllClientSystems en =
     fold (\<lambda>s. on_ecs (registerSystem s))
       [AnimationSystem, Interpolation, IO, NetworkSystem, Renderer, MenuRenderer] en"

definition new_toolbox :: toolbox where
  "new_toolbox =
     \<lparr>tb_componentFactory = new_factory GameComponents,
      tb_engine = registerAllClientSystems (registerAllComponents (new_engine GameComponents)),
      tb_serverToClient = []\<rparr>"

abbreviation client_store :: "toolbox \<Rightarrow> client_system store" where
  "client_store tb \<equiv> en_ecs (tb_engine tb)"

definition on_store :: "(client_system store \<Rightarrow> client_system store) \<Rightarrow> toolbox \<Rightarrow> toolbox" where
  "on_store f tb = tb\<lparr>tb_engine := on_ecs f (tb_engine tb)\<rparr>"

section \<open>Animations of the entity types\<close>

record animation_config =
  ac_frameCount :: u32
  ac_frameTime :: float32
  ac_frameWidth :: u32
  ac_frameHeight :: u32
  ac_loop :: bool

text \<open>\<open>0.15f\<close>.\<close>

definition frame_time_default :: float32 where "frame_time_default = 0x3E19999A"

definition entityTypeToAnimation :: "(entity_type \<times> animation_config) list" where
  "entityTypeToAnimation =
     [(kPlayer, \<lparr>ac_frameCount = 5, ac_frameTime = frame_time_default, ac_frameWidth = 33,
        ac_frameHeight = 15, ac_loop = True\<rparr>),
      (kEnemy, \<lparr>ac_frameCount = 8, ac_frameTime = frame_time_default, ac_frameWidth = 32,
        ac_frameHeight = 32, ac_loop = True\<rparr>),
      (kBullet, \<lparr>ac_frameCount = 3, ac_frameTime = frame_time_default, ac_frameWidth = 18,
        ac_frameHeight = 14, ac_loop = False\<rparr>)]"

text \<open>The type of an entity comes from the network as a number; not every number is a key.\<close>

definition typeToAnimation :: "u32 \<Rightarrow> animation_config" where
  "typeToAnimation type =
     (case map_of (map (\<lambda>(t, c). (entity_type_value t, c)) entityTypeToAnimation) type of
        None \<Rightarrow> \<lparr>ac_frameCount = 1, ac_frameTime = 0, ac_frameWidth = 0, ac_frameHeight = 0, ac_loop = False\<rparr>
      | Some c \<Rightarrow> c)"

definition new_animation :: "animation_config \<Rightarrow> animation" where
  "new_animation c =
     \<lparr>an_frame_count = ac_frameCount c, an_current_frame = 0, an_frame_time = ac_frameTime c,
      an_elapsed_time = 0, an_frame_width = ac_frameWidth c, an_frame_height = ac_frameHeight c,
      an_loop = ac_loop c\<rparr>"

section \<open>Spawning\<close>

definition add_component :: "nat \<Rightarrow> component \<Rightarrow> client_system store \<Rightarrow> client_system store" where
  "add_component i x = addEntityComponents i (pack [x])"

text \<open>\<open>frameCount\<close> is a signed \<open>int\<close>.\<close>

definition add_sprite :: "nat \<Rightarrow> client_system store \<Rightarrow> client_system store" where
  "add_sprite i e =
     (case getEntityWithComponent Type i e of
        None \<Rightarrow> e
      | Some k \<Rightarrow>
          let type = ty_type (type_at k e);
              e1 = add_component i (C_Sprite \<lparr>spr_type = type\<rparr>) e;
              config = typeToAnimation type
          in if 1 < sint (ac_frameCount config)
             then add_component i (C_Animation (new_animation config)) e1 else e1)"

definition add_target :: "nat \<Rightarrow> client_system store \<Rightarrow> client_system store" where
  "add_target i e =
     (case getEntityWithComponent Position i e of
        None \<Rightarrow> e
      | Some k \<Rightarrow>
          let pos = position_at k e
          in add_component i (C_TargetPos \<lparr>tp_x = pos_x pos, tp_y = pos_y pos\<rparr>) e)"

definition addGraphicalComponents :: "nat \<Rightarrow> toolbox \<Rightarrow> toolbox" where
  "addGraphicalComponents i = on_store (\<lambda>e. add_target i (add_sprite i e))"

definition handleSpawn :: "spawn_msg \<Rightarrow> toolbox \<Rightarrow> client_fault + toolbox" where
  "handleSpawn packet tb =
     (if om_has (tb_serverToClient tb) (sp_id packet) then Inr tb
      else case preRegisterEntity (client_store tb) of
        (real, e1) \<Rightarrow>
          let tb1 = (on_store (\<lambda>_. e1) tb)\<lparr>tb_serverToClient := om_put (sp_id packet) real (tb_serverToClient tb)\<rparr>
          in case deserialize (map unat (sp_bitmask packet)) of
               None \<Rightarrow> Inl Empty_mask
             | Some bitmask \<Rightarrow>
                 (case factory_apply (tb_componentFactory tb1) e1 real bitmask (sp_content packet) of
                    Inl err \<Rightarrow> Inl (Bad_content err)
                  | Inr e2 \<Rightarrow> Inr (addGraphicalComponents real (on_store (\<lambda>_. e2) tb1))))"

text \<open>\<open>for (i = 0; i < packet.bitsets.size(); i++)\<close>, from \<open>i\<close> on for \<open>n\<close> rounds.\<close>

primrec world_loop :: "nat \<Rightarrow> nat \<Rightarrow> world_init_msg \<Rightarrow> toolbox \<Rightarrow> client_fault + toolbox" where
  "world_loop 0 i packet tb = Inr tb"
| "world_loop (Suc n) i packet tb =
     (if length (wi_ids packet) \<le> i then Inl Short_message
      else if om_has (tb_serverToClient tb) (wi_ids packet ! i) then world_loop n (i + 1) packet tb
      else if length (wi_entities packet) \<le> i then Inl Short_message
      else try_bind (handleSpawn \<lparr>sp_id = wi_ids packet ! i, sp_bitmask = wi_bitsets packet ! i,
             sp_content = wi_entities packet ! i\<rparr> tb) (world_loop n (i + 1) packet))"

definition handleWorldInit :: "world_init_msg \<Rightarrow> toolbox \<Rightarrow> client_fault + toolbox" where
  "handleWorldInit packet tb =
     world_loop (length (wi_bitsets packet)) 0 packet
       (tb\<lparr>tb_engine := setGameState (ucast (wi_state packet)) (tb_engine tb)\<rparr>)"

section \<open>The other messages\<close>

definition handleDestroy :: "destroy_msg \<Rightarrow> toolbox \<Rightarrow> toolbox" where
  "handleDestroy packet tb =
     (case map_of (tb_serverToClient tb) (de_id packet) of
        None \<Rightarrow> tb
      | Some real \<Rightarrow>
          tb\<lparr>tb_serverToClient := om_del (de_id packet) (tb_serverToClient tb),
             tb_engine := engine_destroyEntity real (tb_engine tb)\<rparr>)"

text \<open>\<open>at\<close> comes before the test with \<open>contains\<close>.\<close>

definition handleJoinAck :: "join_ack_msg \<Rightarrow> toolbox \<Rightarrow> client_fault + toolbox" where
  "handleJoinAck packet tb =
     (case map_of (tb_serverToClient tb) (ja_id packet) of
        None \<Rightarrow> Inl Unknown_id
      | Some real \<Rightarrow>
          let tb1 = tb\<lparr>tb_engine := setMenuState (ucast (menu_state_value MenuLobby))
                (setGameState (ja_gameState packet) (tb_engine tb))\<rparr>
          in if \<not> om_has (tb_serverToClient tb) (ja_id packet) then Inr tb1
             else Inr (on_store (add_component real C_Me) tb1))"

definition handleUpdateGameState :: "update_game_state_msg \<Rightarrow> toolbox \<Rightarrow> toolbox" where
  "handleUpdateGameState packet tb = tb\<lparr>tb_engine := setGameState (ug_gameState packet) (tb_engine tb)\<rparr>"

definition handleUpdateEntityState :: "update_entity_state_msg \<Rightarrow> toolbox \<Rightarrow> toolbox" where
  "handleUpdateEntityState packet tb =
     (case map_of (tb_serverToClient tb) (us_id packet) of
        None \<Rightarrow> tb
      | Some real \<Rightarrow>
          (case getEntityFromGroup State [] real (client_store tb) of
             None \<Rightarrow> tb
           | Some k \<Rightarrow> on_store (put_state_at k \<lparr>sc_state = ucast (us_state packet)\<rparr>) tb))"

fun as_health :: "component \<Rightarrow> health" where
  "as_health (C_Health h) = h"
| "as_health _ = \<lparr>hp = 0, max_hp = 0\<rparr>"

definition put_hp_at :: "nat \<Rightarrow> u32 \<Rightarrow> client_system store \<Rightarrow> client_system store" where
  "put_hp_at k v e =
     ecs_assign (cid Health) k (C_Health ((as_health (ecs_deref (cid Health) k e))\<lparr>hp := v\<rparr>)) e"

definition handleUpdateHealth :: "update_health_msg \<Rightarrow> toolbox \<Rightarrow> toolbox" where
  "handleUpdateHealth packet tb =
     (case map_of (tb_serverToClient tb) (uh_id packet) of
        None \<Rightarrow> tb
      | Some real \<Rightarrow>
          (case getEntityFromGroup Health [] real (client_store tb) of
             None \<Rightarrow> tb
           | Some k \<Rightarrow> on_store (put_hp_at k (uh_health packet)) tb))"

fun as_target :: "component \<Rightarrow> target_pos" where
  "as_target (C_TargetPos t) = t"
| "as_target _ = \<lparr>tp_x = 0, tp_y = 0\<rparr>"

definition target_at :: "nat \<Rightarrow> 's store \<Rightarrow> target_pos" where
  "target_at k e = as_target (ecs_deref (cid TargetPos) k e)"

definition put_target_at :: "nat \<Rightarrow> target_pos \<Rightarrow> 's store \<Rightarrow> 's store" where
  "put_target_at k t = ecs_assign (cid TargetPos) k (C_TargetPos t)"

text \<open>Far away, the position jumps; near by, it becomes the target.\<close>

definition is_far :: "update_position_msg \<Rightarrow> position \<Rightarrow> bool" where
  "is_far packet pos \<longleftrightarrow>
     (let dx = f32_sub (up_x packet) (pos_x pos); dy = f32_sub (up_y packet) (pos_y pos)
      in f32_less (f32_mul (f32_of_int 300) (f32_of_int 300)) (f32_add (f32_mul dx dx) (f32_mul dy dy)))"

definition move_towards :: "update_position_msg \<Rightarrow> nat \<Rightarrow> nat \<Rightarrow> client_system store \<Rightarrow> client_system store" where
  "move_towards packet kp kt e =
     (let pos = position_at kp e in
      if is_far packet pos
      then put_position_at kp (pos\<lparr>pos_x := up_x packet, pos_y := up_y packet\<rparr>) e
      else put_target_at kt \<lparr>tp_x = up_x packet, tp_y = up_y packet\<rparr> e)"

definition update_target :: "update_position_msg \<Rightarrow> nat \<Rightarrow> client_system store \<Rightarrow> client_system store" where
  "update_target packet i e =
     (let positions = ecs_group [cid Position, cid TargetPos] e in
      case (group_getEntity 0 positions i, group_getEntity 1 positions i) of
        (Some kp, Some kt) \<Rightarrow> move_towards packet kp kt e
      | _ \<Rightarrow> e)"

definition update_velocity :: "update_position_msg \<Rightarrow> nat \<Rightarrow> client_system store \<Rightarrow> client_system store" where
  "update_velocity packet i e =
     (case getEntityFromGroup Velocity [] i e of
        None \<Rightarrow> e
      | Some k \<Rightarrow> put_velocity_at k ((velocity_at k e)\<lparr>vel_vx := up_vx packet, vel_vy := up_vy packet\<rparr>) e)"

definition handleUpdatePosition :: "update_position_msg \<Rightarrow> toolbox \<Rightarrow> toolbox" where
  "handleUpdatePosition packet tb =
     (case map_of (tb_serverToClient tb) (up_id packet) of
        None \<Rightarrow> tb
      | Some i \<Rightarrow> on_store (\<lambda>e. update_velocity packet i (update_target packet i e)) tb)"

primrec handle_message :: "server_variant \<Rightarrow> toolbox \<Rightarrow> client_fault + toolbox" where
  "handle_message (V_Destroy m) tb = Inr (handleDestroy m tb)"
| "handle_message (V_JoinAck m) tb = handleJoinAck m tb"
| "handle_message (V_Spawn m) tb = handleSpawn m tb"
| "handle_message (V_UpdateEntityState m) tb = Inr (handleUpdateEntityState m tb)"
| "handle_message (V_UpdateGameState m) tb = Inr (handleUpdateGameState m tb)"
| "handle_message (V_UpdateHealth m) tb = Inr (handleUpdateHealth m tb)"
| "handle_message (V_UpdatePosition m) tb = Inr (handleUpdatePosition m tb)"
| "handle_message (V_WorldInit m) tb = handleWorldInit m tb"

primrec handle_messages :: "server_variant list \<Rightarrow> toolbox \<Rightarrow> client_fault + toolbox" where
  "handle_messages [] tb = Inr tb"
| "handle_messages (m # ms) tb = try_bind (handle_message m tb) (handle_messages ms)"

end
