(* ===== verification/ClientMirror.thy ===== *)
theory ClientMirror
  imports ClientHandlers LobbyLife
begin

text \<open>
  What the store of a client has to do with the store of the lobby.  \<open>mirrors S e tb\<close> says that the
  toolbox \<open>tb\<close> binds exactly the entities \<open>S\<close> of the store \<open>e\<close>, each to an entity of its own that
  has the same game components and the same type, and that the client has no other entities.  The
  lemmas show what each handler makes of it.
\<close>

section \<open>Alike stores\<close>

text \<open>The same entities, with components of the same types and with the same types of entities.\<close>

definition alike :: "(component, 's) ecs \<Rightarrow> (component, 's) ecs \<Rightarrow> bool" where
  "alike e e' \<longleftrightarrow>
     (game_store e \<longrightarrow> game_store e' \<and> set (getAllEntities e') = set (getAllEntities e) \<and>
        e_entitiesID e' = e_entitiesID e \<and>
        (\<forall>t \<in> set GameComponents. \<forall>i. getEntityComponent (cid t) i e' = None \<longleftrightarrow> getEntityComponent (cid t) i e = None) \<and>
        (\<forall>i. getEntityComponent (cid Type) i e' = getEntityComponent (cid Type) i e))"

lemma alike_refl [simp]: "alike e e"
  by (simp add: alike_def)

lemma alike_trans [trans]: "alike e e' \<Longrightarrow> alike e' e'' \<Longrightarrow> alike e e''"
  by (simp add: alike_def)

lemma alike_touched: "touched e e' \<Longrightarrow> alike e e'"
  by (simp add: touched_def alike_def getAllEntities_def)

lemma type_is_game [simp]: "Type \<in> set GameComponents"
  by (simp add: GameComponents_def)

lemma alike_add:
  assumes "type_of x \<notin> set GameComponents"
  shows "alike e (add_component i x e)"
  unfolding alike_def
proof (intro impI conjI ballI allI)
  assume e: "game_store e"
  show "game_store (add_component i x e)"
    using game_store.call[OF e, of "Call_addEntityComponents i (pack [x])"]
    by (simp add: add_component_def typed_pack_def pack_def)
  show "e_entitiesID (add_component i x e) = e_entitiesID e" by (simp add: add_component_def)
  show "set (getAllEntities (add_component i x e)) = set (getAllEntities e)"
    by (simp add: add_component_def set_getAllEntities)
  have same: "getEntityComponent (cid t) j (add_component i x e) = getEntityComponent (cid t) j e"
    if "t \<in> set GameComponents" for t j
    using that assms get_addEntity[OF store_wf[OF e], of "cid t" j i "pack [x]"]
    by (auto simp: add_component_def pack_def)
  then show "getEntityComponent (cid t) j (add_component i x e) = None \<longleftrightarrow> getEntityComponent (cid t) j e = None"
    if "t \<in> set GameComponents" for t j using that by simp
  show "getEntityComponent (cid Type) j (add_component i x e) = getEntityComponent (cid Type) j e" for j
    by (rule same) simp
qed

lemma alike_graphical: "alike e (add_target i (add_sprite i e))"
proof -
  have "alike e (add_sprite i e)" for e :: "client_system store"
    by (auto simp: add_sprite_def Let_def GameComponents_def split: option.split
        intro!: alike_add alike_trans[OF alike_add alike_add])
  moreover have "alike e (add_target i e)" for e :: "client_system store"
    by (auto simp: add_target_def Let_def GameComponents_def split: option.split intro!: alike_add)
  ultimately show ?thesis by (rule alike_trans)
qed

section \<open>The mirror\<close>

definition shows_entity :: "(component, 's) ecs \<Rightarrow> nat \<Rightarrow> (component, 't) ecs \<Rightarrow> nat \<Rightarrow> bool" where
  "shows_entity e i e' j \<longleftrightarrow>
     (\<forall>t \<in> set GameComponents. getEntityComponent (cid t) j e' = None \<longleftrightarrow> getEntityComponent (cid t) i e = None) \<and>
     getEntityComponent (cid Type) j e' = getEntityComponent (cid Type) i e"

definition populated :: "(component, 's) ecs \<Rightarrow> bool" where
  "populated e \<longleftrightarrow> (\<forall>i \<in> set (getAllEntities e). getEntityComponent (cid Type) i e \<noteq> None)"

definition mirrors :: "nat set \<Rightarrow> (component, 's) ecs \<Rightarrow> toolbox \<Rightarrow> bool" where
  "mirrors S e tb \<longleftrightarrow>
     game_store e \<and> game_store (client_store tb) \<and> tb_componentFactory tb = new_factory GameComponents \<and>
     S \<subseteq> set (getAllEntities e) \<and>
     om_wf (tb_serverToClient tb) \<and> distinct (map snd (tb_serverToClient tb)) \<and>
     fst ` set (tb_serverToClient tb) = word_of_nat ` S \<and>
     snd ` set (tb_serverToClient tb) = set (getAllEntities (client_store tb)) \<and>
     (\<forall>i \<in> S. \<forall>j. map_of (tb_serverToClient tb) (word_of_nat i) = Some j \<longrightarrow> shows_entity e i (client_store tb) j)"

abbreviation entities :: "(component, 's) ecs \<Rightarrow> nat set" where
  "entities e \<equiv> set (getAllEntities e)"

lemma mirrorsD:
  assumes "mirrors S e tb"
  shows "game_store e" and "game_store (client_store tb)" and "tb_componentFactory tb = new_factory GameComponents"
    and "S \<subseteq> entities e" and "om_wf (tb_serverToClient tb)" and "distinct (map snd (tb_serverToClient tb))"
    and "fst ` set (tb_serverToClient tb) = word_of_nat ` S"
    and "snd ` set (tb_serverToClient tb) = entities (client_store tb)"
    and "i \<in> S \<Longrightarrow> map_of (tb_serverToClient tb) (word_of_nat i) = Some j \<Longrightarrow> shows_entity e i (client_store tb) j"
  using assms unfolding mirrors_def by blast+

lemma mirrors_bound: "mirrors S e tb \<Longrightarrow> om_has (tb_serverToClient tb) k \<longleftrightarrow> k \<in> word_of_nat ` S"
  using mirrorsD(7)[of S e tb] keys_of_has[of k "tb_serverToClient tb"] by simp

lemma shows_trans:
  assumes "shows_entity e i e' i'" and "shows_entity e i d j"
  shows "shows_entity e' i' d j"
proof -
  have "getEntityComponent (cid t) j d = None \<longleftrightarrow> getEntityComponent (cid t) i' e' = None"
    if "t \<in> set GameComponents" for t
    using assms[unfolded shows_entity_def, THEN conjunct1, THEN bspec, OF that] by (simp only:)
  moreover have "getEntityComponent (cid Type) j d = getEntityComponent (cid Type) i' e'"
    using assms[unfolded shows_entity_def, THEN conjunct2] by (simp only:)
  ultimately show ?thesis unfolding shows_entity_def by blast
qed

text \<open>The server may change what the client does not show.\<close>

lemma mirrors_server:
  assumes "mirrors S e tb" and "game_store e'" and "S \<subseteq> entities e'" and "\<And>i. i \<in> S \<Longrightarrow> shows_entity e i e' i"
  shows "mirrors S e' tb"
proof -
  have "\<forall>i \<in> S. \<forall>j. map_of (tb_serverToClient tb) (word_of_nat i) = Some j \<longrightarrow>
      shows_entity e' i (client_store tb) j"
    by (intro ballI allI impI shows_trans[OF assms(4) mirrorsD(9)[OF assms(1)]])
  with assms(2,3) mirrorsD(2,3,5-8)[OF assms(1)] show ?thesis unfolding mirrors_def by (intro conjI)
qed

lemma mirrors_alike_server:
  assumes "mirrors S e tb" and "alike e e'"
  shows "mirrors S e' tb"
proof (rule mirrors_server[OF assms(1)])
  note m = mirrorsD(1,4)[OF assms(1)]
  show "game_store e'" "S \<subseteq> entities e'" using assms(2) m unfolding alike_def by simp_all
  show "shows_entity e i e' i" for i using assms(2) m(1) unfolding alike_def shows_entity_def by simp
qed

lemma mirrors_alike_client:
  assumes "mirrors S e tb" and "alike (client_store tb) (client_store tb')"
    and "tb_serverToClient tb' = tb_serverToClient tb" and "tb_componentFactory tb' = tb_componentFactory tb"
  shows "mirrors S e tb'"
proof -
  note m = mirrorsD[OF assms(1)]
  have a: "game_store (client_store tb')" "entities (client_store tb') = entities (client_store tb)"
    "\<forall>t \<in> set GameComponents. \<forall>i. getEntityComponent (cid t) i (client_store tb') = None \<longleftrightarrow>
       getEntityComponent (cid t) i (client_store tb) = None"
    "\<forall>i. getEntityComponent (cid Type) i (client_store tb') = getEntityComponent (cid Type) i (client_store tb)"
    using assms(2) m(2) unfolding alike_def by blast+
  have "shows_entity (client_store tb) j (client_store tb') j" for j
    using a(3,4) unfolding shows_entity_def by simp
  then have "shows_entity e i (client_store tb') j"
    if "shows_entity e i (client_store tb) j" for i j
    using that unfolding shows_entity_def by simp
  with m(9) have "\<forall>i \<in> S. \<forall>j. map_of (tb_serverToClient tb') (word_of_nat i) = Some j \<longrightarrow>
      shows_entity e i (client_store tb') j"
    unfolding assms(3) by blast
  with m(1,3-8) a(1,2) assms(3,4) show ?thesis unfolding mirrors_def by simp
qed

lemma new_toolbox_store: "game_store (client_store new_toolbox)" "entities (client_store new_toolbox) = {}"
proof -
  let ?e = "registerComponents (map cid ClientComponents) (en_ecs (new_engine GameComponents)) :: client_system store"
  have reg: "client_store new_toolbox = fold (\<lambda>s. perform (Call_registerSystem s))
      [AnimationSystem, Interpolation, IO, NetworkSystem, Renderer, MenuRenderer] ?e"
    by (simp add: new_toolbox_def registerAllClientSystems_def registerAllComponents_def on_ecs_def)
  have "game_store (fold (\<lambda>s. perform (Call_registerSystem s)) ss e)" if "game_store e"
    for ss and e :: "client_system store"
    using that
  proof (induction ss arbitrary: e)
    case (Cons s ss)
    from game_store.call[OF Cons.prems, of "Call_registerSystem s"] Cons.IH show ?case by simp
  qed simp
  then show "game_store (client_store new_toolbox)"
    unfolding reg using game_store.client_constructed by blast
  have "e_entities (registerComponents cs (new_ecs :: client_system store)) = []" for cs
    by (induction cs rule: rev_induct) (simp_all add: registers_snoc registerComponent_def Let_def,
        simp add: registerComponents_def new_ecs_def)
  then show "entities (client_store new_toolbox) = {}"
    unfolding reg client_constructed_registers by (simp add: getAllEntities_def registerSystem_def)
qed

lemma mirrors_new: "game_store e \<Longrightarrow> mirrors {} e new_toolbox"
  using new_toolbox_store unfolding mirrors_def by (simp add: new_toolbox_def)

section \<open>Spawning\<close>

lemma factory_store:
  "factory_loop ts n i b e p = Inr e' \<Longrightarrow> game_store e \<Longrightarrow>
    game_store e' \<and> (\<forall>j. om_has (e_entities e') j = om_has (e_entities e) j)"
proof (induction ts arbitrary: n b e p)
  case (Cons t ts)
  have one: "game_store d \<and> (\<forall>j. om_has (e_entities d) j = om_has (e_entities e) j)"
    if "run_creator t i e p = Inr (d, q)" for d q
  proof -
    obtain x where "d = addEntityComponents i (pack [x]) e"
      using \<open>run_creator t i e p = Inr (d, q)\<close> by (cases "read_component t p"; cases "fst (read_component t p)") (auto simp: run_creator_def)
    with game_store.call[OF Cons.prems(2), of "Call_addEntityComponents i (pack [x])"] show ?thesis
      by (simp add: typed_pack_def pack_def)
  qed
  from Cons.prems Cons.IH show ?case
    by (fastforce simp: Let_def try_bind_Inr_iff dest!: one split: if_splits)
qed simp

lemma mask_in_word:
  assumes "game_store e"
  shows "map unat (map word_of_nat (serialize (getEntityMask i e)) :: u64 list) = serialize (getEntityMask i e)"
proof -
  have "n < 64" if n: "n \<in> indexes (getEntityMask i e)" for n
  proof -
    obtain c where "has_component e i c" "n \<in> comp_bits e c"
      using n by (auto simp: mask_bits[OF store_wf[OF assms]] bits_of_def)
    with game_store_small[OF assms registered_of_has] show ?thesis by blast
  qed
  then have "\<forall>n \<in> set (serialize (getEntityMask i e)). n < 2 ^ 64"
    using serialize_sorted[of "getEntityMask i e"] by fastforce
  then show ?thesis by (auto simp: unat_of_nat intro!: map_idI)
qed

lemma populated_mask:
  assumes "game_store e" and "populated e" and "i \<in> entities e"
  shows "indexes (getEntityMask i e) \<noteq> {}"
proof -
  obtain n where n: "n < length GameComponents" "GameComponents ! n = Type"
    using type_is_game by (metis in_set_conv_nth)
  have "getEntityComponent (cid Type) i e \<noteq> None" using assms(2,3) by (simp add: populated_def)
  then have "Suc n \<in> indexes (getEntityMask i e)" using mask_bit_value[OF assms(1) n(1), of i] n(2) by simp
  then show ?thesis by blast
qed

lemma pre_register:
  assumes "game_store e" and "preRegisterEntity e = (j, e1)"
  shows "game_store e1" and "j \<notin> entities e" and "om_has (e_entities e1) k \<longleftrightarrow> k = j \<or> om_has (e_entities e) k"
    and "getEntityComponent c k e1 = getEntityComponent c k e"
proof -
  have e1: "e1 = snd (preRegisterEntity e)" using assms(2) by simp
  have j: "j = e_entitiesID e" using arg_cong[OF assms(2), of fst] by (simp add: preRegisterEntity_def Let_def)
  show "game_store e1" using game_store.call[OF assms(1), of Call_preRegisterEntity] e1 by simp
  show "j \<notin> entities e" using fresh_id[OF store_wf[OF assms(1)]] j by (simp add: set_getAllEntities)
  show "om_has (e_entities e1) k \<longleftrightarrow> k = j \<or> om_has (e_entities e) k"
    unfolding e1 j by (auto simp: preRegisterEntity_def Let_def)
  show "getEntityComponent c k e1 = getEntityComponent c k e" using e1 by simp
qed

lemma as_received_type:
  assumes "game_store e"
  shows "map_option as_received (getEntityComponent (cid Type) i e) = getEntityComponent (cid Type) i e"
proof (cases "getEntityComponent (cid Type) i e")
  case (Some x)
  have "typed_store e" using game_store_inv[OF assms] by blast
  with Some have "type_of x = Type" unfolding typed_store_def by (metis cid_inject)
  with Some show ?thesis by (cases x) simp_all
qed simp

text \<open>Identifiers below \<open>2\<^sup>6\<^sup>4\<close> stay different when they are narrowed.\<close>

definition small_ids :: "(component, 's) ecs \<Rightarrow> bool" where
  "small_ids e \<longleftrightarrow> (\<forall>i \<in> entities e. i < 2 ^ 64)"

lemma narrowed_in:
  assumes "small_ids e" and "S \<subseteq> entities e" and "i \<in> entities e"
  shows "(word_of_nat i :: u64) \<in> word_of_nat ` S \<longleftrightarrow> i \<in> S"
proof
  assume "(word_of_nat i :: u64) \<in> word_of_nat ` S"
  then obtain k where k: "k \<in> S" "(word_of_nat i :: u64) = word_of_nat k" by blast
  have "unat (word_of_nat n :: u64) = n" if "n \<in> entities e" for n
    using that assms(1) by (simp add: small_ids_def unat_of_nat)
  then have "unat (word_of_nat i :: u64) = i" "unat (word_of_nat k :: u64) = k"
    using k(1) assms(2,3) by blast+
  with k show "i \<in> S" by metis
qed simp

lemma mirrors_spawn:
  assumes "mirrors S (en_ecs en) tb" and "i \<in> entities (en_ecs en)" and "populated (en_ecs en)" and "small_ids (en_ecs en)"
  shows "\<exists>tb'. handle_message (spawn_packet i en) tb = Inr tb' \<and> mirrors (insert i S) (en_ecs en) tb' \<and>
    getGameState (tb_engine tb') = getGameState (tb_engine tb)"
proof (cases "i \<in> S")
  case True
  then have "om_has (tb_serverToClient tb) (word_of_nat i)" using mirrors_bound[OF assms(1)] by simp
  then have "handle_message (spawn_packet i en) tb = Inr tb"
    by (simp add: spawn_packet_def handleSpawn_def split: prod.split)
  with True assms(1) show ?thesis by (simp add: insert_absorb)
next
  case False
  let ?e = "en_ecs en" and ?cs = "client_store tb" and ?b = "tb_serverToClient tb"
  define k :: u64 where "k = word_of_nat i"
  note m = mirrorsD[OF assms(1)]
  have k: "k \<notin> word_of_nat ` S" using narrowed_in[OF assms(4) m(4) assms(2)] False by (simp add: k_def)
  then have free: "\<not> om_has ?b k" using mirrors_bound[OF assms(1)] by simp
  obtain bits content where infos: "getEntityInfos GameComponents i en = (bits, content)" by fastforce
  obtain j e1 where pre: "preRegisterEntity ?cs = (j, e1)" by fastforce
  obtain bm e2 where e2: "deserialize bits = Some bm"
      "factory_apply (new_factory GameComponents) e1 j bm content = Inr e2"
      "\<forall>t \<in> set GameComponents. getEntityComponent (cid t) j e2 = map_option as_received (getEntityComponent (cid t) i ?e)"
      "\<forall>l c. l \<noteq> j \<longrightarrow> getEntityComponent c l e2 = getEntityComponent c l ?cs"
    using snapshot_rebuilt[OF m(1,2) populated_mask[OF m(1) assms(3,2)]] infos pre by auto
  note p = pre_register[OF m(2) pre]
  have st: "game_store e2" "\<And>l. om_has (e_entities e2) l = om_has (e_entities e1) l"
    using factory_store[OF e2(2)[unfolded factory_apply_def] p(1)] by blast+
  have "bits = serialize (getEntityMask i ?e)" using infos by (simp add: getEntityInfos_def Let_def)
  then have bits: "map unat (map word_of_nat bits :: u64 list) = bits" using mask_in_word[OF m(1)] by simp
  define tb2 where "tb2 = (on_store (\<lambda>_. e2) tb)\<lparr>tb_serverToClient := om_put k j ?b\<rparr>"
  have tb2: "client_store tb2 = e2" "tb_serverToClient tb2 = om_put k j ?b"
    "tb_componentFactory tb2 = tb_componentFactory tb" "getGameState (tb_engine tb2) = getGameState (tb_engine tb)"
    by (simp_all add: tb2_def on_store_def on_ecs_def getGameState_def)
  have "spawn_packet i en = V_Spawn \<lparr>sp_id = k, sp_bitmask = map word_of_nat bits, sp_content = content\<rparr>"
    by (simp add: spawn_packet_def infos k_def)
  moreover have "(on_store (\<lambda>_. e2) ((on_store (\<lambda>_. e1) tb)\<lparr>tb_serverToClient := om_put k j ?b\<rparr>)) = tb2"
    by (simp add: tb2_def on_store_def on_ecs_def)
  ultimately have res: "handle_message (spawn_packet i en) tb = Inr (addGraphicalComponents j tb2)"
    using free e2(1,2) bits by (simp add: handleSpawn_def pre Let_def m(3) on_store_def)
  have ents: "entities e2 = insert j (entities ?cs)"
    using st(2) p(3) by (auto simp: set_getAllEntities)
  have "mirrors (insert i S) ?e tb2"
    unfolding mirrors_def tb2
  proof (intro conjI)
    show "distinct (map snd (om_put k j ?b))" using om_put_snd[of j ?b k] m(6,8) p(2) by simp
    show "snd ` set (om_put k j ?b) = entities e2"
    proof -
      have "snd ` set (om_put k j c) = insert j (snd ` set c)" if "\<not> om_has c k" for c
        using that by (induction c) (auto simp: om_has_def split: if_splits)
      with free m(8) ents show ?thesis by simp
    qed
    show "\<forall>l \<in> insert i S. \<forall>n. map_of (om_put k j ?b) (word_of_nat l) = Some n \<longrightarrow> shows_entity ?e l e2 n"
    proof (intro ballI allI impI)
      fix l n assume l: "l \<in> insert i S" "map_of (om_put k j ?b) (word_of_nat l) = Some n"
      show "shows_entity ?e l e2 n"
      proof (cases "l = i")
        case True
        with l(2) have "n = j" by (simp add: k_def)
        moreover have "shows_entity ?e i e2 j"
          unfolding shows_entity_def using bspec[OF e2(3)] as_received_type[OF m(1), of i] type_is_game
          by (intro conjI ballI) (simp, metis)
        ultimately show ?thesis using True by simp
      next
        case False
        with l(1) k have "word_of_nat l \<noteq> k" "l \<in> S" by auto
        with l(2) have n: "map_of ?b (word_of_nat l) = Some n" by simp
        then have "n \<in> entities ?cs" using m(8) by (force dest: map_of_SomeD)
        with p(2) have "n \<noteq> j" by blast
        then have "shows_entity ?cs n e2 n" using e2(4) by (simp add: shows_entity_def)
        with m(9)[OF \<open>l \<in> S\<close> n] show ?thesis unfolding shows_entity_def by simp
      qed
    qed
  qed (use m st(1) assms(2) in \<open>simp_all add: k_def\<close>)
  then have "mirrors (insert i S) ?e (addGraphicalComponents j tb2)"
    by (rule mirrors_alike_client)
      (simp_all add: addGraphicalComponents_def on_store_def on_ecs_def alike_graphical)
  moreover have "getGameState (tb_engine (addGraphicalComponents j tb2)) = getGameState (tb_engine tb)"
    using tb2(4) by (simp add: addGraphicalComponents_def on_store_def on_ecs_def getGameState_def)
  ultimately show ?thesis using res by blast
qed

section \<open>Snapshots\<close>

lemma mirrors_state: "mirrors S e (tb\<lparr>tb_engine := setGameState s (tb_engine tb)\<rparr>) = mirrors S e tb"
  by (simp add: mirrors_def setGameState_def)

lemma mirrors_loop:
  assumes "populated (en_ecs en)" and "small_ids (en_ecs en)" and "world_init_packet en = V_WorldInit packet"
  shows "mirrors S (en_ecs en) tb \<Longrightarrow> n + k = length (getAllEntities (en_ecs en)) \<Longrightarrow>
    \<exists>tb'. world_loop n k packet tb = Inr tb' \<and> mirrors (S \<union> set (drop k (getAllEntities (en_ecs en)))) (en_ecs en) tb' \<and>
      getGameState (tb_engine tb') = getGameState (tb_engine tb)"
proof (induction n arbitrary: S k tb)
  case (Suc n)
  let ?ids = "getAllEntities (en_ecs en)"
  have packet: "wi_ids packet = map word_of_nat ?ids"
    "wi_bitsets packet = map (\<lambda>i. map word_of_nat (fst (getEntityInfos GameComponents i en))) ?ids"
    "wi_entities packet = map (\<lambda>i. snd (getEntityInfos GameComponents i en)) ?ids"
    using assms(3) by (auto simp: world_init_packet_def Let_def)
  have k: "k < length ?ids" using Suc.prems(2) by simp
  then have i: "?ids ! k \<in> entities (en_ecs en)" "drop k ?ids = ?ids ! k # drop (k + 1) ?ids"
    by (simp_all add: Cons_nth_drop_Suc)
  have spawn: "handleSpawn \<lparr>sp_id = wi_ids packet ! k, sp_bitmask = wi_bitsets packet ! k,
      sp_content = wi_entities packet ! k\<rparr> tb = handle_message (spawn_packet (?ids ! k) en) tb"
    using k by (simp add: packet spawn_packet_def split: prod.split)
  obtain tb1 where tb1: "handle_message (spawn_packet (?ids ! k) en) tb = Inr tb1"
      "mirrors (insert (?ids ! k) S) (en_ecs en) tb1" "getGameState (tb_engine tb1) = getGameState (tb_engine tb)"
    using mirrors_spawn[OF Suc.prems(1) i(1) assms(1,2)] by blast
  have same: "tb1 = tb" if "om_has (tb_serverToClient tb) (wi_ids packet ! k)"
    using tb1(1) that unfolding spawn[symmetric] by (simp add: handleSpawn_def)
  have "\<not> length (wi_ids packet) \<le> k" "\<not> length (wi_entities packet) \<le> k" using k by (simp_all add: packet(1,3))
  then have "world_loop (Suc n) k packet tb = world_loop n (k + 1) packet tb1"
    unfolding world_loop.simps spawn tb1(1) using same by simp
  with Suc.IH[OF tb1(2), of "k + 1"] Suc.prems(2) tb1(3) i(2) show ?case by auto
qed simp

lemma mirrors_world:
  assumes "mirrors S (en_ecs en) tb" and "populated (en_ecs en)" and "small_ids (en_ecs en)"
  shows "\<exists>tb'. handle_message (world_init_packet en) tb = Inr tb' \<and> mirrors (entities (en_ecs en)) (en_ecs en) tb' \<and>
    getGameState (tb_engine tb') = ucast (ucast (getGameState en) :: u8)"
proof -
  obtain packet where packet: "world_init_packet en = V_WorldInit packet"
    by (simp add: world_init_packet_def Let_def)
  have "length (wi_bitsets packet) = length (getAllEntities (en_ecs en))" "wi_state packet = ucast (getGameState en)"
    using packet by (auto simp: world_init_packet_def Let_def)
  moreover have "S \<union> set (drop 0 (getAllEntities (en_ecs en))) = entities (en_ecs en)"
    using mirrorsD(4)[OF assms(1)] by auto
  ultimately show ?thesis
    using mirrors_loop[OF assms(2,3) packet, of S "tb\<lparr>tb_engine := setGameState (ucast (wi_state packet)) (tb_engine tb)\<rparr>"
        "length (wi_bitsets packet)" 0] assms(1)
    by (simp add: packet handleWorldInit_def mirrors_state)
qed

section \<open>Destroying\<close>

lemma destroy_store:
  "game_store e \<Longrightarrow> game_store (destroyEntity i e)"
  "entities (destroyEntity i e) = entities e - {i}"
  using game_store.call[of e "Call_destroyEntity i"]
  by (auto simp: getAllEntities_def destroyEntity_def om_del_def)

lemma snd_om_del:
  assumes "distinct (map fst b)" and "distinct (map snd b)" and "map_of b k = Some j"
  shows "snd ` set (om_del k b) = snd ` set b - {j}"
proof -
  have kj: "(k, j) \<in> set b" using assms(3) by (rule map_of_SomeD)
  have "l \<noteq> k \<longleftrightarrow> n \<noteq> j" if "(l, n) \<in> set b" for l n
    using that kj assms(1,2) by (metis distinct_map eq_key_imp_eq_value fst_conv inj_onD prod.inject snd_conv)
  then show ?thesis by (force simp: om_del_def)
qed

lemma mirrors_destroy:
  assumes "mirrors S e tb" and "i \<in> entities e" and "small_ids e"
  shows "\<exists>tb'. handle_message (destroy_packet i) tb = Inr tb' \<and> mirrors (S - {i}) (destroyEntity i e) tb' \<and>
    getGameState (tb_engine tb') = getGameState (tb_engine tb)"
proof -
  note m = mirrorsD[OF assms(1)]
  let ?k = "word_of_nat i :: u64"
  let ?b = "tb_serverToClient tb" and ?cs = "client_store tb"
  have narrow: "(word_of_nat l :: u64) = ?k \<longleftrightarrow> l = i" if "l \<in> S" for l
    using narrowed_in[OF assms(3), of "{i}" l] assms(2) m(4) that by auto
  have dest: "shows_entity e l (destroyEntity i e) l" if "l \<noteq> i" for l
    using that get_destroy[OF store_wf[OF m(1)], of _ l i] by (simp add: shows_entity_def)
  have server: "mirrors (S - {i}) (destroyEntity i e) tb'" if "mirrors (S - {i}) e tb'" for tb'
  proof (rule mirrors_server[OF that])
    show "game_store (destroyEntity i e)" using destroy_store(1)[OF m(1)] .
    show "S - {i} \<subseteq> entities (destroyEntity i e)" using m(4) by (auto simp: destroy_store(2))
    show "shows_entity e l (destroyEntity i e) l" if "l \<in> S - {i}" for l using that dest by simp
  qed
  show ?thesis
  proof (cases "map_of ?b ?k")
    case None
    then have "?k \<notin> word_of_nat ` S" using mirrors_bound[OF assms(1), of ?k] by (metis om_has_def)
    then have "S - {i} = S" by auto
    with None server[of tb] assms(1) show ?thesis by (simp add: destroy_packet_def handleDestroy_def)
  next
    case (Some j)
    define tb' where "tb' = tb\<lparr>tb_serverToClient := om_del ?k ?b, tb_engine := engine_destroyEntity j (tb_engine tb)\<rparr>"
    have tb': "client_store tb' = destroyEntity j ?cs" "tb_serverToClient tb' = om_del ?k ?b"
      "tb_componentFactory tb' = tb_componentFactory tb" "getGameState (tb_engine tb') = getGameState (tb_engine tb)"
      by (simp_all add: tb'_def engine_destroyEntity_def on_ecs_def getGameState_def)
    have "mirrors (S - {i}) e tb'"
      unfolding mirrors_def tb'
    proof (intro conjI)
      show "distinct (map snd (om_del ?k ?b))" using m(6) by (simp add: om_del_def distinct_map_filter)
      show "fst ` set (om_del ?k ?b) = word_of_nat ` (S - {i})"
      proof -
        have "fst ` set (om_del ?k ?b) = fst ` set ?b - {?k}" by (auto simp: om_del_def)
        also have "\<dots> = word_of_nat ` (S - {i})" unfolding m(7) using narrow by auto
        finally show ?thesis .
      qed
      show "snd ` set (om_del ?k ?b) = entities (destroyEntity j ?cs)"
        using snd_om_del[OF om_wf_distinct[OF m(5)] m(6) Some] m(8) by (simp add: destroy_store(2))
      show "\<forall>l \<in> S - {i}. \<forall>n. map_of (om_del ?k ?b) (word_of_nat l) = Some n \<longrightarrow> shows_entity e l (destroyEntity j ?cs) n"
      proof (intro ballI allI impI)
        fix l n assume l: "l \<in> S - {i}" "map_of (om_del ?k ?b) (word_of_nat l) = Some n"
        then have n: "map_of ?b (word_of_nat l) = Some n" by (simp split: if_splits)
        have "n \<in> snd ` set (om_del ?k ?b)" using map_of_SomeD[OF l(2)] by force
        with snd_om_del[OF om_wf_distinct[OF m(5)] m(6) Some] have "n \<noteq> j" by simp
        then have "shows_entity ?cs n (destroyEntity j ?cs) n"
          using get_destroy[OF store_wf[OF m(2)], of _ n j] by (simp add: shows_entity_def)
        moreover have "shows_entity e l ?cs n" using m(9)[of l n] l(1) n by simp
        ultimately show "shows_entity e l (destroyEntity j ?cs) n" unfolding shows_entity_def by simp
      qed
    qed (use m destroy_store(1)[OF m(2)] in auto)
    with server have "mirrors (S - {i}) (destroyEntity i e) tb'" by blast
    with Some tb' show ?thesis
      by (intro exI[of _ tb']) (simp add: destroy_packet_def handleDestroy_def tb'_def)
  qed
qed

lemma mirrors_destroys:
  assumes "mirrors S e tb" and "set ids \<subseteq> entities e" and "distinct ids" and "small_ids e"
  shows "\<exists>tb'. handle_messages (map destroy_packet ids) tb = Inr tb' \<and> mirrors (S - set ids) (fold destroyEntity ids e) tb' \<and>
    getGameState (tb_engine tb') = getGameState (tb_engine tb)"
  using assms
proof (induction ids arbitrary: S e tb)
  case (Cons i ids)
  obtain tb1 where tb1: "handle_message (destroy_packet i) tb = Inr tb1" "mirrors (S - {i}) (destroyEntity i e) tb1"
      "getGameState (tb_engine tb1) = getGameState (tb_engine tb)"
    using mirrors_destroy[OF Cons.prems(1) _ Cons.prems(4), of i] Cons.prems(2) by auto
  moreover have "set ids \<subseteq> entities (destroyEntity i e)" "small_ids (destroyEntity i e)"
    using Cons.prems by (auto simp: destroy_store(2) small_ids_def)
  moreover have "S - {i} - set ids = S - set (i # ids)" by auto
  ultimately show ?case using Cons.IH[OF tb1(2)] Cons.prems(3) by auto
qed simp

section \<open>Updates\<close>

lemma mirrors_on_store:
  assumes "mirrors S e tb" and "alike (client_store tb) (f (client_store tb))"
  shows "mirrors S e (on_store f tb)"
  by (rule mirrors_alike_client[OF assms(1)]) (use assms(2) in \<open>simp_all add: on_store_def on_ecs_def\<close>)

lemma on_store_state [simp]: "getGameState (tb_engine (on_store f tb)) = getGameState (tb_engine tb)"
  by (simp add: on_store_def)

lemma touched_target: "touched e (put_target_at k t e)"
  using touched_assign[of "C_TargetPos t" e k] by (simp add: put_target_at_def)

lemma alike_update: "alike e (update_velocity packet i (update_target packet i e))"
proof -
  have "touched e (update_target packet i e)" for e :: "client_system store"
    by (auto simp: update_target_def move_towards_def Let_def touched_target touching split: option.split)
  moreover have "touched e (update_velocity packet i e)" for e :: "client_system store"
    by (auto simp: update_velocity_def touching split: option.split)
  ultimately show ?thesis by (meson alike_touched alike_trans)
qed

lemma mirrors_position:
  assumes "mirrors S e tb"
  shows "\<exists>tb'. handle_message (V_UpdatePosition packet) tb = Inr tb' \<and> mirrors S e tb' \<and>
    getGameState (tb_engine tb') = getGameState (tb_engine tb)"
proof -
  have "mirrors S e (on_store (\<lambda>e. update_velocity packet i (update_target packet i e)) tb)" for i
    using assms by (rule mirrors_on_store) (rule alike_update)
  with assms show ?thesis by (simp add: handleUpdatePosition_def split: option.split)
qed

lemma mirrors_game_state:
  assumes "mirrors S e tb"
  shows "\<exists>tb'. handle_message (V_UpdateGameState \<lparr>ug_gameState = s\<rparr>) tb = Inr tb' \<and> mirrors S e tb' \<and>
    getGameState (tb_engine tb') = s"
  using assms by (simp add: handleUpdateGameState_def mirrors_state)

text \<open>The acknowledgement of a join marks the entity of the player.\<close>

lemma mirrors_ack:
  assumes "mirrors S e tb" and "i \<in> S"
  shows "\<exists>tb' j. handle_message (V_JoinAck \<lparr>ja_id = word_of_nat i, ja_roomId = r, ja_gameState = s, ja_status = t\<rparr>) tb = Inr tb' \<and>
    mirrors S e tb' \<and> getGameState (tb_engine tb') = s \<and> getMenuState (tb_engine tb') = ucast (menu_state_value MenuLobby) \<and>
    map_of (tb_serverToClient tb') (word_of_nat i) = Some j \<and>
    (om_has (e_components (client_store tb)) (cid Me) \<longrightarrow> getEntityComponent (cid Me) j (client_store tb') = Some C_Me)"
proof -
  let ?b = "tb_serverToClient tb"
  note m = mirrorsD[OF assms(1)]
  have "om_has ?b (word_of_nat i)" using mirrors_bound[OF assms(1)] assms(2) by simp
  then obtain j where j: "map_of ?b (word_of_nat i) = Some j" by (auto simp: om_has_def)
  then have "om_has (e_entities (client_store tb)) j"
    using m(8) by (force simp: set_getAllEntities dest: map_of_SomeD)
  define tb1 where "tb1 = tb\<lparr>tb_engine := setMenuState (ucast (menu_state_value MenuLobby)) (setGameState s (tb_engine tb))\<rparr>"
  have tb1: "client_store tb1 = client_store tb" "tb_serverToClient tb1 = ?b" "getGameState (tb_engine tb1) = s"
    "getMenuState (tb_engine tb1) = ucast (menu_state_value MenuLobby)" "tb_componentFactory tb1 = tb_componentFactory tb"
    by (simp_all add: tb1_def setMenuState_def setGameState_def getGameState_def getMenuState_def)
  have "mirrors S e tb1" by (rule mirrors_alike_client[OF assms(1)]) (simp_all add: tb1)
  moreover have "alike (client_store tb1) (add_component j C_Me (client_store tb1))"
    by (rule alike_add) (simp add: GameComponents_def)
  ultimately have ok: "mirrors S e (on_store (add_component j C_Me) tb1)" by (rule mirrors_on_store)
  have st: "client_store (on_store (add_component j C_Me) tb1) = add_component j C_Me (client_store tb)"
    by (simp add: on_store_def tb1(1))
  have "getEntityComponent (cid Me) j (client_store (on_store (add_component j C_Me) tb1)) = Some C_Me"
    if "om_has (e_components (client_store tb)) (cid Me)"
    unfolding st using that \<open>om_has (e_entities (client_store tb)) j\<close>
      get_addEntity[OF store_wf[OF m(2)], of "cid Me" j j "pack [C_Me]"]
    by (simp add: add_component_def pack_def)
  moreover have "getMenuState (tb_engine (on_store (add_component j C_Me) tb1)) = ucast (menu_state_value MenuLobby)"
    using tb1(4) by (simp add: on_store_def on_ecs_def getMenuState_def)
  ultimately show ?thesis using ok j tb1(2,3)
    by (intro exI[of _ "on_store (add_component j C_Me) tb1"] exI[of _ j])
      (simp add: handleJoinAck_def om_has_def tb1_def on_store_def)
qed

end
