(* ===== verification/ClientSystems.thy ===== *)
theory ClientSystems
  imports ClientMirror Decimal "HOL-Library.Signed_Division"
begin

text \<open>
  The systems of the client (\<^verbatim>\<open>Client/src/systems\<close>) and the buttons of its menus
  (\<^verbatim>\<open>Client/src/gui/button.cpp\<close>).  What raylib reads from the machine in one frame is the
  record \<open>raylib\<close>; what the renderer and the menus draw is the list of their calls, without
  the colours and the widths of the lines.  The messages that a system pushes on the service for
  outgoing messages are part of its result.
\<close>

section \<open>Input of a frame\<close>

datatype keyboard_key = KEY_UP | KEY_DOWN | KEY_LEFT | KEY_RIGHT | KEY_SPACE | KEY_R | KEY_H
datatype mouse_button = MOUSE_LEFT_BUTTON | MOUSE_RIGHT_BUTTON

record rectangle =
  rc_x :: float32
  rc_y :: float32
  rc_width :: float32
  rc_height :: float32

datatype texture = Player_texture nat | Game_texture nat

text \<open>\<open>rl_hover\<close> is \<open>CheckCollisionPointRec(GetMousePosition(), _)\<close>; \<open>rl_textureSize\<close> is the size of an image
  that was loaded.\<close>

record raylib =
  rl_frameTime :: float32
  rl_keyDown :: "keyboard_key \<Rightarrow> bool"
  rl_mouseDown :: "mouse_button \<Rightarrow> bool"
  rl_mouseX :: int
  rl_mouseY :: int
  rl_hover :: "rectangle \<Rightarrow> bool"
  rl_windowShouldClose :: bool
  rl_textureSize :: "texture \<Rightarrow> int \<times> int"

section \<open>Animations\<close>

fun as_animation :: "component \<Rightarrow> animation" where
  "as_animation (C_Animation a) = a"
| "as_animation _ = \<lparr>an_frame_count = 0, an_current_frame = 0, an_frame_time = 0, an_elapsed_time = 0,
     an_frame_width = 0, an_frame_height = 0, an_loop = False\<rparr>"

definition put_animation_at :: "nat \<Rightarrow> animation \<Rightarrow> 's store \<Rightarrow> 's store" where
  "put_animation_at k a = ecs_assign (cid Animation) k (C_Animation a)"

text \<open>The frames are of type \<open>int\<close>: the comparison is signed and \<open>%\<close> truncates.\<close>

definition next_frame :: "animation \<Rightarrow> animation" where
  "next_frame a =
     (if an_loop a \<or> sint (an_current_frame a) < sint (an_frame_count a - 1)
      then a\<lparr>an_current_frame := word_of_int (sint (an_current_frame a + 1) smod sint (an_frame_count a))\<rparr>
      else a)"

definition animate :: "float32 \<Rightarrow> animation \<Rightarrow> animation" where
  "animate dt a0 =
     (let a = a0\<lparr>an_elapsed_time := f32_add (an_elapsed_time a0) dt\<rparr> in
      if f32_le (an_frame_time a) (an_elapsed_time a) then next_frame (a\<lparr>an_elapsed_time := 0\<rparr>) else a)"

definition animate_at :: "float32 \<Rightarrow> nat \<Rightarrow> 's store \<Rightarrow> 's store" where
  "animate_at dt k e = put_animation_at k (animate dt (as_animation (ecs_deref (cid Animation) k e))) e"

definition AnimationSystem_apply :: "raylib \<Rightarrow> 's store \<Rightarrow> 's store" where
  "AnimationSystem_apply rl e =
     (let dt = rl_frameTime rl in
      group_apply (\<lambda>_ refs. animate_at dt (refs ! 0)) (ecs_group [cid Animation] e) e)"

section \<open>Interpolation\<close>

text \<open>\<open>std::abs\<close> of a \<open>float\<close>; the literal \<open>0.1f\<close> is \<open>0x3DCCCCCD\<close>.\<close>

definition f32_abs :: "float32 \<Rightarrow> float32" where
  "f32_abs x = x AND 0x7FFFFFFF"

definition interpolate :: "float32 \<Rightarrow> float32 \<Rightarrow> float32 \<Rightarrow> float32" where
  "interpolate dt target x =
     (let interpolationSpeed = f32_of_int 10;
          x1 = f32_add x (f32_mul (f32_mul (f32_sub target x) interpolationSpeed) dt)
      in if f32_less (f32_abs (f32_sub target x1)) 0x3DCCCCCD then target else x1)"

definition interpolate_entity :: "raylib \<Rightarrow> nat list \<Rightarrow> 's store \<Rightarrow> 's store" where
  "interpolate_entity rl refs e =
     (let dt = rl_frameTime rl; pos = position_at (refs ! 0) e; target = target_at (refs ! 1) e in
      put_position_at (refs ! 0)
        (pos\<lparr>pos_x := interpolate dt (tp_x target) (pos_x pos), pos_y := interpolate dt (tp_y target) (pos_y pos)\<rparr>) e)"

definition Interpolation_apply :: "raylib \<Rightarrow> 's store \<Rightarrow> 's store" where
  "Interpolation_apply rl e =
     group_apply (\<lambda>_. interpolate_entity rl) (ecs_group (map cid [Position, TargetPos]) e) e"

section \<open>Input\<close>

datatype button_state = UP | DOWN | RELEASED | PRESSED

primrec button_state_value :: "button_state \<Rightarrow> u8" where
  "button_state_value UP = 0"
| "button_state_value DOWN = 1"
| "button_state_value RELEASED = 2"
| "button_state_value PRESSED = 3"

definition STATE_CHANGED_BIT :: u8 where "STATE_CHANGED_BIT = 2"

text \<open>\<open>static_cast<button::State>\<close> of a number with the two lowest bits.\<close>

definition button_state_of :: "u8 \<Rightarrow> button_state" where
  "button_state_of n = (if n = 0 then UP else if n = 1 then DOWN else if n = 2 then RELEASED else PRESSED)"

definition updateState :: "bool \<Rightarrow> button_state \<Rightarrow> button_state" where
  "updateState isDown previousState =
     (let DOWN_BIT = button_state_value DOWN;
          prevDown = (button_state_value previousState AND DOWN_BIT = DOWN_BIT);
          out = (if isDown \<noteq> prevDown then STATE_CHANGED_BIT else 0)
      in button_state_of (out OR (if isDown then 1 else 0)))"

definition updateButtonState :: "raylib \<Rightarrow> keyboard_key \<Rightarrow> button_state \<Rightarrow> button_state" where
  "updateButtonState rl key = updateState (rl_keyDown rl key)"

definition updateMouseButtonState :: "raylib \<Rightarrow> mouse_button \<Rightarrow> button_state \<Rightarrow> button_state" where
  "updateMouseButtonState rl key = updateState (rl_mouseDown rl key)"

record io_value =
  io_up :: button_state
  io_down :: button_state
  io_left :: button_state
  io_right :: button_state
  io_action1 :: button_state
  io_action2 :: button_state
  io_hitbox :: button_state
  io_mouse_x :: float32
  io_mouse_y :: float32
  io_leftButton :: button_state
  io_rightButton :: button_state

definition new_io_value :: io_value where
  "new_io_value =
     \<lparr>io_up = UP, io_down = UP, io_left = UP, io_right = UP, io_action1 = UP, io_action2 = UP, io_hitbox = UP,
      io_mouse_x = 0, io_mouse_y = 0, io_leftButton = UP, io_rightButton = UP\<rparr>"

text \<open>The system, with the local variable \<open>show\<close> that is static.\<close>

record io_system =
  io_input :: io_value
  io_show :: bool

definition read_input :: "raylib \<Rightarrow> io_value \<Rightarrow> io_value" where
  "read_input rl v =
     \<lparr>io_up = updateButtonState rl KEY_UP (io_up v), io_down = updateButtonState rl KEY_DOWN (io_down v),
      io_left = updateButtonState rl KEY_LEFT (io_left v), io_right = updateButtonState rl KEY_RIGHT (io_right v),
      io_action1 = updateButtonState rl KEY_SPACE (io_action1 v),
      io_action2 = updateButtonState rl KEY_R (io_action2 v),
      io_hitbox = updateButtonState rl KEY_H (io_hitbox v),
      io_mouse_x = f32_of_int (rl_mouseX rl), io_mouse_y = f32_of_int (rl_mouseY rl),
      io_leftButton = updateMouseButtonState rl MOUSE_LEFT_BUTTON (io_leftButton v),
      io_rightButton = updateMouseButtonState rl MOUSE_RIGHT_BUTTON (io_rightButton v)\<rparr>"

definition is_held :: "button_state \<Rightarrow> bool" where
  "is_held s \<longleftrightarrow> s = DOWN \<or> s = PRESSED"

definition bit_if :: "bool \<Rightarrow> game_input \<Rightarrow> u8 \<Rightarrow> u8" where
  "bit_if b i m = (if b then m OR game_input_value i else m)"

definition mask_of_input :: "io_value \<Rightarrow> u8" where
  "mask_of_input v =
     bit_if (io_action1 v = PRESSED) kShoot
       (bit_if (is_held (io_right v)) kRight
         (bit_if (is_held (io_left v)) kLeft
           (bit_if (is_held (io_down v)) kDown
             (bit_if (is_held (io_up v)) kUp 0))))"

definition put_hitbox_at :: "nat \<Rightarrow> hitbox \<Rightarrow> 's store \<Rightarrow> 's store" where
  "put_hitbox_at k h = ecs_assign (cid Hitbox) k (C_Hitbox h)"

definition show_hitboxes :: "bool \<Rightarrow> 's store \<Rightarrow> 's store" where
  "show_hitboxes show e =
     group_apply (\<lambda>_ refs e. put_hitbox_at (refs ! 0) ((hitbox_at (refs ! 0) e)\<lparr>hb_shown := show\<rparr>) e)
       (ecs_group [cid Hitbox] e) e"

definition IO_apply :: "raylib \<Rightarrow> io_system \<Rightarrow> 's store \<Rightarrow> io_system \<times> 's store \<times> client_variant list" where
  "IO_apply rl io e =
     (let v = read_input rl (io_input io); toggle = (io_hitbox v = PRESSED);
          show = (if toggle then \<not> io_show io else io_show io);
          e' = (if toggle then show_hitboxes show e else e)
      in (\<lparr>io_input = v, io_show = show\<rparr>, e',
          if mask_of_input v = 0 then [] else [V_UserInput \<lparr>input_mask = mask_of_input v\<rparr>]))"

section \<open>Menus\<close>

text \<open>What \<open>Button::render\<close> and \<open>LobbyButton::render\<close> return; their drawing is in the last section.\<close>

definition button_render :: "raylib \<Rightarrow> rectangle \<Rightarrow> bool" where
  "button_render rl bounds = (rl_hover rl bounds \<and> rl_mouseDown rl MOUSE_LEFT_BUTTON)"

definition rect :: "int \<Rightarrow> int \<Rightarrow> int \<Rightarrow> int \<Rightarrow> rectangle" where
  "rect x y w h = \<lparr>rc_x = f32_of_int x, rc_y = f32_of_int y, rc_width = f32_of_int w, rc_height = f32_of_int h\<rparr>"

definition PLAY_BUTTON :: rectangle where "PLAY_BUTTON = rect 710 240 500 150"
definition START_BUTTON :: rectangle where "START_BUTTON = rect 710 465 500 150"
definition CREDITS_BUTTON :: rectangle where "CREDITS_BUTTON = rect 710 690 500 150"
definition CREATE_BUTTON :: rectangle where "CREATE_BUTTON = rect 1300 300 500 150"

text \<open>\<open>client::Lobby\<close>: the page of lobbies that the server sent last.\<close>

record client_lobby =
  cy_roomIds :: "u32 list"
  cy_page :: u32
  cy_maxPage :: u32

record lobby_button =
  lbt_roomId :: u16
  lbt_bounds :: rectangle

definition LOBBY_PER_LINE :: nat where "LOBBY_PER_LINE = 5"

definition lobby_bounds :: "float32 \<Rightarrow> float32 \<Rightarrow> rectangle" where
  "lobby_bounds column row =
     \<lparr>rc_x = f32_add (f32_of_int 310) (f32_mul (f32_of_int 180) column),
      rc_y = f32_add (f32_of_int 340) (f32_mul (f32_of_int 156) row),
      rc_width = f32_of_int 140, rc_height = f32_of_int 116\<rparr>"

text \<open>The loop over the identifiers, from the one with number \<open>i\<close> (counted from one).\<close>

primrec make_lobby_buttons :: "u32 list \<Rightarrow> nat \<Rightarrow> float32 \<Rightarrow> float32 \<Rightarrow> lobby_button list" where
  "make_lobby_buttons [] i column row = []"
| "make_lobby_buttons (roomId # ids) i column row =
     (let column1 = f32_add column (f32_of_int 1);
          newLine = (i mod LOBBY_PER_LINE = 0);
          row' = (if newLine then f32_add row (f32_of_int 1) else row);
          column' = (if newLine then 0 else column1)
      in \<lparr>lbt_roomId = ucast roomId, lbt_bounds = lobby_bounds column row\<rparr> #
         make_lobby_buttons ids (i + 1) column' row')"

definition username :: bytes where
  "username = map (\<lambda>c. of_char c) ''username''"

definition renderLobbyList ::
    "raylib \<Rightarrow> client_lobby \<Rightarrow> lobby_button list \<Rightarrow> lobby_button list \<times> client_variant list" where
  "renderLobbyList rl lobby buttons0 =
     (let buttons = (if buttons0 = [] then make_lobby_buttons (cy_roomIds lobby) 1 0 0 else buttons0);
          create = (if button_render rl CREATE_BUTTON
                    then [V_Join \<lparr>join_username = username, join_room_id = 256\<rparr>] else []);
          joins = map (\<lambda>b. V_Join \<lparr>join_username = username, join_room_id = lbt_roomId b\<rparr>)
            (filter (\<lambda>b. button_render rl (lbt_bounds b)) buttons)
      in (buttons, create @ joins))"

definition renderHomeMenu :: "raylib \<Rightarrow> 's engine \<Rightarrow> 's engine \<times> client_variant list" where
  "renderHomeMenu rl en =
     (if button_render rl PLAY_BUTTON
      then (setMenuState (ucast (menu_state_value MenuJoin)) en, [V_LobbyList \<lparr>ll_page = 0\<rparr>])
      else (en, []))"

definition renderPreGameMenu :: "raylib \<Rightarrow> client_variant list" where
  "renderPreGameMenu rl = (if button_render rl START_BUTTON then [V_Start] else [])"

text \<open>The state of the menu is read once, before the three tests.\<close>

definition MenuRenderer_apply ::
    "raylib \<Rightarrow> client_lobby \<Rightarrow> lobby_button list \<Rightarrow> 's engine \<Rightarrow> lobby_button list \<times> 's engine \<times> client_variant list" where
  "MenuRenderer_apply rl lobby buttons en =
     (if getGameState en = ucast (game_state_value GameRunning) \<or> rl_windowShouldClose rl then (buttons, en, [])
      else
        let menuState = getMenuState en;
            started = (if menuState = ucast (menu_state_value MenuLobby) then renderPreGameMenu rl else []);
            (buttons', joins) = (if menuState = ucast (menu_state_value MenuJoin)
              then renderLobbyList rl lobby buttons else (buttons, []));
            (en', lists) = (if menuState = ucast (menu_state_value MenuHome) then renderHomeMenu rl en else (en, []))
        in (buttons', en', started @ joins @ lists))"

section \<open>The renderer\<close>

text \<open>\<open>AssetManager::getTexture\<close>: the textures of the players are a vector of four, the others one of
  three; the result is the texture, and \<open>None\<close> a read beyond the end.\<close>

definition getTexture :: "u32 \<Rightarrow> nat \<Rightarrow> (texture \<times> nat) option" where
  "getTexture type players =
     (if type = entity_type_value kPlayer then (if players < 4 then Some (Player_texture players, players + 1) else None)
      else Some (Game_texture (if 3 \<le> unat type then 0 else unat type), players))"

fun as_sprite :: "component \<Rightarrow> sprite" where
  "as_sprite (C_Sprite s) = s"
| "as_sprite _ = \<lparr>spr_type = 0\<rparr>"

text \<open>The calls that draw, in the order of their first use: \<open>DrawTexture\<close> of the background,
  \<open>DrawRectangleLinesEx\<close>, \<open>DrawTexturePro\<close> with the part of the texture and the place on the screen,
  \<open>DrawTextureEx\<close> of the image of a button, \<open>DrawTextEx\<close> with the size, and the rounded rectangles.\<close>

datatype draw_call =
    Begin_drawing | Clear_background | Draw_background
  | Draw_outline rectangle
  | Draw_texture texture rectangle rectangle
  | Draw_image string float32 float32
  | Draw_text string float32 float32 int
  | Draw_rounded rectangle
  | Draw_rounded_lines rectangle
  | End_drawing

text \<open>The product of the frame and the width is one of type \<open>int\<close>.\<close>

definition source_rect :: "raylib \<Rightarrow> texture \<Rightarrow> 's store \<Rightarrow> nat \<Rightarrow> rectangle" where
  "source_rect rl tex e i =
     (case getEntityWithComponent Animation i e of
        None \<Rightarrow> (case rl_textureSize rl tex of (w, h) \<Rightarrow> rect 0 0 w h)
      | Some k \<Rightarrow>
          let anim = as_animation (ecs_deref (cid Animation) k e)
          in rect (sint (an_current_frame anim * an_frame_width anim)) 0 (sint (an_frame_width anim))
               (sint (an_frame_height anim)))"

definition scale_to :: "float32 \<Rightarrow> float32 \<Rightarrow> float32" where
  "scale_to box source = (if \<not> f32_eq source 0 then f32_div box source else f32_of_int 1)"

definition draw_sprite :: "raylib \<Rightarrow> texture \<Rightarrow> 's store \<Rightarrow> nat \<Rightarrow> position \<Rightarrow> draw_call list" where
  "draw_sprite rl tex e i pos =
     (let source = source_rect rl tex e i;
          dest = (\<lambda>scaleX scaleY. \<lparr>rc_x = pos_x pos, rc_y = pos_y pos,
            rc_width = f32_mul (rc_width source) scaleX, rc_height = f32_mul (rc_height source) scaleY\<rparr>)
      in case getEntityWithComponent Hitbox i e of
           None \<Rightarrow> [Draw_texture tex source (dest (f32_of_int 1) (f32_of_int 1))]
         | Some k \<Rightarrow>
             let hb = hitbox_at k e in
             (if hb_shown hb
              then [Draw_outline \<lparr>rc_x = pos_x pos, rc_y = pos_y pos, rc_width = hb_width hb, rc_height = hb_height hb\<rparr>]
              else []) @
             [Draw_texture tex source
                (dest (scale_to (hb_width hb) (rc_width source)) (scale_to (hb_height hb) (rc_height source)))])"

text \<open>The state of the walk: the number of players drawn and the calls so far.\<close>

definition draw_entity ::
    "raylib \<Rightarrow> 's store \<Rightarrow> nat \<Rightarrow> nat list \<Rightarrow> (nat \<times> draw_call list) option \<Rightarrow> (nat \<times> draw_call list) option" where
  "draw_entity rl e i refs drawn =
     Option.bind drawn (\<lambda>(players, calls).
       map_option (\<lambda>(tex, players'). (players', calls @ draw_sprite rl tex e i (position_at (refs ! 1) e)))
         (getTexture (spr_type (as_sprite (ecs_deref (cid Sprite) (refs ! 0) e))) players))"

text \<open>Whether the loop has to stop, with the calls of the frame; \<open>None\<close> when a texture is read beyond the end.\<close>

definition Renderer_apply :: "raylib \<Rightarrow> bool \<Rightarrow> 's store \<Rightarrow> (bool \<times> draw_call list) option" where
  "Renderer_apply rl closing e =
     (if rl_windowShouldClose rl then Some (True, [])
      else map_option (\<lambda>(_, calls). (closing, calls))
        (group_apply (draw_entity rl e) (ecs_group (map cid [Sprite, Position]) e) 
          (Some (0, [Begin_drawing, Clear_background, Draw_background]))))"

section \<open>The drawing of the menus\<close>

text \<open>The images that \<open>AssetManager::init\<close> and the constructor of the menus load.\<close>

definition ASSET_FILEPATH_PREFIX :: string where "ASSET_FILEPATH_PREFIX = ''Client/assets''"

definition asset_textures :: "string list" where
  "asset_textures = map (\<lambda>f. ASSET_FILEPATH_PREFIX @ f) [''/sprites/player'', ''/sprites/enemyAerial.gif'', ''/sprites/bullet.gif'']"

definition asset_players :: "string list" where
  "asset_players = map (\<lambda>i. ASSET_FILEPATH_PREFIX @ ''/sprites/player'' @ show_nat (i + 1) @ ''.gif'') [0..<4]"

primrec texture_file :: "texture \<Rightarrow> string" where
  "texture_file (Player_texture i) = asset_players ! i"
| "texture_file (Game_texture i) = asset_textures ! i"

datatype menu_button = Play | Start_game | Credits | Create

primrec button_file :: "menu_button \<Rightarrow> string" where
  "button_file Play = ASSET_FILEPATH_PREFIX @ ''/buttons/play.png''"
| "button_file Start_game = ASSET_FILEPATH_PREFIX @ ''/buttons/start.png''"
| "button_file Credits = ASSET_FILEPATH_PREFIX @ ''/buttons/credits.png''"
| "button_file Create = ASSET_FILEPATH_PREFIX @ ''/buttons/create.png''"

primrec button_bounds :: "menu_button \<Rightarrow> rectangle" where
  "button_bounds Play = PLAY_BUTTON"
| "button_bounds Start_game = START_BUTTON"
| "button_bounds Credits = CREDITS_BUTTON"
| "button_bounds Create = CREATE_BUTTON"

definition draw_button :: "menu_button \<Rightarrow> draw_call list" where
  "draw_button b = [Draw_image (button_file b) (rc_x (button_bounds b)) (rc_y (button_bounds b))]"

text \<open>The number of the room is centred in its box; \<open>(_fontSize + SPACING) / 4\<close> is a division of \<open>int\<close>.\<close>

definition lobby_label :: "lobby_button \<Rightarrow> draw_call" where
  "lobby_label b =
     (let msg = show_nat (unat (lbt_roomId b)); bounds = lbt_bounds b; two = f32_of_int 2
      in Draw_text msg
           (f32_sub (f32_add (rc_x bounds) (f32_div (rc_width bounds) two)) (f32_of_int (int ((80 + 3) div 4 * length msg))))
           (f32_sub (f32_add (rc_y bounds) (f32_div (rc_height bounds) two)) (f32_of_int 40)) 80)"

definition draw_lobby_button :: "raylib \<Rightarrow> lobby_button \<Rightarrow> draw_call list" where
  "draw_lobby_button rl b =
     [lobby_label b] @ (if rl_hover rl (lbt_bounds b) then [Draw_rounded (lbt_bounds b)] else []) @
     [Draw_rounded_lines (lbt_bounds b)]"

definition draw_lobby_list :: "raylib \<Rightarrow> client_lobby \<Rightarrow> lobby_button list \<Rightarrow> draw_call list" where
  "draw_lobby_list rl lobby buttons =
     [Draw_text ''Lobby'' (f32_of_int 250) (f32_of_int 150) 120, Draw_rounded_lines (rect 230 300 1000 700)] @
     draw_button Create @ concat (map (draw_lobby_button rl) (fst (renderLobbyList rl lobby buttons)))"

text \<open>\<open>MenuRenderer::apply\<close> again, for what it draws.\<close>

definition MenuRenderer_draws :: "raylib \<Rightarrow> client_lobby \<Rightarrow> lobby_button list \<Rightarrow> 's engine \<Rightarrow> draw_call list" where
  "MenuRenderer_draws rl lobby buttons en =
     (if getGameState en = ucast (game_state_value GameRunning) \<or> rl_windowShouldClose rl
      then (if \<not> rl_windowShouldClose rl then [End_drawing] else [])
      else
        let menuState = getMenuState en in
        (if menuState = ucast (menu_state_value MenuLobby) then draw_button Start_game else []) @
        (if menuState = ucast (menu_state_value MenuJoin) then draw_lobby_list rl lobby buttons else []) @
        (if menuState = ucast (menu_state_value MenuHome) then draw_button Play @ draw_button Credits else []) @
        [End_drawing])"

end
