(* ===== verification/ClientFrame.thy ===== *)
theory ClientFrame
  imports ClientSystems DeadSweep
begin

text \<open>
  What the systems of the client do in a frame: the messages that the keys make, the frames of the
  animations, the bound on the players that can be drawn; and that none of them disturbs the
  mirror of the lobby.
\<close>

section \<open>The systems leave the mirror alone\<close>

lemma alike_group: "(\<And>i refs e. touched e (f i refs e)) \<Longrightarrow> alike e (group_apply f g e)"
  by (rule alike_touched) (rule touched_apply)

lemma touched_animation: "touched e (put_animation_at k a e)"
  using touched_assign[of "C_Animation a" e k] by (simp add: put_animation_at_def)

lemma touched_animate: "touched e (animate_at dt k e)"
  by (simp add: animate_at_def touched_animation)

lemma touched_hitbox: "touched e (put_hitbox_at k h e)"
  using touched_assign[of "C_Hitbox h" e k] by (simp add: put_hitbox_at_def)

lemma alike_systems:
  "alike e (AnimationSystem_apply rl e)" "alike e (Interpolation_apply rl e)" "alike e (show_hitboxes b e)"
  "alike e (fst (snd (IO_apply rl io e)))"
proof -
  show "alike e (AnimationSystem_apply rl e)" "alike e (Interpolation_apply rl e)" and h: "alike e (show_hitboxes b e)" for b
    by (simp_all add: AnimationSystem_apply_def Interpolation_apply_def show_hitboxes_def interpolate_entity_def Let_def
        alike_group touched_animate touched_hitbox touching)
  then show "alike e (fst (snd (IO_apply rl io e)))" by (simp add: IO_apply_def Let_def)
qed

section \<open>Keys\<close>

lemma update_held [simp]: "is_held (updateState b s) = b"
  by (cases s; cases b) (simp_all add: updateState_def Let_def STATE_CHANGED_BIT_def button_state_of_def is_held_def)

lemma update_pressed: "updateState b s = PRESSED \<longleftrightarrow> b \<and> \<not> is_held s"
  by (cases s; cases b) (simp_all add: updateState_def Let_def STATE_CHANGED_BIT_def button_state_of_def is_held_def)

lemma mask_pressed:
  assumes "input_mask m = mask_of_input v"
  shows "pressed kUp m = is_held (io_up v)" "pressed kDown m = is_held (io_down v)"
    "pressed kLeft m = is_held (io_left v)" "pressed kRight m = is_held (io_right v)"
    "pressed kShoot m = (io_action1 v = PRESSED)"
  using assms by (simp_all add: pressed_def mask_of_input_def bit_if_def)

lemma add_nonzero:
  "f32_finite a \<Longrightarrow> f32_finite b \<Longrightarrow> f32_scaled a + f32_scaled b \<noteq> 0 \<Longrightarrow>
    f32_add a b = f32_of_scaled (f32_scaled a + f32_scaled b)"
  by (auto simp: f32_finite_def f32_scaled_def f32_add_def Let_def split: fnum.splits)

lemma axis_value: "axis forth back m =
    f32_of_int ((if pressed forth m then 10 else 0) - (if pressed back m then 10 else 0))"
proof -
  have ten: "f32_of_int 10 = 0x41200000" "f32_of_int (- 10) = 0xC1200000" "f32_of_int 0 = 0"
    by (simp_all add: f32_of_int_def f32_of_scaled_def f32_round_def bit_length.simps f32_pack_def round_half_even_def
        f32_zero_def)
  have zero: "f32_add 0x41200000 0xC1200000 = 0" "f32_add 0 0 = 0"
    by (simp_all add: f32_add_def f32_unpack_def num_scaled_def f32_zero_def)
  have left: "f32_add (f32_of_int 10) 0 = f32_of_int 10"
    by (subst add_nonzero) (simp_all add: of_int_exact zero_scaled, simp add: f32_of_int_def)
  have right: "f32_add 0 (f32_of_int (- 10)) = f32_of_int (- 10)"
    by (subst add_nonzero) (simp_all add: of_int_exact zero_scaled, simp add: f32_of_int_def)
  show ?thesis
    using zero left right ten(3) by (simp add: axis_def flip: ten(1,2))
qed

lemma read_held:
  "is_held (io_up (read_input rl v)) = rl_keyDown rl KEY_UP" "is_held (io_down (read_input rl v)) = rl_keyDown rl KEY_DOWN"
  "is_held (io_left (read_input rl v)) = rl_keyDown rl KEY_LEFT" "is_held (io_right (read_input rl v)) = rl_keyDown rl KEY_RIGHT"
  "is_held (io_action1 (read_input rl v)) = rl_keyDown rl KEY_SPACE"
  "io_action1 (read_input rl v) = PRESSED \<longleftrightarrow> rl_keyDown rl KEY_SPACE \<and> \<not> is_held (io_action1 v)"
  by (simp_all add: read_input_def updateButtonState_def update_pressed)

lemma mask_zero: "mask_of_input v = 0 \<longleftrightarrow>
    \<not> is_held (io_up v) \<and> \<not> is_held (io_down v) \<and> \<not> is_held (io_left v) \<and> \<not> is_held (io_right v) \<and> io_action1 v \<noteq> PRESSED"
  by (simp add: mask_of_input_def bit_if_def)

text \<open>C11: the keys of the client steer the player of the server.  In the second of any two frames the client
  sends one input message exactly when an arrow is down or the space bar went down since the first
  frame, and nothing else; from that message the server sets each axis of the velocity to the
  difference of the two arrows, and shoots exactly when the space bar went down.\<close>

theorem keys_steer_player:
  defines "send rl io e \<equiv> snd (snd (IO_apply rl io e))" and "after rl io e \<equiv> fst (IO_apply rl io e)"
    and "moves rl \<equiv> rl_keyDown rl KEY_UP \<or> rl_keyDown rl KEY_DOWN \<or> rl_keyDown rl KEY_LEFT \<or> rl_keyDown rl KEY_RIGHT"
    and "shoots rl rl' \<equiv> rl_keyDown rl' KEY_SPACE \<and> \<not> rl_keyDown rl KEY_SPACE"
  shows "if moves rl2 \<or> shoots rl1 rl2
    then \<exists>m. send rl2 (after rl1 io e) e' = [V_UserInput m] \<and>
      axis kRight kLeft m = f32_of_int ((if rl_keyDown rl2 KEY_RIGHT then 10 else 0) - (if rl_keyDown rl2 KEY_LEFT then 10 else 0)) \<and>
      axis kDown kUp m = f32_of_int ((if rl_keyDown rl2 KEY_DOWN then 10 else 0) - (if rl_keyDown rl2 KEY_UP then 10 else 0)) \<and>
      pressed kShoot m = shoots rl1 rl2
    else send rl2 (after rl1 io e) e' = []"
proof -
  define v where "v = read_input rl1 (io_input io)"
  define w where "w = read_input rl2 v"
  have first: "after rl1 io e = \<lparr>io_input = v, io_show = io_show (after rl1 io e)\<rparr>"
    by (simp add: after_def IO_apply_def Let_def v_def)
  have out: "send rl2 (after rl1 io e) e' = (if mask_of_input w = 0 then [] else [V_UserInput \<lparr>input_mask = mask_of_input w\<rparr>])"
    unfolding send_def by (subst first) (simp add: IO_apply_def Let_def w_def)
  have "is_held (io_action1 v) = rl_keyDown rl1 KEY_SPACE" by (simp add: v_def read_held)
  then have shoot: "io_action1 w = PRESSED \<longleftrightarrow> rl_keyDown rl2 KEY_SPACE \<and> \<not> rl_keyDown rl1 KEY_SPACE"
    by (simp add: w_def read_held)
  note held = read_held(1-4)[of rl2 v, folded w_def]
  show ?thesis
    unfolding out using mask_zero[of w] held shoot mask_pressed[of "\<lparr>input_mask = mask_of_input w\<rparr>" w]
    by (auto simp: axis_value moves_def shoots_def)
qed

section \<open>Animations\<close>

text \<open>An animation of one of the entity types, at a frame of its strip.\<close>

definition frame_ok :: "animation \<Rightarrow> bool" where
  "frame_ok a \<longleftrightarrow> (\<exists>c \<in> snd ` set entityTypeToAnimation. an_frame_count a = ac_frameCount c \<and>
       an_frame_width a = ac_frameWidth c \<and> an_frame_height a = ac_frameHeight c) \<and>
     0 \<le> sint (an_current_frame a) \<and> sint (an_current_frame a) < sint (an_frame_count a)"

lemma new_animation_ok: "1 < sint (ac_frameCount (typeToAnimation t)) \<Longrightarrow> frame_ok (new_animation (typeToAnimation t))"
  by (auto simp: frame_ok_def new_animation_def typeToAnimation_def entityTypeToAnimation_def split: if_splits)

lemma animate_ok:
  assumes "frame_ok a"
  shows "frame_ok (animate dt a)"
proof -
  have step: "frame_ok (next_frame b)" if b: "frame_ok b" for b
  proof -
    let ?c = "sint (an_current_frame b)" and ?n = "sint (an_frame_count b)"
    have n: "0 \<le> ?c" "?c < ?n" "?n < 2 ^ 31" using b sint_lt[of "an_frame_count b"] by (simp_all add: frame_ok_def)
    have "sint (an_current_frame b + 1) = ?c + 1"
      using n by (simp add: sint_word_ariths signed_take_bit_int_eq_self)
    moreover have "(?c + 1) smod ?n = (?c + 1) mod ?n" using n by (simp add: signed_modulo_int_def sgn_if)
    moreover have "sint (word_of_int ((?c + 1) mod ?n) :: u32) = (?c + 1) mod ?n"
    proof -
      have "0 \<le> (?c + 1) mod ?n" "(?c + 1) mod ?n < ?n" using n by simp_all
      then show ?thesis using n(3) by (simp add: sint_sbintrunc' signed_take_bit_int_eq_self)
    qed
    ultimately show ?thesis
      using n b by (simp add: next_frame_def frame_ok_def)
  qed
  have "frame_ok (a\<lparr>an_elapsed_time := t\<rparr>)" for t using assms by (simp add: frame_ok_def)
  with step show ?thesis by (simp add: animate_def Let_def)
qed

definition frames_ok :: "(component, 's) ecs \<Rightarrow> bool" where
  "frames_ok e \<longleftrightarrow> (\<forall>i a. getEntityComponent (cid Animation) i e = Some (C_Animation a) \<longrightarrow> frame_ok a)"

text \<open>The same for every place of the dense vector, which a write through a reference keeps.\<close>

definition dense_ok :: "(component, 's) ecs \<Rightarrow> bool" where
  "dense_ok e \<longleftrightarrow> (\<forall>s. getComponent (cid Animation) e = Some s \<longrightarrow>
     (\<forall>x \<in> set (ss_dense s). type_of x = Animation \<and> frame_ok (as_animation x)))"

lemma as_animation_type: "type_of x = Animation \<Longrightarrow> x = C_Animation (as_animation x)"
  by (cases x) simp_all

lemma frames_dense:
  assumes "game_store e"
  shows "frames_ok e \<longleftrightarrow> dense_ok e"
proof -
  note wf = store_wf[OF assms]
  have typed: "typed_store e" using game_store_inv[OF assms] by blast
  have get: "getEntityComponent (cid Animation) i e = Some x \<longleftrightarrow>
      (\<exists>s k. getComponent (cid Animation) e = Some s \<and> k < length (ss_dense s) \<and> ss_entities s ! k = i \<and> ss_dense s ! k = x)" for i x
  proof (cases "getComponent (cid Animation) e")
    case (Some s)
    then have s: "ss_wf s" using ecs_invD(4)[OF wf] by (simp add: getComponent_def)
    with Some show ?thesis
      by (auto simp: getEntityComponent_def ss_get_slot ss_wfD(2)[OF s] ss_wfD(3)[OF s])
  qed (simp add: getEntityComponent_def)
  have kind: "type_of x = Animation" if "getEntityComponent (cid Animation) i e = Some x" for i x
    using typed that unfolding typed_store_def by (metis cid_inject)
  show ?thesis
  proof
    assume f: "frames_ok e"
    show "dense_ok e"
      unfolding dense_ok_def
    proof (intro allI impI ballI)
      fix s x assume s: "getComponent (cid Animation) e = Some s" "x \<in> set (ss_dense s)"
      then obtain k where "k < length (ss_dense s)" "ss_dense s ! k = x" by (auto simp: in_set_conv_nth)
      with s(1) have g: "getEntityComponent (cid Animation) (ss_entities s ! k) e = Some x" unfolding get by blast
      with f kind[OF g] as_animation_type[of x] show "type_of x = Animation \<and> frame_ok (as_animation x)"
        unfolding frames_ok_def by metis
    qed
  next
    assume d: "dense_ok e"
    show "frames_ok e"
      unfolding frames_ok_def get using d by (force simp: dense_ok_def dest: nth_mem)
  qed
qed

lemma dense_ok_animate:
  assumes "dense_ok e"
  shows "dense_ok (animate_at dt k e)"
proof (cases "getComponent (cid Animation) e")
  case (Some s)
  have keep: "frame_ok (animate dt (as_animation (ss_dense s ! k)))" if "k < length (ss_dense s)"
    using assms Some that by (intro animate_ok) (auto simp: dense_ok_def)
  have "type_of x = Animation \<and> frame_ok (as_animation x)"
    if "x \<in> set ((ss_dense s)[k := C_Animation (animate dt (as_animation (ss_dense s ! k)))])" for x
  proof (cases "k < length (ss_dense s)")
    case True
    with that set_update_subset_insert[of "ss_dense s" k] keep assms Some show ?thesis
      by (fastforce simp: dense_ok_def)
  next
    case False
    then have "x \<in> set (ss_dense s)" using that by (simp add: list_update_beyond)
    with assms Some show ?thesis by (simp add: dense_ok_def)
  qed
  with Some show ?thesis
    by (simp add: dense_ok_def animate_at_def put_animation_at_def ecs_assign_def getComponent_def ecs_deref_def)
next
  case None
  with assms show ?thesis by (simp add: animate_at_def put_animation_at_def ecs_assign_def)
qed

lemma frames_animated:
  assumes "game_store e" and "frames_ok e"
  shows "frames_ok (AnimationSystem_apply rl e)"
proof -
  have "dense_ok (fold (\<lambda>i. apply_helper (\<lambda>_ refs. animate_at dt (refs ! 0)) i (f i)) is e)" if "dense_ok e" for dt f "is" e
    using that
  proof (induction "is" arbitrary: e)
    case (Cons i "is")
    then show ?case by (simp add: apply_helper_def dense_ok_animate)
  qed simp
  then have "dense_ok (AnimationSystem_apply rl e)"
    using assms(2) frames_dense[OF assms(1)] by (simp add: AnimationSystem_apply_def Let_def group_apply_def)
  moreover have "game_store (AnimationSystem_apply rl e)"
    using alike_systems(1)[of e rl] assms(1) by (simp add: alike_def)
  ultimately show ?thesis by (simp add: frames_dense)
qed

section \<open>Drawing\<close>

definition player_sprites :: "(component, 's) ecs \<Rightarrow> nat set" where
  "player_sprites e = {i. getEntityComponent (cid Sprite) i e = Some (C_Sprite \<lparr>spr_type = entity_type_value kPlayer\<rparr>) \<and>
     getEntityComponent (cid Position) i e \<noteq> None}"

text \<open>The calls for a list of entities, from the one that finds \<open>n\<close> players drawn; \<open>at i\<close> is the texture of
  \<open>i\<close> as a function of that number, and its position.\<close>

primrec picture ::
    "raylib \<Rightarrow> 's store \<Rightarrow> (nat \<Rightarrow> bool) \<Rightarrow> (nat \<Rightarrow> sprite \<times> position) \<Rightarrow> nat \<Rightarrow> nat list \<Rightarrow> draw_call list" where
  "picture rl e P at n [] = []"
| "picture rl e P at n (i # is) =
     draw_sprite rl (case getTexture (spr_type (fst (at i))) n of None \<Rightarrow> undefined | Some (tex, _) \<Rightarrow> tex) e i (snd (at i)) @
     picture rl e P at (if P i then n + 1 else n) is"

lemma draw_fold:
  assumes "\<And>i. i \<in> set is \<Longrightarrow> \<exists>k q. f i = [Some k, Some q] \<and>
      at i = (as_sprite (ecs_deref (cid Sprite) k e), position_at q e) \<and> (spr_type (fst (at i)) = entity_type_value kPlayer) = P i"
  shows "fold (\<lambda>i. apply_helper (draw_entity rl e) i (f i)) is (Some (n, calls)) =
    (if filter P is \<noteq> [] \<and> 4 < n + length (filter P is) then None
     else Some (n + length (filter P is), calls @ picture rl e P at n is))"
  using assms
proof (induction "is" arbitrary: n calls)
  case (Cons i "is")
  let ?F = "\<lambda>i. apply_helper (draw_entity rl e) i (f i)"
  obtain k q where i: "f i = [Some k, Some q]" "at i = (as_sprite (ecs_deref (cid Sprite) k e), position_at q e)"
      "(spr_type (fst (at i)) = entity_type_value kPlayer) = P i" using Cons.prems[of i] by auto
  let ?here = "draw_sprite rl (case getTexture (spr_type (fst (at i))) n of None \<Rightarrow> undefined | Some (tex, _) \<Rightarrow> tex) e i (snd (at i))"
  have step: "?F i (Some (n, calls)) =
      (if P i then if n < 4 then Some (n + 1, calls @ ?here) else None else Some (n, calls @ ?here))"
    using i by (auto simp: apply_helper_def draw_entity_def getTexture_def)
  have stuck: "fold ?F js None = None" for js
    by (induction js) (simp_all add: apply_helper_def draw_entity_def)
  have IH: "fold ?F is (Some (m, cs)) = (if filter P is \<noteq> [] \<and> 4 < m + length (filter P is) then None
      else Some (m + length (filter P is), cs @ picture rl e P at m is))" for m cs
    using Cons.IH[of m cs] Cons.prems by simp
  show ?case
    using step stuck IH by (cases "filter P is") auto
qed simp

text \<open>The sprite and the position of an entity.\<close>

definition look :: "(component, 's) ecs \<Rightarrow> nat \<Rightarrow> sprite \<times> position" where
  "look e i = (as_sprite (the (getEntityComponent (cid Sprite) i e)), as_position (the (getEntityComponent (cid Position) i e)))"

abbreviation sprites :: "(component, 's) ecs \<Rightarrow> ref_view list" where
  "sprites e \<equiv> ecs_group (map cid [Sprite, Position]) e"

lemma drawn_entities:
  assumes "game_store e"
  shows "distinct (group_getEntities (sprites e))"
    and "set (group_getEntities (sprites e)) =
      {i. getEntityComponent (cid Sprite) i e \<noteq> None \<and> getEntityComponent (cid Position) i e \<noteq> None}"
  using ecs_group_facts[OF store_wf[OF assms], of "map cid [Sprite, Position]"] by auto

lemma group_instance:
  assumes "ecs_wf e" and "n < length cs" and "i \<in> set (group_getEntities (ecs_group cs e))"
  shows "\<exists>k. view_at (ecs_group cs e ! n) i = Some k \<and> getEntityComponent (cs ! n) i e = Some (ecs_deref (cs ! n) k e)"
proof -
  obtain k s where "view_at (ecs_group cs e ! n) i = Some k" "getComponent (cs ! n) e = Some s" "ss_ref s i = Some k"
    using group_ref[OF assms(1), of cs n i] assms(2,3) by (cases cs) fastforce+
  then show ?thesis
    using ref_instance[of e "cs ! n" s i k] by (simp add: getComponent_def ecs_deref_def)
qed

lemma sprite_entry:
  assumes "game_store e" and "i \<in> set (group_getEntities (sprites e))"
  shows "\<exists>k q. map (\<lambda>v. view_at v i) (sprites e) = [Some k, Some q] \<and>
    look e i = (as_sprite (ecs_deref (cid Sprite) k e), position_at q e) \<and>
    (spr_type (fst (look e i)) = entity_type_value kPlayer) = (i \<in> player_sprites e)"
proof -
  let ?g = "sprites e"
  note wf = store_wf[OF assms(1)]
  have typed: "typed_store e" using game_store_inv[OF assms(1)] by blast
  have "length ?g = 2" by (simp add: ecs_group_def length_make_group)
  then have two: "?g = [?g ! 0, ?g ! 1]" by (auto simp: length_Suc_conv numeral_2_eq_2)
  obtain k where k: "view_at (?g ! 0) i = Some k" "getEntityComponent (cid Sprite) i e = Some (ecs_deref (cid Sprite) k e)"
    using group_instance[OF wf _ assms(2), of 0] by auto
  obtain q where q: "view_at (?g ! 1) i = Some q" "getEntityComponent (cid Position) i e = Some (ecs_deref (cid Position) q e)"
    using group_instance[OF wf _ assms(2), of 1] by auto
  have "type_of (ecs_deref (cid Sprite) k e) = Sprite"
    using typed k(2) unfolding typed_store_def by (metis cid_inject)
  then obtain s where s: "ecs_deref (cid Sprite) k e = C_Sprite s" by (cases "ecs_deref (cid Sprite) k e") simp_all
  have "map (\<lambda>v. view_at v i) ?g = [view_at (?g ! 0) i, view_at (?g ! 1) i]"
    using arg_cong[OF two, of "map (\<lambda>v. view_at v i)"] unfolding list.map .
  then have "map (\<lambda>v. view_at v i) ?g = [Some k, Some q]" unfolding k(1) q(1) .
  moreover have "look e i = (as_sprite (ecs_deref (cid Sprite) k e), position_at q e)"
    unfolding look_def k(2) q(2) position_at_def by simp
  moreover have "(spr_type (fst (look e i)) = entity_type_value kPlayer) = (i \<in> player_sprites e)"
    unfolding look_def player_sprites_def mem_Collect_eq k(2) q(2) s by (cases s) simp
  ultimately show ?thesis by (intro exI[of _ k] exI[of _ q]) (intro conjI)
qed

lemma renderer_result:
  assumes "game_store e"
  shows "Renderer_apply rl closing e =
    (if rl_windowShouldClose rl then Some (True, [])
     else if 4 < card (player_sprites e) then None
     else Some (closing, [Begin_drawing, Clear_background, Draw_background] @
       picture rl e (\<lambda>i. i \<in> player_sprites e) (look e) 0 (group_getEntities (sprites e))))"
proof -
  let ?is = "group_getEntities (sprites e)" and ?P = "\<lambda>i. i \<in> player_sprites e"
  have "set (filter ?P ?is) = player_sprites e"
    using drawn_entities(2)[OF assms] by (auto simp: player_sprites_def)
  then have n: "length (filter ?P ?is) = card (player_sprites e)"
    using drawn_entities(1)[OF assms] by (metis distinct_card distinct_filter)
  have "(filter ?P ?is \<noteq> [] \<and> 4 < 0 + length (filter ?P ?is)) = (4 < card (player_sprites e))" using n by auto
  with draw_fold[of ?is "\<lambda>i. map (\<lambda>v. view_at v i) (sprites e)" "look e" e ?P rl 0 "[Begin_drawing, Clear_background, Draw_background]",
      OF sprite_entry[OF assms]] show ?thesis
    unfolding Renderer_apply_def group_apply_def by (simp only: split: if_splits) simp
qed

text \<open>C37: the client draws at most four players: it reads beyond the vector of the textures of the players
  exactly when the window is open and more than four entities with the sprite of a player are to be
  drawn.\<close>

theorem fifth_player_cannot_be_drawn:
  assumes "game_store e"
  shows "Renderer_apply rl closing e = None \<longleftrightarrow> \<not> rl_windowShouldClose rl \<and> 4 < card (player_sprites e)"
  unfolding renderer_result[OF assms] by simp

text \<open>The textures and the places of the calls that draw one.\<close>

fun texture_calls :: "draw_call list \<Rightarrow> (texture \<times> rectangle) list" where
  "texture_calls [] = []"
| "texture_calls (Draw_texture tex source dest # cs) = (tex, dest) # texture_calls cs"
| "texture_calls (_ # cs) = texture_calls cs"

definition drawn_as :: "(component, 's) ecs \<Rightarrow> nat \<Rightarrow> texture \<times> rectangle \<Rightarrow> bool" where
  "drawn_as e i d \<longleftrightarrow>
     (case look e i of (s, p) \<Rightarrow> rc_x (snd d) = pos_x p \<and> rc_y (snd d) = pos_y p \<and>
        (if spr_type s = entity_type_value kPlayer then fst d \<in> range Player_texture
         else fst d = Game_texture (if 3 \<le> unat (spr_type s) then 0 else unat (spr_type s))))"

definition player_textures :: "draw_call list \<Rightarrow> texture list" where
  "player_textures cs = filter (\<lambda>t. t \<in> range Player_texture) (map fst (texture_calls cs))"

lemma texture_calls_append: "texture_calls (xs @ ys) = texture_calls xs @ texture_calls ys"
  by (induction xs rule: texture_calls.induct) simp_all

lemma draw_sprite_texture:
  "\<exists>dest. texture_calls (draw_sprite rl tex e i pos) = [(tex, dest)] \<and> rc_x dest = pos_x pos \<and> rc_y dest = pos_y pos"
  by (auto simp: draw_sprite_def Let_def split: option.split)

lemma picture_textures:
  assumes "\<And>i. i \<in> set is \<Longrightarrow> (spr_type (fst (look e i)) = entity_type_value kPlayer) = P i"
    and "n + length (filter P is) \<le> 4"
  shows "list_all2 (drawn_as e) is (texture_calls (picture rl e P (look e) n is)) \<and>
    player_textures (picture rl e P (look e) n is) = map Player_texture [n..<n + length (filter P is)]"
  using assms
proof (induction "is" arbitrary: n)
  case (Cons i "is")
  define tex where "tex = (case getTexture (spr_type (fst (look e i))) n of None \<Rightarrow> undefined | Some (tex, _) \<Rightarrow> tex)"
  obtain dest where d: "texture_calls (draw_sprite rl tex e i (snd (look e i))) = [(tex, dest)]"
      "rc_x dest = pos_x (snd (look e i))" "rc_y dest = pos_y (snd (look e i))" using draw_sprite_texture by blast
  have here: "(spr_type (fst (look e i)) = entity_type_value kPlayer) = P i" using Cons.prems(1)[of i] by simp
  have t: "tex = (if P i then Player_texture n
      else Game_texture (if 3 \<le> unat (spr_type (fst (look e i))) then 0 else unat (spr_type (fst (look e i)))))"
    using here Cons.prems(2) by (auto simp: tex_def getTexture_def)
  have "drawn_as e i (tex, dest)" using d(2,3) here t by (auto simp: drawn_as_def split: prod.split)
  moreover have "list_all2 (drawn_as e) is (texture_calls (picture rl e P (look e) m is)) \<and>
      player_textures (picture rl e P (look e) m is) = map Player_texture [m..<m + length (filter P is)]"
    if "m + length (filter P is) \<le> 4" for m using Cons.IH[OF Cons.prems(1) that] by simp
  moreover have "map Player_texture [n..<n + Suc k] = Player_texture n # map Player_texture [Suc n..<Suc n + k]" for k
    by (simp add: upt_conv_Cons)
  ultimately show ?case
    using Cons.prems(2) d(1) t
    by (auto simp: player_textures_def texture_calls_append simp flip: tex_def)
qed (simp add: player_textures_def)

text \<open>What is drawn between the start and the end of a frame.\<close>

abbreviation brackets :: "draw_call set" where
  "brackets \<equiv> {Begin_drawing, End_drawing}"

lemma picture_inside: "set (picture rl e P at n is) \<inter> brackets = {}"
  by (induction "is" arbitrary: n) (auto simp: draw_sprite_def Let_def split: option.splits if_splits)

lemma menus_end_frame:
  assumes "\<not> rl_windowShouldClose rl"
  shows "\<exists>body. MenuRenderer_draws rl lobby buttons en = body @ [End_drawing] \<and> set body \<inter> brackets = {}"
  using assms
  by (auto simp: MenuRenderer_draws_def draw_button_def draw_lobby_list_def draw_lobby_button_def lobby_label_def Let_def
      split: if_splits)

text \<open>C18: a frame draws the whole scene: while the window is open and at most four players are to be drawn, the
  renderer draws the background and then, each exactly once, the entities that have a sprite and a
  position, at their positions, a player with a texture that no other player has and the others with
  the texture of their type; the menus end the frame, whatever they show, and nothing that is drawn
  stands outside the frame.\<close>

theorem frame_draws_every_sprite:
  assumes "game_store e" and "\<not> rl_windowShouldClose rl" and "card (player_sprites e) \<le> 4"
  shows "\<exists>calls order body. Renderer_apply rl closing e = Some (closing, calls) \<and> distinct order \<and>
    set order = {i. getEntityComponent (cid Sprite) i e \<noteq> None \<and> getEntityComponent (cid Position) i e \<noteq> None} \<and>
    list_all2 (drawn_as e) order (texture_calls calls) \<and>
    player_textures calls = map Player_texture [0..<card (player_sprites e)] \<and>
    calls @ MenuRenderer_draws rl lobby buttons en =
      [Begin_drawing, Clear_background, Draw_background] @ body @ [End_drawing] \<and> set body \<inter> brackets = {}"
proof -
  let ?is = "group_getEntities (sprites e)" and ?P = "\<lambda>i. i \<in> player_sprites e"
  let ?calls = "picture rl e ?P (look e) 0 ?is"
  have "set (filter ?P ?is) = player_sprites e"
    using drawn_entities(2)[OF assms(1)] by (auto simp: player_sprites_def)
  then have n: "length (filter ?P ?is) = card (player_sprites e)"
    using drawn_entities(1)[OF assms(1)] by (metis distinct_card distinct_filter)
  have player: "(spr_type (fst (look e i)) = entity_type_value kPlayer) = ?P i" if "i \<in> set ?is" for i
    using sprite_entry[OF assms(1) that] by blast
  have shown: "list_all2 (drawn_as e) ?is (texture_calls ?calls)"
      "player_textures ?calls = map Player_texture [0..<card (player_sprites e)]"
    using picture_textures[OF player, of ?is 0 rl] n assms(3) by auto
  obtain menu where menu: "MenuRenderer_draws rl lobby buttons en = menu @ [End_drawing]" "set menu \<inter> brackets = {}"
    using menus_end_frame[OF assms(2)] by blast
  show ?thesis
    unfolding renderer_result[OF assms(1)] menu(1)
    using assms(2,3) drawn_entities[OF assms(1)] shown menu(2) picture_inside[of rl e ?P "look e" 0 ?is]
    by (intro exI[of _ "[Begin_drawing, Clear_background, Draw_background] @ ?calls"] exI[of _ ?is]
        exI[of _ "?calls @ menu"]) (auto simp: player_textures_def)
qed

section \<open>Samples\<close>

definition sample_frame :: "(keyboard_key \<Rightarrow> bool) \<Rightarrow> raylib" where
  "sample_frame down = \<lparr>rl_frameTime = 0, rl_keyDown = down, rl_mouseDown = (\<lambda>_. False), rl_mouseX = 0, rl_mouseY = 0,
     rl_hover = (\<lambda>_. False), rl_windowShouldClose = False,
     rl_textureSize = (\<lambda>_. (33, 15))\<rparr>"

definition new_io :: io_system where "new_io = \<lparr>io_input = new_io_value, io_show = False\<rparr>"

theorem keys_steer_player_witness:
  "\<exists>m. snd (snd (IO_apply (sample_frame (\<lambda>k. k \<in> {KEY_RIGHT, KEY_SPACE}))
      (fst (IO_apply (sample_frame (\<lambda>_. False)) new_io (client_store new_toolbox))) (client_store new_toolbox))) = [V_UserInput m] \<and>
    axis kRight kLeft m = f32_of_int 10 \<and> pressed kShoot m"
  using keys_steer_player[of "sample_frame (\<lambda>k. k \<in> {KEY_RIGHT, KEY_SPACE})" "sample_frame (\<lambda>_. False)" new_io
      "client_store new_toolbox" "client_store new_toolbox"]
  by (auto simp: sample_frame_def)

definition sample_sprite :: "(nat \<times> component) list" where
  "sample_sprite = pack [C_Sprite \<lparr>spr_type = entity_type_value kPlayer\<rparr>, C_Position \<lparr>pos_x = 0, pos_y = 0, pos_isUpdated = False\<rparr>]"

definition sample_sprites :: "nat \<Rightarrow> client_system store" where
  "sample_sprites n = (perform (Call_registerEntity sample_sprite) ^^ n) (client_store new_toolbox)"

lemma new_toolbox_registered: "om_has (e_components (client_store new_toolbox)) (cid t) \<longleftrightarrow>
    t \<in> set (GameComponents @ [Behaviour] @ ClientComponents)"
proof -
  have "client_store new_toolbox = fold registerSystem [AnimationSystem, Interpolation, IO, NetworkSystem, Renderer, MenuRenderer]
      (registerComponents (map cid (GameComponents @ [Behaviour] @ ClientComponents)) new_ecs)"
    unfolding client_constructed_registers[symmetric]
    by (simp add: new_toolbox_def registerAllClientSystems_def registerAllComponents_def on_ecs_def)
  moreover have "e_components (fold registerSystem ss e) = e_components e" for ss and e :: "client_system store"
    by (induction ss arbitrary: e) (simp_all add: registerSystem_def)
  moreover have "cid t \<in> cid ` A \<longleftrightarrow> t \<in> A" for A by auto
  moreover have "\<not> om_has (e_components (new_ecs :: client_system store)) c" for c by (simp add: new_ecs_def)
  ultimately show ?thesis by (simp only: has_registers list.set_map) simp
qed

lemma sample_sprites_facts:
  "game_store (sample_sprites n) \<and> (\<forall>t. om_has (e_components (sample_sprites n)) (cid t) \<longleftrightarrow>
      t \<in> set (GameComponents @ [Behaviour] @ ClientComponents)) \<and> e_entitiesID (sample_sprites n) = n \<and>
    player_sprites (sample_sprites n) = {..<n}"
proof (induction n)
  case 0
  have none: "getEntityComponent c i (client_store new_toolbox) = None" for c i
    using component_entity[OF store_wf[OF new_toolbox_store(1)], of c i] new_toolbox_store(2) by (metis empty_iff)
  have "e_entitiesID (client_store new_toolbox) = 0"
    by (simp add: new_toolbox_def registerAllClientSystems_def registerAllComponents_def new_engine_def registers_ID
        registerSystem_def) (simp add: new_ecs_def)
  with new_toolbox_registered new_toolbox_store(1) show ?case
    unfolding sample_sprites_def player_sprites_def by (simp add: none)
next
  case (Suc n)
  let ?e = "sample_sprites n" and ?e' = "sample_sprites (Suc n)"
  have e': "?e' = snd (registerEntity sample_sprite ?e)" by (simp add: sample_sprites_def)
  have st: "game_store ?e" "e_entitiesID ?e = n" "player_sprites ?e = {..<n}"
    and reg: "\<And>t. om_has (e_components ?e) (cid t) \<longleftrightarrow> t \<in> set (GameComponents @ [Behaviour] @ ClientComponents)"
    using Suc by blast+
  have here: "om_has (e_components ?e) (cid Sprite)" "om_has (e_components ?e) (cid Position)"
    unfolding reg by (simp_all add: GameComponents_def ClientComponents_def)
  have store: "game_store ?e'"
    unfolding e' using game_store.call[OF st(1), of "Call_registerEntity sample_sprite"]
    by (simp add: typed_pack_def sample_sprite_def pack_def)
  have "\<not> bs_none (getComponentMask (map fst sample_sprite) ?e)"
    unfolding mask_none_iff[OF store_wf[OF st(1)]] using here by (auto simp: sample_sprite_def pack_def)
  then have ID: "e_entitiesID ?e' = Suc n" unfolding e' ID_registerEntity by (simp add: st(2))
  have get: "getEntityComponent (cid t) j ?e' = (if j = n \<and> t \<in> {Sprite, Position}
      then map_of (rev sample_sprite) (cid t) else getEntityComponent (cid t) j ?e)" for t j
  proof -
    have "cid t \<in> fst ` set sample_sprite \<longleftrightarrow> t \<in> {Sprite, Position}" by (cases t) (simp_all add: sample_sprite_def pack_def)
    with here show ?thesis unfolding e' get_registerEntity[OF store_wf[OF st(1)]] st(2) by auto
  qed
  have "player_sprites ?e' = insert n (player_sprites ?e)"
    unfolding player_sprites_def get by (auto simp: sample_sprite_def pack_def)
  then have "player_sprites ?e' = {..<Suc n}" unfolding st(3) by (simp add: lessThan_Suc)
  with store ID reg show ?case by (simp add: e')
qed

theorem fifth_player_cannot_be_drawn_witness:
  "Renderer_apply (sample_frame (\<lambda>_. False)) False (sample_sprites 4) \<noteq> None \<and>
   Renderer_apply (sample_frame (\<lambda>_. False)) False (sample_sprites 5) = None"
  using fifth_player_cannot_be_drawn[of "sample_sprites 4"] fifth_player_cannot_be_drawn[of "sample_sprites 5"]
    sample_sprites_facts[of 4] sample_sprites_facts[of 5] by (simp add: sample_frame_def)

theorem frame_draws_every_sprite_witness:
  "\<exists>calls order. Renderer_apply (sample_frame (\<lambda>_. False)) False (sample_sprites 3) = Some (False, calls) \<and>
    list_all2 (drawn_as (sample_sprites 3)) order (texture_calls calls) \<and>
    player_textures calls = map Player_texture [0..<3]"
  using frame_draws_every_sprite[of "sample_sprites 3" "sample_frame (\<lambda>_. False)" False] sample_sprites_facts[of 3]
  by (fastforce simp: sample_frame_def)

end
