(* ===== verification/InSync.thy ===== *)
theory InSync
  imports ClientMirror LobbyTasks
begin

text \<open>
  The client follows the lobby.  \<open>in_sync l tb\<close> is the abstraction between the two: the toolbox of the
  client mirrors all entities of the lobby and the state of the game is the same.  \<open>follows sp l l'\<close>
  says that a client of session \<open>sp\<close> in step with \<open>l\<close> is in step with \<open>l'\<close> once it has handled the
  messages to \<open>sp\<close> that were pushed between the two, without a fault.  The lemmas give it for every
  operation of a lobby and compose it through tasks, systems, ticks and rounds.
\<close>

section \<open>Messages to a session\<close>

definition for_session :: "nat \<Rightarrow> send_interface list \<Rightarrow> server_variant list" where
  "for_session sp ms = map snd (filter (\<lambda>m. sp \<in> set (fst m)) ms)"

lemma for_session_simps [simp]:
  "for_session sp [] = []"
  "for_session sp (m # ms) = (if sp \<in> set (fst m) then snd m # for_session sp ms else for_session sp ms)"
  "for_session sp (ms @ ns) = for_session sp ms @ for_session sp ns"
  by (simp_all add: for_session_def)

lemma handle_append: "handle_messages (xs @ ys) tb = try_bind (handle_messages xs tb) (handle_messages ys)"
proof (induction xs arbitrary: tb)
  case (Cons m xs)
  then show ?case by (cases "handle_message m tb") simp_all
qed simp

section \<open>Being in step\<close>

definition in_sync :: "'g lobby \<Rightarrow> toolbox \<Rightarrow> bool" where
  "in_sync l tb \<longleftrightarrow>
     mirrors (entities (lobby_store l)) (lobby_store l) tb \<and> getGameState (tb_engine tb) = getGameState (lb_engine l)"

text \<open>A lobby in which every entity has a type and the state of the game is one of the five, and in
  which \<open>sp\<close> plays.\<close>

definition world :: "nat \<Rightarrow> 'g lobby \<Rightarrow> bool" where
  "world sp l \<longleftrightarrow> game_store (lobby_store l) \<and> populated (lobby_store l) \<and>
     getGameState (lb_engine l) \<in> range state_number \<and> om_has (lb_players l) sp"

text \<open>The identifiers given so far fit into 64 bits.\<close>

definition ids_fit :: "'g lobby \<Rightarrow> bool" where
  "ids_fit l \<longleftrightarrow> e_entitiesID (lobby_store l) \<le> 2 ^ 64"

definition catches_up :: "nat \<Rightarrow> 'g lobby \<Rightarrow> 'g lobby \<Rightarrow> send_interface list \<Rightarrow> bool" where
  "catches_up sp l l' ms \<longleftrightarrow>
     (\<forall>tb. in_sync l tb \<longrightarrow> (\<exists>tb'. handle_messages (for_session sp ms) tb = Inr tb' \<and> in_sync l' tb'))"

definition follows :: "nat \<Rightarrow> 'g lobby \<Rightarrow> 'g lobby \<Rightarrow> bool" where
  "follows sp l l' \<longleftrightarrow>
     (world sp l \<longrightarrow> world sp l' \<and> e_entitiesID (lobby_store l) \<le> e_entitiesID (lobby_store l') \<and>
        (\<exists>ms. messages l' = messages l @ ms \<and> (ids_fit l' \<longrightarrow> catches_up sp l l' ms)))"

lemma followsI:
  assumes "world sp l \<Longrightarrow> world sp l'" and "world sp l \<Longrightarrow> e_entitiesID (lobby_store l) \<le> e_entitiesID (lobby_store l')"
    and "messages l' = messages l @ ms"
    and "\<And>tb. world sp l \<Longrightarrow> ids_fit l \<Longrightarrow> ids_fit l' \<Longrightarrow> in_sync l tb \<Longrightarrow>
      \<exists>tb'. handle_messages (for_session sp ms) tb = Inr tb' \<and> in_sync l' tb'"
  shows "follows sp l l'"
  unfolding follows_def catches_up_def
proof (intro impI conjI exI[of _ ms] allI)
  fix tb assume w: "world sp l" "ids_fit l'" "in_sync l tb"
  moreover from this(2) assms(2)[OF w(1)] have "ids_fit l" by (simp add: ids_fit_def)
  ultimately show "\<exists>tb'. handle_messages (for_session sp ms) tb = Inr tb' \<and> in_sync l' tb'" using assms(4) by blast
qed (use assms in blast)+

lemma follows_vacuous: "\<not> world sp l \<Longrightarrow> follows sp l l'"
  by (simp add: follows_def)

lemma follows_refl [simp]: "follows sp l l"
  by (rule followsI[where ms = "[]"]) simp_all

lemma follows_trans [trans]:
  assumes "follows sp l l'" and "follows sp l' l''"
  shows "follows sp l l''"
  unfolding follows_def
proof (intro impI)
  assume w: "world sp l"
  from assms(1) w obtain ms where a: "world sp l'" "e_entitiesID (lobby_store l) \<le> e_entitiesID (lobby_store l')"
      "messages l' = messages l @ ms" "ids_fit l' \<longrightarrow> catches_up sp l l' ms"
    unfolding follows_def by blast
  from assms(2) a(1) obtain ns where b: "world sp l''" "e_entitiesID (lobby_store l') \<le> e_entitiesID (lobby_store l'')"
      "messages l'' = messages l' @ ns" "ids_fit l'' \<longrightarrow> catches_up sp l' l'' ns"
    unfolding follows_def by blast
  have "catches_up sp l l'' (ms @ ns)" if "ids_fit l''"
  proof -
    have "ids_fit l'" using that b(2) by (simp add: ids_fit_def)
    with a(4) b(4) that have "catches_up sp l l' ms" "catches_up sp l' l'' ns" by blast+
    then show ?thesis unfolding catches_up_def by (fastforce simp: handle_append)
  qed
  with a b show "world sp l'' \<and> e_entitiesID (lobby_store l) \<le> e_entitiesID (lobby_store l'') \<and>
      (\<exists>ms. messages l'' = messages l @ ms \<and> (ids_fit l'' \<longrightarrow> catches_up sp l l'' ms))" by auto
qed

definition follows_res :: "nat \<Rightarrow> 'g lobby \<Rightarrow> lobby_fault + 'g lobby \<Rightarrow> bool" where
  "follows_res sp l r \<longleftrightarrow> (\<forall>l'. r = Inr l' \<longrightarrow> follows sp l l')"

lemma follows_res_simps [simp]: "follows_res sp l (Inl f)" "follows_res sp l (Inr l') = follows sp l l'"
  by (simp_all add: follows_res_def)

lemma follows_bind:
  "follows_res sp l r \<Longrightarrow> (\<And>l'. r = Inr l' \<Longrightarrow> follows_res sp l' (k l')) \<Longrightarrow> follows_res sp l (try_bind r k)"
  unfolding follows_res_def by (auto simp: try_bind_Inr_iff intro: follows_trans)

lemma follows_res_trans: "follows sp l l' \<Longrightarrow> follows_res sp l' r \<Longrightarrow> follows_res sp l r"
  unfolding follows_res_def by (blast intro: follows_trans)

section \<open>Single steps\<close>

lemma world_small: "world sp l \<Longrightarrow> ids_fit l \<Longrightarrow> small_ids (lobby_store l)"
  using ecs_invD(6)[OF store_wf[of "lobby_store l"]]
  by (fastforce simp: world_def ids_fit_def small_ids_def set_getAllEntities)

lemma world_player: "world sp l \<Longrightarrow> sp \<in> set (getAllSessions l)"
  by (simp add: world_def getAllSessions_def keys_of_has)

lemma alikeD:
  assumes "alike e e'" and "game_store e"
  shows "game_store e'" and "entities e' = entities e" and "e_entitiesID e' = e_entitiesID e"
    and "populated e' = populated e"
  using assms unfolding alike_def populated_def by simp_all

lemma follows_quiet:
  assumes "alike (lobby_store l) (lobby_store l')" and "messages l' = messages l"
    and "om_has (lb_players l') sp = om_has (lb_players l) sp"
    and "getGameState (lb_engine l') = getGameState (lb_engine l)"
  shows "follows sp l l'"
proof (rule followsI[where ms = "[]"])
  show "world sp l'" if "world sp l"
    using that alikeD[OF assms(1)] assms(3,4) by (simp add: world_def)
  show "e_entitiesID (lobby_store l) \<le> e_entitiesID (lobby_store l')" if "world sp l"
    using that alikeD(3)[OF assms(1)] by (simp add: world_def)
  fix tb assume w: "world sp l" "in_sync l tb"
  have "mirrors (entities (lobby_store l)) (lobby_store l') tb"
    using w(2) assms(1) by (auto simp: in_sync_def intro: mirrors_alike_server)
  with w assms(4) alikeD(2)[OF assms(1)] show "\<exists>tb'. handle_messages (for_session sp []) tb = Inr tb' \<and> in_sync l' tb'"
    by (simp add: in_sync_def world_def)
qed (simp add: assms(2))

lemma follows_touched: "(\<And>e. touched e (f e)) \<Longrightarrow> follows sp l (on_engine (on_ecs f) l)"
  by (rule follows_quiet) (simp_all add: alike_touched)

lemma follows_fields:
  "follows sp l (l\<lparr>lb_levelDirector := d\<rparr>)" "follows sp l (on_director h l)" "follows sp l (l\<lparr>lb_isRunning := b\<rparr>)"
  "follows sp l (l\<lparr>lb_actionQueue := q\<rparr>)"
  by (rule follows_quiet; simp add: messages_def on_director_def)+

text \<open>A message to everyone that needs no change of the lobby, or a change of the state of the game.\<close>

lemma follows_position: "follows sp l (lobby_broadcast (V_UpdatePosition packet) l)"
proof (rule followsI)
  show "messages (lobby_broadcast (V_UpdatePosition packet) l) = messages l @ [(getAllSessions l, V_UpdatePosition packet)]"
    by simp
  fix tb assume "world sp l" "in_sync l tb"
  with world_player[of sp l] mirrors_position[of "entities (lobby_store l)" "lobby_store l" tb packet]
  show "\<exists>tb'. handle_messages (for_session sp [(getAllSessions l, V_UpdatePosition packet)]) tb = Inr tb' \<and>
      in_sync (lobby_broadcast (V_UpdatePosition packet) l) tb'"
    by (auto simp: in_sync_def)
qed (simp_all add: world_def)

lemma follows_state: "s \<in> range state_number \<Longrightarrow> follows sp l (changeGameState s l)"
proof (rule followsI)
  show "messages (changeGameState s l) = messages l @ [(getAllSessions l, V_UpdateGameState \<lparr>ug_gameState = s\<rparr>)]"
    by simp
  fix tb assume "world sp l" "in_sync l tb"
  with world_player[of sp l] mirrors_game_state[of "entities (lobby_store l)" "lobby_store l" tb s]
  show "\<exists>tb'. handle_messages (for_session sp [(getAllSessions l, V_UpdateGameState \<lparr>ug_gameState = s\<rparr>)]) tb = Inr tb' \<and>
      in_sync (changeGameState s l) tb'"
    by (auto simp: in_sync_def)
qed (simp_all add: world_def)

section \<open>Spawning and destroying\<close>

lemma spawned:
  assumes e: "game_store (lobby_store l)" "populated (lobby_store l)"
    and "game_pack xs" and "pack_value xs Type \<noteq> None"
  obtains i en where "spawnEntity xs session l = (i, lobby_broadcast (spawn_packet i en) (l\<lparr>lb_engine := en,
        lb_players := (case session of Some s \<Rightarrow> om_put s i (lb_players l) | None \<Rightarrow> lb_players l)\<rparr>))"
    and "i = e_entitiesID (lobby_store l)"
    and "game_store (en_ecs en)" and "populated (en_ecs en)" and "getGameState en = getGameState (lb_engine l)"
    and "entities (en_ecs en) = insert i (entities (lobby_store l))"
    and "e_entitiesID (en_ecs en) = Suc (e_entitiesID (lobby_store l))"
    and "\<And>j. j \<in> entities (lobby_store l) \<Longrightarrow> shows_entity (lobby_store l) j (en_ecs en) j"
proof -
  let ?e = "lobby_store l" and ?i = "e_entitiesID (lobby_store l)"
  obtain en where reg: "engine_registerEntity None xs (lb_engine l) = (?i, en)" "game_store (en_ecs en)"
      "getGameState en = getGameState (lb_engine l)" "entities (en_ecs en) = insert ?i (entities ?e)" "?i \<notin> entities ?e"
      "\<And>t j. t \<in> set GameComponents \<Longrightarrow> getEntityComponent (cid t) j (en_ecs en) =
        (if j = ?i \<and> pack_value xs t \<noteq> None then pack_value xs t else getEntityComponent (cid t) j ?e)"
    using registered_entity[OF e(1) assms(3)] by blast
  have "en_ecs en \<noteq> ?e" using reg(4,5) by auto
  then have "e_entitiesID (en_ecs en) = Suc ?i"
    using arg_cong[OF reg(1), of "\<lambda>x. en_ecs (snd x)"] ID_registerEntity[of "pack xs" ?e]
    by (auto simp: engine_registerEntity_def case_prod_beta registerEntity_def Let_def split: if_splits)
  moreover have "populated (en_ecs en)"
    unfolding populated_def reg(4)
  proof
    fix j assume "j \<in> insert ?i (entities ?e)"
    with e(2) assms(4) show "getEntityComponent (cid Type) j (en_ecs en) \<noteq> None"
      unfolding reg(6)[OF type_is_game] populated_def by auto
  qed
  moreover have "shows_entity ?e j (en_ecs en) j" if "j \<in> entities ?e" for j
  proof -
    have "j \<noteq> ?i" using that reg(5) by blast
    then show ?thesis unfolding shows_entity_def using reg(6) type_is_game by metis
  qed
  moreover have "spawnEntity xs session l = (?i, lobby_broadcast (spawn_packet ?i en) (l\<lparr>lb_engine := en,
        lb_players := (case session of Some s \<Rightarrow> om_put s ?i (lb_players l) | None \<Rightarrow> lb_players l)\<rparr>))"
    by (simp add: spawnEntity_def reg(1) Let_def)
  ultimately show ?thesis using that reg(2-4) by blast
qed

lemma mirrors_entered:
  assumes "mirrors (entities e) e tb" and "game_store (en_ecs en)" and "populated (en_ecs en)" and "small_ids (en_ecs en)"
    and "entities (en_ecs en) = insert i (entities e)"
    and "\<And>j. j \<in> entities e \<Longrightarrow> shows_entity e j (en_ecs en) j"
  shows "\<exists>tb'. handle_message (spawn_packet i en) tb = Inr tb' \<and> mirrors (entities (en_ecs en)) (en_ecs en) tb' \<and>
    getGameState (tb_engine tb') = getGameState (tb_engine tb)"
proof -
  have "mirrors (entities e) (en_ecs en) tb"
    by (rule mirrors_server[OF assms(1,2) _ assms(6)]) (use assms(5) in auto)
  from mirrors_spawn[OF this _ assms(3,4), of i] assms(5) show ?thesis by simp
qed

lemma follows_spawn:
  assumes "game_pack xs" and "pack_value xs Type \<noteq> None"
  shows "follows sp l (snd (spawnEntity xs session l))"
proof (cases "world sp l")
  case False
  then show ?thesis by (rule follows_vacuous)
next
  case True
  then have e: "game_store (lobby_store l)" "populated (lobby_store l)" by (simp_all add: world_def)
  obtain i en where s: "spawnEntity xs session l = (i, lobby_broadcast (spawn_packet i en) (l\<lparr>lb_engine := en,
        lb_players := (case session of Some s \<Rightarrow> om_put s i (lb_players l) | None \<Rightarrow> lb_players l)\<rparr>))"
      "game_store (en_ecs en)" "populated (en_ecs en)" "getGameState en = getGameState (lb_engine l)"
      "entities (en_ecs en) = insert i (entities (lobby_store l))"
      "e_entitiesID (en_ecs en) = Suc (e_entitiesID (lobby_store l))"
      "\<And>j. j \<in> entities (lobby_store l) \<Longrightarrow> shows_entity (lobby_store l) j (en_ecs en) j"
    by (rule spawned[OF e assms, of session]) blast
  define l1 where "l1 = l\<lparr>lb_engine := en,
        lb_players := (case session of Some s \<Rightarrow> om_put s i (lb_players l) | None \<Rightarrow> lb_players l)\<rparr>"
  have l': "snd (spawnEntity xs session l) = lobby_broadcast (spawn_packet i en) l1" by (simp add: s(1) l1_def)
  have w: "world sp l1"
    using True s(2-4) by (auto simp: world_def l1_def split: option.split)
  then have w': "world sp (lobby_broadcast (spawn_packet i en) l1)" by (simp add: world_def)
  show ?thesis
    unfolding l'
  proof (rule followsI)
    show "messages (lobby_broadcast (spawn_packet i en) l1) = messages l @ [(getAllSessions l1, spawn_packet i en)]"
      by (simp add: l1_def)
    show "e_entitiesID (lobby_store l) \<le> e_entitiesID (lobby_store (lobby_broadcast (spawn_packet i en) l1))"
      using s(6) by (simp add: l1_def)
    fix tb assume "ids_fit (lobby_broadcast (spawn_packet i en) l1)" "in_sync l tb"
    moreover from world_small[OF w' this(1)] have "small_ids (en_ecs en)" by (simp add: l1_def)
    ultimately obtain tb' where "handle_message (spawn_packet i en) tb = Inr tb'"
        "mirrors (entities (en_ecs en)) (en_ecs en) tb'" "getGameState (tb_engine tb') = getGameState (tb_engine tb)"
      using mirrors_entered[OF _ s(2,3) _ s(5) s(7)] unfolding in_sync_def by blast
    with \<open>in_sync l tb\<close> s(4) world_player[OF w] show "\<exists>tb'. handle_messages (for_session sp [(getAllSessions l1, spawn_packet i en)]) tb = Inr tb' \<and>
        in_sync (lobby_broadcast (spawn_packet i en) l1) tb'"
      by (simp add: in_sync_def l1_def)
  qed (rule w')
qed

lemma follows_bury:
  assumes "world sp l \<Longrightarrow> set ids \<subseteq> entities (lobby_store l)" and "distinct ids"
  shows "follows sp l (bury ids l)"
proof (rule followsI)
  have l': "lobby_store (bury ids l) = fold destroyEntity ids (lobby_store l)" "lb_players (bury ids l) = lb_players l"
    "getGameState (lb_engine (bury ids l)) = getGameState (lb_engine l)" by (simp_all add: bury_def)
  show "messages (bury ids l) = messages l @ map (\<lambda>i. (getAllSessions l, destroy_packet i)) ids"
    by (simp add: bury_def)
  have ID: "e_entitiesID (fold destroyEntity ids e) = e_entitiesID e" for e :: "server_system store"
    by (induction ids arbitrary: e) (simp_all add: destroyEntity_def)
  then show "e_entitiesID (lobby_store l) \<le> e_entitiesID (lobby_store (bury ids l))" by (simp add: l')
  show "world sp (bury ids l)" if "world sp l"
    using that destroyed_store[of "lobby_store l", where ids = ids] by (simp add: world_def l' populated_def)
  fix tb assume w: "world sp l" "ids_fit l" "in_sync l tb"
  have "for_session sp (map (\<lambda>i. (getAllSessions l, destroy_packet i)) js) = map destroy_packet js" for js
    using world_player[OF w(1)] by (induction js) simp_all
  moreover have "mirrors (entities (lobby_store l)) (lobby_store l) tb" using w(3) by (simp add: in_sync_def)
  from mirrors_destroys[OF this assms(1)[OF w(1)] assms(2) world_small[OF w(1,2)]]
  obtain tb' where "handle_messages (map destroy_packet ids) tb = Inr tb'"
      "mirrors (entities (lobby_store l) - set ids) (fold destroyEntity ids (lobby_store l)) tb'"
      "getGameState (tb_engine tb') = getGameState (tb_engine tb)" by blast
  ultimately show "\<exists>tb'. handle_messages (for_session sp (map (\<lambda>i. (getAllSessions l, destroy_packet i)) ids)) tb = Inr tb' \<and>
      in_sync (bury ids l) tb'"
    using w(1,3) destroyed_store(4)[of "lobby_store l", where ids = ids] by (auto simp: in_sync_def l' world_def)
qed

section \<open>Tasks\<close>

lemma follows_send: "s \<noteq> sp \<Longrightarrow> follows sp l (lobby_send s p l)"
proof (rule followsI)
  show "messages (lobby_send s p l) = messages l @ [([s], p)]" by simp
qed (auto simp: world_def in_sync_def)

lemma follows_snapshot: "follows sp l (lobby_broadcast (world_init_packet (lb_engine l)) l)"
proof (rule followsI)
  let ?m = "world_init_packet (lb_engine l)"
  show "messages (lobby_broadcast ?m l) = messages l @ [(getAllSessions l, ?m)]" by simp
  fix tb assume w: "world sp l" "ids_fit l" "in_sync l tb"
  have "ucast (ucast (state_number s) :: u8) = state_number s" for s by (cases s) (simp_all add: state_number_def)
  with w(1) have "ucast (ucast (getGameState (lb_engine l)) :: u8) = getGameState (lb_engine l)"
    by (auto simp: world_def)
  moreover have "mirrors (entities (lobby_store l)) (lobby_store l) tb" "populated (lobby_store l)"
    using w by (simp_all add: in_sync_def world_def)
  ultimately show "\<exists>tb'. handle_messages (for_session sp [(getAllSessions l, ?m)]) tb = Inr tb' \<and>
      in_sync (lobby_broadcast ?m l) tb'"
    using mirrors_world[of "entities (lobby_store l)" "lb_engine l" tb] world_small[OF w(1,2)] world_player[OF w(1)]
    by (auto simp: in_sync_def)
qed (simp_all add: world_def)

lemma follows_clear: "follows sp l (clear_type t l)"
proof (cases "world sp l")
  case True
  let ?ids = "of_type t (lobby_store l)"
  have wf: "ecs_wf (lobby_store l)" using True store_wf[of "lobby_store l"] by (simp add: world_def)
  have "clear_type t l = bury ?ids l"
    using removeAllOf_spec[OF wf] by (simp add: clear_type_def Let_def of_type_def bury_def flip: on_engine_upd)
  moreover have "distinct ?ids"
    using om_wf_distinct[OF ecs_invD(2)[OF wf]] by (simp add: of_type_def getAllEntities_def)
  ultimately show ?thesis using follows_bury[of sp l ?ids] by (auto simp: of_type_def)
qed (rule follows_vacuous)

lemma follows_revives: "follows_res sp l (revive_players is l)"
proof (induction "is" arbitrary: l)
  case (Cons i "is")
  have "follows_res sp l (revive_player i l)"
    by (auto simp: revive_player_def intro!: follows_touched touched_put split: option.split)
  from follows_bind[OF this Cons.IH] show ?case by simp
qed simp

lemma follows_restart: "follows_res sp l (lobby_restart l)"
  unfolding lobby_restart_def
proof (rule follows_bind)
  show "follows_res sp l (revive_players (map snd (lb_players l)) (l\<lparr>lb_levelDirector := director_restart (lb_levelDirector l)\<rparr>))"
    by (rule follows_res_trans[OF follows_fields(1) follows_revives])
  show "follows_res sp l' (Inr (clear_type kBullet (clear_type kEnemy l')))" for l'
    using follows_trans[OF follows_clear follows_clear] by simp
qed

lemma follows_start: "follows_res sp l (start_action l)"
  unfolding start_action_def by (rule follows_res_trans[OF follows_state follows_restart]) simp

lemma follows_input: "follows_res sp l (handleUserInput s p l)"
proof -
  have bullet: "follows sp m (spawnBullet i pos p m)" for i pos and m :: "'a lobby"
    using follows_spawn[OF bullet_pack, of i pos sp m None]
    by (simp add: spawnBullet_def) (simp add: pack_value_def bullet_components_def)
  show ?thesis
    by (auto simp: handleUserInput_def Let_def intro!: follows_trans[OF follows_touched bullet] touched_put split: option.split)
qed

lemma follows_join: "follows_res sp l (join_action s l)"
proof (cases "world sp l \<and> \<not> om_has (lb_players l) s")
  case False
  then show ?thesis by (auto simp: join_action_def follows_vacuous follows_res_def)
next
  case True
  then have "s \<noteq> sp" by (auto simp: world_def)
  define l1 where "l1 = (if getGameState (lb_engine l) < state_number GameLobby
      then changeGameState (state_number GameLobby) l else l)"
  obtain i l2 where l2: "spawnEntity player_components (Some s) l1 = (i, l2)" by fastforce
  have "follows sp l l1" by (simp add: l1_def follows_state)
  moreover have "follows sp l1 l2" using follows_spawn[OF player_pack(1), of sp l1 "Some s"] l2 player_pack(2) by simp
  ultimately have a: "follows sp l l2" by (rule follows_trans)
  have "follows sp l2 (if i \<noteq> 0 then lobby_broadcast (world_init_packet (lb_engine (lobby_send s q l2))) (lobby_send s q l2)
      else lobby_send s q l2)" for q
    using follows_trans[OF follows_send[OF \<open>s \<noteq> sp\<close>] follows_snapshot] follows_send[OF \<open>s \<noteq> sp\<close>]
    by (simp only: split: if_split) blast
  from follows_trans[OF a this] show ?thesis
    using True l2 by (auto simp: join_action_def Let_def simp flip: l1_def split: option.split)
qed

lemma follows_leave:
  assumes "lobby_ok l" and "s \<noteq> sp"
  shows "follows sp l (leave_action s l)"
proof (cases "world sp l \<and> map_of (lb_players l) s \<noteq> None")
  case False
  then show ?thesis by (auto simp: leave_action_def follows_vacuous)
next
  case True
  then obtain i where i: "map_of (lb_players l) s = Some i" by auto
  have "is_player i (lobby_store l)" using lobby_okD(6)[OF assms(1) i] .
  then have "i \<in> entities (lobby_store l)" by (rule player_exists[OF lobby_okD(2)[OF assms(1)]])
  then have "follows sp l (bury [i] l)" by (intro follows_bury) simp_all
  also have "follows sp (bury [i] l) ((bury [i] l)\<lparr>lb_players := om_del s (lb_players l)\<rparr>)"
    using assms(2) by (intro follows_quiet) (simp_all add: bury_def)
  also have "(bury [i] l)\<lparr>lb_players := om_del s (lb_players l)\<rparr> = leave_action s l"
  proof -
    have "om_has (om_del s (lb_players l)) sp" using True assms(2) by (simp add: world_def)
    then have "om_del s (lb_players l) \<noteq> []" by (metis om_has_simps(3))
    with i show ?thesis
      by (simp add: leave_action_def Let_def bury_def broadcast_destroyed_def engine_destroyEntity_def)
  qed
  finally show ?thesis .
qed

lemma follows_action:
  assumes "lobby_ok l" and "a \<noteq> Act_leave sp"
  shows "follows_res sp l (run_action a l)"
  using assms follows_leave[OF assms(1)] by (cases a) (auto simp: follows_join follows_input follows_start)

lemma follows_actions:
  assumes "sound_lobby l" and "from_players (players_of l) as" and "Act_leave sp \<notin> set as"
  shows "follows_res sp l (run_actions as l)"
  using assms
proof (induction as arbitrary: l)
  case Nil
  then show ?case by (simp add: follows_fields)
next
  case (Cons a as)
  let ?l = "l\<lparr>lb_actionQueue := \<lparr>cq_queue = as\<rparr>\<rparr>"
  have s: "sound_lobby ?l" using Cons.prems(1) by (simp add: sound_lobby_def)
  then obtain l1 where l1: "run_action a ?l = Inr l1" "lobby_ok l1" "players_of l1 = plays_after a (players_of l)"
    using ok_action[of ?l a] Cons.prems(2) by (auto simp: sound_lobby_def)
  have s1: "sound_lobby l1" using action_director[OF l1(1) _ s] s l1(2) by (simp add: sound_lobby_def)
  have "follows_res sp ?l (run_action a ?l)"
    using s Cons.prems(3) by (intro follows_action) (auto simp: sound_lobby_def)
  then have "follows sp ?l l1" using l1(1) by simp
  from follows_trans[OF follows_fields(4) this] have "follows sp l l1" .
  moreover have "follows_res sp l1 (run_actions as l1)"
    using Cons.IH[OF s1] Cons.prems(2,3) l1(3) by simp
  ultimately have "follows_res sp l (run_actions as l1)" by (rule follows_res_trans)
  with l1(1) show ?case by simp
qed

section \<open>Systems, director, ticks and rounds\<close>

lemma follows_movements: "follows sp l (BroadcastUpdatedMovements_apply l)"
proof -
  have step: "follows sp m (broadcast_movement i refs m)" for i refs and m :: "'a lobby"
    by (auto simp: broadcast_movement_def Let_def intro!: follows_trans[OF follows_position follows_touched] touched_put)
  have "follows sp m (fold (\<lambda>i. apply_helper broadcast_movement i (f i)) is m)" for "is" f and m :: "'a lobby"
  proof (induction "is" arbitrary: m)
    case (Cons i "is")
    have "follows sp m (apply_helper broadcast_movement i (f i) m)" by (simp add: apply_helper_def step)
    from follows_trans[OF this Cons.IH] show ?case by simp
  qed simp
  then show ?thesis by (simp add: BroadcastUpdatedMovements_apply_def group_apply_def)
qed

lemma follows_dead:
  assumes "lobby_ok l"
  shows "follows_res sp l (BroadcastDeadEntities_apply l)"
proof -
  let ?ids = "dead_entities (lobby_store l)"
  note wf = lobby_okD(2)[OF assms]
  have "is_dead e i \<Longrightarrow> getEntityComponent (cid Type) i e \<noteq> None" for e :: "server_system store" and i
    by (auto simp: is_dead_def split: option.splits)
  then have "set ?ids \<subseteq> entities (lobby_store l)" using set_dead[OF wf] component_entity[OF wf] by blast
  moreover have "distinct ?ids"
    using ecs_group_facts[OF wf, of "map cid [State, Type]"] unfolding dead_entities_def by (blast intro: distinct_filter)
  ultimately have "follows sp l (bury ?ids l)" by (intro follows_bury)
  with dead_sweep[OF assms] show ?thesis by (auto simp: follows_res_def)
qed

lemma follows_system: "sound_lobby l \<Longrightarrow> follows_res sp l (apply_system cosf s l)"
  by (cases s) (simp_all add: follows_touched touched_enemies touched_movement follows_movements follows_dead sound_lobby_def)

lemma follows_systems: "sound_lobby l \<Longrightarrow> follows_res sp l (apply_systems cosf ss l)"
proof (induction ss arbitrary: l)
  case (Cons s ss)
  have "follows_res sp l' (apply_systems cosf ss l')" if "apply_system cosf s l = Inr l'" for l'
    using Cons.IH[of l'] kept_system[of True l cosf s] Cons.prems that by simp
  from follows_bind[OF follows_system[OF Cons.prems] this] show ?case by simp
qed simp

lemma follows_runOnce:
  assumes "sound_lobby l"
  shows "follows_res sp l (lobby_runOnce cosf l)"
proof -
  let ?f = "\<lambda>e. group_apply (\<lambda>_. run_behaviour (\<lambda>_ e. e) (\<lambda>_ e. e)) (ecs_group [cid Behaviour] e) e"
  have "lobby_ok (on_engine (on_ecs ?f) l)"
    using assms by (intro ok_touched touched_behaviours) (simp add: sound_lobby_def)
  with assms have "sound_lobby (on_engine (on_ecs ?f) l)" by (simp add: sound_lobby_def)
  from follows_systems[OF this, of sp cosf] show ?thesis
    unfolding lobby_runOnce_def Let_def by (rule follows_res_trans[OF follows_touched[OF touched_behaviours]])
qed

lemma follows_wave_step: "follows_res sp l (wave_step api dt m i l)"
proof -
  have spawn: "follows sp l (snd (spawnEntity xs None l))"
    if "enemy_components x y g = Some xs" for x y g xs and l :: "'a lobby"
    using that by (intro follows_spawn enemy_pack[OF that]) (auto simp: enemy_components_def pack_value_def split: option.splits)
  have "follows_res sp l (spawn_enemy api m i w a l)" for w a
    by (auto simp: spawn_enemy_def Let_def split: prod.split option.split
        intro: follows_trans[OF follows_trans[OF follows_fields(2) spawn] follows_fields(2)])
  then show ?thesis by (simp add: wave_step_def Let_def follows_fields)
qed

lemma follows_wave_loop: "follows_res sp l (wave_loop n api dt m l)"
proof (induction n arbitrary: l)
  case (Suc n)
  from follows_bind[OF follows_wave_step Suc.IH] show ?case by simp
qed simp

lemma follows_director: "follows_res sp l (director_update api dt l)"
  by (auto simp: director_update_def Let_def follows_fields split: option.split
      intro: follows_res_trans[OF follows_fields(1) follows_wave_loop])

lemma follows_tick:
  assumes "sound_lobby l"
  shows "follows_res sp l (lobby_tick env l)"
proof -
  define l0 where "l0 = (if \<not> hasPlayerAlive l then lobby_restart (changeGameState (state_number GameOver) l) else Inr l)"
  have "sound_lobby (changeGameState (state_number GameOver) l)" using assms by (simp add: sound_lobby_def)
  from sound_restart[of True, simplified, OF this] have sound0: "sound_lobby l1" if "l0 = Inr l1" for l1
    using that assms by (auto simp: l0_def split: if_splits)
  have "follows_res sp l l0"
    using follows_res_trans[OF follows_state follows_restart, of "state_number GameOver" sp l] by (simp add: l0_def)
  moreover have "follows_res sp l2 (if getGameState (lb_engine l2) = state_number GameRunning
      then director_update (le_rng env) TIME_PER_TICK l2 else Inr l2)" for l2
    by (simp add: follows_director)
  ultimately show ?thesis
    unfolding lobby_tick_def l0_def[symmetric]
    by (intro follows_bind follows_runOnce) (use sound0 in auto)
qed

lemma follows_ticks: "sound_lobby l \<Longrightarrow> follows_res sp l (lobby_ticks n env l)"
proof (induction n arbitrary: l)
  case (Suc n)
  have "follows_res sp l' (lobby_ticks n env l')" if "lobby_tick env l = Inr l'" for l'
    using Suc.IH[of l'] kept_tick[of True l env] Suc.prems that by simp
  from follows_bind[OF follows_tick[OF Suc.prems] this] show ?case by simp
qed simp

lemma follows_round:
  assumes "sound_lobby l" and "from_players (players_of l) (cq_queue (lb_actionQueue l))"
    and "Act_leave sp \<notin> set (cq_queue (lb_actionQueue l))"
  shows "follows_res sp l (lobby_round env n l)"
proof (cases "lb_isRunning l")
  case True
  have "follows_res sp l' (lobby_ticks n env l')" if "run_actions (cq_queue (lb_actionQueue l)) l = Inr l'" for l'
    using follows_ticks[of l'] sound_actions[of True, simplified, OF assms(1,2)] that by auto
  from follows_bind[OF follows_actions[OF assms] this] True show ?thesis by (simp add: lobby_round_def)
qed (simp add: lobby_round_def)

section \<open>Joining\<close>

lemma narrowed_state: "s \<in> range state_number \<Longrightarrow> ucast (ucast s :: u8) = s"
proof -
  have "ucast (ucast (state_number g) :: u8) = state_number g" for g by (cases g) (simp_all add: state_number_def)
  then show "s \<in> range state_number \<Longrightarrow> ucast (ucast s :: u8) = s" by auto
qed

lemma joined:
  assumes "game_store (lobby_store l)" and "populated (lobby_store l)" and "getGameState (lb_engine l) \<in> range state_number"
    and "\<not> om_has (lb_players l) sp"
  obtains i l' ms where "join_action sp l = Inr l'" and "i = e_entitiesID (lobby_store l)"
    and "e_entitiesID (lobby_store l') = Suc i" and "world sp l'"
    and "entities (lobby_store l') = insert i (entities (lobby_store l))" and "messages l' = messages l @ ms"
    and "for_session sp ms = [spawn_packet i (lb_engine l'), V_JoinAck \<lparr>ja_id = word_of_nat i, ja_roomId = lb_roomId l,
        ja_gameState = getGameState (lb_engine l'), ja_status = 1\<rparr>] @ (if i \<noteq> 0 then [world_init_packet (lb_engine l')] else [])"
proof -
  define l1 where "l1 = (if getGameState (lb_engine l) < state_number GameLobby
      then changeGameState (state_number GameLobby) l else l)"
  obtain ns where l1: "lobby_store l1 = lobby_store l" "lb_players l1 = lb_players l" "lb_roomId l1 = lb_roomId l"
      "getGameState (lb_engine l1) \<in> range state_number" "messages l1 = messages l @ ns" "for_session sp ns = []"
  proof -
    have "sp \<notin> set (getAllSessions l)" using assms(4) by (simp add: getAllSessions_def keys_of_has)
    moreover have "lb_roomId (changeGameState s l) = lb_roomId l" for s
      by (simp add: changeGameState_def lobby_broadcast_def on_engine_def)
    ultimately show ?thesis
      using that[of "if getGameState (lb_engine l) < state_number GameLobby
        then [(getAllSessions l, V_UpdateGameState \<lparr>ug_gameState = state_number GameLobby\<rparr>)] else []"] assms(3)
      by (simp add: l1_def)
  qed
  have e1: "game_store (lobby_store l1)" "populated (lobby_store l1)" using assms(1,2) by (simp_all add: l1(1))
  have "pack_value player_components Type \<noteq> None" by (simp add: player_pack(2))
  then obtain i en where s: "spawnEntity player_components (Some sp) l1 = (i, lobby_broadcast (spawn_packet i en)
        (l1\<lparr>lb_engine := en, lb_players := om_put sp i (lb_players l1)\<rparr>))"
      "i = e_entitiesID (lobby_store l1)" "game_store (en_ecs en)" "populated (en_ecs en)"
      "getGameState en = getGameState (lb_engine l1)" "entities (en_ecs en) = insert i (entities (lobby_store l1))"
      "e_entitiesID (en_ecs en) = Suc (e_entitiesID (lobby_store l1))"
    by (rule spawned[OF e1 player_pack(1), of "Some sp"]) auto
  define l2 where "l2 = lobby_broadcast (spawn_packet i en) (l1\<lparr>lb_engine := en, lb_players := om_put sp i (lb_players l1)\<rparr>)"
  define ack where "ack = V_JoinAck \<lparr>ja_id = word_of_nat i, ja_roomId = lb_roomId l,
      ja_gameState = getGameState en, ja_status = 1\<rparr>"
  define l' where "l' = (if i \<noteq> 0 then lobby_broadcast (world_init_packet en) (lobby_send sp ack l2) else lobby_send sp ack l2)"
  have l2: "lb_engine l2 = en" "lb_players l2 = om_put sp i (lb_players l1)" "lb_roomId l2 = lb_roomId l"
    "getAllSessions l2 = map fst (om_put sp i (lb_players l1))"
    "messages l2 = messages l1 @ [(map fst (om_put sp i (lb_players l1)), spawn_packet i en)]"
    using l1(3) by (simp_all add: l2_def) (simp add: lobby_broadcast_def)
  have l': "lb_engine l' = en" "lb_players l' = om_put sp i (lb_players l1)"
    "messages l' = messages l2 @ [([sp], ack)] @ (if i \<noteq> 0 then [(getAllSessions l2, world_init_packet en)] else [])"
    by (simp_all add: l'_def l2)
  show ?thesis
  proof (rule that)
    show "join_action sp l = Inr l'"
      using assms(4) s(1) l2(1-3) by (simp add: join_action_def Let_def l'_def ack_def l2_def[symmetric] flip: l1_def)
    show "i = e_entitiesID (lobby_store l)" using s(2) by (simp add: l1(1))
    show "e_entitiesID (lobby_store l') = Suc i" using s(2,7) by (simp add: l'(1))
    show "world sp l'" using s(3-5) l1(4) by (simp add: world_def l'(1,2))
    show "entities (lobby_store l') = insert i (entities (lobby_store l))" using s(6) by (simp add: l'(1) l1(1))
    show "messages l' = messages l @ ns @ [(map fst (om_put sp i (lb_players l1)), spawn_packet i en), ([sp], ack)] @
        (if i \<noteq> 0 then [(getAllSessions l2, world_init_packet en)] else [])" by (simp add: l'(3) l2(5) l1(5))
    show "for_session sp (ns @ [(map fst (om_put sp i (lb_players l1)), spawn_packet i en), ([sp], ack)] @
        (if i \<noteq> 0 then [(getAllSessions l2, world_init_packet en)] else [])) =
      [spawn_packet i (lb_engine l'), V_JoinAck \<lparr>ja_id = word_of_nat i, ja_roomId = lb_roomId l,
        ja_gameState = getGameState (lb_engine l'), ja_status = 1\<rparr>] @ (if i \<noteq> 0 then [world_init_packet (lb_engine l')] else [])"
      by (simp add: l1(6) l'(1) l2(4) ack_def)
  qed
qed

lemma joined_in_sync:
  assumes "world sp l" and "ids_fit l" and "i \<in> entities (lobby_store l)"
    and "i = 0 \<Longrightarrow> entities (lobby_store l) = {0}"
  shows "\<exists>tb. handle_messages ([spawn_packet i (lb_engine l), V_JoinAck \<lparr>ja_id = word_of_nat i, ja_roomId = r,
      ja_gameState = getGameState (lb_engine l), ja_status = t\<rparr>] @ (if i \<noteq> 0 then [world_init_packet (lb_engine l)] else []))
      new_toolbox = Inr tb \<and> in_sync l tb \<and> om_has (tb_serverToClient tb) (word_of_nat i)"
proof -
  let ?e = "lobby_store l"
  have e: "game_store ?e" "populated ?e" "getGameState (lb_engine l) \<in> range state_number"
    using assms(1) by (simp_all add: world_def)
  note small = world_small[OF assms(1,2)]
  obtain tb1 where tb1: "handle_message (spawn_packet i (lb_engine l)) new_toolbox = Inr tb1" "mirrors {i} ?e tb1"
    using mirrors_spawn[OF mirrors_new[OF e(1)] assms(3) e(2) small] by auto
  obtain tb2 where tb2: "handle_message (V_JoinAck \<lparr>ja_id = word_of_nat i, ja_roomId = r,
      ja_gameState = getGameState (lb_engine l), ja_status = t\<rparr>) tb1 = Inr tb2" "mirrors {i} ?e tb2"
      "getGameState (tb_engine tb2) = getGameState (lb_engine l)"
    using mirrors_ack[OF tb1(2), of i] by (metis singletonI)
  obtain tb3 where tb3: "handle_message (world_init_packet (lb_engine l)) tb2 = Inr tb3" "mirrors (entities ?e) ?e tb3"
      "getGameState (tb_engine tb3) = getGameState (lb_engine l)"
    using mirrors_world[OF tb2(2) e(2) small] narrowed_state[OF e(3)] by auto
  have "in_sync l (if i \<noteq> 0 then tb3 else tb2)"
    using tb2(2,3) tb3(2,3) assms(4) by (auto simp: in_sync_def)
  moreover from this have "om_has (tb_serverToClient (if i \<noteq> 0 then tb3 else tb2)) (word_of_nat i)"
    using mirrors_bound assms(3) unfolding in_sync_def by blast
  ultimately show ?thesis
    using tb1(1) tb2(1) tb3(1) by (intro exI[of _ "if i \<noteq> 0 then tb3 else tb2"]) simp
qed

end
