(* ===== verification/ClientWorld.thy ===== *)
theory ClientWorld
  imports InSync
begin

text \<open>
  The two properties that tie the client to the lobby: the messages of a join build the whole world
  in a client that has none, and the messages of every later round of the lobby keep the client in
  step.
\<close>

section \<open>A client that joins\<close>

text \<open>C3: when a session joins a lobby, the messages that the lobby then has for it rebuild the world in
  a client that has nothing: the client handles them all without a fault, and then binds exactly
  the entities of the lobby, one of its own for each, with the same types and game components,
  has no other entity, and is in the state of the game.  This covers the first entity of a lobby,
  for which no snapshot is sent.\<close>

theorem joining_client_sees_world:
  assumes "lobby_ok l" and "populated (lobby_store l)" and "getGameState (lb_engine l) \<in> range state_number"
    and "\<not> om_has (lb_players l) sp" and "e_entitiesID (lobby_store l) < 2 ^ 64"
  shows "\<exists>l' ms tb i. join_action sp l = Inr l' \<and> messages l' = messages l @ ms \<and>
    handle_messages (for_session sp ms) new_toolbox = Inr tb \<and> in_sync l' tb \<and> world sp l' \<and>
    i = e_entitiesID (lobby_store l) \<and> om_has (tb_serverToClient tb) (word_of_nat i)"
proof -
  obtain i l' ms where j: "join_action sp l = Inr l'" "i = e_entitiesID (lobby_store l)"
      "e_entitiesID (lobby_store l') = Suc i" "world sp l'"
      "entities (lobby_store l') = insert i (entities (lobby_store l))" "messages l' = messages l @ ms"
      "for_session sp ms = [spawn_packet i (lb_engine l'), V_JoinAck \<lparr>ja_id = word_of_nat i, ja_roomId = lb_roomId l,
        ja_gameState = getGameState (lb_engine l'), ja_status = 1\<rparr>] @ (if i \<noteq> 0 then [world_init_packet (lb_engine l')] else [])"
    by (rule joined[OF lobby_okD(1)[OF assms(1)] assms(2-4)])
  have "ids_fit l'" using assms(5) j(2,3) by (simp add: ids_fit_def)
  moreover have "entities (lobby_store l') = {0}" if "i = 0"
    using that j(2,5) ecs_invD(6)[OF lobby_okD(2)[OF assms(1)]] by (auto simp: set_getAllEntities)
  moreover have "i \<in> entities (lobby_store l')" using j(5) by simp
  ultimately obtain tb where "handle_messages (for_session sp ms) new_toolbox = Inr tb" "in_sync l' tb"
      "om_has (tb_serverToClient tb) (word_of_nat i)"
    unfolding j(7) using joined_in_sync[OF j(4), of i "lb_roomId l" 1] by blast
  with j(1,2,4,6) show ?thesis by blast
qed

lemma sample_lobby_world:
  "populated (lobby_store sample_lobby)" "getGameState (lb_engine sample_lobby) \<in> range state_number"
  "e_entitiesID (lobby_store sample_lobby) = 0"
proof -
  have e: "lobby_store sample_lobby = fold registerSystem server_systems (registerComponents (map cid (GameComponents @ [Behaviour])) new_ecs)"
    by (simp add: sample_lobby_def new_lobby_def registerAllSystems_def engine_registerSystem_def server_systems_def
        new_engine_def)
  have "e_entities (registerComponents cs (new_ecs :: server_system store)) = []" for cs
    by (induction cs rule: rev_induct) (simp_all add: registers_snoc registerComponent_def Let_def,
        simp add: registerComponents_def new_ecs_def)
  moreover have "e_entities (fold registerSystem ss d) = e_entities d" "e_entitiesID (fold registerSystem ss d) = e_entitiesID d"
    for ss and d :: "server_system store"
    by (induction ss arbitrary: d) (simp_all add: registerSystem_def)
  ultimately show "populated (lobby_store sample_lobby)" "e_entitiesID (lobby_store sample_lobby) = 0"
    unfolding e by (simp_all add: populated_def getAllEntities_def registers_ID) (simp add: new_ecs_def)
  show "getGameState (lb_engine sample_lobby) \<in> range state_number"
    by (simp add: sample_lobby_def new_lobby_def)
qed

theorem joining_client_sees_world_witness:
  "\<exists>l' ms tb. join_action 7 sample_lobby = Inr l' \<and> messages l' = messages sample_lobby @ ms \<and>
    handle_messages (for_session 7 ms) new_toolbox = Inr tb \<and> in_sync l' tb \<and> om_has (tb_serverToClient tb) 0"
proof -
  have "\<not> om_has (lb_players sample_lobby) 7" "e_entitiesID (lobby_store sample_lobby) < 2 ^ 64"
    by (simp_all add: sample_lobby_players sample_lobby_world(3))
  from joining_client_sees_world[OF sample_lobby_ok sample_lobby_world(1,2) this]
  show ?thesis using sample_lobby_world(3) by auto
qed

section \<open>A client that stays\<close>

text \<open>C2: a client that is in step with its lobby stays so: after any round of the thread of the lobby,
  with the tasks of all sessions and any number of ticks, the messages that the round has for a
  session that does not leave are handled by its client without a fault and bring it to exactly
  the entities and the state of the game that the lobby has then.\<close>

theorem client_follows_lobby:
  assumes "sound_lobby l" and "from_players (players_of l) (cq_queue (lb_actionQueue l))"
    and "Act_leave sp \<notin> set (cq_queue (lb_actionQueue l))" and "world sp l" and "in_sync l tb"
    and "lobby_round env n l = Inr l'" and "e_entitiesID (lobby_store l') \<le> 2 ^ 64"
  shows "\<exists>ms tb'. messages l' = messages l @ ms \<and> handle_messages (for_session sp ms) tb = Inr tb' \<and>
    in_sync l' tb' \<and> world sp l'"
proof -
  have "follows sp l l'" using follows_round[OF assms(1-3), of env n] assms(6) by (simp add: follows_res_def)
  with assms(4,5,7) show ?thesis by (fastforce simp: follows_def catches_up_def ids_fit_def)
qed

definition sample_second :: "unit lobby" where
  "sample_second = sample_joined\<lparr>lb_isRunning := True, lb_actionQueue := \<lparr>cq_queue = [Act_join 8]\<rparr>\<rparr>"

lemma joined_ID:
  assumes "game_store (lobby_store l)" and "populated (lobby_store l)" and "getGameState (lb_engine l) \<in> range state_number"
    and "\<not> om_has (lb_players l) sp"
  shows "\<exists>l'. join_action sp l = Inr l' \<and> e_entitiesID (lobby_store l') = Suc (e_entitiesID (lobby_store l))"
  by (rule joined[OF assms]) simp

lemma sample_joined_world:
  "world 7 sample_joined" "e_entitiesID (lobby_store sample_joined) = 1"
  "\<exists>ms tb. handle_messages ms new_toolbox = Inr tb \<and> in_sync sample_joined tb"
  "om_has (lb_players sample_joined) s \<longleftrightarrow> s = 7"
proof -
  have free: "\<not> om_has (lb_players sample_lobby) 7" by (simp add: sample_lobby_players)
  obtain i l' ms where j: "join_action 7 sample_lobby = Inr l'" "i = e_entitiesID (lobby_store sample_lobby)"
      "e_entitiesID (lobby_store l') = Suc i" "world 7 l'"
      "entities (lobby_store l') = insert i (entities (lobby_store sample_lobby))"
    by (rule joined[OF lobby_okD(1)[OF sample_lobby_ok] sample_lobby_world(1,2) free])
  have l': "sample_joined = l'" "i = 0" using j(1,2) sample_lobby_world(3) by (simp_all add: sample_joined_def)
  show "world 7 sample_joined" "e_entitiesID (lobby_store sample_joined) = 1" using j(3,4) l' by simp_all
  have "entities (lobby_store sample_lobby) = {}"
    using ecs_invD(6)[OF lobby_okD(2)[OF sample_lobby_ok]] sample_lobby_world(3) by (auto simp: set_getAllEntities)
  then have "i \<in> entities (lobby_store l')" "i = 0 \<Longrightarrow> entities (lobby_store l') = {0}" using j(5) by simp_all
  moreover have "ids_fit l'" using j(3) l'(2) by (simp add: ids_fit_def)
  ultimately show "\<exists>ms tb. handle_messages ms new_toolbox = Inr tb \<and> in_sync sample_joined tb"
    unfolding l'(1) using joined_in_sync[OF j(4), of i undefined undefined] by metis
  show "om_has (lb_players sample_joined) s \<longleftrightarrow> s = 7"
    using ok_join[OF sample_lobby_ok, of 7] j(1) l'(1) by (auto simp: sample_lobby_players)
qed

lemma sample_joined_sound: "sound_lobby sample_joined"
proof -
  obtain l' where "run_action (Act_join 7) sample_lobby = Inr l'" "sample_joined = l'"
    using ok_join[OF sample_lobby_ok, of 7] by (auto simp: sample_joined_def)
  with action_director[OF this(1) _ sample_lobby_sound] sample_lobby_sound sample_joined_ok show ?thesis
    by (simp add: sound_lobby_def)
qed

lemma sample_second_facts:
  "sound_lobby sample_second" "players_of sample_second = {7}" "world 7 sample_second"
  "cq_queue (lb_actionQueue sample_second) = [Act_join 8]" "lb_isRunning sample_second"
  using sample_joined_world(1,4) sample_joined_sound
  by (simp_all add: sample_second_def sound_lobby_def players_of_def world_def)

lemma sample_second_sync: "\<exists>ms tb. handle_messages ms new_toolbox = Inr tb \<and> in_sync sample_second tb"
  using sample_joined_world(3) by (simp add: sample_second_def in_sync_def)

lemma sample_second_round: "\<exists>l'. lobby_round sample_env 0 sample_second = Inr l' \<and> e_entitiesID (lobby_store l') = 2"
proof -
  let ?l = "sample_second\<lparr>lb_actionQueue := \<lparr>cq_queue = []\<rparr>\<rparr>"
  have "lobby_ok ?l" "populated (lobby_store ?l)" "getGameState (lb_engine ?l) \<in> range state_number"
    using sample_second_facts(1,3) by (simp_all add: sound_lobby_def world_def)
  moreover have "\<not> om_has (lb_players ?l) 8" using sample_joined_world(4) by (simp add: sample_second_def)
  moreover have "e_entitiesID (lobby_store ?l) = 1" using sample_joined_world(2) by (simp add: sample_second_def)
  ultimately obtain l' where "join_action 8 ?l = Inr l'" "e_entitiesID (lobby_store l') = 2"
    using joined_ID[of ?l 8] lobby_okD(1)[of ?l] by auto
  then show ?thesis using sample_second_facts(4,5) by (simp add: lobby_round_def)
qed

theorem client_follows_lobby_witness:
  "\<exists>l' tb ms tb'. lobby_round sample_env 0 sample_second = Inr l' \<and> messages l' = messages sample_second @ ms \<and>
    handle_messages (for_session 7 ms) tb = Inr tb' \<and> in_sync l' tb'"
proof -
  obtain l' where l': "lobby_round sample_env 0 sample_second = Inr l'" "e_entitiesID (lobby_store l') = 2"
    using sample_second_round by blast
  obtain tb where tb: "in_sync sample_second tb" using sample_second_sync by blast
  have "from_players (players_of sample_second) (cq_queue (lb_actionQueue sample_second))"
    "Act_leave 7 \<notin> set (cq_queue (lb_actionQueue sample_second))" "e_entitiesID (lobby_store l') \<le> 2 ^ 64"
    using l'(2) by (simp_all add: sample_second_facts)
  from client_follows_lobby[OF sample_second_facts(1) this(1,2) sample_second_facts(3) tb l'(1) this(3)] l'(1)
  show ?thesis by blast
qed

end
