(* ===== verification/ClientApp.thy ===== *)
theory ClientApp
  imports ClientFrame ClientWorld NetClient
begin

text \<open>
  The class \<open>client::App\<close> (\<^verbatim>\<open>Client/src/app.hpp\<close>, \<^verbatim>\<open>Client/src/app.cpp\<close>) and the service for outgoing
  messages with its system (\<^verbatim>\<open>Client/src/systems/network.hpp\<close>, \<^verbatim>\<open>Client/src/systems/network.cpp\<close>).
  The record of the application extends that of the network client, whose callbacks push the
  received messages as tasks.  An exception that leaves the main loop, which ends the program, and a
  read beyond the textures are values of \<open>client_app_fault\<close>; a result of \<open>None\<close> is a call that does
  not return.
\<close>

section \<open>State\<close>

datatype client_action = Do_message server_variant | Do_lobby_list lobby_list_ack_msg

record 'ep client_app = "'ep client" +
  ca_isContextRunning :: bool
  ca_shouldStop :: bool
  ca_actions :: "client_action concurrent_queue"
  ca_lobbies :: client_lobby
  ca_toolbox :: toolbox
  ca_networkService :: "client_variant list"
  ca_io :: io_system
  ca_lobbyButtons :: "lobby_button list"

datatype client_app_fault = CF_handler client_fault | CF_raise rt_error | CF_session fault | CF_texture

definition push_action :: "client_action \<Rightarrow> 'ep client_app \<Rightarrow> 'ep client_app" where
  "push_action a c = c\<lparr>ca_actions := cq_push a (ca_actions c)\<rparr>"

definition on_toolbox :: "(toolbox \<Rightarrow> toolbox) \<Rightarrow> 'ep client_app \<Rightarrow> 'ep client_app" where
  "on_toolbox f c = c\<lparr>ca_toolbox := f (ca_toolbox c)\<rparr>"

section \<open>What the application registers\<close>

definition push_message :: "('a \<Rightarrow> client_action) \<Rightarrow> ('a, 'ep client_app) callback" where
  "push_message mk now sp p = push_action (mk p)"

definition registerAllCallbacks :: "'ep client_app dispatcher \<Rightarrow> 'ep client_app dispatcher option" where
  "registerAllCallbacks d =
     Option.bind (bind_packet destroy_traits read_destroy (push_message (Do_message \<circ> V_Destroy)) d) (\<lambda>d.
     Option.bind (bind_packet join_ack_traits read_join_ack (push_message (Do_message \<circ> V_JoinAck)) d) (\<lambda>d.
     Option.bind (bind_packet lobby_list_ack_traits read_lobby_list_ack (push_message Do_lobby_list) d) (\<lambda>d.
     Option.bind (bind_packet spawn_traits read_spawn (push_message (Do_message \<circ> V_Spawn)) d) (\<lambda>d.
     Option.bind (bind_packet update_entity_state_traits read_update_entity_state
       (push_message (Do_message \<circ> V_UpdateEntityState)) d) (\<lambda>d.
     Option.bind (bind_packet update_game_state_traits read_update_game_state
       (push_message (Do_message \<circ> V_UpdateGameState)) d) (\<lambda>d.
     Option.bind (bind_packet update_health_traits read_update_health
       (push_message (Do_message \<circ> V_UpdateHealth)) d) (\<lambda>d.
     Option.bind (bind_packet update_position_traits read_update_position
       (push_message (Do_message \<circ> V_UpdatePosition)) d) (\<lambda>d.
       bind_packet world_init_traits read_world_init (push_message (Do_message \<circ> V_WorldInit)) d))))))))"

text \<open>The callbacks that only write to the log are the identity.\<close>

definition client_app_env :: "'ep client_app client_env" where
  "client_app_env =
     \<lparr>ce_dispatcher = the (Option.bind (client_dispatcher (Some (\<lambda>now c. c))) registerAllCallbacks),
      ce_onConnect = Some (\<lambda>now c. c), ce_onDisconnect = Some (\<lambda>now c. c), ce_onMessage = Some (\<lambda>now p c. c)\<rparr>"

text \<open>The constructor; \<open>endpoint\<close> is the address of the host, \<open>None\<close> when the text is none.\<close>

definition new_client_app ::
    "time \<Rightarrow> u16 \<Rightarrow> 'ep \<Rightarrow> 'ep option \<Rightarrow> connect_error + 'ep client_app" where
  "new_client_app now port no_endpoint endpoint =
     try_bind (client_connect now endpoint (client.extend (new_client port no_endpoint)
       \<lparr>ca_isContextRunning = False, ca_shouldStop = False, ca_actions = cq_new,
        ca_lobbies = \<lparr>cy_roomIds = [], cy_page = 0, cy_maxPage = 0\<rparr>, ca_toolbox = new_toolbox,
        ca_networkService = [], ca_io = \<lparr>io_input = new_io_value, io_show = False\<rparr>, ca_lobbyButtons = []\<rparr>))
       (\<lambda>c. Inr (c\<lparr>ca_isContextRunning := True\<rparr>))"

definition client_app_stop :: "'ep client_app \<Rightarrow> 'ep client_app" where
  "client_app_stop c = (if \<not> ca_isContextRunning c then c else c\<lparr>ca_isContextRunning := False\<rparr>)"

section \<open>Outgoing messages\<close>

definition service_send :: "client_variant \<Rightarrow> 'ep client_app \<Rightarrow> 'ep client_app" where
  "service_send v c = c\<lparr>ca_networkService := ca_networkService c @ [v]\<rparr>"

text \<open>\<open>std::visit([&client](auto&& p) { client.send(p); }, packet)\<close>.\<close>

primrec send_variant ::
    "client_variant \<Rightarrow> time \<Rightarrow> ('ep, 'm) client_scheme \<Rightarrow> (rt_error + ('ep, 'm) client_scheme) option" where
  "send_variant (V_Join m) now c = client_send join_traits write_join now m c"
| "send_variant V_Start now c = client_send start_traits write_empty now () c"
| "send_variant (V_UserInput m) now c = client_send user_input_traits write_user_input now m c"
| "send_variant (V_LobbyList m) now c = client_send lobby_list_traits write_lobby_list now m c"

primrec flush_variants :: "client_variant list \<Rightarrow> time \<Rightarrow> 'ep client_app \<Rightarrow> client_app_fault + 'ep client_app" where
  "flush_variants [] now c = Inr c"
| "flush_variants (v # vs) now c =
     try_bind (raise_as CF_raise (the (send_variant v now (c\<lparr>ca_networkService := vs\<rparr>)))) (flush_variants vs now)"

definition service_flush :: "time \<Rightarrow> 'ep client_app \<Rightarrow> client_app_fault + 'ep client_app" where
  "service_flush now c = flush_variants (ca_networkService c) now c"

definition Network_apply :: "time \<Rightarrow> int \<Rightarrow> 'ep client_app \<Rightarrow> (client_app_fault + 'ep client_app) option" where
  "Network_apply now timeout c =
     (case service_flush now c of
        Inl f \<Rightarrow> Some (Inl f)
      | Inr c1 \<Rightarrow> map_option (raise_as CF_session) (client_update client_app_env now timeout c1))"

section \<open>Tasks\<close>

definition run_client_action :: "client_action \<Rightarrow> 'ep client_app \<Rightarrow> client_app_fault + 'ep client_app" where
  "run_client_action a c =
     (case a of
        Do_message m \<Rightarrow>
          try_bind (raise_as CF_handler (handle_message m (ca_toolbox c))) (\<lambda>tb. Inr (c\<lparr>ca_toolbox := tb\<rparr>))
      | Do_lobby_list p \<Rightarrow>
          Inr (c\<lparr>ca_lobbies := \<lparr>cy_roomIds = map ucast (la_roomIds p), cy_page = la_page p, cy_maxPage = la_maxPage p\<rparr>\<rparr>))"

text \<open>\<open>while (_actions.pop(action)) action(_toolbox)\<close>.\<close>

primrec run_client_actions :: "client_action list \<Rightarrow> 'ep client_app \<Rightarrow> client_app_fault + 'ep client_app" where
  "run_client_actions [] c = Inr (c\<lparr>ca_actions := cq_new\<rparr>)"
| "run_client_actions (a # as) c =
     try_bind (run_client_action a (c\<lparr>ca_actions := \<lparr>cq_queue = as\<rparr>\<rparr>)) (run_client_actions as)"

section \<open>A frame\<close>

record client_frame =
  fr_raylib :: raylib
  fr_now :: time
  fr_timeout :: int

definition store_system :: "(client_system store \<Rightarrow> client_system store) \<Rightarrow> 'ep client_app \<Rightarrow> 'ep client_app" where
  "store_system f = on_toolbox (on_store f)"

definition io_step :: "raylib \<Rightarrow> 'ep client_app \<Rightarrow> 'ep client_app" where
  "io_step rl c =
     (case IO_apply rl (ca_io c) (client_store (ca_toolbox c)) of
        (io, e, out) \<Rightarrow> fold service_send out (store_system (\<lambda>_. e) (c\<lparr>ca_io := io\<rparr>)))"

definition menu_step :: "raylib \<Rightarrow> 'ep client_app \<Rightarrow> 'ep client_app" where
  "menu_step rl c =
     (case MenuRenderer_apply rl (ca_lobbies c) (ca_lobbyButtons c) (tb_engine (ca_toolbox c)) of
        (buttons, en, out) \<Rightarrow>
          fold service_send out (on_toolbox (\<lambda>tb. tb\<lparr>tb_engine := en\<rparr>) (c\<lparr>ca_lobbyButtons := buttons\<rparr>)))"

primrec client_apply_system ::
    "client_frame \<Rightarrow> client_system \<Rightarrow> 'ep client_app \<Rightarrow> (client_app_fault + 'ep client_app) option" where
  "client_apply_system fr AnimationSystem c = Some (Inr (store_system (AnimationSystem_apply (fr_raylib fr)) c))"
| "client_apply_system fr Interpolation c = Some (Inr (store_system (Interpolation_apply (fr_raylib fr)) c))"
| "client_apply_system fr IO c = Some (Inr (io_step (fr_raylib fr) c))"
| "client_apply_system fr NetworkSystem c = Network_apply (fr_now fr) (fr_timeout fr) c"
| "client_apply_system fr Renderer c =
     (case Renderer_apply (fr_raylib fr) (ca_shouldStop c) (client_store (ca_toolbox c)) of
        None \<Rightarrow> Some (Inl CF_texture)
      | Some (closing, _) \<Rightarrow> Some (Inr (c\<lparr>ca_shouldStop := closing\<rparr>)))"
| "client_apply_system fr MenuRenderer c = Some (Inr (menu_step (fr_raylib fr) c))"

primrec client_apply_systems ::
    "client_frame \<Rightarrow> client_system list \<Rightarrow> 'ep client_app \<Rightarrow> (client_app_fault + 'ep client_app) option" where
  "client_apply_systems fr [] c = Some (Inr c)"
| "client_apply_systems fr (s # ss) c =
     (case client_apply_system fr s c of
        Some (Inr c1) \<Rightarrow> client_apply_systems fr ss c1
      | r \<Rightarrow> r)"

text \<open>\<open>_toolbox.engine.runOnce(dt)\<close>; the client has no class derived from \<open>MonoBehaviour\<close> either.\<close>

definition client_runOnce :: "client_frame \<Rightarrow> 'ep client_app \<Rightarrow> (client_app_fault + 'ep client_app) option" where
  "client_runOnce fr c =
     (let c1 = store_system (\<lambda>e. group_apply (\<lambda>_. run_behaviour (\<lambda>_ e. e) (\<lambda>_ e. e)) (ecs_group [cid Behaviour] e) e) c
      in client_apply_systems fr (e_systems (client_store (ca_toolbox c1))) c1)"

text \<open>The start of \<open>run\<close> and one round of its loop.\<close>

definition client_run_start :: "'ep client_app \<Rightarrow> 'ep client_app" where
  "client_run_start = on_toolbox (\<lambda>tb. tb\<lparr>tb_engine := setMenuState (ucast (menu_state_value MenuHome))
     (setGameState (ucast (game_state_value GameMenu)) (tb_engine tb))\<rparr>)"

definition client_turn :: "client_frame \<Rightarrow> 'ep client_app \<Rightarrow> (client_app_fault + 'ep client_app) option" where
  "client_turn fr c =
     (if \<not> (ca_isContextRunning c \<and> \<not> ca_shouldStop c) then Some (Inr c)
      else case run_client_actions (cq_queue (ca_actions c)) c of
        Inl f \<Rightarrow> Some (Inl f)
      | Inr c1 \<Rightarrow> client_runOnce fr c1)"

end
