(* ===== verification/Graphics.thy ===== *)
theory Graphics
  imports ClientFrame
begin

text \<open>
  What the client adds to the entities that it shows: the sprite of an entity is that of its type, and
  its animation is at a frame of the strip of a type.  Every message of the server and every system of a
  frame keeps it so.
\<close>

section \<open>The invariant\<close>

definition sprites_ok :: "(component, 's) ecs \<Rightarrow> bool" where
  "sprites_ok e \<longleftrightarrow> (\<forall>i s. getEntityComponent (cid Sprite) i e = Some (C_Sprite s) \<longrightarrow>
     getEntityComponent (cid Type) i e = Some (C_Type \<lparr>ty_type = spr_type s\<rparr>))"

definition graphics_ok :: "(component, 's) ecs \<Rightarrow> bool" where
  "graphics_ok e \<longleftrightarrow> sprites_ok e \<and> frames_ok e"

text \<open>A step that leaves what is drawn alone.\<close>

definition looks :: "(component, 's) ecs \<Rightarrow> (component, 's) ecs \<Rightarrow> bool" where
  "looks e e' \<longleftrightarrow> (game_store e \<longrightarrow> game_store e' \<and>
     (\<forall>t \<in> {Sprite, Type, Animation}. \<forall>i. getEntityComponent (cid t) i e' = getEntityComponent (cid t) i e))"

lemma looks_refl [simp]: "looks e e"
  by (simp add: looks_def)

lemma looks_trans [trans]: "looks e e' \<Longrightarrow> looks e' e'' \<Longrightarrow> looks e e''"
  by (simp add: looks_def)

lemma looks_graphics: "looks e e' \<Longrightarrow> game_store e \<Longrightarrow> graphics_ok e' = graphics_ok e"
  by (simp add: looks_def graphics_ok_def sprites_ok_def frames_ok_def)

lemma looks_assign:
  assumes "type_of x \<notin> {Sprite, Type, Animation}"
  shows "looks e (ecs_assign (cid (type_of x)) k x e)"
  unfolding looks_def
proof (intro impI conjI ballI allI)
  assume e: "game_store e"
  show "game_store (ecs_assign (cid (type_of x)) k x e)" by (rule game_store.write_ref[OF e])
  show "getEntityComponent (cid t) i (ecs_assign (cid (type_of x)) k x e) = getEntityComponent (cid t) i e"
    if "t \<in> {Sprite, Type, Animation}" for t i
  proof -
    have "cid t \<noteq> cid (type_of x)" using that assms by (metis cid_inject)
    then show ?thesis by (simp add: get_assign[OF store_wf[OF e]])
  qed
qed

lemma looks_put:
  "looks e (put_position_at k p e)" "looks e (put_velocity_at k v e)" "looks e (put_state_at k s e)"
  "looks e (put_target_at k t e)" "looks e (put_hitbox_at k h e)" "looks e (ecs_assign (cid Behaviour) k (C_Behaviour b) e)"
  using looks_assign[of "C_Position p" e k] looks_assign[of "C_Velocity v" e k] looks_assign[of "C_State s" e k]
    looks_assign[of "C_TargetPos t" e k] looks_assign[of "C_Hitbox h" e k] looks_assign[of "C_Behaviour b" e k]
  by (simp_all add: put_position_at_def put_velocity_at_def put_state_at_def put_target_at_def put_hitbox_at_def)

lemma looks_hp: "looks e (put_hp_at k n e)"
  using looks_assign[of "C_Health ((as_health (ecs_deref (cid Health) k e))\<lparr>hp := n\<rparr>)" e k] by (simp add: put_hp_at_def)

lemma looks_apply:
  assumes "\<And>i refs e. looks e (f i refs e)"
  shows "looks e (group_apply f g e)"
proof -
  have "looks e (fold h is e)" if "\<And>i e. looks e (h i e)" for h :: "nat \<Rightarrow> 'a store \<Rightarrow> 'a store" and "is" e
    by (induction "is" arbitrary: e) (auto intro: looks_trans that)
  then show ?thesis unfolding group_apply_def using assms by (simp add: apply_helper_def)
qed

lemma looks_behaviours: "looks e (group_apply (\<lambda>_. run_behaviour (\<lambda>_ e. e) (\<lambda>_ e. e)) g e)"
proof (rule looks_apply)
  fix i refs and e :: "'a store"
  have "looks e (ecs_assign (cid Behaviour) k (C_Behaviour b) e)" for k b by (rule looks_put)
  then show "looks e (run_behaviour (\<lambda>_ e. e) (\<lambda>_ e. e) refs e)"
    by (simp add: run_behaviour_def Let_def split: component.split option.split)
qed

lemma looks_systems:
  "looks e (Interpolation_apply rl e)" "looks e (show_hitboxes b e)" "looks e (fst (snd (IO_apply rl io e)))"
proof -
  show "looks e (Interpolation_apply rl e)" and h: "looks e (show_hitboxes b e)" for b
    unfolding Interpolation_apply_def show_hitboxes_def
    by (rule looks_apply, simp add: interpolate_entity_def Let_def looks_put)+
  then show "looks e (fst (snd (IO_apply rl io e)))" by (simp add: IO_apply_def Let_def)
qed

lemma sprites_animated:
  assumes "game_store e"
  shows "getEntityComponent (cid Sprite) i (AnimationSystem_apply rl e) = getEntityComponent (cid Sprite) i e"
proof -
  have step: "getEntityComponent (cid Sprite) i (animate_at dt k d) = getEntityComponent (cid Sprite) i d" if "game_store d" for dt k i d
    using get_assign[OF store_wf[OF that], of "cid Sprite" i "cid Animation"] by (simp add: animate_at_def put_animation_at_def)
  have keep: "game_store (animate_at dt k d)" if "game_store d" for dt k d
    using game_store.write_ref[OF that, of "C_Animation a" k for a] by (simp add: animate_at_def put_animation_at_def)
  have "getEntityComponent (cid Sprite) i (fold (\<lambda>i. apply_helper (\<lambda>_ refs. animate_at dt (refs ! 0)) i (f i)) is d) =
      getEntityComponent (cid Sprite) i d" if "game_store d" for dt f "is" i d
    using that
  proof (induction "is" arbitrary: d)
    case (Cons j "is")
    then show ?case by (simp add: apply_helper_def step[simplified] keep)
  qed simp
  then show ?thesis using assms by (simp add: AnimationSystem_apply_def Let_def group_apply_def)
qed

lemma graphics_animated:
  assumes "game_store e" and "graphics_ok e"
  shows "graphics_ok (AnimationSystem_apply rl e)"
proof -
  have type: "getEntityComponent (cid Type) i (AnimationSystem_apply rl e) = getEntityComponent (cid Type) i e" for i
    using alike_systems(1)[of e rl] assms(1) unfolding alike_def by blast
  have "frames_ok (AnimationSystem_apply rl e)" using frames_animated[OF assms(1), of rl] assms(2) by (simp add: graphics_ok_def)
  with assms(2) show "graphics_ok (AnimationSystem_apply rl e)"
    unfolding graphics_ok_def sprites_ok_def sprites_animated[OF assms(1)] type by blast
qed

section \<open>Components that are added\<close>

lemma get_component:
  assumes "game_store e"
  shows "getEntityComponent c j (add_component i x e) =
    (if om_has (e_entities e) i \<and> j = i \<and> om_has (e_components e) c \<and> c = cid (type_of x) then Some x
     else getEntityComponent c j e)"
  by (auto simp: add_component_def get_addEntity[OF store_wf[OF assms]] pack_def)

lemma store_component: "game_store e \<Longrightarrow> game_store (add_component i x e)"
  using game_store.call[of e "Call_addEntityComponents i (pack [x])"] by (simp add: add_component_def typed_pack_def pack_def)

lemma looks_add: "type_of x \<notin> {Sprite, Type, Animation} \<Longrightarrow> looks e (add_component i x e)"
  unfolding looks_def using get_component[of e _ _ i x] store_component[of e i x] by (metis cid_inject)

lemma looks_add_target: "looks e (add_target i e)"
  by (simp add: add_target_def Let_def looks_add split: option.split)

text \<open>A sprite is that of the type of its entity.\<close>

lemma type_value:
  assumes "game_store e" and "getEntityWithComponent Type i e = Some k"
  shows "getEntityComponent (cid Type) i e = Some (C_Type \<lparr>ty_type = ty_type (type_at k e)\<rparr>)"
proof -
  have get: "getEntityComponent (cid Type) i e = Some (ecs_deref (cid Type) k e)"
    using ref_value[OF store_wf[OF assms(1)] assms(2)] .
  have "type_of (ecs_deref (cid Type) k e) = Type"
    using game_store_inv[OF assms(1)] get unfolding typed_store_def by (metis cid_inject)
  then show ?thesis using get by (cases "ecs_deref (cid Type) k e") (simp_all add: type_at_def)
qed

lemma graphics_sprite:
  assumes "game_store e" and "graphics_ok e"
  shows "game_store (add_sprite i e)" and "graphics_ok (add_sprite i e)"
proof -
  have "game_store (add_sprite i e) \<and> graphics_ok (add_sprite i e)"
  proof (cases "getEntityWithComponent Type i e")
    case (Some k)
    define t where "t = ty_type (type_at k e)"
    define e1 where "e1 = add_component i (C_Sprite \<lparr>spr_type = t\<rparr>) e"
    note get1 = get_component[OF assms(1), of _ _ i "C_Sprite \<lparr>spr_type = t\<rparr>", folded e1_def]
    have e1: "game_store e1" unfolding e1_def by (rule store_component[OF assms(1)])
    have g1: "graphics_ok e1"
      using assms(2) type_value[OF assms(1) Some]
      by (auto simp: graphics_ok_def sprites_ok_def frames_ok_def get1 t_def split: if_splits)
    define e2 where "e2 = add_component i (C_Animation (new_animation (typeToAnimation t))) e1"
    note get2 = get_component[OF e1, of _ _ i "C_Animation (new_animation (typeToAnimation t))", folded e2_def]
    have "game_store e2" unfolding e2_def by (rule store_component[OF e1])
    moreover have "graphics_ok e2" if "1 < sint (ac_frameCount (typeToAnimation t))"
      using g1 new_animation_ok[OF that]
      by (auto simp: graphics_ok_def sprites_ok_def frames_ok_def get2 split: if_splits)
    ultimately show ?thesis
      using e1 g1 Some by (simp add: add_sprite_def Let_def flip: t_def e1_def e2_def)
  qed (use assms in \<open>simp add: add_sprite_def\<close>)
  then show "game_store (add_sprite i e)" "graphics_ok (add_sprite i e)" by blast+
qed

section \<open>Messages\<close>

text \<open>A toolbox whose factory makes the components of the game, and whose entities are drawn as they should.\<close>

definition looks_ok :: "toolbox \<Rightarrow> bool" where
  "looks_ok tb \<longleftrightarrow> tb_componentFactory tb = new_factory GameComponents \<and> game_store (client_store tb) \<and>
     graphics_ok (client_store tb)"

lemma looks_ok_store:
  assumes "looks_ok tb" and "looks (client_store tb) (f (client_store tb))"
  shows "looks_ok (on_store f tb)"
  using assms looks_graphics[OF assms(2)] by (simp add: looks_ok_def looks_def on_store_def on_ecs_def)

lemma looks_ok_state [simp]:
  "looks_ok (tb\<lparr>tb_engine := setGameState s (tb_engine tb)\<rparr>) = looks_ok tb"
  "looks_ok (tb\<lparr>tb_engine := setMenuState s (tb_engine tb)\<rparr>) = looks_ok tb"
  "looks_ok (tb\<lparr>tb_engine := setMenuState s (setGameState s' (tb_engine tb))\<rparr>) = looks_ok tb"
  by (simp_all add: looks_ok_def setGameState_def setMenuState_def)

lemma read_component_type: "t \<in> set GameComponents \<Longrightarrow> read_component t p = (Inr x, q) \<Longrightarrow> type_of x = t"
  by (auto simp: GameComponents_def read_component_def rd_bind_def rd_return_def split: prod.splits sum.splits)

text \<open>What the factory adds are components of the game, to the one entity.\<close>

lemma factory_adds:
  fixes e e' :: "client_system store"
  shows "factory_loop ts n j b e p = Inr e' \<Longrightarrow> game_store e \<Longrightarrow> set ts \<subseteq> set GameComponents \<Longrightarrow>
    game_store e' \<and> (\<forall>c l. l \<noteq> j \<or> c \<notin> cid ` set GameComponents \<longrightarrow> getEntityComponent c l e' = getEntityComponent c l e)"
proof (induction ts arbitrary: n b e p)
  case (Cons t ts)
  have one: "game_store d \<and> (\<forall>c l. l \<noteq> j \<or> c \<notin> cid ` set GameComponents \<longrightarrow> getEntityComponent c l d = getEntityComponent c l e)"
    if run: "run_creator t j e p = Inr (d, q)" for d q
  proof -
    obtain x where x: "read_component t p = (Inr x, q)" "d = add_component j x e"
      using run by (auto simp: run_creator_def add_component_def split: prod.splits sum.splits)
    have "cid (type_of x) \<in> cid ` set GameComponents" using read_component_type[OF _ x(1)] Cons.prems(3) by auto
    then show ?thesis
      unfolding x(2) using get_component[OF Cons.prems(2), of _ _ j x] store_component[OF Cons.prems(2)] by auto
  qed
  show ?case
  proof (cases "br_bool (bs_ref (n + 1) b)")
    case True
    then obtain d q where d: "run_creator t j e p = Inr (d, q)" "factory_loop ts (n + 1) j (bs_grow (n + 1) b) d q = Inr e'"
      using Cons.prems(1) by (auto simp: Let_def try_bind_Inr_iff)
    with one[OF d(1)] Cons.IH[OF d(2)] Cons.prems(3) show ?thesis by simp
  qed (use Cons in \<open>simp add: Let_def\<close>)
qed simp

lemma looks_spawn:
  assumes "looks_ok tb" and "handleSpawn packet tb = Inr tb'"
  shows "looks_ok tb'"
proof (cases "om_has (tb_serverToClient tb) (sp_id packet)")
  case False
  let ?b = "tb_serverToClient tb" and ?k = "sp_id packet"
  have tb: "tb_componentFactory tb = new_factory GameComponents" "game_store (client_store tb)" "graphics_ok (client_store tb)"
    using assms(1) by (simp_all add: looks_ok_def)
  obtain j e1 where pre: "preRegisterEntity (client_store tb) = (j, e1)" by fastforce
  note p = pre_register[OF tb(2) pre]
  obtain bm e2 where e2: "factory_apply (tb_componentFactory tb) e1 j bm (sp_content packet) = Inr e2"
    "tb' = addGraphicalComponents j (tb\<lparr>tb_serverToClient := om_put ?k j ?b, tb_engine := on_ecs (\<lambda>_. e2) (tb_engine tb)\<rparr>)"
    using assms(2) False pre
    by (auto simp: handleSpawn_def Let_def on_store_def on_ecs_def split: option.splits sum.splits)
  have st: "game_store e2" "\<And>c l. l \<noteq> j \<or> c \<notin> cid ` set GameComponents \<Longrightarrow>
      getEntityComponent c l e2 = getEntityComponent c l (client_store tb)"
    using factory_adds[OF e2(1)[unfolded factory_apply_def] p(1)] p(4) by (auto simp: tb(1) new_factory_creators)
  have other: "cid Sprite \<notin> cid ` set GameComponents" "cid Animation \<notin> cid ` set GameComponents"
    by (auto simp: GameComponents_def)
  have "getEntityComponent (cid Sprite) j (client_store tb) = None"
    using component_entity[OF store_wf[OF tb(2)], of "cid Sprite" j] p(2) by blast
  then have "graphics_ok e2"
    using tb(3) st(2) other unfolding graphics_ok_def sprites_ok_def frames_ok_def
    by (metis option.distinct(1))
  with graphics_sprite[OF st(1)] have "game_store (add_sprite j e2)" "graphics_ok (add_sprite j e2)" by blast+
  with looks_add_target[of "add_sprite j e2" j] looks_graphics[OF looks_add_target]
  show ?thesis by (simp add: e2(2) addGraphicalComponents_def looks_ok_def on_store_def on_ecs_def tb(1) looks_def)
qed (use assms in \<open>simp add: handleSpawn_def\<close>)

lemma looks_world: "looks_ok tb \<Longrightarrow> world_loop n i packet tb = Inr tb' \<Longrightarrow> looks_ok tb'"
  by (induction n arbitrary: i tb) (auto simp: try_bind_Inr_iff dest: looks_spawn split: if_splits)

lemma looks_destroy:
  assumes "looks_ok tb"
  shows "looks_ok (handleDestroy packet tb)"
proof (cases "map_of (tb_serverToClient tb) (de_id packet)")
  case (Some j)
  have tb: "game_store (client_store tb)" using assms by (simp add: looks_ok_def)
  have "graphics_ok (destroyEntity j (client_store tb))"
    using assms by (auto simp: looks_ok_def graphics_ok_def sprites_ok_def frames_ok_def get_destroy[OF store_wf[OF tb]]
        split: if_splits)
  with assms destroy_store(1)[OF tb] Some show ?thesis
    by (simp add: handleDestroy_def looks_ok_def engine_destroyEntity_def on_ecs_def)
qed (use assms in \<open>simp add: handleDestroy_def\<close>)

lemma looks_update: "looks e (update_velocity packet i (update_target packet i e))"
proof -
  have "looks e (update_target packet i e)" for e :: "client_system store"
    by (simp add: update_target_def move_towards_def Let_def looks_put split: option.split)
  moreover have "looks e (update_velocity packet i e)" for e :: "client_system store"
    by (simp add: update_velocity_def looks_put split: option.split)
  ultimately show ?thesis by (meson looks_trans)
qed

lemma looks_handled:
  assumes "looks_ok tb" and "handle_message m tb = Inr tb'"
  shows "looks_ok tb'"
proof (cases m)
  case (V_JoinAck p)
  let ?tb = "tb\<lparr>tb_engine := setMenuState (ucast (menu_state_value MenuLobby)) (setGameState (ja_gameState p) (tb_engine tb))\<rparr>"
  have "looks_ok ?tb" using assms(1) by simp
  then have "looks_ok (on_store (add_component j C_Me) ?tb)" for j by (rule looks_ok_store) (rule looks_add, simp)
  with assms V_JoinAck show ?thesis by (auto simp: handleJoinAck_def Let_def split: option.splits if_splits)
next
  case (V_WorldInit p)
  with assms show ?thesis by (auto simp: handleWorldInit_def intro: looks_world[rotated])
next
  case (V_UpdatePosition p)
  with assms show ?thesis
    by (auto simp: handleUpdatePosition_def split: option.splits intro!: looks_ok_store looks_update)
qed (use assms in \<open>auto simp: handleUpdateEntityState_def handleUpdateHealth_def handleUpdateGameState_def
      looks_destroy looks_put looks_hp split: option.splits intro: looks_spawn intro!: looks_ok_store\<close>)

lemma looks_handled_all: "looks_ok tb \<Longrightarrow> handle_messages ms tb = Inr tb' \<Longrightarrow> looks_ok tb'"
  by (induction ms arbitrary: tb) (auto simp: try_bind_Inr_iff dest: looks_handled)

lemma looks_new: "looks_ok new_toolbox"
proof -
  have "getEntityComponent c i (client_store new_toolbox) = None" for c i
    using component_entity[OF store_wf[OF new_toolbox_store(1)], of c i] new_toolbox_store(2) by (metis empty_iff)
  then have "graphics_ok (client_store new_toolbox)" by (simp add: graphics_ok_def sprites_ok_def frames_ok_def)
  moreover have "tb_componentFactory new_toolbox = new_factory GameComponents" by (simp add: new_toolbox_def)
  ultimately show ?thesis using new_toolbox_store(1) by (simp add: looks_ok_def)
qed

section \<open>How many players are drawn\<close>

text \<open>The entities of the type of a player: on the client no more of them are drawn than the lobby has.\<close>

definition player_entities :: "(component, 's) ecs \<Rightarrow> nat set" where
  "player_entities e = {i. getEntityComponent (cid Type) i e = Some (C_Type \<lparr>ty_type = entity_type_value kPlayer\<rparr>)}"

lemma players_drawn:
  assumes "mirrors (entities e) e tb" and "graphics_ok (client_store tb)"
  shows "card (player_sprites (client_store tb)) \<le> card (player_entities e)"
proof -
  note m = mirrorsD[OF assms(1)]
  let ?b = "tb_serverToClient tb" and ?at = "\<lambda>i. the (map_of (tb_serverToClient tb) (word_of_nat i))"
  have sub: "player_sprites (client_store tb) \<subseteq> ?at ` player_entities e"
  proof
    fix j assume "j \<in> player_sprites (client_store tb)"
    then have type: "getEntityComponent (cid Type) j (client_store tb) = Some (C_Type \<lparr>ty_type = entity_type_value kPlayer\<rparr>)"
      using assms(2) unfolding player_sprites_def graphics_ok_def sprites_ok_def by fastforce
    then have "j \<in> snd ` set ?b" unfolding m(8) using component_entity[OF store_wf[OF m(2)], of "cid Type" j] by blast
    then obtain k where k: "(k, j) \<in> set ?b" by force
    then obtain i where i: "i \<in> entities e" "k = word_of_nat i" using m(7) by force
    have at: "map_of ?b (word_of_nat i) = Some j" using map_of_is_SomeI[OF om_wf_distinct[OF m(5)] k] i(2) by simp
    with m(9)[OF i(1) at] type have "i \<in> player_entities e" unfolding shows_entity_def player_entities_def by simp
    with at show "j \<in> ?at ` player_entities e" by force
  qed
  have "player_entities e \<subseteq> entities e"
    using component_entity[OF store_wf[OF m(1)], of "cid Type"] unfolding player_entities_def by blast
  then have fin: "finite (player_entities e)" using finite_subset by blast
  have "card (player_sprites (client_store tb)) \<le> card (?at ` player_entities e)" using card_mono[OF _ sub] fin by blast
  also have "\<dots> \<le> card (player_entities e)" by (rule card_image_le[OF fin])
  finally show ?thesis .
qed

section \<open>Stores that are drawn alike\<close>

definition drawn_alike :: "(component, 's) ecs \<Rightarrow> (component, 's) ecs \<Rightarrow> bool" where
  "drawn_alike e e' \<longleftrightarrow> alike e e' \<and>
     (game_store e \<longrightarrow> (\<forall>i. getEntityComponent (cid Sprite) i e' = getEntityComponent (cid Sprite) i e) \<and>
        (graphics_ok e \<longrightarrow> graphics_ok e'))"

lemma drawn_alike_refl [simp]: "drawn_alike e e"
  by (simp add: drawn_alike_def)

lemma drawn_alike_trans: "drawn_alike e e' \<Longrightarrow> drawn_alike e' e'' \<Longrightarrow> drawn_alike e e''"
  by (auto simp: drawn_alike_def alike_def)

lemma drawn_looks: "alike e e' \<Longrightarrow> looks e e' \<Longrightarrow> drawn_alike e e'"
  using looks_graphics[of e e'] by (auto simp: drawn_alike_def looks_def)

lemma drawn_animation: "drawn_alike e (AnimationSystem_apply rl e)"
  unfolding drawn_alike_def using alike_systems(1) sprites_animated graphics_animated by blast

lemma drawn_systems:
  "drawn_alike e (AnimationSystem_apply rl e)" "drawn_alike e (Interpolation_apply rl e)"
  "drawn_alike e (fst (snd (IO_apply rl io e)))"
  "drawn_alike e (group_apply (\<lambda>_. run_behaviour (\<lambda>_ e. e) (\<lambda>_ e. e)) g e)"
  by (rule drawn_animation drawn_looks[OF alike_systems(2) looks_systems(1)]
      drawn_looks[OF alike_systems(4) looks_systems(3)]
      drawn_looks[OF alike_touched[OF touched_behaviours] looks_behaviours])+

lemma drawn_players: "drawn_alike e e' \<Longrightarrow> game_store e \<Longrightarrow> player_sprites e' = player_sprites e"
  unfolding drawn_alike_def alike_def player_sprites_def by (simp add: GameComponents_def)

end
