(* ===== verification/ClientTurn.thy ===== *)
theory ClientTurn
  imports ClientApp ServerLife ClientLife Graphics
begin

text \<open>
  What a turn of the client's main loop does: every message of the server reaches its handler, a turn
  returns, and after it the client shows what the lobby has.
\<close>

section \<open>Messages that arrive\<close>

lemma client_packets_compile:
  "t \<in> {destroy_traits, join_ack_traits, lobby_list_ack_traits, spawn_traits, update_entity_state_traits,
    update_game_state_traits, update_health_traits, update_position_traits, world_init_traits, join_traits, start_traits,
    user_input_traits, lobby_list_traits} \<Longrightarrow> verifyUserPacketData t"
  by (auto simp: verifyUserPacketData_def verifyPacketData_def getChannelId_def traits_defs
      INTERNAL_CHANNEL_ID_def DEFAULT_CHANNEL_ID_def)

lemma client_app_dispatcher:
  "ce_dispatcher client_app_env =
    [(system_id kConnect, packet_handler read_empty Connect_onReceive),
     (system_id kConnectAck, packet_handler read_connect_ack (ConnectAck_handler (Some (\<lambda>now c. c)))),
     (system_id kDisconnect, packet_handler read_empty Disconnect_onReceive),
     (t_kId join_ack_traits, packet_handler read_join_ack (push_message (Do_message \<circ> V_JoinAck))),
     (t_kId spawn_traits, packet_handler read_spawn (push_message (Do_message \<circ> V_Spawn))),
     (t_kId destroy_traits, packet_handler read_destroy (push_message (Do_message \<circ> V_Destroy))),
     (t_kId update_entity_state_traits,
        packet_handler read_update_entity_state (push_message (Do_message \<circ> V_UpdateEntityState))),
     (t_kId update_position_traits, packet_handler read_update_position (push_message (Do_message \<circ> V_UpdatePosition))),
     (t_kId update_health_traits, packet_handler read_update_health (push_message (Do_message \<circ> V_UpdateHealth))),
     (t_kId update_game_state_traits,
        packet_handler read_update_game_state (push_message (Do_message \<circ> V_UpdateGameState))),
     (t_kId world_init_traits, packet_handler read_world_init (push_message (Do_message \<circ> V_WorldInit))),
     (t_kId lobby_list_ack_traits, packet_handler read_lobby_list_ack (push_message Do_lobby_list))]"
proof -
  have "verifyInternalPacketData connect_ack_traits"
    by (simp add: verifyInternalPacketData_def verifyPacketData_def internal_traits_defs getChannelId_def)
  then have "ce_dispatcher client_app_env =
      registerHandler world_init_traits read_world_init (push_message (Do_message \<circ> V_WorldInit))
     (registerHandler update_position_traits read_update_position (push_message (Do_message \<circ> V_UpdatePosition))
     (registerHandler update_health_traits read_update_health (push_message (Do_message \<circ> V_UpdateHealth))
     (registerHandler update_game_state_traits read_update_game_state (push_message (Do_message \<circ> V_UpdateGameState))
     (registerHandler update_entity_state_traits read_update_entity_state (push_message (Do_message \<circ> V_UpdateEntityState))
     (registerHandler spawn_traits read_spawn (push_message (Do_message \<circ> V_Spawn))
     (registerHandler lobby_list_ack_traits read_lobby_list_ack (push_message Do_lobby_list)
     (registerHandler join_ack_traits read_join_ack (push_message (Do_message \<circ> V_JoinAck))
     (registerHandler destroy_traits read_destroy (push_message (Do_message \<circ> V_Destroy))
     (registerHandler connect_ack_traits read_connect_ack (ConnectAck_handler (Some (\<lambda>now c. c)))
       (the new_dispatcher))))))))))"
    by (simp add: client_app_env_def registerAllCallbacks_def client_dispatcher_def internal_bind_def
        new_dispatcher_handlers bind_packet_def client_packets_compile)
  then show ?thesis
    by (simp add: new_dispatcher_handlers registerHandler_def om_has_def om_put_def traits_defs internal_traits_defs)
qed

lemma client_bound:
  "map_of (ce_dispatcher client_app_env) (t_kId destroy_traits) =
     Some (packet_handler read_destroy (push_message (Do_message \<circ> V_Destroy)))"
  "map_of (ce_dispatcher client_app_env) (t_kId join_ack_traits) =
     Some (packet_handler read_join_ack (push_message (Do_message \<circ> V_JoinAck)))"
  "map_of (ce_dispatcher client_app_env) (t_kId spawn_traits) =
     Some (packet_handler read_spawn (push_message (Do_message \<circ> V_Spawn)))"
  "map_of (ce_dispatcher client_app_env) (t_kId update_entity_state_traits) =
     Some (packet_handler read_update_entity_state (push_message (Do_message \<circ> V_UpdateEntityState)))"
  "map_of (ce_dispatcher client_app_env) (t_kId update_game_state_traits) =
     Some (packet_handler read_update_game_state (push_message (Do_message \<circ> V_UpdateGameState)))"
  "map_of (ce_dispatcher client_app_env) (t_kId update_health_traits) =
     Some (packet_handler read_update_health (push_message (Do_message \<circ> V_UpdateHealth)))"
  "map_of (ce_dispatcher client_app_env) (t_kId update_position_traits) =
     Some (packet_handler read_update_position (push_message (Do_message \<circ> V_UpdatePosition)))"
  "map_of (ce_dispatcher client_app_env) (t_kId world_init_traits) =
     Some (packet_handler read_world_init (push_message (Do_message \<circ> V_WorldInit)))"
  "map_of (ce_dispatcher client_app_env) (t_kId lobby_list_ack_traits) =
     Some (packet_handler read_lobby_list_ack (push_message Do_lobby_list))"
  by (simp_all add: client_app_dispatcher traits_defs)

lemma client_callbacks [simp]:
  "ce_onConnect client_app_env = Some (\<lambda>now c. c)" "ce_onDisconnect client_app_env = Some (\<lambda>now c. c)"
  "ce_onMessage client_app_env = Some (\<lambda>now p c. c)"
  by (simp_all add: client_app_env_def)

lemma client_task_runs:
  fixes c :: "'ep client_app"
  assumes "map_of (ce_dispatcher client_app_env) (p_messageId q) =
      Some (packet_handler rd (push_message mk :: (_, 'ep client_app) callback))"
    and "rd q = (Inr m, r)"
  shows "run_client_task client_app_env now (Task_received sp q) c = push_action (mk m) c"
  using assms by (simp add: run_client_task_def dispatch_def packet_handler_def push_message_def)

lemma client_message_arrives:
  fixes c :: "'ep client_app"
  assumes "codec_for ok wr rd" and "ok m" and "make_packet t wr m = Inr p"
    and "map_of (ce_dispatcher client_app_env) (t_kId t) = Some (packet_handler rd (push_message mk :: (_, 'ep client_app) callback))"
    and "p_messageId q = p_messageId p" and "unread q = p_buffer p"
  shows "run_client_task client_app_env now (Task_received sp q) c = push_action (mk m) c"
proof -
  from codec_received[OF assms(1-3,6)] obtain r where "p_messageId p = t_kId t" "rd q = (Inr m, r)" by blast
  with assms(4,5) client_task_runs[of q rd mk m r] show ?thesis by simp
qed

text \<open>C10: what the server says is what the client does: the packet that the server makes of one of its messages,
  however it travels, makes the client queue exactly that message for the main loop, the answer to a
  request for lobbies included, and changes nothing else.\<close>

theorem server_messages_reach_client:
  assumes "case m of To_client v \<Rightarrow> server_variant_fits v | To_client_list a \<Rightarrow> length (la_roomIds a) \<le> 65535 | To_server v \<Rightarrow> False"
    and "message_packet m = Inr p" and "p_messageId q = p_messageId p" and "unread q = p_buffer p"
  shows "run_client_task client_app_env now (Task_received sp q) c =
    push_action (case m of To_client v \<Rightarrow> Do_message v | To_client_list a \<Rightarrow> Do_lobby_list a) c"
proof -
  note go = client_message_arrives[OF _ _ _ _ assms(3,4)]
  consider (list) a where "m = To_client_list a" | (variant) v where "m = To_client v"
    using assms(1) by (cases m) simp_all
  then show ?thesis
  proof cases
    case list
    with assms(1,2) go[OF lobby_list_ack_codec _ _ client_bound(9)] show ?thesis by simp
  next
    case variant
    with assms(1,2) go[OF destroy_codec _ _ client_bound(1)] go[OF join_ack_codec _ _ client_bound(2)]
      go[OF spawn_codec _ _ client_bound(3)] go[OF update_entity_state_codec _ _ client_bound(4)]
      go[OF update_game_state_codec _ _ client_bound(5)] go[OF update_health_codec _ _ client_bound(6)]
      go[OF update_position_codec _ _ client_bound(7)] go[OF world_init_codec _ _ client_bound(8)]
    show ?thesis by (cases v) simp_all
  qed
qed

section \<open>A turn returns\<close>

lemma push_keeps [simp]:
  "cl_eventQueue (push_action a c) = cl_eventQueue c" "ca_toolbox (push_action a c) = ca_toolbox c"
  "ca_isContextRunning (push_action a c) = ca_isContextRunning c" "ca_shouldStop (push_action a c) = ca_shouldStop c"
  by (simp_all add: push_action_def)

lemma kept_on_raise: "(\<And>w'. r = Inr w' \<Longrightarrow> f w' = f w) \<Longrightarrow> f (keep_on_raise w r) = f w"
  by (cases r) (simp_all add: keep_on_raise_def)

lemma client_sessions_keep [simp]:
  fixes c :: "'ep client_app"
  shows "cl_eventQueue (on_session sp f c) = cl_eventQueue c" "ca_toolbox (on_session sp f c) = ca_toolbox c"
    "ca_actions (on_session sp f c) = ca_actions c"
  by (simp_all add: on_session_def)

lemma push_handler_keeps [simp]:
  fixes c :: "'ep client_app"
  shows "cl_eventQueue (snd (packet_handler rd (push_message mk) now sp p c)) = cl_eventQueue c"
    and "ca_toolbox (snd (packet_handler rd (push_message mk) now sp p c)) = ca_toolbox c"
  by (simp_all add: packet_handler_def push_message_def split: prod.split sum.split)

lemma client_handler_keeps:
  fixes c :: "'ep client_app"
  assumes "map_of (ce_dispatcher client_app_env) i = Some h"
  shows "cl_eventQueue (snd (h now sp p c)) = cl_eventQueue c \<and> ca_toolbox (snd (h now sp p c)) = ca_toolbox c"
proof -
  have "cl_eventQueue (Connect_onReceive now sp x c) = cl_eventQueue c" "ca_toolbox (Connect_onReceive now sp x c) = ca_toolbox c"
    for x by (simp_all add: Connect_onReceive_sends)
  moreover have "cl_eventQueue (Disconnect_onReceive now sp x c) = cl_eventQueue c"
    "ca_toolbox (Disconnect_onReceive now sp x c) = ca_toolbox c" for x
    by (simp_all add: Disconnect_onReceive_def)
  moreover have "cl_eventQueue (snd (packet_handler read_connect_ack (ConnectAck_handler (Some (\<lambda>now c. c))) now sp p c)) = cl_eventQueue c"
    "ca_toolbox (snd (packet_handler read_connect_ack (ConnectAck_handler (Some (\<lambda>now c. c))) now sp p c)) = ca_toolbox c"
    by (simp_all add: packet_handler_def ConnectAck_handler_def split: prod.split sum.split)
  ultimately show ?thesis
    using assms by (auto simp: client_app_dispatcher split: if_splits)
qed

lemma client_task_keeps:
  fixes c :: "'ep client_app"
  shows "cl_eventQueue (run_client_task client_app_env now task c) = cl_eventQueue c"
    and "ca_toolbox (run_client_task client_app_env now task c) = ca_toolbox c"
  using client_handler_keeps[where c = c]
  by (auto simp: run_client_task_def dispatch_def split: client_task.split prod.split option.split)
    (metis snd_conv)+

lemma client_events_end:
  fixes c :: "'ep client_app"
  shows "\<exists>c'. client_processEvents client_app_env now c = Some c' \<and> ca_toolbox c' = ca_toolbox c"
proof (induction "tsq_queue (cl_eventQueue c)" arbitrary: c)
  case Nil
  then show ?case by (simp add: no_events)
next
  case (Cons task q)
  let ?c = "run_client_task client_app_env now task (c\<lparr>cl_eventQueue := (cl_eventQueue c)\<lparr>tsq_queue := q\<rparr>\<rparr>)"
  have "client_processEvents client_app_env now c = client_processEvents client_app_env now ?c"
    using Cons.hyps(2)[symmetric] by (subst client_processEvents.simps) (simp add: tsq_pop_def)
  moreover have "q = tsq_queue (cl_eventQueue ?c)" "ca_toolbox ?c = ca_toolbox c" by (simp_all add: client_task_keeps)
  ultimately show ?case using Cons.hyps(1)[of ?c] by simp
qed

lemma client_maintain_keeps:
  fixes c :: "'ep client_app"
  assumes "client_maintain now timeout c = Inr c'"
  shows "ca_toolbox c' = ca_toolbox c \<and> ca_actions c' = ca_actions c"
proof -
  have attempt: "ca_toolbox (attemptConnection now d) = ca_toolbox d" "ca_actions (attemptConnection now d) = ca_actions d"
    for d :: "'ep client_app"
    by (simp_all add: attempt_result)
  have "ca_toolbox (client_disconnect now d) = ca_toolbox d \<and> ca_actions (client_disconnect now d) = ca_actions d"
    for d :: "'ep client_app"
    by (simp add: client_disconnect_def push_event_def Let_def keep_on_raise_def session_send_def send_empty
        split: option.split)
  then have "ca_toolbox d' = ca_toolbox d \<and> ca_actions d' = ca_actions d"
    if "client_service now timeout sp b d = Inr d'" for sp b and d d' :: "'ep client_app"
    using that by (auto simp: client_service_def try_bind_Inr_iff split: if_splits)
  from this[of _ _ "c\<lparr>cl_serverSession := None\<rparr>" c'] this[of _ _ c c'] assms attempt show ?thesis
    by (auto simp: client_maintain_def split: option.splits if_splits)
qed

section \<open>Steps that keep what the client shows\<close>

definition same_view :: "toolbox \<Rightarrow> toolbox \<Rightarrow> bool" where
  "same_view tb tb' \<longleftrightarrow>
     drawn_alike (client_store tb) (client_store tb') \<and> tb_serverToClient tb' = tb_serverToClient tb \<and>
     tb_componentFactory tb' = tb_componentFactory tb \<and> getGameState (tb_engine tb') = getGameState (tb_engine tb)"

lemma same_view_refl [simp]: "same_view tb tb"
  by (simp add: same_view_def)

lemma same_view_trans: "same_view tb tb' \<Longrightarrow> same_view tb' tb'' \<Longrightarrow> same_view tb tb''"
  by (auto simp: same_view_def intro: drawn_alike_trans)

lemma in_sync_same_view: "in_sync l tb \<Longrightarrow> same_view tb tb' \<Longrightarrow> in_sync l tb'"
  by (auto simp: in_sync_def same_view_def drawn_alike_def intro: mirrors_alike_client)

lemma same_view_store: "drawn_alike (client_store tb) (f (client_store tb)) \<Longrightarrow> same_view tb (on_store f tb)"
  by (simp add: same_view_def) (simp add: on_store_def)

text \<open>The renderer reads no texture that is missing: the window is to be closed, or there are at most four
  players to draw.\<close>

definition drawable :: "client_frame \<Rightarrow> toolbox \<Rightarrow> bool" where
  "drawable fr tb \<longleftrightarrow> rl_windowShouldClose (fr_raylib fr) \<or> card (player_sprites (client_store tb)) \<le> 4"

lemma drawable_same_view: "same_view tb tb' \<Longrightarrow> game_store (client_store tb) \<Longrightarrow> drawable fr tb' = drawable fr tb"
  by (auto simp: drawable_def same_view_def drawn_players)

text \<open>What a step of a frame ends with: it ends, keeps the view, and fails at most by a texture that is
  missing.\<close>

definition settles :: "client_frame \<Rightarrow> 'ep client_app \<Rightarrow> (client_app_fault + 'ep client_app) option \<Rightarrow> bool" where
  "settles fr c r \<longleftrightarrow>
     (\<exists>x. r = Some x \<and>
        (\<forall>f. x = Inl f \<longrightarrow> f = CF_texture \<and>
           (game_store (client_store (ca_toolbox c)) \<longrightarrow> \<not> drawable fr (ca_toolbox c))) \<and>
        (\<forall>c'. x = Inr c' \<longrightarrow> same_view (ca_toolbox c) (ca_toolbox c')))"

lemma settles_ok [simp]: "same_view (ca_toolbox c) (ca_toolbox c') \<Longrightarrow> settles fr c (Some (Inr c'))"
  by (auto simp: settles_def)

lemma settles_trans:
  assumes "same_view (ca_toolbox c) (ca_toolbox c')" and "settles fr c' r"
  shows "settles fr c r"
proof -
  have "game_store (client_store (ca_toolbox c'))" "drawable fr (ca_toolbox c') = drawable fr (ca_toolbox c)"
    if "game_store (client_store (ca_toolbox c))"
    using assms(1) that drawable_same_view[OF assms(1) that] by (simp_all add: same_view_def drawn_alike_def alike_def)
  with assms same_view_trans show ?thesis by (auto simp: settles_def)
qed

lemma settles_bind:
  assumes "settles fr c r" and "\<And>c'. r = Some (Inr c') \<Longrightarrow> settles fr c' (k c')"
  shows "settles fr c (case r of Some (Inr c') \<Rightarrow> k c' | x \<Rightarrow> x)"
proof (cases r)
  case (Some x)
  show ?thesis
  proof (cases x)
    case (Inr c')
    with Some assms(1) have "same_view (ca_toolbox c) (ca_toolbox c')" by (simp add: settles_def)
    with Some Inr assms(2)[of c'] show ?thesis by (simp add: settles_trans)
  qed (use assms Some in simp)
qed (use assms in \<open>simp add: settles_def\<close>)

lemma settles_store:
  "(\<And>e. drawn_alike e (f e)) \<Longrightarrow> settles fr c (Some (Inr (store_system f c)))"
  by (rule settles_ok) (simp add: store_system_def on_toolbox_def same_view_store)

lemma fold_send_toolbox [simp]: "ca_toolbox (fold service_send out c) = ca_toolbox c"
  by (induction out arbitrary: c) (simp_all add: service_send_def)

lemma settles_io: "settles fr c (Some (Inr (io_step rl c)))"
proof -
  obtain io e out where r: "IO_apply rl (ca_io c) (client_store (ca_toolbox c)) = (io, e, out)"
    by (metis prod_cases3)
  then have "drawn_alike (client_store (ca_toolbox c)) e"
    using drawn_systems(3)[of "client_store (ca_toolbox c)" rl "ca_io c"] by simp
  with r show ?thesis
    by (auto simp: io_step_def store_system_def on_toolbox_def intro!: settles_ok same_view_store)
qed

lemma menu_engine:
  assumes "MenuRenderer_apply rl lobby buttons en = (buttons', en', out)"
  shows "en_ecs en' = en_ecs en" and "getGameState en' = getGameState en"
  using assms
  by (auto simp: MenuRenderer_apply_def renderHomeMenu_def renderLobbyList_def setMenuState_def getGameState_def Let_def
      split: if_splits)

lemma settles_menu: "settles fr c (Some (Inr (menu_step rl c)))"
proof -
  obtain buttons en out where
    r: "MenuRenderer_apply rl (ca_lobbies c) (ca_lobbyButtons c) (tb_engine (ca_toolbox c)) = (buttons, en, out)"
    by (metis prod_cases3)
  with menu_engine[OF r] show ?thesis
    by (auto simp: menu_step_def on_toolbox_def same_view_def intro!: settles_ok)
qed

text \<open>No message of the client is too long to be sent: a name is cut.\<close>

lemma send_variant_succeeds:
  fixes c :: "'ep client_app"
  shows "\<exists>c'. send_variant v now c = Some (Inr c') \<and> ca_toolbox c' = ca_toolbox c \<and> ca_actions c' = ca_actions c \<and>
    cl_eventQueue c' = cl_eventQueue c"
proof -
  have send: "\<exists>c'. client_send t wr now m c = Some (Inr c') \<and> ca_toolbox c' = ca_toolbox c \<and> ca_actions c' = ca_actions c \<and>
      cl_eventQueue c' = cl_eventQueue c"
    if ok: "verifyUserPacketData t" "\<forall>p. \<exists>p'. wr m p = Inr p'" for t and wr :: "'b writer" and m
  proof -
    obtain p where "wr m (new_packet (t_kId t) (getFlag t) (getChannelId t)) = Inr p" using ok(2) by blast
    then show ?thesis using ok(1) by (simp add: client_send_def client_internal_send_def split: option.split)
  qed
  have total: "\<exists>p'. write_join j p = Inr p'" "\<exists>p'. write_empty () p = Inr p'" "\<exists>p'. write_user_input u p = Inr p'"
    "\<exists>p'. write_lobby_list l p = Inr p'" for j u l and p :: packet
    by (simp_all add: write_join_def write_empty_def write_user_input_def write_lobby_list_def write_then_def
        write_string_def write_pod_def Let_def)
  show ?thesis by (cases v) (simp_all add: send total client_packets_compile)
qed

lemma flush_result: "\<exists>c'. flush_variants vs now c = Inr c' \<and> ca_toolbox c' = ca_toolbox c \<and> ca_actions c' = ca_actions c \<and>
    cl_eventQueue c' = cl_eventQueue c"
proof (induction vs arbitrary: c)
  case (Cons v vs)
  obtain d where d: "send_variant v now (c\<lparr>ca_networkService := vs\<rparr>) = Some (Inr d)" "ca_toolbox d = ca_toolbox c"
      "ca_actions d = ca_actions c" "cl_eventQueue d = cl_eventQueue c"
    using send_variant_succeeds[of v now "c\<lparr>ca_networkService := vs\<rparr>"] by auto
  with Cons.IH[of d] show ?case by (simp add: raise_as_def)
qed simp

text \<open>The update of the network client does not fail either.\<close>

lemma client_update_succeeds:
  fixes c :: "'ep client_app"
  shows "\<exists>c'. client_update client_app_env now timeout c = Some (Inr c') \<and> ca_toolbox c' = ca_toolbox c"
proof -
  obtain d where d: "client_processEvents client_app_env now c = Some d" "ca_toolbox d = ca_toolbox c"
    using client_events_end[of now c] by blast
  have "\<exists>e'. client_service now timeout sp b e = Inr e'" for sp b and e :: "'ep client_app"
    by (simp add: client_service_def update_updated)
  then have "\<exists>e. client_maintain now timeout d = Inr e"
    by (cases "cl_serverSession d") (simp_all add: client_maintain_def)
  then obtain e where "client_maintain now timeout d = Inr e" by blast
  with d client_maintain_keeps[OF this] show ?thesis by (simp add: client_update_def)
qed

lemma settles_network: "settles fr c (Network_apply now timeout c)"
proof -
  obtain d where d: "service_flush now c = Inr d" "ca_toolbox d = ca_toolbox c"
    using flush_result[of "ca_networkService c" now c] by (auto simp: service_flush_def)
  obtain e where "client_update client_app_env now timeout d = Some (Inr e)" "ca_toolbox e = ca_toolbox d"
    using client_update_succeeds[of now timeout d] by blast
  with d show ?thesis by (auto simp: Network_apply_def raise_as_def intro!: settles_ok)
qed

lemma settles_system: "settles fr c (client_apply_system fr s c)"
proof (cases s)
  case Renderer
  show ?thesis
  proof (cases "Renderer_apply (fr_raylib fr) (ca_shouldStop c) (client_store (ca_toolbox c))")
    case None
    have "\<not> drawable fr (ca_toolbox c)" if "game_store (client_store (ca_toolbox c))"
      using None renderer_result[OF that, of "fr_raylib fr" "ca_shouldStop c"] by (auto simp: drawable_def split: if_splits)
    with Renderer None show ?thesis by (simp add: settles_def)
  qed (use Renderer in \<open>auto intro!: settles_ok\<close>)
qed (simp_all add: settles_store drawn_systems settles_io settles_network settles_menu)

lemma settles_systems: "settles fr c (client_apply_systems fr ss c)"
proof (induction ss arbitrary: c)
  case (Cons s ss)
  show ?case unfolding client_apply_systems.simps by (rule settles_bind[OF settles_system Cons])
qed simp

lemma settles_runOnce: "settles fr c (client_runOnce fr c)"
proof -
  let ?f = "\<lambda>e. group_apply (\<lambda>_. run_behaviour (\<lambda>_ e. e) (\<lambda>_ e. e)) (ecs_group [cid Behaviour] e) e"
  have "drawn_alike e (?f e)" for e by (rule drawn_systems(4))
  then have "same_view (ca_toolbox c) (on_store ?f (ca_toolbox c))" by (rule same_view_store)
  then have "same_view (ca_toolbox c) (ca_toolbox (store_system ?f c))" by (simp add: store_system_def on_toolbox_def)
  then show ?thesis unfolding client_runOnce_def Let_def by (rule settles_trans) (rule settles_systems)
qed

section \<open>The turn\<close>

lemma run_actions_messages:
  "run_client_actions (map Do_message ms) c =
    (case handle_messages ms (ca_toolbox c) of
       Inl f \<Rightarrow> Inl (CF_handler f)
     | Inr tb \<Rightarrow> Inr (c\<lparr>ca_actions := cq_new, ca_toolbox := tb\<rparr>))"
proof (induction ms arbitrary: c)
  case (Cons m ms)
  then show ?case by (cases "handle_message m (ca_toolbox c)") (simp_all add: run_client_action_def split: sum.split)
qed simp

text \<open>C16: a turn of the client's main loop always returns, with the next state or with a fault: the tasks, the
  systems and the event loop of the network client, whose callbacks may queue further tasks for the
  main loop, come to an end.\<close>

theorem client_turn_returns:
  fixes c :: "'ep client_app"
  shows "\<exists>r. client_turn fr c = Some r"
proof -
  have "\<exists>r. client_runOnce fr d = Some r" for d :: "'ep client_app"
    using settles_runOnce[of fr d] unfolding settles_def by blast
  then show ?thesis by (auto simp: client_turn_def split: sum.split)
qed


section \<open>The application does not touch the link\<close>

lemma push_link [simp]:
  fixes c :: "'ep client_app"
  shows "keeps_link c (snd (packet_handler rd (push_message mk) now sp p c))"
  by (simp add: keeps_link_def packet_handler_def push_message_def push_action_def split: prod.split sum.split)

lemma client_app_discreet: "discreet (client_app_env :: 'ep client_app client_env)"
proof -
  have "keeps_link c (snd (h now sp p c))"
    if "map_of (ce_dispatcher client_app_env) i = Some h" "i \<noteq> system_id kConnectAck" for i h now sp p and c :: "'ep client_app"
  proof -
    have "keeps_link c (on_session sp f c)" for f and c :: "'ep client_app" by (simp add: keeps_link_def on_session_def)
    then show ?thesis
      using that by (auto simp: client_app_dispatcher Connect_onReceive_sends Disconnect_onReceive_def split: if_splits)
  qed
  moreover have "map_of (ce_dispatcher client_app_env) (system_id kConnectAck) =
      Some (packet_handler read_connect_ack (ConnectAck_handler (Some (\<lambda>now c. c :: 'ep client_app))))"
    by (simp add: client_app_dispatcher)
  ultimately show ?thesis unfolding discreet_def by (auto simp: keeps_link_def)
qed

section \<open>Witnesses\<close>

definition sample_client_app :: "nat client_app" where
  "sample_client_app = projr (new_client_app 0 4000 0 (Some 1))"

definition sample_client_frame :: client_frame where
  "sample_client_frame = \<lparr>fr_raylib = sample_frame (\<lambda>_. False), fr_now = 3, fr_timeout = 10000\<rparr>"

theorem stale_ack_blocks_connect_witness:
  "\<exists>c'. client_update client_app_env 2 10000 (client_disconnect 1 (sample_client_app\<lparr>cl_eventQueue :=
      \<lparr>tsq_queue = [Task_received 0 (connect_packet), Task_received 0 (connect_ack_packet 0 7)]\<rparr>\<rparr>)) = Some (Inr c') \<and>
    cl_isConnected c' \<and> cl_serverSession c' = None \<and> client_connect 3 (Some 9) c' = Inr c'"
proof -
  have "unread (connect_ack_packet 0 7) = be_bytes (7 :: u32)" "p_messageId (connect_ack_packet 0 7) = 3"
    by (simp_all add: unread_def connect_ack_packet_def new_packet_def)
  from stale_ack_blocks_connect[OF client_app_discreet _ this(2,1), of 0 "sample_client_app\<lparr>cl_eventQueue :=
      \<lparr>tsq_queue = [Task_received 0 (connect_packet), Task_received 0 (connect_ack_packet 0 7)]\<rparr>\<rparr>" 2 10000 1]
  show ?thesis by auto
qed

theorem server_messages_reach_client_witness:
  "\<exists>q. run_client_task client_app_env 3 (Task_received 0 q) sample_client_app =
     push_action (Do_message (V_Destroy \<lparr>de_id = 5, earned_points = 9\<rparr>)) sample_client_app"
proof -
  let ?m = "To_client (V_Destroy \<lparr>de_id = 5, earned_points = 9\<rparr>)"
  obtain p where "message_packet ?m = Inr p" using server_variant_roundtrip[of "V_Destroy \<lparr>de_id = 5, earned_points = 9\<rparr>"] by auto
  from server_messages_reach_client[OF _ this, where q = "set_payload (p_buffer p) (new_packet (p_messageId p) 0 0)"
      and now = 3 and sp = 0 and c = sample_client_app]
  show ?thesis by (auto simp: set_payload_def new_packet_def unread_def)
qed

text \<open>Few entities, few players.\<close>

lemma few_players:
  assumes "game_store e"
  shows "card (player_entities e) \<le> e_entitiesID e"
proof -
  have "player_entities e \<subseteq> {..<e_entitiesID e}"
    using component_entity[OF store_wf[OF assms], of "cid Type"] ecs_invD(6)[OF store_wf[OF assms]]
    by (auto simp: player_entities_def set_getAllEntities)
  from card_mono[OF _ this] show ?thesis by simp
qed


end
