(* ===== verification/TypedStores.thy ===== *)
theory TypedStores
  imports ClientTurn ManagerLife
begin

text \<open>
  Every component that a store of the program holds has the type that it is stored under, so the
  casts of \<open>ECS::getComponent\<close> succeed, and the bindings of a client always name its entities;
  whatever datagrams arrive at the client, and however the threads of the server interleave.
\<close>

section \<open>Handlers\<close>

text \<open>A toolbox whose bindings are one to one with its entities, whatever was sent.\<close>

definition bound_ok :: "toolbox \<Rightarrow> bool" where
  "bound_ok tb \<longleftrightarrow>
     game_store (client_store tb) \<and> om_wf (tb_serverToClient tb) \<and> distinct (map snd (tb_serverToClient tb)) \<and>
     snd ` set (tb_serverToClient tb) = entities (client_store tb)"

lemma bound_alike:
  "bound_ok tb \<Longrightarrow> alike (client_store tb) (client_store tb') \<Longrightarrow> tb_serverToClient tb' = tb_serverToClient tb \<Longrightarrow> bound_ok tb'"
  unfolding bound_ok_def alike_def by simp

lemma bound_on_store: "bound_ok tb \<Longrightarrow> (\<And>e. alike e (f e)) \<Longrightarrow> bound_ok (on_store f tb)"
  by (rule bound_alike) (simp_all add: on_store_def on_ecs_def)

lemma bound_state [simp]:
  "bound_ok (tb\<lparr>tb_engine := setGameState s (tb_engine tb)\<rparr>) = bound_ok tb"
  "bound_ok (tb\<lparr>tb_engine := setMenuState s (setGameState s' (tb_engine tb))\<rparr>) = bound_ok tb"
  by (simp_all add: bound_ok_def setGameState_def setMenuState_def)

lemma bound_destroy:
  assumes "bound_ok tb"
  shows "bound_ok (handleDestroy packet tb)"
proof (cases "map_of (tb_serverToClient tb) (de_id packet)")
  case (Some j)
  let ?b = "tb_serverToClient tb"
  have b: "game_store (client_store tb)" "om_wf ?b" "distinct (map snd ?b)" "snd ` set ?b = entities (client_store tb)"
    using assms by (simp_all add: bound_ok_def)
  have "distinct (map snd (om_del (de_id packet) ?b))" using b(3) by (simp add: om_del_def distinct_map_filter)
  with Some b snd_om_del[OF om_wf_distinct[OF b(2)] b(3) Some] destroy_store(1)[OF b(1)] show ?thesis
    by (simp add: handleDestroy_def bound_ok_def engine_destroyEntity_def on_ecs_def destroy_store(2))
qed (use assms in \<open>simp add: handleDestroy_def\<close>)

lemma snd_om_put: "\<not> om_has b k \<Longrightarrow> snd ` set (om_put k j b) = insert j (snd ` set b)"
  by (induction b) (auto simp: om_has_def split: if_splits)

lemma bound_spawn:
  assumes "bound_ok tb" and "handleSpawn packet tb = Inr tb'"
  shows "bound_ok tb'"
proof (cases "om_has (tb_serverToClient tb) (sp_id packet)")
  case False
  let ?b = "tb_serverToClient tb" and ?k = "sp_id packet"
  have b: "game_store (client_store tb)" "om_wf ?b" "distinct (map snd ?b)" "snd ` set ?b = entities (client_store tb)"
    using assms(1) by (simp_all add: bound_ok_def)
  obtain j e1 where pre: "preRegisterEntity (client_store tb) = (j, e1)" by fastforce
  note p = pre_register[OF b(1) pre]
  obtain bm e2 where e2: "factory_apply (tb_componentFactory tb) e1 j bm (sp_content packet) = Inr e2"
    "tb' = addGraphicalComponents j (tb\<lparr>tb_serverToClient := om_put ?k j ?b, tb_engine := on_ecs (\<lambda>_. e2) (tb_engine tb)\<rparr>)"
    using assms(2) False pre
    by (auto simp: handleSpawn_def Let_def on_store_def on_ecs_def split: option.splits sum.splits)
  have st: "game_store e2" "\<And>l. om_has (e_entities e2) l = om_has (e_entities e1) l"
    using factory_store[OF e2(1)[unfolded factory_apply_def] p(1)] by blast+
  have "entities e2 = insert j (entities (client_store tb))"
    using st(2) p(3) by (auto simp: set_getAllEntities)
  moreover have "distinct (map snd (om_put ?k j ?b))" using om_put_snd[of j ?b ?k] b(3,4) p(2) by simp
  ultimately have "bound_ok (tb\<lparr>tb_serverToClient := om_put ?k j ?b, tb_engine := on_ecs (\<lambda>_. e2) (tb_engine tb)\<rparr>)"
    using st(1) b snd_om_put[OF False, of j] by (simp add: bound_ok_def on_store_def on_ecs_def)
  then show ?thesis
    unfolding e2(2) addGraphicalComponents_def by (rule bound_on_store) (rule alike_graphical)
qed (use assms in \<open>simp add: handleSpawn_def\<close>)

lemma bound_world: "bound_ok tb \<Longrightarrow> world_loop n i packet tb = Inr tb' \<Longrightarrow> bound_ok tb'"
  by (induction n arbitrary: i tb) (auto simp: try_bind_Inr_iff dest: bound_spawn split: if_splits)

lemma alike_ref:
  "alike e (put_state_at k s e)" "alike e (put_hp_at k v e)"
  using touched_assign[of "C_State s" e k]
    touched_assign[of "C_Health ((as_health (ecs_deref (cid Health) k e))\<lparr>hp := v\<rparr>)" e k]
  by (simp_all add: put_state_at_def put_hp_at_def alike_touched)

lemma bound_handled:
  assumes "bound_ok tb" and "handle_message m tb = Inr tb'"
  shows "bound_ok tb'"
proof (cases m)
  case (V_JoinAck p)
  let ?tb = "tb\<lparr>tb_engine := setMenuState (ucast (menu_state_value MenuLobby)) (setGameState (ja_gameState p) (tb_engine tb))\<rparr>"
  have "bound_ok (on_store (add_component j C_Me) ?tb)" for j
    by (rule bound_on_store) (use assms(1) in \<open>simp_all add: alike_add GameComponents_def\<close>)
  with assms V_JoinAck show ?thesis by (auto simp: handleJoinAck_def Let_def split: option.splits if_splits)
next
  case (V_WorldInit p)
  with assms show ?thesis by (auto simp: handleWorldInit_def intro: bound_world[rotated])
next
  case (V_UpdatePosition p)
  with assms show ?thesis
    by (auto simp: handleUpdatePosition_def split: option.splits intro!: bound_on_store alike_update)
qed (use assms in \<open>auto simp: handleUpdateEntityState_def handleUpdateHealth_def handleUpdateGameState_def
      bound_destroy split: option.splits intro: bound_spawn intro!: bound_on_store alike_ref\<close>)

section \<open>The client application\<close>

text \<open>The states of a client that connects, receives datagrams at any time, and turns.\<close>

inductive client_app_reachable :: "'ep client_app \<Rightarrow> bool" where
  started: "new_client_app now port no_endpoint endpoint = Inr c \<Longrightarrow> client_app_reachable c"
| began: "client_app_reachable c \<Longrightarrow> client_app_reachable (client_run_start c)"
| received: "client_app_reachable c \<Longrightarrow> client_onReceive now sender data c = Inr c' \<Longrightarrow> client_app_reachable c'"
| turned: "client_app_reachable c \<Longrightarrow> client_turn fr c = Some (Inr c') \<Longrightarrow> client_app_reachable c'"
| stopped: "client_app_reachable c \<Longrightarrow> client_app_reachable (client_app_stop c)"

text \<open>What every message keeps and what holds for all toolboxes that show the same, holds for the toolbox of
  every reachable client.\<close>

locale toolbox_invariant =
  fixes P :: "toolbox \<Rightarrow> bool"
  assumes new: "P new_toolbox"
    and handled: "P tb \<Longrightarrow> handle_message m tb = Inr tb' \<Longrightarrow> P tb'"
    and viewed: "P tb \<Longrightarrow> same_view tb tb' \<Longrightarrow> P tb'"
    and menu: "P tb \<Longrightarrow> P (tb\<lparr>tb_engine := setMenuState s (setGameState s' (tb_engine tb))\<rparr>)"
begin

lemma actions: "run_client_actions as c = Inr c' \<Longrightarrow> P (ca_toolbox c) \<Longrightarrow> P (ca_toolbox c')"
proof (induction as arbitrary: c)
  case (Cons a as)
  then obtain d where d: "run_client_action a (c\<lparr>ca_actions := \<lparr>cq_queue = as\<rparr>\<rparr>) = Inr d"
      "run_client_actions as d = Inr c'" by (auto simp: try_bind_Inr_iff)
  have "P (ca_toolbox d)"
    using d(1) Cons.prems(2) handled
    by (cases a) (auto simp: run_client_action_def try_bind_Inr_iff raise_as_def split: sum.splits)
  with Cons.IH d(2) show ?case by blast
qed auto

lemma systems: "client_apply_systems fr ss c = Some (Inr c') \<Longrightarrow> P (ca_toolbox c) \<Longrightarrow> P (ca_toolbox c')"
  using settles_systems[of fr c ss] viewed by (auto simp: settles_def)

lemma run_once: "client_runOnce fr c = Some (Inr c') \<Longrightarrow> P (ca_toolbox c) \<Longrightarrow> P (ca_toolbox c')"
  using settles_runOnce[of fr c] viewed by (auto simp: settles_def)

lemma turn:
  assumes "P (ca_toolbox c)" and "client_turn fr c = Some (Inr c')"
  shows "P (ca_toolbox c')"
proof (cases "ca_isContextRunning c \<and> \<not> ca_shouldStop c")
  case True
  with assms(2) obtain d where d: "run_client_actions (cq_queue (ca_actions c)) c = Inr d" "client_runOnce fr d = Some (Inr c')"
    by (auto simp: client_turn_def split: sum.splits)
  with run_once actions[OF d(1) assms(1)] show ?thesis by blast
qed (use assms in \<open>auto simp: client_turn_def\<close>)

lemma reachable: "client_app_reachable c \<Longrightarrow> P (ca_toolbox c)"
proof (induction rule: client_app_reachable.induct)
  case (started now port no_endpoint endpoint c)
  then have "ca_toolbox c = new_toolbox"
    by (auto simp: new_client_app_def client_connect_def attempt_result client.defs split: option.splits if_splits)
  with new show ?case by simp
next
  case (began c)
  then show ?case by (simp add: client_run_start_def on_toolbox_def menu)
next
  case (received c now sender data c')
  have "ca_toolbox (fold (\<lambda>p. push_event (Task_received sp p)) ps d) = ca_toolbox d" for sp ps and d :: "'a client_app"
    by (induction ps arbitrary: d) (simp_all add: push_event_def)
  with received show ?case
    by (auto simp: client_onReceive_def try_bind_Inr_iff split: option.splits if_splits prod.splits)
next
  case (turned c fr c')
  then show ?case by (blast intro: turn)
next
  case (stopped c)
  then show ?case by (simp add: client_app_stop_def)
qed

end

interpretation bound: toolbox_invariant bound_ok
proof
  show "bound_ok new_toolbox"
    using mirrorsD[OF mirrors_new[OF game_store.constructed]] by (simp add: bound_ok_def)
  show "bound_ok tb'" if "bound_ok tb" "same_view tb tb'" for tb tb'
    using that by (auto simp: same_view_def drawn_alike_def intro: bound_alike)
qed (simp_all add: bound_handled)

interpretation drawn: toolbox_invariant looks_ok
proof
  show "looks_ok tb'" if "looks_ok tb" "same_view tb tb'" for tb tb'
    using that by (simp add: looks_ok_def same_view_def drawn_alike_def alike_def)
  show "looks_ok tb'" if "looks_ok tb" "handle_message m tb = Inr tb'" for tb m tb'
    using that by (rule looks_handled)
qed (simp_all add: looks_new)

lemma store_typed: "game_store e \<Longrightarrow> getEntityComponent (cid t) i e = Some x \<Longrightarrow> type_of x = t"
  using game_store_inv[of e] unfolding typed_store_def by (metis cid_inject)

text \<open>C17: the components in every store have their types.  Whatever datagrams a client receives between its
  turns, an instance in its store that is filed under a component type is of that type, and the
  entities of the server that it knows are one to one with its own; and the same typing holds in the
  store of every lobby, however the threads of the server interleave.\<close>

theorem components_have_their_types:
  assumes "client_app_reachable c" and "managed su env m" and "map_of (lm_lobbies m) r = Some l"
  shows "(getEntityComponent (cid t) i (client_store (ca_toolbox c)) = Some x \<longrightarrow> type_of x = t) \<and>
    (getEntityComponent (cid t) i (lobby_store l) = Some x \<longrightarrow> type_of x = t) \<and>
    bij_betw (\<lambda>k. the (map_of (tb_serverToClient (ca_toolbox c)) k)) (fst ` set (tb_serverToClient (ca_toolbox c)))
      (set (getAllEntities (client_store (ca_toolbox c))))"
proof -
  let ?b = "tb_serverToClient (ca_toolbox c)"
  have b: "game_store (client_store (ca_toolbox c))" "om_wf ?b" "distinct (map snd ?b)"
      "snd ` set ?b = entities (client_store (ca_toolbox c))"
    using bound.reachable[OF assms(1)] by (simp_all add: bound_ok_def)
  have "game_store (lobby_store l)"
    using manager_okD(4)[OF managed_ok[OF assms(2)] assms(3)] by (auto simp: lobby_fine_def sound_under_def dest: lobby_okD(1))
  moreover have "bij_betw (\<lambda>k. the (map_of ?b k)) (fst ` set ?b) (snd ` set ?b)"
  proof (rule bij_betw_imageI)
    have get: "the (map_of ?b (fst e)) = snd e" if "e \<in> set ?b" for e
      using map_of_is_SomeI[OF om_wf_distinct[OF b(2)], of "fst e" "snd e"] that by simp
    show "(\<lambda>k. the (map_of ?b k)) ` fst ` set ?b = snd ` set ?b"
      using get by (force simp: image_image)
    have "inj_on snd (set ?b)" using b(3) by (simp add: distinct_map)
    then show "inj_on (\<lambda>k. the (map_of ?b k)) (fst ` set ?b)"
      using get by (auto simp: inj_on_def)
  qed
  ultimately show ?thesis
    unfolding b(4) using store_typed[OF b(1)] store_typed[of "lobby_store l"] by blast
qed

theorem components_have_their_types_witness:
  "\<exists>c :: nat client_app. client_app_reachable c \<and>
    (\<forall>t i x. getEntityComponent (cid t) i (client_store (ca_toolbox c)) = Some x \<longrightarrow> type_of x = t)"
proof -
  obtain c :: "nat client_app" where c: "new_client_app 0 4000 0 (Some 1) = Inr c"
    by (auto simp: new_client_app_def client_connect_def client.defs new_client_def)
  from client_app_reachable.started[OF this] have r: "client_app_reachable c" .
  have "map_of (lm_lobbies sample_hosted) 0 = Some (lobby_join 7 sample_room)" by (simp add: sample_hosted_def)
  from components_have_their_types[OF r sample_managed this] r show ?thesis by blast
qed

end
