(* ===== verification/Animations.thy ===== *)
theory Animations
  imports TypedStores Handshake
begin

text \<open>
  The animations of a client, in every state that it reaches and in every state within its turns.
\<close>

section \<open>Within a turn\<close>

text \<open>The states that a turn of the main loop passes through: after the tasks, and after any of the systems.\<close>

definition within_turn :: "client_frame \<Rightarrow> 'ep client_app \<Rightarrow> 'ep client_app \<Rightarrow> bool" where
  "within_turn fr c d \<longleftrightarrow> (\<exists>c1. run_client_actions (cq_queue (ca_actions c)) c = Inr c1 \<and>
     (d = c1 \<or> (\<exists>ss. client_apply_systems fr ss (store_system (\<lambda>e. group_apply (\<lambda>_. run_behaviour (\<lambda>_ e. e) (\<lambda>_ e. e))
        (ecs_group [cid Behaviour] e) e) c1) = Some (Inr d))))"

lemma drawn_within:
  assumes "client_app_reachable c" and "within_turn fr c d"
  shows "looks_ok (ca_toolbox d)"
proof -
  let ?f = "store_system (\<lambda>e. group_apply (\<lambda>_. run_behaviour (\<lambda>_ e. e) (\<lambda>_ e. e)) (ecs_group [cid Behaviour] e) e)"
  obtain c1 where c1: "run_client_actions (cq_queue (ca_actions c)) c = Inr c1"
      "d = c1 \<or> (\<exists>ss. client_apply_systems fr ss (?f c1) = Some (Inr d))"
    using assms(2) by (auto simp: within_turn_def)
  have ok: "looks_ok (ca_toolbox c1)" by (rule drawn.actions[OF c1(1) drawn.reachable[OF assms(1)]])
  then have "looks_ok (ca_toolbox (?f c1))"
    by (rule drawn.viewed) (simp add: store_system_def on_toolbox_def same_view_store drawn_systems(4))
  with c1(2) ok drawn.systems show ?thesis by blast
qed

lemma strip_facts:
  assumes "frame_ok a"
  shows "(\<exists>t c. (t, c) \<in> set entityTypeToAnimation \<and> an_frame_count a = ac_frameCount c \<and>
      an_frame_width a = ac_frameWidth c \<and> an_frame_height a = ac_frameHeight c) \<and>
    0 \<le> sint (an_current_frame a) \<and> sint (an_current_frame a) < sint (an_frame_count a) \<and>
    sint (an_current_frame a * an_frame_width a) = sint (an_current_frame a) * sint (an_frame_width a) \<and>
    sint (an_current_frame a * an_frame_width a) + sint (an_frame_width a) \<le> sint (an_frame_count a) * sint (an_frame_width a)"
proof -
  obtain t c where c: "(t, c) \<in> set entityTypeToAnimation" "an_frame_count a = ac_frameCount c"
      "an_frame_width a = ac_frameWidth c" "an_frame_height a = ac_frameHeight c"
    using assms by (auto simp: frame_ok_def)
  have frame: "0 \<le> sint (an_current_frame a)" "sint (an_current_frame a) < sint (an_frame_count a)"
    using assms by (simp_all add: frame_ok_def)
  have small: "sint (an_frame_count a) \<le> 8" "0 \<le> sint (an_frame_width a)" "sint (an_frame_width a) \<le> 33"
    using c(1) unfolding c(2,3) by (auto simp: entityTypeToAnimation_def)
  have "sint (an_current_frame a) * sint (an_frame_width a) \<le> 8 * 33"
    using frame small by (intro mult_mono) simp_all
  moreover have "0 \<le> sint (an_current_frame a) * sint (an_frame_width a)" using frame(1) small(2) by simp
  ultimately have prod: "sint (an_current_frame a * an_frame_width a) = sint (an_current_frame a) * sint (an_frame_width a)"
    by (simp add: sint_word_ariths signed_take_bit_int_eq_self)
  have "(sint (an_current_frame a) + 1) * sint (an_frame_width a) \<le> sint (an_frame_count a) * sint (an_frame_width a)"
    using frame small(2) by (intro mult_right_mono) simp_all
  then have "sint (an_current_frame a * an_frame_width a) + sint (an_frame_width a) \<le> sint (an_frame_count a) * sint (an_frame_width a)"
    by (simp add: prod algebra_simps)
  with c frame prod show ?thesis by blast
qed

text \<open>C36: the frame of an animation stays within the strip of its sprite, whatever datagrams a client
  receives and whatever time its frames take: in every state that the client reaches, between its turns
  and within them, an animation has the number and the size of the frames of one of the entity types,
  its frame is one of these frames, so the remainder by their number is always defined, the place of
  the frame in the strip is computed without an overflow and lies inside the strip; and every sprite is
  that of the type of its entity.\<close>

theorem animations_stay_in_strip:
  assumes "client_app_reachable c" and "d = c \<or> within_turn fr c d"
  defines "e \<equiv> client_store (ca_toolbox d)"
  shows "(\<forall>i x. getEntityComponent (cid Animation) i e = Some x \<longrightarrow> (\<exists>a. x = C_Animation a \<and>
      (\<exists>t cf. (t, cf) \<in> set entityTypeToAnimation \<and> an_frame_count a = ac_frameCount cf \<and>
         an_frame_width a = ac_frameWidth cf \<and> an_frame_height a = ac_frameHeight cf) \<and>
      0 \<le> sint (an_current_frame a) \<and> sint (an_current_frame a) < sint (an_frame_count a) \<and>
      sint (an_current_frame a * an_frame_width a) = sint (an_current_frame a) * sint (an_frame_width a) \<and>
      sint (an_current_frame a * an_frame_width a) + sint (an_frame_width a) \<le> sint (an_frame_count a) * sint (an_frame_width a))) \<and>
    (\<forall>i x. getEntityComponent (cid Sprite) i e = Some x \<longrightarrow> (\<exists>s. x = C_Sprite s \<and>
      getEntityComponent (cid Type) i e = Some (C_Type \<lparr>ty_type = spr_type s\<rparr>)))"
proof (intro conjI allI impI)
  have ok: "game_store e" "sprites_ok e" "frames_ok e"
    using drawn.reachable[OF assms(1)] drawn_within[OF assms(1)] assms(2) by (auto simp: looks_ok_def graphics_ok_def e_def)
  {
    fix i x assume x: "getEntityComponent (cid Animation) i e = Some x"
    then obtain a where a: "x = C_Animation a" using store_typed[OF ok(1) x] by (cases x) simp_all
    then have "frame_ok a" using ok(3) x by (auto simp: frames_ok_def)
    from a strip_facts[OF this] show "\<exists>a. x = C_Animation a \<and>
      (\<exists>t cf. (t, cf) \<in> set entityTypeToAnimation \<and> an_frame_count a = ac_frameCount cf \<and>
         an_frame_width a = ac_frameWidth cf \<and> an_frame_height a = ac_frameHeight cf) \<and>
      0 \<le> sint (an_current_frame a) \<and> sint (an_current_frame a) < sint (an_frame_count a) \<and>
      sint (an_current_frame a * an_frame_width a) = sint (an_current_frame a) * sint (an_frame_width a) \<and>
      sint (an_current_frame a * an_frame_width a) + sint (an_frame_width a) \<le> sint (an_frame_count a) * sint (an_frame_width a)"
      by blast
  next
    fix i x assume x: "getEntityComponent (cid Sprite) i e = Some x"
    then obtain s where s: "x = C_Sprite s" using store_typed[OF ok(1) x] by (cases x) simp_all
    then have "getEntityComponent (cid Type) i e = Some (C_Type \<lparr>ty_type = spr_type s\<rparr>)"
      using ok(2) x unfolding sprites_ok_def by blast
    with s show "\<exists>s. x = C_Sprite s \<and> getEntityComponent (cid Type) i e = Some (C_Type \<lparr>ty_type = spr_type s\<rparr>)" by blast
  }
qed

section \<open>A client that shows a player\<close>

text \<open>On a store without entities the systems do nothing.\<close>

lemma no_entities:
  assumes "game_store e" and "entities e = {}" and "cs \<noteq> []"
  shows "group_apply f (ecs_group cs e) z = z"
proof -
  have "getEntityComponent c i e = None" for c i
    using component_entity[OF store_wf[OF assms(1)], of c i] assms(2) by (metis empty_iff)
  then have "set (group_getEntities (ecs_group cs e)) = {}"
    using ecs_group_facts[OF store_wf[OF assms(1)] assms(3)] assms(3) by (cases cs) auto
  then show ?thesis by (simp add: group_apply_def)
qed

lemma fold_send_rest:
  "ca_actions (fold service_send out c) = ca_actions c" "cl_eventQueue (fold service_send out c) = cl_eventQueue c"
  by (induction out arbitrary: c) (simp_all add: service_send_def)

lemma on_toolbox_rest [simp]:
  "ca_actions (on_toolbox f c) = ca_actions c" "cl_eventQueue (on_toolbox f c) = cl_eventQueue c"
  "ca_toolbox (on_toolbox f c) = f (ca_toolbox c)"
  by (simp_all add: on_toolbox_def)

lemma empty_system:
  assumes "game_store (client_store (ca_toolbox c))" and "entities (client_store (ca_toolbox c)) = {}"
    and "client_apply_system fr s c = Some (Inr c')" and "s \<noteq> NetworkSystem"
  shows "client_store (ca_toolbox c') = client_store (ca_toolbox c) \<and> ca_actions c' = ca_actions c \<and>
    cl_eventQueue c' = cl_eventQueue c"
proof -
  note idle = no_entities[OF assms(1,2)]
  have step: "client_store (on_store f tb) = f (client_store tb)" for f tb by (simp add: on_store_def)
  show ?thesis
  proof (cases s)
    case IO
    have "fst (snd (IO_apply rl io (client_store (ca_toolbox c)))) = client_store (ca_toolbox c)" for rl io
      by (simp add: IO_apply_def Let_def show_hitboxes_def idle)
    with assms(3) IO show ?thesis
      by (auto simp: io_step_def store_system_def fold_send_rest step split: prod.splits) (metis fst_conv snd_conv)
  next
    case MenuRenderer
    with assms(3) menu_engine show ?thesis
      by (auto simp: menu_step_def fold_send_rest split: prod.splits)
  qed (use assms(3,4) in \<open>auto simp: store_system_def step AnimationSystem_apply_def Interpolation_apply_def Let_def idle
        split: option.splits\<close>)
qed

lemma empty_systems:
  assumes "game_store (client_store (ca_toolbox c))" and "entities (client_store (ca_toolbox c)) = {}"
    and "client_apply_systems fr ss c = Some (Inr c')" and "NetworkSystem \<notin> set ss"
  shows "client_store (ca_toolbox c') = client_store (ca_toolbox c) \<and> ca_actions c' = ca_actions c \<and>
    cl_eventQueue c' = cl_eventQueue c"
  using assms
proof (induction ss arbitrary: c)
  case (Cons s ss)
  from Cons.prems(3) obtain d where d: "client_apply_system fr s c = Some (Inr d)" "client_apply_systems fr ss d = Some (Inr c')"
    by (auto split: option.splits sum.splits)
  with empty_system[OF Cons.prems(1,2) d(1)] Cons.prems Cons.IH[OF _ _ d(2)] show ?case by auto
qed simp

lemma systems_append:
  "client_apply_systems fr (xs @ ys) c =
    (case client_apply_systems fr xs c of Some (Inr d) \<Rightarrow> client_apply_systems fr ys d | r \<Rightarrow> r)"
proof (induction xs arbitrary: c)
  case (Cons s xs)
  then show ?case by (simp split: option.split sum.split)
qed simp

text \<open>The network system hands the message that arrived to the main loop.\<close>

lemma network_delivers:
  fixes c :: "'ep client_app"
  assumes "tsq_queue (cl_eventQueue c) = [Task_received sp q]"
    and "run_client_task client_app_env now (Task_received sp q) =
      (push_action (Do_message m) :: 'ep client_app \<Rightarrow> _)"
    and "Network_apply now timeout c = Some (Inr c')"
  shows "ca_toolbox c' = ca_toolbox c \<and> ca_actions c' = cq_push (Do_message m) (ca_actions c)"
proof -
  obtain d where d: "service_flush now c = Inr d" "ca_toolbox d = ca_toolbox c" "ca_actions d = ca_actions c"
      "cl_eventQueue d = cl_eventQueue c"
    using flush_result[of "ca_networkService c" now c] by (auto simp: service_flush_def)
  let ?d = "push_action (Do_message m) (d\<lparr>cl_eventQueue := (cl_eventQueue d)\<lparr>tsq_queue := []\<rparr>\<rparr>)"
  have "client_processEvents client_app_env now d = client_processEvents client_app_env now ?d"
    using assms(1,2) d(4) by (subst client_processEvents.simps) (simp add: tsq_pop_def)
  also have "\<dots> = Some ?d" by (rule no_events) simp
  finally have "client_maintain now timeout ?d = Inr c'"
    using assms(3) d(1) by (simp add: Network_apply_def client_update_def raise_as_def split: sum.splits)
  from client_maintain_keeps[OF this] d(2,3) show ?thesis by (simp add: push_action_def)
qed

text \<open>A message that spawns an entity of a known type alone.\<close>

definition sample_spawn :: spawn_msg where
  "sample_spawn = \<lparr>sp_id = 5, sp_bitmask = [12], sp_content = component_bytes (C_Type \<lparr>ty_type = entity_type_value kPlayer\<rparr>)\<rparr>"

lemma factory_registered:
  fixes e e' :: "client_system store"
  shows "factory_loop ts n j b e p = Inr e' \<Longrightarrow> om_has (e_components e') c = om_has (e_components e) c"
proof (induction ts arbitrary: n b e p)
  case (Cons t ts)
  have "om_has (e_components d) c = om_has (e_components e) c" if "run_creator t j e p = Inr (d, q)" for d q
    using that by (auto simp: run_creator_def split: prod.splits sum.splits)
  with Cons show ?case by (fastforce simp: Let_def try_bind_Inr_iff split: if_splits)
qed simp

text \<open>A spawn adds the animation of the type of the entity.\<close>

lemma spawn_animates:
  assumes "game_store e" and "om_has (e_entities e) j" and "om_has (e_components e) (cid Sprite)"
    and "om_has (e_components e) (cid Animation)"
    and "getEntityComponent (cid Type) j e = Some (C_Type \<lparr>ty_type = t\<rparr>)" and "1 < sint (ac_frameCount (typeToAnimation t))"
  shows "getEntityComponent (cid Animation) j (add_target j (add_sprite j e)) = Some (C_Animation (new_animation (typeToAnimation t)))"
proof -
  obtain k where k: "getEntityWithComponent Type j e = Some k" using ref_exists[OF store_wf[OF assms(1)], of Type j] assms(5) by auto
  then have t: "ty_type (type_at k e) = t" using type_value[OF assms(1) k] assms(5) by simp
  define e1 where "e1 = add_component j (C_Sprite \<lparr>spr_type = t\<rparr>) e"
  have e1: "game_store e1" unfolding e1_def by (rule store_component[OF assms(1)])
  have "om_has (e_entities e1) j" "om_has (e_components e1) (cid Animation)"
    using assms(2,4) by (simp_all add: e1_def add_component_def)
  then have "getEntityComponent (cid Animation) j (add_component j (C_Animation (new_animation (typeToAnimation t))) e1) =
      Some (C_Animation (new_animation (typeToAnimation t)))"
    by (simp add: get_component[OF e1])
  moreover have "add_sprite j e = add_component j (C_Animation (new_animation (typeToAnimation t))) e1"
    using assms(6) k t by (simp add: add_sprite_def Let_def e1_def)
  moreover have "game_store (add_component j (C_Animation (new_animation (typeToAnimation t))) e1)" by (rule store_component[OF e1])
  ultimately show ?thesis using looks_add_target[of "add_sprite j e" j] by (simp add: looks_def)
qed

lemma sample_spawned:
  assumes "client_store tb = client_store new_toolbox" and "tb_componentFactory tb = new_factory GameComponents"
    and "tb_serverToClient tb = []"
  obtains tb' i where "handleSpawn sample_spawn tb = Inr tb'"
    and "getEntityComponent (cid Animation) i (client_store tb') = Some (C_Animation (new_animation (typeToAnimation 0)))"
proof -
  let ?e = "client_store new_toolbox"
  have st: "game_store ?e" by (rule new_toolbox_store)
  obtain j e1 where pre: "preRegisterEntity ?e = (j, e1)" by fastforce
  note p = pre_register[OF st pre]
  have same: "e_components e1 = e_components ?e" using pre by (auto simp: preRegisterEntity_def Let_def)
  obtain b where b: "deserialize [12] = Some b" "indexes b = {12}" using deserialize_sorted[of "[12]"] by auto
  define vals where "vals t = (if t = Type then Some (C_Type \<lparr>ty_type = entity_type_value kPlayer\<rparr>) else None)" for t
  have reg: "\<forall>t \<in> set GameComponents. om_has (e_components e1) (cid t)"
    unfolding same new_toolbox_registered by simp
  have "\<forall>m < length GameComponents. bs_test b (Suc (0 + m)) \<longleftrightarrow> vals (GameComponents ! m) \<noteq> None"
  proof -
    have "bs_test b k \<longleftrightarrow> k = 12" for k using b(2) unfolding indexes_def by blast
    then show ?thesis by (simp add: All_less_Suc GameComponents_def vals_def numeral_eq_Suc)
  qed
  moreover have "\<forall>t \<in> set GameComponents. \<forall>x. vals t = Some x \<longrightarrow> type_of x = t" by (simp add: vals_def)
  moreover have "distinct GameComponents" by (simp add: GameComponents_def)
  moreover have "unread (set_payload (sp_content sample_spawn) (new_packet 0 kUnreliable 0)) =
      concat (map (\<lambda>t. bytes_of (vals t)) GameComponents)"
    by (simp add: sample_spawn_def vals_def GameComponents_def bytes_of_def)
  ultimately obtain e2 where e2: "factory_loop GameComponents 0 j b e1
        (set_payload (sp_content sample_spawn) (new_packet 0 kUnreliable 0)) = Inr e2"
      "\<forall>t \<in> set GameComponents. getEntityComponent (cid t) j e2 =
        (case vals t of None \<Rightarrow> getEntityComponent (cid t) j e1 | Some x \<Rightarrow> Some (as_received x))"
    using factory_loop_ok[OF store_wf[OF p(1)] _ reg subset_refl, of j b 0 vals] p(3) by blast
  have "getEntityComponent (cid Type) j e2 = Some (C_Type \<lparr>ty_type = 0\<rparr>)"
    using bspec[OF e2(2) type_is_game] by (simp add: vals_def)
  moreover have "game_store e2" "om_has (e_entities e2) j" using factory_store[OF e2(1) p(1)] p(3) by simp_all
  moreover have "om_has (e_components e2) (cid Sprite)" "om_has (e_components e2) (cid Animation)"
    unfolding factory_registered[OF e2(1)] same new_toolbox_registered by (simp_all add: ClientComponents_def)
  moreover have "1 < sint (ac_frameCount (typeToAnimation 0))" by (simp add: typeToAnimation_def entityTypeToAnimation_def)
  ultimately have anim: "getEntityComponent (cid Animation) j (add_target j (add_sprite j e2)) =
      Some (C_Animation (new_animation (typeToAnimation 0)))"
    using spawn_animates by blast
  have "sp_bitmask sample_spawn = [12]" by (simp add: sample_spawn_def)
  then obtain tb' where "handleSpawn sample_spawn tb = Inr tb'" "client_store tb' = add_target j (add_sprite j e2)"
    using assms pre b(1) e2(1)
    by (simp add: handleSpawn_def Let_def on_store_def factory_apply_def new_factory_creators addGraphicalComponents_def)
  with anim that show thesis by metis
qed

lemma sample_spawn_size: "length (sp_bitmask sample_spawn) \<le> 65535" "length (sp_content sample_spawn) \<le> 65535"
  by (simp_all add: sample_spawn_def component_bytes_def content_be content_append_def component_io)

lemma spawn_packet_sent:
  obtains p :: packet where "make_packet spawn_traits write_spawn sample_spawn = Inr p" "p_messageId p = t_kId spawn_traits"
    "\<not> is_ordered (p_flag p)"
proof -
  obtain enc where codec: "wire_codec (\<lambda>m. length (sp_bitmask m) \<le> 65535 \<and> length (sp_content m) \<le> 65535) enc write_spawn read_spawn"
    using spawn_codec by (auto simp: codec_for_def)
  let ?p = "append_bytes (enc sample_spawn) (new_packet (t_kId spawn_traits) (getFlag spawn_traits) (getChannelId spawn_traits))"
  have "make_packet spawn_traits write_spawn sample_spawn = Inr ?p"
    using wire_codec.wr_enc[OF codec, of sample_spawn] sample_spawn_size by (simp add: make_packet_def)
  moreover have "p_messageId ?p = t_kId spawn_traits" "\<not> is_ordered (p_flag ?p)"
    by (simp_all add: getFlag_def traits_defs new_packet_def is_ordered_def flag_defs)
  ultimately show thesis by (rule that)
qed

text \<open>A client that has connected has received that message.\<close>

lemma sample_receives:
  obtains c :: "nat client_app" and q where "client_app_reachable c" "tsq_queue (cl_eventQueue c) = [Task_received 0 q]"
    "ca_actions c = cq_new" "ca_toolbox c = new_toolbox" "ca_isContextRunning c" "\<not> ca_shouldStop c"
    "\<forall>now. run_client_task client_app_env now (Task_received 0 q) =
      (push_action (Do_message (V_Spawn sample_spawn)) :: nat client_app \<Rightarrow> _)"
proof -
  obtain c0 :: "nat client_app" where new: "new_client_app 0 4000 0 (Some 1) = Inr c0"
    by (auto simp: new_client_app_def client_connect_def client.defs new_client_def)
  have c0: "cl_serverSession c0 = Some 0" "cl_serverEndpoint c0 = 1" "session_at 0 c0 = requesting 0 1 0"
    "tsq_queue (cl_eventQueue c0) = []" "ca_actions c0 = cq_new" "ca_toolbox c0 = new_toolbox"
    "ca_isContextRunning c0" "\<not> ca_shouldStop c0"
    using new by (auto simp: new_client_app_def client_connect_def attempt_result client.defs new_client_def tsq_new_def session_at_def)
  have r0: "client_app_reachable c0" by (rule client_app_reachable.started[OF new])
  obtain p :: packet where p: "make_packet spawn_traits write_spawn sample_spawn = Inr p" "p_messageId p = t_kId spawn_traits"
    "\<not> is_ordered (p_flag p)" by (rule spawn_packet_sent)
  define srv where "srv = new_session 0 (0 :: nat) True 0"
  define data where "data = datagram p 0 0 srv"
  define hdr where "hdr = outgoing_header p 0 0 srv"
  define q where "q = received_packet data hdr"
  have hdr: "parse_header data = parse_success hdr" "messageId hdr = t_kId spawn_traits" "\<not> is_ordered (flags hdr)"
    using p(2,3) by (simp_all add: data_def hdr_def parse_datagram srv_def)
  have q: "p_messageId q = p_messageId p" "unread q = p_buffer p"
    by (simp_all add: q_def data_def hdr_def received_datagram set_payload_def new_packet_def unread_def)
  obtain s where s: "handleIncoming 1 data (requesting 0 (1 :: nat) 0) = Inr ([q], s)"
    using first_datagram[OF hdr(1), of "requesting 0 (1 :: nat) 0" 1] hdr(2,3) by (auto simp: q_def traits_defs)
  define c1 where "c1 = push_event (Task_received 0 q) (on_session 0 (\<lambda>_. s) c0)"
  have "client_onReceive 1 1 data c0 = Inr c1"
    using c0(1-3) s by (simp add: client_onReceive_def c1_def)
  then have r1: "client_app_reachable c1" by (rule client_app_reachable.received[OF r0])
  have c1: "tsq_queue (cl_eventQueue c1) = [Task_received 0 q]" "ca_actions c1 = cq_new" "ca_toolbox c1 = new_toolbox"
    "ca_isContextRunning c1" "\<not> ca_shouldStop c1"
    using c0(4-8) by (simp_all add: c1_def push_event_def tsq_push_def) (simp_all add: on_session_def)
  have task: "run_client_task client_app_env now (Task_received 0 q) = (push_action (Do_message (V_Spawn sample_spawn)) :: nat client_app \<Rightarrow> _)" for now
    using client_message_arrives[OF spawn_codec _ p(1) client_bound(3) q] by (auto simp: sample_spawn_size)
  from r1 c1 show thesis by (rule that) (simp add: task)
qed

text \<open>The turn that follows hands it to the main loop, and the tasks of the next turn show the player.\<close>

lemma sample_shows_player:
  obtains c d :: "nat client_app" and i where "client_app_reachable c" "within_turn sample_client_frame c d"
    "getEntityComponent (cid Animation) i (client_store (ca_toolbox d)) = Some (C_Animation (new_animation (typeToAnimation 0)))"
proof -
  obtain c1 :: "nat client_app" and q where r1: "client_app_reachable c1"
    and c1: "tsq_queue (cl_eventQueue c1) = [Task_received 0 q]" "ca_actions c1 = cq_new" "ca_toolbox c1 = new_toolbox"
      "ca_isContextRunning c1" "\<not> ca_shouldStop c1"
    and task: "\<forall>now. run_client_task client_app_env now (Task_received 0 q) =
      (push_action (Do_message (V_Spawn sample_spawn)) :: nat client_app \<Rightarrow> _)"
    by (rule sample_receives)
  let ?task = "Task_received 0 q" and ?m = "V_Spawn sample_spawn"
  let ?fr = sample_client_frame
  let ?behave = "\<lambda>e. group_apply (\<lambda>_. run_behaviour (\<lambda>_ e. e) (\<lambda>_ e. e)) (ecs_group [cid Behaviour] e) e"
  define c2 where "c2 = store_system ?behave (c1\<lparr>ca_actions := cq_new\<rparr>)"
  have empty: "game_store (client_store new_toolbox)" "entities (client_store new_toolbox) = {}" by (rule new_toolbox_store)+
  have idle: "?behave (client_store new_toolbox) = client_store new_toolbox" by (rule no_entities[OF empty]) simp
  have tb2: "ca_toolbox c2 = on_store ?behave new_toolbox" using c1(3) by (simp add: c2_def store_system_def)
  have c2: "client_store (ca_toolbox c2) = client_store new_toolbox" "ca_actions c2 = cq_new"
    "tsq_queue (cl_eventQueue c2) = [?task]" "same_view new_toolbox (ca_toolbox c2)"
    using c1(1,2) idle drawn_systems(4)
    by (simp_all add: tb2 same_view_store) (simp_all add: c2_def store_system_def on_store_def)
  have "drawable ?fr (ca_toolbox c2)"
  proof -
    have "getEntityComponent (cid Position) i (client_store new_toolbox) = None" for i
      using component_entity[OF store_wf[OF empty(1)], of "cid Position" i] empty(2) by (metis empty_iff)
    then have "player_sprites (client_store (ca_toolbox c2)) = {}" by (simp only: c2(1) player_sprites_def) simp
    then show ?thesis by (simp add: drawable_def)
  qed
  moreover have "game_store (client_store (ca_toolbox c2))" unfolding c2(1) by (rule empty)
  ultimately obtain c' where c': "client_apply_systems ?fr (e_systems (client_store (ca_toolbox c2))) c2 = Some (Inr c')"
      "same_view (ca_toolbox c2) (ca_toolbox c')"
    using settles_systems[of ?fr c2] unfolding settles_def by (metis sum.exhaust)
  have "client_turn ?fr c1 = Some (Inr c')"
    using c1(2,4,5) c'(1) by (simp add: client_turn_def client_runOnce_def Let_def c2_def cq_new_def)
  then have r': "client_app_reachable c'" by (rule client_app_reachable.turned[OF r1])
  have registered: "e_systems (client_store (ca_toolbox c2)) =
      [AnimationSystem, Interpolation, IO] @ NetworkSystem # [Renderer, MenuRenderer]"
    unfolding c2(1) by (simp add: new_toolbox_def registerAllClientSystems_def registerAllComponents_def new_engine_def
        registerSystem_def systems_registers) (simp add: new_ecs_def)
  obtain d1 d2 where d: "client_apply_systems ?fr [AnimationSystem, Interpolation, IO] c2 = Some (Inr d1)"
      "Network_apply (fr_now ?fr) (fr_timeout ?fr) d1 = Some (Inr d2)"
      "client_apply_systems ?fr [Renderer, MenuRenderer] d2 = Some (Inr c')"
    using c'(1) unfolding registered systems_append
    by (auto simp del: client_apply_systems.simps(2) simp: client_apply_systems.simps(2)[of _ NetworkSystem]
        split: option.splits sum.splits)
  have d1: "client_store (ca_toolbox d1) = client_store new_toolbox" "ca_actions d1 = cq_new" "tsq_queue (cl_eventQueue d1) = [?task]"
    using empty_systems[OF _ _ d(1)] c2(1-3) empty by simp_all
  have d2: "client_store (ca_toolbox d2) = client_store new_toolbox" "ca_actions d2 = cq_push (Do_message ?m) cq_new"
    using network_delivers[OF d1(3) _ d(2)] task d1(1,2) by simp_all
  have tb: "client_store (ca_toolbox c') = client_store new_toolbox" "ca_actions c' = cq_push (Do_message ?m) cq_new"
    using empty_systems[OF _ _ d(3)] d2 empty by simp_all
  have "same_view new_toolbox (ca_toolbox c')" using c2(4) c'(2) by (rule same_view_trans)
  then have "tb_componentFactory (ca_toolbox c') = new_factory GameComponents" "tb_serverToClient (ca_toolbox c') = []"
    by (simp_all add: same_view_def new_toolbox_def)
  then obtain tb' i where spawned: "handleSpawn sample_spawn (ca_toolbox c') = Inr tb'"
      "getEntityComponent (cid Animation) i (client_store tb') = Some (C_Animation (new_animation (typeToAnimation 0)))"
    using sample_spawned[OF tb(1)] by metis
  define e where "e = c'\<lparr>ca_actions := cq_new, ca_toolbox := tb'\<rparr>"
  have "run_client_actions (cq_queue (ca_actions c')) c' = Inr e"
    using run_actions_messages[of "[?m]" c'] spawned(1) tb(2) by (simp add: cq_push_def cq_new_def e_def)
  then have w: "within_turn ?fr c' e" by (auto simp: within_turn_def)
  have "getEntityComponent (cid Animation) i (client_store (ca_toolbox e)) = Some (C_Animation (new_animation (typeToAnimation 0)))"
    using spawned(2) by (simp add: e_def)
  with r' w show thesis by (rule that)
qed

theorem animations_stay_in_strip_witness:
  "\<exists>(c :: nat client_app) d i a. client_app_reachable c \<and> within_turn sample_client_frame c d \<and>
    getEntityComponent (cid Animation) i (client_store (ca_toolbox d)) = Some (C_Animation a) \<and>
    sint (an_frame_count a) = 5 \<and> sint (an_current_frame a) < sint (an_frame_count a)"
proof -
  obtain c d :: "nat client_app" and i where c: "client_app_reachable c" "within_turn sample_client_frame c d"
    "getEntityComponent (cid Animation) i (client_store (ca_toolbox d)) = Some (C_Animation (new_animation (typeToAnimation 0)))"
    by (rule sample_shows_player)
  from animations_stay_in_strip[OF c(1) disjI2[OF c(2)]] c(3)
  have "sint (an_current_frame (new_animation (typeToAnimation 0))) < sint (an_frame_count (new_animation (typeToAnimation 0)))"
    by blast
  moreover have "sint (an_frame_count (new_animation (typeToAnimation 0))) = 5"
    by (simp add: new_animation_def typeToAnimation_def entityTypeToAnimation_def)
  ultimately show ?thesis using c by blast
qed

end
