(* ===== verification/CommandLine.thy ===== *)
theory CommandLine
  imports Decimal
begin

text \<open>
  The parser of the command line (\<^verbatim>\<open>lib/cli_parser\<close>) and the two programs (\<^verbatim>\<open>Client/src/main.cpp\<close>,
  \<^verbatim>\<open>Server/src/main.cpp\<close>) up to the construction of their application.  An element of \<open>argv\<close> is a
  string without the character 0; the first character of an empty one is the terminating 0.
  The reading of numbers is that of the standard library in the "C" locale.
\<close>

section \<open>Numbers in text\<close>

definition is_space :: "char \<Rightarrow> bool" where
  "is_space c \<longleftrightarrow> (of_char c :: nat) = 32 \<or> 9 \<le> (of_char c :: nat) \<and> (of_char c :: nat) \<le> 13"

definition take_sign :: "string \<Rightarrow> int \<times> string" where
  "take_sign s =
     (case s of
        [] \<Rightarrow> (1, [])
      | c # cs \<Rightarrow> if c = CHR ''-'' then (- 1, cs) else if c = CHR ''+'' then (1, cs) else (1, s))"

text \<open>What \<open>strtol\<close> reads from the start of a text, if there is a number.\<close>

definition leading_number :: "string \<Rightarrow> int option" where
  "leading_number s =
     (case take_sign (dropWhile is_space s) of
        (sign, t) \<Rightarrow>
          let ds = takeWhile is_digit t in if ds = [] then None else Some (sign * digits_value ds))"

definition fits_int :: "int \<Rightarrow> bool" where
  "fits_int n \<longleftrightarrow> - (2 ^ 31) \<le> n \<and> n < 2 ^ 31"

datatype stoi_error = Invalid_argument | Out_of_range

definition stoi :: "string \<Rightarrow> stoi_error + int" where
  "stoi s =
     (case leading_number s of
        None \<Rightarrow> Inl Invalid_argument
      | Some n \<Rightarrow> if fits_int n then Inr n else Inl Out_of_range)"

definition reads_int :: "string \<Rightarrow> bool" where
  "reads_int s \<longleftrightarrow> (case leading_number s of None \<Rightarrow> False | Some n \<Rightarrow> fits_int n)"

text \<open>\<open>m * 10 ^ k\<close> rounds to a finite \<open>double\<close>.\<close>

definition fits_double :: "int \<Rightarrow> int \<Rightarrow> bool" where
  "fits_double m k \<longleftrightarrow> m * 10 ^ nat k < (2 ^ 1024 - 2 ^ 970) * 10 ^ nat (- k)"

text \<open>Whether \<open>>>\<close> reads a \<open>double\<close>, as the GNU library does: a mantissa with a digit and, after an \<open>e\<close>, an
  exponent with one.\<close>

definition reads_double :: "string \<Rightarrow> bool" where
  "reads_double s =
     (let t = snd (take_sign (dropWhile is_space s));
          whole = takeWhile is_digit t; r = drop (length whole) t;
          (fraction, r) = (case r of
             [] \<Rightarrow> ([], [])
           | c # cs \<Rightarrow> if c = CHR ''.'' then (takeWhile is_digit cs, dropWhile is_digit cs) else ([], r));
          m = digits_value (whole @ fraction); k = - int (length fraction)
      in whole @ fraction \<noteq> [] \<and>
         (case r of
            [] \<Rightarrow> fits_double m k
          | c # cs \<Rightarrow>
              if c \<noteq> CHR ''e'' \<and> c \<noteq> CHR ''E'' then fits_double m k
              else case take_sign cs of
                (sign, u) \<Rightarrow>
                  let ds = takeWhile is_digit u in ds \<noteq> [] \<and> fits_double m (sign * digits_value ds + k)))"

section \<open>Flags\<close>

datatype flag_type = Type_string | Type_bool | Type_double | Type_float | Type_int

record flag =
  fl_flag :: string
  fl_value :: string
  fl_type :: flag_type

definition detectType :: "string \<Rightarrow> flag_type" where
  "detectType v =
     (if v = [] then Type_string
      else if v = ''false'' \<or> v = ''true'' then Type_bool
      else if CHR ''.'' \<in> set v then (if reads_double v then Type_double else Type_float)
      else if reads_int v then Type_int else Type_string)"

definition new_flag :: "string \<Rightarrow> string \<Rightarrow> flag" where
  "new_flag f v = \<lparr>fl_flag = f, fl_value = v, fl_type = detectType v\<rparr>"

definition flag_is :: "flag \<Rightarrow> string \<Rightarrow> bool" where
  "flag_is f other \<longleftrightarrow> fl_flag f = other"

definition as_bool :: "flag \<Rightarrow> bool" where
  "as_bool f \<longleftrightarrow> fl_value f = ''true'' \<or> fl_value f = ''1''"
definition as_string :: "flag \<Rightarrow> string" where "as_string f = fl_value f"
definition as_int :: "flag \<Rightarrow> stoi_error + int" where "as_int f = stoi (fl_value f)"

section \<open>The parser\<close>

type_synonym parser = "flag list"

definition dashed :: "string \<Rightarrow> bool" where
  "dashed arg \<longleftrightarrow> (case arg of [] \<Rightarrow> False | c # _ \<Rightarrow> c = CHR ''-'')"

fun parse_flags :: "string list \<Rightarrow> parser" where
  "parse_flags [] = []"
| "parse_flags [arg] = (if \<not> dashed arg then [] else [new_flag arg []])"
| "parse_flags (arg # val # args) =
     (if \<not> dashed arg then parse_flags (val # args)
      else if dashed val then new_flag arg [] # parse_flags (val # args)
      else new_flag arg val # parse_flags args)"

definition new_parser :: "string list \<Rightarrow> parser" where
  "new_parser argv = parse_flags (tl argv)"

primrec getValue :: "string \<Rightarrow> parser \<Rightarrow> flag" where
  "getValue flag [] = new_flag [] []"
| "getValue flag (f # fs) = (if flag_is f flag then f else getValue flag fs)"

primrec hasFlag :: "string \<Rightarrow> parser \<Rightarrow> bool" where
  "hasFlag flag [] = False"
| "hasFlag flag (f # fs) = (if flag_is f flag then True else hasFlag flag fs)"

section \<open>The programs\<close>

text \<open>A program ends with an exit code, ends by an exception that nothing catches, or starts its
  application with these arguments.\<close>

datatype 'a start = Exit_code int | Uncaught stoi_error | Starts 'a

definition client_main :: "string list \<Rightarrow> (string \<times> u16) start" where
  "client_main argv =
     (let p = new_parser argv in
      if \<not> hasFlag ''-h'' p then Exit_code 84
      else if \<not> hasFlag ''-p'' p then Exit_code 84
      else case as_int (getValue ''-p'' p) of
        Inl e \<Rightarrow> Uncaught e
      | Inr n \<Rightarrow> Starts (as_string (getValue ''-h'' p), word_of_int n))"

definition server_main :: "string list \<Rightarrow> (u16 \<times> string) start" where
  "server_main argv =
     (let p = new_parser argv in
      if \<not> hasFlag ''-p'' p then Exit_code 84
      else if \<not> hasFlag ''--config'' p then Exit_code 84
      else case as_int (getValue ''-p'' p) of
        Inl e \<Rightarrow> Uncaught e
      | Inr n \<Rightarrow> Starts (word_of_int n, as_string (getValue ''--config'' p)))"

section \<open>Decimal text\<close>

lemma digit_neither:
  assumes "is_digit c"
  shows "\<not> is_space c" and "c \<noteq> CHR ''-''" and "c \<noteq> CHR ''+''"
  using assms by (auto simp: is_digit_def is_space_def)

lemma leading_show_nat: "leading_number (show_nat n) = Some (int n)"
proof -
  note d = show_nat_digits[of n]
  then obtain c cs where s: "show_nat n = c # cs" "is_digit c" by (cases "show_nat n") auto
  have "takeWhile is_digit (show_nat n) = show_nat n" using d by (simp add: takeWhile_eq_all_conv)
  moreover have "take_sign (dropWhile is_space (show_nat n)) = (1, show_nat n)"
    using digit_neither[OF s(2)] by (simp add: s(1) take_sign_def)
  ultimately show ?thesis using d by (simp only: leading_number_def Let_def prod.case) simp
qed

lemma stoi_show_nat: "n < 2 ^ 31 \<Longrightarrow> stoi (show_nat n) = Inr (int n)"
  by (simp add: stoi_def leading_show_nat fits_int_def)

lemma show_nat_plain: "\<not> dashed (show_nat n)"
  using show_nat_digits[of n] digit_neither(2) by (cases "show_nat n") (auto simp: dashed_def)

section \<open>What is written is read\<close>

text \<open>A command line with the given options.\<close>

definition written :: "(string \<times> string option) list \<Rightarrow> string list" where
  "written os = concat (map (\<lambda>(f, v). f # (case v of None \<Rightarrow> [] | Some x \<Rightarrow> [x])) os)"

definition option_ok :: "string \<times> string option \<Rightarrow> bool" where
  "option_ok o' \<longleftrightarrow> dashed (fst o') \<and> (case snd o' of None \<Rightarrow> True | Some x \<Rightarrow> \<not> dashed x)"

definition option_flag :: "string \<times> string option \<Rightarrow> flag" where
  "option_flag o' = new_flag (fst o') (case snd o' of None \<Rightarrow> [] | Some x \<Rightarrow> x)"

lemma written_head: "\<forall>o' \<in> set os. option_ok o' \<Longrightarrow> written os = [] \<or> (\<exists>a as. written os = a # as \<and> dashed a)"
  by (cases os) (auto simp: written_def option_ok_def)

lemma parse_flag_alone:
  assumes "dashed f" and "as = [] \<or> (\<exists>b bs. as = b # bs \<and> dashed b)"
  shows "parse_flags (f # as) = new_flag f [] # parse_flags as"
  using assms by (cases as) auto

lemma parse_written: "\<forall>o' \<in> set os. option_ok o' \<Longrightarrow> parse_flags (written os) = map option_flag os"
proof (induction os)
  case (Cons o' os)
  obtain f v where o': "o' = (f, v)" by (cases o')
  have f: "dashed f" using Cons.prems o' by (simp add: option_ok_def)
  show ?case
  proof (cases v)
    case None
    with Cons f parse_flag_alone[OF f written_head[of os]] show ?thesis
      by (simp add: o' written_def option_flag_def)
  next
    case (Some x)
    with Cons f show ?thesis by (simp add: o' written_def option_flag_def option_ok_def)
  qed
qed (simp add: written_def)

lemma has_options: "hasFlag k (map option_flag os) \<longleftrightarrow> k \<in> fst ` set os"
  by (induction os) (auto simp: option_flag_def new_flag_def flag_is_def)

lemma get_option:
  "map_of os k = Some v \<Longrightarrow> fl_value (getValue k (map option_flag os)) = (case v of None \<Rightarrow> [] | Some x \<Rightarrow> x)"
  by (induction os) (auto simp: option_flag_def new_flag_def flag_is_def split: if_splits)

text \<open>C38: the programs read their command line as it was written.  Whatever options are given, in any order and
  with or without values, the parser finds exactly them, with the first of several of one name; the
  client starts with the given host and the server with the given file, each with the given port
  modulo 65536; and a program whose options are not all there exits with 84.\<close>

theorem programs_read_options:
  assumes "\<forall>o' \<in> set os. option_ok o'"
  shows "map (\<lambda>f. (fl_flag f, fl_value f)) (new_parser (prog # written os)) =
      map (\<lambda>(f, v). (f, case v of None \<Rightarrow> [] | Some x \<Rightarrow> x)) os \<and>
    (map_of os ''-h'' = Some (Some host) \<and> map_of os ''-p'' = Some (Some (show_nat port)) \<and> port < 2 ^ 31 \<longrightarrow>
       client_main (prog # written os) = Starts (host, word_of_nat port)) \<and>
    (map_of os ''--config'' = Some (Some file) \<and> map_of os ''-p'' = Some (Some (show_nat port)) \<and> port < 2 ^ 31 \<longrightarrow>
       server_main (prog # written os) = Starts (word_of_nat port, file)) \<and>
    (client_main (prog # written os) = Exit_code 84 \<longleftrightarrow> \<not> {''-h'', ''-p''} \<subseteq> fst ` set os) \<and>
    (server_main (prog # written os) = Exit_code 84 \<longleftrightarrow> \<not> {''-p'', ''--config''} \<subseteq> fst ` set os)"
proof -
  have parsed: "new_parser (prog # written os) = map option_flag os"
    using parse_written[OF assms] by (simp add: new_parser_def)
  have has: "k \<in> fst ` set os" if "map_of os k = Some v" for k v
    using map_of_SomeD[OF that] by force
  have flags: "map (\<lambda>f. (fl_flag f, fl_value f)) (map option_flag os) =
      map (\<lambda>(f, v). (f, case v of None \<Rightarrow> [] | Some x \<Rightarrow> x)) os"
    by (simp add: option_flag_def new_flag_def split_beta)
  show ?thesis
    using flags has get_option[of os] stoi_show_nat[of port]
    by (auto simp: parsed client_main_def server_main_def has_options as_int_def as_string_def Let_def
        split: sum.splits)
qed

theorem programs_read_options_witness:
  "client_main [''r-type_client'', ''-v'', ''-p'', ''4242'', ''-h'', ''127.0.0.1''] = Starts (''127.0.0.1'', 4242)"
proof -
  have "show_nat 4242 = ''4242''" by (simp add: show_nat.simps char_of_def bit_iff_odd)
  then show ?thesis
    using programs_read_options[of "[(''-v'', None), (''-p'', Some ''4242''), (''-h'', Some ''127.0.0.1'')]"
        "''r-type_client''" "''127.0.0.1''" 4242]
    by (simp add: option_ok_def dashed_def written_def)
qed

end
