(* ===== verification/Pace.thy ===== *)
theory Pace
  imports Prelude
begin

text \<open>
  The timer that paces the main loops of the server and of the client (\<^verbatim>\<open>common/utils.hpp\<close>).  What
  \<open>steady_clock::now\<close> returns during one call is a list of instants, in the order of the readings; a
  call whose readings run out has not returned.  The wait before a tick is kept in nanoseconds, where
  the code converts it to seconds in a \<open>double\<close>.
\<close>

section \<open>The timer\<close>

definition SPIN_THRESHOLD :: time where "SPIN_THRESHOLD = 2000000"

text \<open>\<open>lt_interval\<close> is one second divided by the ticks per second, in whole nanoseconds.\<close>

record loop_timer =
  lt_interval :: time
  lt_nextTick :: time

definition new_loop_timer :: "time \<Rightarrow> time \<Rightarrow> loop_timer" where
  "new_loop_timer interval now = \<lparr>lt_interval = interval, lt_nextTick = now\<rparr>"

text \<open>The loop that yields: the reading that ends it and those that are left.\<close>

primrec spin :: "time \<Rightarrow> time list \<Rightarrow> (time \<times> time list) option" where
  "spin nextTick [] = None"
| "spin nextTick (now # clock) = (if now < nextTick then spin nextTick clock else Some (now, clock))"

text \<open>The result: the timer, the time it asked to sleep, the last reading and the readings that are left.\<close>

definition waitForNextTick :: "time list \<Rightarrow> loop_timer \<Rightarrow> (loop_timer \<times> time option \<times> time \<times> time list) option" where
  "waitForNextTick readings t0 =
     (let t = t0\<lparr>lt_nextTick := lt_nextTick t0 + lt_interval t0\<rparr> in
      case readings of
        [] \<Rightarrow> None
      | now # clock \<Rightarrow>
          if now \<ge> lt_nextTick t then Some (t, None, now, clock)
          else
            let remaining = lt_nextTick t - now;
                slept = (if remaining > SPIN_THRESHOLD then Some (remaining - SPIN_THRESHOLD) else None)
            in map_option (\<lambda>(end, clock). (t, slept, end, clock)) (spin (lt_nextTick t) clock))"

text \<open>Calls one after the other, each with the readings that the one before left: the timer and the
  instants at which the calls returned.\<close>

primrec waits :: "nat \<Rightarrow> time list \<Rightarrow> loop_timer \<Rightarrow> (loop_timer \<times> time list) option" where
  "waits 0 clock t = Some (t, [])"
| "waits (Suc n) clock t =
     (case waitForNextTick clock t of
        None \<Rightarrow> None
      | Some (t1, _, end, clock1) \<Rightarrow> map_option (\<lambda>(t2, ends). (t2, end # ends)) (waits n clock1 t1))"

section \<open>Pace\<close>

lemma spin_ends:
  "spin tick clock = Some (end, rest) \<longleftrightarrow>
     (\<exists>early. clock = early @ end # rest \<and> (\<forall>x \<in> set early. x < tick) \<and> tick \<le> end)"
proof (induction clock)
  case (Cons now clock)
  show ?case
  proof
    assume "spin tick (now # clock) = Some (end, rest)"
    then show "\<exists>early. now # clock = early @ end # rest \<and> (\<forall>x \<in> set early. x < tick) \<and> tick \<le> end"
      using Cons by (fastforce split: if_splits intro: exI[of _ "now # _"])
  next
    assume "\<exists>early. now # clock = early @ end # rest \<and> (\<forall>x \<in> set early. x < tick) \<and> tick \<le> end"
    then show "spin tick (now # clock) = Some (end, rest)"
      using Cons by (auto simp: Cons_eq_append_conv)
  qed
qed auto

lemma wait_returns:
  assumes "waitForNextTick clock t = Some (t', slept, end, rest)"
  shows "t' = t\<lparr>lt_nextTick := lt_nextTick t + lt_interval t\<rparr>"
    and "\<exists>early. clock = early @ end # rest \<and> (\<forall>x \<in> set early. x < lt_nextTick t') \<and> lt_nextTick t' \<le> end"
    and "slept = Some s \<Longrightarrow> hd clock + s + SPIN_THRESHOLD = lt_nextTick t' \<and> 0 < s"
proof -
  obtain now clock' where clock: "clock = now # clock'" using assms by (cases clock) (auto simp: waitForNextTick_def Let_def)
  show "t' = t\<lparr>lt_nextTick := lt_nextTick t + lt_interval t\<rparr>"
    and "slept = Some s \<Longrightarrow> hd clock + s + SPIN_THRESHOLD = lt_nextTick t' \<and> 0 < s"
    using assms by (auto simp: clock waitForNextTick_def Let_def split: if_splits)
  have "clock = [] @ end # rest \<and> lt_nextTick t' \<le> end \<or>
      now < lt_nextTick t' \<and> spin (lt_nextTick t') clock' = Some (end, rest)"
    using assms by (auto simp: clock waitForNextTick_def Let_def split: if_splits)
  then show "\<exists>early. clock = early @ end # rest \<and> (\<forall>x \<in> set early. x < lt_nextTick t') \<and> lt_nextTick t' \<le> end"
    by (elim disjE) (force, force simp: clock spin_ends intro: exI[of _ "now # _"])
qed

lemma spin_some: "x \<in> set clock \<Longrightarrow> tick \<le> x \<Longrightarrow> \<exists>end rest. spin tick clock = Some (end, rest)"
  by (induction clock) auto

lemma wait_some:
  assumes "x \<in> set clock" and "lt_nextTick t + lt_interval t \<le> x"
  shows "\<exists>r. waitForNextTick clock t = Some r"
  using assms spin_some[of x _ "lt_nextTick t + lt_interval t"]
  by (cases clock) (auto simp: waitForNextTick_def Let_def)

lemma waits_return:
  assumes "0 \<le> lt_interval t" and "n \<le> length (filter (\<lambda>x. lt_nextTick t + int n * lt_interval t \<le> x) clock)"
  shows "\<exists>ends. waits n clock t = Some (t\<lparr>lt_nextTick := lt_nextTick t + int n * lt_interval t\<rparr>, ends) \<and>
    length ends = n \<and> (\<forall>k < n. lt_nextTick t + int (Suc k) * lt_interval t \<le> ends ! k)"
  using assms
proof (induction n arbitrary: clock t)
  case (Suc n)
  let ?last = "lt_nextTick t + int (Suc n) * lt_interval t"
  have "filter (\<lambda>x. ?last \<le> x) clock \<noteq> []" using Suc.prems(2) by auto
  then obtain x where x: "x \<in> set clock" "?last \<le> x" by (auto simp: filter_empty_conv)
  have "lt_nextTick t + lt_interval t \<le> ?last" using Suc.prems(1) by (simp add: distrib_right)
  then obtain t1 slept e rest where w: "waitForNextTick clock t = Some (t1, slept, e, rest)"
    using wait_some[OF x(1)] x(2) by fastforce
  note r = wait_returns(1,2)[OF w]
  from r(2) obtain early where early: "clock = early @ e # rest" "\<forall>x \<in> set early. x < lt_nextTick t1" "lt_nextTick t1 \<le> e" by blast
  have t1: "lt_nextTick t1 + int n * lt_interval t1 = ?last" "lt_interval t1 = lt_interval t"
    "lt_nextTick t1 = lt_nextTick t + lt_interval t" using r(1) by (simp_all add: distrib_right)
  have "filter (\<lambda>x. ?last \<le> x) early = []"
    using early(2) t1(3) \<open>lt_nextTick t + lt_interval t \<le> ?last\<close> by (fastforce simp: filter_empty_conv)
  then have "n \<le> length (filter (\<lambda>x. ?last \<le> x) rest)" using Suc.prems(2) early(1) by (auto split: if_splits)
  then obtain ends where ends:
    "waits n rest t1 = Some (t1\<lparr>lt_nextTick := ?last\<rparr>, ends)" "length ends = n"
    "\<forall>k < n. lt_nextTick t1 + int (Suc k) * lt_interval t \<le> ends ! k"
    using Suc.IH[of t1 rest, unfolded t1(1), unfolded t1(2)] Suc.prems(1) by blast
  have "lt_nextTick t + int (Suc k) * lt_interval t \<le> (e # ends) ! k" if "k < Suc n" for k
  proof (cases k)
    case 0
    then show ?thesis using early(3) t1(3) by simp
  next
    case (Suc j)
    then show ?thesis using ends(3) that t1(3) by (auto simp: distrib_right)
  qed
  with w ends r(1) show ?case by auto
qed simp

text \<open>C39: the timer neither drifts nor stalls.  Take a loop that waits \<open>n\<close> times, with a clock that in the end
  reads late enough.  Every wait returns; wait number \<open>k\<close> not before the start plus \<open>k\<close> intervals, however
  long the turns of the loop took; and the timer then stands at the start plus \<open>n\<close> intervals.  A single
  wait ends at the first reading that is not before its tick, and a sleep in it would end two
  milliseconds before that tick.\<close>

theorem loop_keeps_pace:
  assumes "0 \<le> interval" and "n \<le> length (filter (\<lambda>x. start + int n * interval \<le> x) clock)"
  shows "\<exists>ends. waits n clock (new_loop_timer interval start) =
      Some (new_loop_timer interval (start + int n * interval), ends) \<and>
    length ends = n \<and> (\<forall>k < n. start + int (Suc k) * interval \<le> ends ! k) \<and>
    (\<forall>t t' slept end rest. waitForNextTick clock t = Some (t', slept, end, rest) \<longrightarrow>
       (\<exists>early. clock = early @ end # rest \<and> (\<forall>x \<in> set early. x < lt_nextTick t') \<and> lt_nextTick t' \<le> end) \<and>
       (\<forall>s. slept = Some s \<longrightarrow> hd clock + s + 2000000 = lt_nextTick t'))"
  using waits_return[of "new_loop_timer interval start" n clock] assms wait_returns(2,3)
  by (simp add: new_loop_timer_def SPIN_THRESHOLD_def) blast

theorem loop_keeps_pace_witness:
  "waits 2 [0, 49999999, 50000001, 70000000, 100000000, 130000000] (new_loop_timer 50000000 0) =
     Some (new_loop_timer 50000000 100000000, [50000001, 100000000])"
  using loop_keeps_pace[of 50000000 2 0 "[0, 49999999, 50000001, 70000000, 100000000, 130000000]"]
  by (simp add: new_loop_timer_def waitForNextTick_def SPIN_THRESHOLD_def numeral_2_eq_2)

end
