(* ===== verification/Statistics.thy ===== *)
theory Statistics
  imports Decimal NetServer NetClient
begin

text \<open>
  The recorder of statistics (\<^verbatim>\<open>lib/rtnt/include/rtnt/stat/recorder.hpp\<close>,
  \<^verbatim>\<open>lib/rtnt/src/stat/recorder.cpp\<close>) and the dumps for the log (\<^verbatim>\<open>lib/rtnt/src/common/utils.cpp\<close>).  The
  rounds of the worker thread are a list: whether it was woken to stop, the metrics it
  reads and the instant.  Only the tests of the network library use the recorder.
\<close>

section \<open>Snapshots\<close>

record channel_snapshot =
  cs_channelId :: u8
  cs_packetsSent :: u64
  cs_packetsReceived :: u64
  cs_bytesSent :: u64
  cs_bytesReceived :: u64

record packet_snapshot =
  pk_packetId :: u16
  pk_count :: u64
  pk_bytes :: u64

record session_snapshot =
  sn_sessionId :: u32
  sn_rtt :: u32
  sn_retransmitCount :: u64
  sn_duplicateCount :: u64
  sn_activeChannels :: "channel_snapshot list"

record system_snapshot =
  sy_timestamp :: u64
  sy_totalBytesSent :: u64
  sy_totalBytesReceived :: u64
  sy_sessions :: "session_snapshot list"
  sy_packetUsage :: "packet_snapshot list"

definition snapshot_channel :: "session_metrics \<Rightarrow> nat \<Rightarrow> channel_snapshot option" where
  "snapshot_channel m i =
     (let ch = m_channels m (word_of_nat i) in
      if packetsSent ch > 0 \<or> packetsReceived ch > 0
      then Some \<lparr>cs_channelId = word_of_nat i, cs_packetsSent = packetsSent ch, cs_packetsReceived = packetsReceived ch,
             cs_bytesSent = bytesSent ch, cs_bytesReceived = bytesReceived ch\<rparr>
      else None)"

definition snapshot_session :: "'ep session \<Rightarrow> session_snapshot" where
  "snapshot_session s =
     (let m = sessionMetrics s in
      \<lparr>sn_sessionId = s_id s, sn_rtt = m_rtt m, sn_retransmitCount = retransmitCount m,
       sn_duplicateCount = duplicateCount m, sn_activeChannels = List.map_filter (snapshot_channel m) [0..<256]\<rparr>)"

definition takeSnapshot :: "network_metrics \<Rightarrow> 'ep session list \<Rightarrow> system_snapshot" where
  "takeSnapshot metrics sessions =
     \<lparr>sy_timestamp = 0, sy_totalBytesSent = totalBytesSent metrics, sy_totalBytesReceived = totalBytesReceived metrics,
      sy_sessions = map snapshot_session sessions, sy_packetUsage = []\<rparr>"

text \<open>The sessions of a server, in the order of the map, and the one of a client.\<close>

definition server_snapshot :: "network_metrics \<Rightarrow> ('ep, 'm) server_world_scheme \<Rightarrow> system_snapshot" where
  "server_snapshot metrics w = takeSnapshot metrics (map (\<lambda>(_, sp). session_at sp w) (sv_sessions w))"

definition client_snapshot :: "('ep, 'm) client_scheme \<Rightarrow> system_snapshot" where
  "client_snapshot c =
     takeSnapshot (pr_networkMetrics (cl_peer c))
       (case cl_serverSession c of None \<Rightarrow> [] | Some sp \<Rightarrow> [session_at sp c])"

section \<open>The worker\<close>

record recorder =
  re_isRunning :: bool
  re_history :: "system_snapshot list"

definition new_recorder :: recorder where
  "new_recorder = \<lparr>re_isRunning = False, re_history = []\<rparr>"

definition recorder_start :: "recorder \<Rightarrow> recorder" where
  "recorder_start r = (if re_isRunning r then r else r\<lparr>re_isRunning := True\<rparr>)"
definition recorder_stop :: "recorder \<Rightarrow> recorder" where
  "recorder_stop r = (if \<not> re_isRunning r then r else r\<lparr>re_isRunning := False\<rparr>)"

primrec workerLoop :: "time \<Rightarrow> (bool \<times> system_snapshot \<times> time) list \<Rightarrow> recorder \<Rightarrow> recorder" where
  "workerLoop start [] r = r"
| "workerLoop start (round # rounds) r =
     (case round of
        (stopped, snapshot, now) \<Rightarrow>
          if stopped then r
          else workerLoop start rounds
            (r\<lparr>re_history := re_history r @
               [snapshot\<lparr>sy_timestamp := word_of_int ((now - start) div milliseconds 1)\<rparr>]\<rparr>))"

section \<open>The export\<close>

fun comma_row :: "string list \<Rightarrow> string" where
  "comma_row [] = [CHR 0x0A]"
| "comma_row [x] = x @ [CHR 0x0A]"
| "comma_row (x # xs) = x @ '','' @ comma_row xs"

definition show_word :: "'a::len word \<Rightarrow> string" where "show_word w = show_nat (unat w)"

definition rtt_and_retries :: "system_snapshot \<Rightarrow> u64 \<times> u64" where
  "rtt_and_retries entry =
     (if sy_sessions entry = [] then (0, 0)
      else case foldl (\<lambda>(rtt, retries) s. (rtt + ucast (sn_rtt s), retries + sn_retransmitCount s)) (0, 0) (sy_sessions entry) of
        (totalRtt, totalRetries) \<Rightarrow> (totalRtt div word_of_nat (length (sy_sessions entry)), totalRetries))"

definition global_row :: "system_snapshot \<Rightarrow> string" where
  "global_row entry =
     (case rtt_and_retries entry of
        (totalRtt, totalRetries) \<Rightarrow>
          comma_row [show_word (sy_timestamp entry), show_word (sy_totalBytesSent entry),
            show_word (sy_totalBytesReceived entry), show_word totalRtt, show_word totalRetries])"

definition global_csv :: "system_snapshot list \<Rightarrow> string" where
  "global_csv history =
     ''Timestamp,TotalBytesSent,TotalBytesReceived,AvgRTT,TotalRetries'' @ [CHR 0x0A] @ concat (map global_row history)"

definition channel_row :: "system_snapshot \<Rightarrow> session_snapshot \<Rightarrow> channel_snapshot \<Rightarrow> string" where
  "channel_row entry session ch =
     comma_row [show_word (sy_timestamp entry), show_word (sn_sessionId session), show_word (cs_channelId ch),
       show_word (cs_packetsSent ch), show_word (cs_packetsReceived ch), show_word (cs_bytesSent ch),
       show_word (cs_bytesReceived ch)]"

definition channels_csv :: "system_snapshot list \<Rightarrow> string" where
  "channels_csv history =
     ''Timestamp,SessionId,ChannelId,PacketsSent,PacketsReceived,BytesSent,BytesReceived'' @ [CHR 0x0A] @
     concat (map (\<lambda>entry. concat (map (\<lambda>session. concat (map (channel_row entry session) (sn_activeChannels session)))
       (sy_sessions entry))) history)"

text \<open>\<open>filename.substr(0, filename.find_last_of('.'))\<close>.\<close>

definition stem :: "string \<Rightarrow> string" where
  "stem filename =
     (if CHR ''.'' \<in> set filename then rev (tl (dropWhile (\<lambda>c. c \<noteq> CHR ''.'') (rev filename))) else filename)"

text \<open>The files that are written, of those that can be opened.\<close>

definition exportToCsv :: "(string \<Rightarrow> bool) \<Rightarrow> string \<Rightarrow> recorder \<Rightarrow> (string \<times> string) list" where
  "exportToCsv opens filename r =
     (let f = filename @ ''.csv''; g = stem filename @ ''_channels.csv''
      in (if opens f then [(f, global_csv (re_history r))] else []) @
         (if opens g then [(g, channels_csv (re_history r))] else []))"

section \<open>Dumps\<close>

definition hex_digit :: "nat \<Rightarrow> char" where
  "hex_digit d = char_of (if d < 10 then 48 + d else 55 + d)"

definition hex_byte :: "u8 \<Rightarrow> string" where
  "hex_byte b = [hex_digit (unat b div 16), hex_digit (unat b mod 16)]"

primrec hex_bytes :: "bool \<Rightarrow> bytes \<Rightarrow> string" where
  "hex_bytes first [] = []"
| "hex_bytes first (b # bs) = (if first then [] else '' '') @ hex_byte b @ hex_bytes False bs"

definition byteBufferToHexString :: "bytes \<Rightarrow> string" where
  "byteBufferToHexString buffer = (if length buffer = 0 then ''[]'' else ''['' @ hex_bytes True buffer @ '']'')"

text \<open>The two symbols in UTF-8.\<close>

definition bitfieldToString :: "u32 \<Rightarrow> bytes" where
  "bitfieldToString bitfield =
     concat (map (\<lambda>k. if bitfield AND push_bit k 1 \<noteq> 0 then [0xE2, 0x80, 0xA2] else [0xE2, 0x97, 0xA6]) [0..<32])"

section \<open>Reading the files back\<close>

text \<open>The fields of the lines after the header; a line that is not ended is dropped.\<close>

fun split_at :: "char \<Rightarrow> string \<Rightarrow> string \<Rightarrow> string list" where
  "split_at d acc [] = []"
| "split_at d acc (c # cs) = (if c = d then acc # split_at d [] cs else split_at d (acc @ [c]) cs)"

definition fields :: "string \<Rightarrow> int list" where
  "fields line = map digits_value (split_at (CHR '','') [] (line @ '',''))"

definition read_csv :: "string \<Rightarrow> int list list" where
  "read_csv text = map fields (tl (split_at (CHR 0x0A) [] text))"

lemma split_at_block:
  assumes "d \<notin> set x"
  shows "split_at d acc (x @ d # y) = (acc @ x) # split_at d [] y"
  using assms by (induction x arbitrary: acc) auto

lemma digit_no_separator: "is_digit c \<Longrightarrow> c \<noteq> CHR '','' \<and> c \<noteq> CHR 0x0A"
  by (auto simp: is_digit_def)

lemma show_word_text: "CHR '','' \<notin> set (show_word w)" "CHR 0x0A \<notin> set (show_word w)" "digits_value (show_word w) = uint w"
  using show_nat_digits[of "unat w"] digit_no_separator by (auto simp: show_word_def)

lemma split_row:
  assumes "xs \<noteq> []" and "\<forall>x \<in> set xs. CHR '','' \<notin> set x"
  shows "comma_row xs = butlast (comma_row xs) @ [CHR 0x0A] \<and>
    split_at (CHR '','') [] (butlast (comma_row xs) @ '','') = xs"
  using assms
proof (induction xs rule: comma_row.induct)
  case (2 x)
  then show ?case using split_at_block[of "CHR '',''" x "[]" "[]"] by simp
next
  case (3 x y zs)
  let ?r = "comma_row (y # zs)"
  have r: "?r \<noteq> []" by (cases zs) simp_all
  have "split_at (CHR '','') [] ((x @ '','' @ butlast ?r) @ '','') = x # split_at (CHR '','') [] (butlast ?r @ '','')"
    using split_at_block[of "CHR '',''" x "[]" "butlast ?r @ '',''"] 3 by simp
  with 3 r show ?case by (simp add: butlast_append)
qed simp

lemma row_line:
  assumes "\<forall>x \<in> set xs. CHR 0x0A \<notin> set x"
  shows "CHR 0x0A \<notin> set (butlast (comma_row xs))"
  using assms
proof (induction xs rule: comma_row.induct)
  case (3 x y zs)
  have r: "comma_row (y # zs) \<noteq> []" by (cases zs) simp_all
  with 3 show ?case by (auto simp: butlast_append)
qed auto

definition plain_text :: "string \<Rightarrow> bool" where
  "plain_text x \<longleftrightarrow> CHR '','' \<notin> set x \<and> CHR 0x0A \<notin> set x"

lemma show_word_plain [simp]: "plain_text (show_word w)" "digits_value (show_word w) = uint w"
  using show_word_text by (auto simp: plain_text_def)

lemma split_lines:
  assumes "\<forall>xs \<in> set xss. xs \<noteq> [] \<and> (\<forall>x \<in> set xs. plain_text x)"
  shows "split_at (CHR 0x0A) [] (concat (map comma_row xss)) = map (\<lambda>xs. butlast (comma_row xs)) xss"
  using assms
proof (induction xss)
  case (Cons xs xss)
  have r: "comma_row xs = butlast (comma_row xs) @ [CHR 0x0A]" "CHR 0x0A \<notin> set (butlast (comma_row xs))"
    using split_row[of xs] row_line[of xs] Cons.prems by (auto simp: plain_text_def)
  have "split_at (CHR 0x0A) [] (comma_row xs @ concat (map comma_row xss)) =
      butlast (comma_row xs) # split_at (CHR 0x0A) [] (concat (map comma_row xss))"
    by (subst r(1)) (simp add: split_at_block[OF r(2)])
  with Cons show ?case by simp
qed simp

lemma read_rows:
  assumes "\<forall>xs \<in> set xss. xs \<noteq> [] \<and> (\<forall>x \<in> set xs. plain_text x)" and "CHR 0x0A \<notin> set header"
  shows "read_csv (header @ [CHR 0x0A] @ concat (map comma_row xss)) = map (map digits_value) xss"
proof -
  have "fields (butlast (comma_row xs)) = map digits_value xs" if "xs \<in> set xss" for xs
    using split_row[of xs] assms(1) that by (auto simp: fields_def plain_text_def)
  then show ?thesis
    using split_at_block[OF assms(2), of "[]"] split_lines[OF assms(1)] by (simp add: read_csv_def)
qed

lemma concat_map_concat: "concat (map f (concat (map g ys))) = concat (map (\<lambda>y. concat (map f (g y))) ys)"
  by (induction ys) simp_all

definition channel_texts :: "system_snapshot \<Rightarrow> string list list" where
  "channel_texts entry = concat (map (\<lambda>session. map (\<lambda>ch.
     [show_word (sy_timestamp entry), show_word (sn_sessionId session), show_word (cs_channelId ch),
      show_word (cs_packetsSent ch), show_word (cs_packetsReceived ch), show_word (cs_bytesSent ch),
      show_word (cs_bytesReceived ch)]) (sn_activeChannels session)) (sy_sessions entry))"

lemma channels_text: "channels_csv history =
  ''Timestamp,SessionId,ChannelId,PacketsSent,PacketsReceived,BytesSent,BytesReceived'' @ [CHR 0x0A] @
  concat (map comma_row (concat (map channel_texts history)))"
  unfolding concat_map_concat channels_csv_def channel_texts_def channel_row_def map_map o_def ..

lemma global_text: "global_csv history = ''Timestamp,TotalBytesSent,TotalBytesReceived,AvgRTT,TotalRetries'' @ [CHR 0x0A] @
  concat (map comma_row (map (\<lambda>e. [show_word (sy_timestamp e), show_word (sy_totalBytesSent e),
    show_word (sy_totalBytesReceived e), show_word (fst (rtt_and_retries e)), show_word (snd (rtt_and_retries e))]) history))"
  unfolding global_csv_def global_row_def map_map o_def case_prod_beta ..

text \<open>The lines of the two files, read back.\<close>

lemma read_global:
  "read_csv (global_csv history) = map (\<lambda>e. [uint (sy_timestamp e), uint (sy_totalBytesSent e),
     uint (sy_totalBytesReceived e), uint (fst (rtt_and_retries e)), uint (snd (rtt_and_retries e))]) history"
  unfolding global_text by (subst read_rows) (auto simp: o_def)

lemma read_channels:
  "read_csv (channels_csv history) = concat (map (\<lambda>entry. concat (map (\<lambda>session. map (\<lambda>ch.
     [uint (sy_timestamp entry), uint (sn_sessionId session), uint (cs_channelId ch), uint (cs_packetsSent ch),
      uint (cs_packetsReceived ch), uint (cs_bytesSent ch), uint (cs_bytesReceived ch)]) (sn_activeChannels session))
     (sy_sessions entry))) history)"
proof -
  have "read_csv (channels_csv history) = map (map digits_value) (concat (map channel_texts history))"
    unfolding channels_text by (rule read_rows) (auto simp: channel_texts_def)
  then show ?thesis by (simp add: channel_texts_def map_concat o_def)
qed

section \<open>What a snapshot holds\<close>

text \<open>The active channels of a session are exactly those that carried a packet, each once and in order.\<close>

definition carried :: "session_metrics \<Rightarrow> u8 \<Rightarrow> bool" where
  "carried m i \<longleftrightarrow> packetsSent (m_channels m i) \<noteq> 0 \<or> packetsReceived (m_channels m i) \<noteq> 0"

lemma active_channels:
  "map f (sn_activeChannels (snapshot_session s)) =
    map (\<lambda>i. case m_channels (sessionMetrics s) i of ch \<Rightarrow> f \<lparr>cs_channelId = i, cs_packetsSent = packetsSent ch,
        cs_packetsReceived = packetsReceived ch, cs_bytesSent = bytesSent ch, cs_bytesReceived = bytesReceived ch\<rparr>)
      (filter (carried (sessionMetrics s)) (map word_of_nat [0..<256]))"
proof -
  have "map f (List.map_filter (snapshot_channel m) is) =
      map (\<lambda>i. f \<lparr>cs_channelId = i, cs_packetsSent = packetsSent (m_channels m i),
          cs_packetsReceived = packetsReceived (m_channels m i), cs_bytesSent = bytesSent (m_channels m i),
          cs_bytesReceived = bytesReceived (m_channels m i)\<rparr>) (filter (carried m) (map word_of_nat is))" for m "is"
    by (induction "is") (auto simp: snapshot_channel_def Let_def carried_def List.map_filter_simps word_neq_0_conv)
  then show ?thesis by (simp add: snapshot_session_def Let_def)
qed

text \<open>The two sums, taken in 64 bits.\<close>

lemma fold_sums:
  "foldl (\<lambda>(rtt, retries) s. (rtt + f s, retries + g s)) (a, b) xs =
    (a + (\<Sum>x \<leftarrow> xs. f x), b + (\<Sum>x \<leftarrow> xs. g x))"
  by (induction xs arbitrary: a b) (simp_all add: algebra_simps)

lemma uint_sum: "uint (\<Sum>x \<leftarrow> xs. (f x :: u64)) = (\<Sum>x \<leftarrow> xs. uint (f x)) mod 2 ^ 64"
proof (induction xs)
  case (Cons x xs)
  then show ?case by (simp add: uint_word_ariths mod_add_right_eq)
qed simp

lemma sum_bound: "(\<Sum>x \<leftarrow> xs. uint (f x :: u32)) \<le> int (length xs) * (2 ^ 32 - 1)"
proof (induction xs)
  case (Cons x xs)
  have "uint (f x) \<le> 2 ^ 32 - 1" using uint_lt2p[of "f x"] by simp
  with Cons show ?case by (simp add: algebra_simps)
qed simp

lemma mean_and_sum:
  assumes "length ss < 2 ^ 32"
  shows "map uint [fst (rtt_and_retries (takeSnapshot m ss)), snd (rtt_and_retries (takeSnapshot m ss))] =
    [if ss = [] then 0 else (\<Sum>s \<leftarrow> ss. uint (m_rtt (sessionMetrics s))) div int (length ss),
     (\<Sum>s \<leftarrow> ss. uint (retransmitCount (sessionMetrics s))) mod 2 ^ 64]"
proof (cases "ss = []")
  case False
  let ?rtt = "\<lambda>s. m_rtt (sessionMetrics s)" and ?n = "int (length ss)"
  have "(\<Sum>s \<leftarrow> ss. uint (?rtt s)) \<le> ?n * (2 ^ 32 - 1)" by (rule sum_bound)
  also have "\<dots> < 2 ^ 64" using assms by simp
  finally have small: "(\<Sum>s \<leftarrow> ss. uint (?rtt s)) < 2 ^ 64" .
  moreover have "0 \<le> (\<Sum>s \<leftarrow> ss. uint (?rtt s))" by (rule sum_list_nonneg) auto
  ultimately have sum: "uint (\<Sum>s \<leftarrow> ss. (ucast (?rtt s) :: u64)) = (\<Sum>s \<leftarrow> ss. uint (?rtt s))"
    by (simp add: uint_sum uint_up_ucast is_up)
  have "uint (word_of_nat (length ss) :: u64) = ?n" using assms by (simp add: uint_nat unat_of_nat)
  then have "uint ((\<Sum>s \<leftarrow> ss. (ucast (?rtt s) :: u64)) div word_of_nat (length ss)) = (\<Sum>s \<leftarrow> ss. uint (?rtt s)) div ?n"
    by (simp add: uint_div sum)
  then show ?thesis
    using False by (simp add: rtt_and_retries_def takeSnapshot_def fold_sums uint_sum snapshot_session_def Let_def o_def)
qed (simp add: rtt_and_retries_def takeSnapshot_def)

text \<open>A worker that runs records one snapshot per interval, with its time, until it is stopped.\<close>

lemma worker_records:
  assumes "rest = [] \<or> fst (hd rest)"
  shows "re_history (workerLoop start (map (\<lambda>(now, sn). (False, sn, now)) rounds @ rest) r) =
    re_history r @ map (\<lambda>(now, sn). sn\<lparr>sy_timestamp := word_of_int ((now - start) div milliseconds 1)\<rparr>) rounds"
proof (induction rounds arbitrary: r)
  case Nil
  from assms show ?case by (cases rest) (auto split: prod.split)
qed (auto split: prod.split)

text \<open>C40: what the recorder exports is what it measured.  Let a recorder be started, take any number of
  snapshots, each at its time of the metrics of the peer and of the sessions of that time, fewer than
  \<open>2\<^sup>3\<^sup>2\<close>, and be stopped.  The two files that it exports, read back, are then: one line per snapshot, with
  the milliseconds since the start, the two counters of the peer, the mean of the round-trip times of the
  sessions (zero without a session) and the sum of their retransmissions; and one line per snapshot,
  session and channel that carried a packet, in order, with the four counters of the channel.  The time of
  a single session, its retransmissions and its channels without a packet are not in the files.\<close>

theorem statistics_roundtrip:
  fixes rounds :: "(time \<times> network_metrics \<times> 'ep session list) list" and start :: time
  assumes "list_all (\<lambda>(now, m, ss). length ss < 2 ^ 32) rounds" and "rest = [] \<or> fst (hd rest)"
  defines "r \<equiv> workerLoop start (map (\<lambda>(now, m, ss). (False, takeSnapshot m ss, now)) rounds @ rest) (recorder_start new_recorder)"
    and "ms now \<equiv> (now - start) div 1000000 mod 2 ^ 64"
  shows "\<exists>global channels. exportToCsv (\<lambda>_. True) filename r =
      [(filename @ ''.csv'', global), (stem filename @ ''_channels.csv'', channels)] \<and>
    read_csv global = map (\<lambda>(now, m, ss). [ms now, uint (totalBytesSent m), uint (totalBytesReceived m),
      if ss = [] then 0 else (\<Sum>s \<leftarrow> ss. uint (m_rtt (sessionMetrics s))) div int (length ss),
      (\<Sum>s \<leftarrow> ss. uint (retransmitCount (sessionMetrics s))) mod 2 ^ 64]) rounds \<and>
    read_csv channels = concat (map (\<lambda>(now, m, ss). concat (map (\<lambda>s. map (\<lambda>i.
        case m_channels (sessionMetrics s) i of ch \<Rightarrow> [ms now, uint (s_id s), uint i, uint (packetsSent ch),
          uint (packetsReceived ch), uint (bytesSent ch), uint (bytesReceived ch)])
      (filter (carried (sessionMetrics s)) (map word_of_nat [0..<256]))) ss)) rounds)"
proof -
  let ?at = "\<lambda>now :: time. word_of_int ((now - start) div milliseconds 1) :: u64"
  have ms: "uint (?at now) = ms now" for now by (simp add: ms_def milliseconds_def uint_word_of_int)
  have history: "re_history r = map (\<lambda>(now, m, ss). (takeSnapshot m ss)\<lparr>sy_timestamp := ?at now\<rparr>) rounds"
    using worker_records[OF assms(2), of start "map (\<lambda>(now, m, ss). (now, takeSnapshot m ss)) rounds" "recorder_start new_recorder"]
    by (simp add: r_def o_def case_prod_beta' recorder_start_def new_recorder_def)
  have stamp: "rtt_and_retries (sn\<lparr>sy_timestamp := t\<rparr>) = rtt_and_retries sn" for sn t by (simp add: rtt_and_retries_def)
  have "read_csv (global_csv (re_history r)) = map (\<lambda>(now, m, ss). [ms now, uint (totalBytesSent m), uint (totalBytesReceived m),
      if ss = [] then 0 else (\<Sum>s \<leftarrow> ss. uint (m_rtt (sessionMetrics s))) div int (length ss),
      (\<Sum>s \<leftarrow> ss. uint (retransmitCount (sessionMetrics s))) mod 2 ^ 64]) rounds"
    unfolding read_global history map_map
  proof (rule map_cong[OF refl])
    fix x assume "x \<in> set rounds"
    moreover obtain now m ss where x: "x = (now, m, ss)" by (cases x)
    ultimately have "length ss < 2 ^ 32" using assms(1) by (auto simp: list_all_iff)
    from mean_and_sum[OF this, of m] ms[of now] show "((\<lambda>e. [uint (sy_timestamp e), uint (sy_totalBytesSent e), uint (sy_totalBytesReceived e),
        uint (fst (rtt_and_retries e)), uint (snd (rtt_and_retries e))]) \<circ>
      (\<lambda>(now, m, ss). (takeSnapshot m ss)\<lparr>sy_timestamp := ?at now\<rparr>)) x = (case x of (now, m, ss) \<Rightarrow> [ms now, uint (totalBytesSent m),
        uint (totalBytesReceived m), if ss = [] then 0 else (\<Sum>s \<leftarrow> ss. uint (m_rtt (sessionMetrics s))) div int (length ss),
        (\<Sum>s \<leftarrow> ss. uint (retransmitCount (sessionMetrics s))) mod 2 ^ 64])"
      by (simp add: x stamp) (simp add: takeSnapshot_def)
  qed
  moreover have "read_csv (channels_csv (re_history r)) = concat (map (\<lambda>(now, m, ss). concat (map (\<lambda>s. map (\<lambda>i.
        case m_channels (sessionMetrics s) i of ch \<Rightarrow> [ms now, uint (s_id s), uint i, uint (packetsSent ch),
          uint (packetsReceived ch), uint (bytesSent ch), uint (bytesReceived ch)])
      (filter (carried (sessionMetrics s)) (map word_of_nat [0..<256]))) ss)) rounds)"
    unfolding read_channels history map_map
    by (rule arg_cong[where f = concat], rule map_cong[OF refl])
      (simp add: takeSnapshot_def o_def active_channels ms case_prod_beta', simp add: snapshot_session_def Let_def)
  ultimately show ?thesis by (simp add: exportToCsv_def Let_def)
qed

text \<open>The dump of a buffer names its bytes: it can be read back.\<close>

definition hex_value :: "char \<Rightarrow> int" where
  "hex_value c = (if is_digit c then of_char c - 48 else of_char c - 55)"

fun read_hex :: "string \<Rightarrow> int list" where
  "read_hex (_ # a # b # cs) = (hex_value a * 16 + hex_value b) # read_hex cs"
| "read_hex _ = []"

lemma hex_digit_value: "d < 16 \<Longrightarrow> hex_value (hex_digit d) = int d"
  by (auto simp: hex_value_def hex_digit_def is_digit_def simp flip: of_nat_of_char[where 'a = int])

lemma hex_dump: "read_hex (byteBufferToHexString buffer) = map uint buffer"
proof -
  have byte: "read_hex (c # hex_byte b @ cs) = uint b # read_hex cs" for c b cs
  proof -
    have "unat b < 256" using unsigned_less[of b, where 'a = nat] by simp
    then have "unat b div 16 < 16" "unat b mod 16 < 16" by simp_all
    then have "hex_value (hex_digit (unat b div 16)) * 16 + hex_value (hex_digit (unat b mod 16)) =
        int (unat b div 16 * 16 + unat b mod 16)"
      by (simp only: hex_digit_value of_nat_add of_nat_mult of_nat_numeral)
    then show ?thesis unfolding div_mult_mod_eq by (simp add: hex_byte_def)
  qed
  have rest: "read_hex (hex_bytes False bs @ '']'') = map uint bs" for bs
    by (induction bs) (simp_all add: byte)
  show ?thesis
    by (cases buffer) (simp_all add: byteBufferToHexString_def byte rest)
qed

section \<open>Samples\<close>

text \<open>Two sessions: one sent three packets on channel 1, the other nothing.\<close>

definition sample_busy :: "nat session" where
  "sample_busy = (new_session 4 9 True 0)\<lparr>sessionMetrics := zero_metrics\<lparr>m_rtt := 10, retransmitCount := 2,
     m_channels := (m_channels zero_metrics)(1 := \<lparr>packetsSent = 3, packetsReceived = 0, bytesSent = 90, bytesReceived = 0\<rparr>)\<rparr>\<rparr>"

definition sample_idle :: "nat session" where
  "sample_idle = (new_session 5 8 True 0)\<lparr>sessionMetrics := zero_metrics\<lparr>m_rtt := 21, retransmitCount := 1\<rparr>\<rparr>"

definition sample_peer :: network_metrics where
  "sample_peer = \<lparr>totalBytesSent = 90, totalBytesReceived = 7, totalPacketsSent = 3, totalPacketsReceived = 1\<rparr>"

theorem statistics_roundtrip_witness:
  "\<exists>global channels. exportToCsv (\<lambda>_. True) ''a.b'' (workerLoop 0 [(False, takeSnapshot sample_peer [sample_busy, sample_idle], 5000000),
      (True, takeSnapshot sample_peer [], 0)] (recorder_start new_recorder)) =
      [(''a.b.csv'', global), (''a_channels.csv'', channels)] \<and>
    read_csv global = [[5, 90, 7, 15, 3]] \<and> read_csv channels = [[5, 4, 1, 3, 0, 90, 0]]"
proof -
  have zero: "packetsSent (m_channels zero_metrics i) = 0" "packetsReceived (m_channels zero_metrics i) = 0" for i
    by (simp_all add: zero_metrics_def zero_channel_def)
  have busy: "filter (carried (sessionMetrics sample_busy)) (map word_of_nat [0..<256]) = [1]"
  proof -
    have "carried (sessionMetrics sample_busy) = (\<lambda>i. i = 1)" by (rule ext) (simp add: carried_def sample_busy_def zero)
    moreover have "filter (\<lambda>i :: u8. i = 1) (map word_of_nat [0..<256]) = [1]"
    proof -
      have "[0..<2] = [0, 1 :: nat]" by (simp add: upt_rec)
      then have "[0..<256] = [0, 1] @ [2..<256]"
        using upt_add_eq_append[of 0 2 254] by (simp del: upt_rec_numeral)
      moreover have "filter (\<lambda>i :: u8. i = 1) (map word_of_nat [2..<256]) = []"
        by (auto simp: filter_empty_conv word_unat_eq_iff unat_of_nat simp del: upt_rec_numeral)
      ultimately show ?thesis by (simp del: upt_rec_numeral)
    qed
    ultimately show ?thesis by (simp del: upt_rec_numeral)
  qed
  have idle: "filter (carried (sessionMetrics sample_idle)) (map word_of_nat [0..<256]) = []"
    by (simp add: carried_def sample_idle_def zero del: upt_rec_numeral)
  have "stem ''a.b'' = ''a''" by (simp add: stem_def)
  with statistics_roundtrip[where rounds = "[(5000000, sample_peer, [sample_busy, sample_idle])]"
      and rest = "[(True, takeSnapshot sample_peer [], 0)]" and start = 0 and filename = "''a.b''"]
  show ?thesis
    by (simp add: busy idle del: upt_rec_numeral) (simp add: sample_peer_def sample_busy_def sample_idle_def new_session_def)
qed

end
