(* ===== verification/Systems.thy ===== *)
theory Systems
  imports Ecs
begin

text \<open>
  The base class of the systems and the wrapper that makes a system of a function
  (\<^verbatim>\<open>lib/rtecs/src/systems\<close>).  A system keeps a reference to the string with its name, so the strings
  that are alive are part of the state: a map from addresses that are used once.  A literal passed to a
  constructor is a string that lives until the end of the statement.
\<close>

section \<open>Strings and their lifetimes\<close>

record strings =
  st_alive :: "nat \<Rightarrow> string option"
  st_next :: nat

definition no_strings :: strings where
  "no_strings = \<lparr>st_alive = (\<lambda>_. None), st_next = 0\<rparr>"

definition allocate :: "string \<Rightarrow> strings \<Rightarrow> nat \<times> strings" where
  "allocate s m = (st_next m, m\<lparr>st_alive := (st_alive m)(st_next m \<mapsto> s), st_next := st_next m + 1\<rparr>)"

definition release :: "nat \<Rightarrow> strings \<Rightarrow> strings" where
  "release a m = m\<lparr>st_alive := (st_alive m)(a := None)\<rparr>"

text \<open>A statement with a literal where \<open>const std::string&\<close> is expected.\<close>

definition with_literal :: "string \<Rightarrow> (nat \<Rightarrow> strings \<Rightarrow> 'r \<times> strings) \<Rightarrow> strings \<Rightarrow> 'r \<times> strings" where
  "with_literal s body m =
     (let (a, m1) = allocate s m; (r, m2) = body a m1 in (r, release a m2))"

section \<open>Systems\<close>

text \<open>\<open>_kName\<close> is a reference; \<open>getName\<close> reads through it, and is undefined when the string is gone.\<close>

record a_system =
  as_kName :: nat

definition new_system :: "nat \<Rightarrow> a_system" where
  "new_system name = \<lparr>as_kName = name\<rparr>"

definition getName :: "strings \<Rightarrow> ('z) a_system_scheme \<Rightarrow> string option" where
  "getName m s = st_alive m (as_kName s)"

record 'e system_wrapper = a_system +
  sw_applyFn :: "'e \<Rightarrow> 'e"

definition new_wrapper :: "('e \<Rightarrow> 'e) \<Rightarrow> nat \<Rightarrow> 'e system_wrapper" where
  "new_wrapper applyFn name = \<lparr>as_kName = name, sw_applyFn = applyFn\<rparr>"

definition wrapper_apply :: "'e system_wrapper \<Rightarrow> 'e \<Rightarrow> 'e" where
  "wrapper_apply s = sw_applyFn s"

text \<open>\<open>ECS::registerSystem\<close> with a function, over systems that are wrappers or of another class.\<close>

definition registerFunction ::
    "('e \<Rightarrow> 'e) \<Rightarrow> nat \<Rightarrow> ('c, 's + 'e system_wrapper) ecs \<Rightarrow> ('c, 's + 'e system_wrapper) ecs" where
  "registerFunction applyFn name = registerSystem (Inr (new_wrapper applyFn name))"

section \<open>Names\<close>

lemma literal_is_gone: "st_alive (snd (with_literal s (\<lambda>a m. (mk a, m)) m)) (st_next m) = None"
  by (simp add: with_literal_def allocate_def release_def)

lemma system_name_dangles:
  "with_literal s (\<lambda>a m. (new_system a, m)) m = (sys, m') \<Longrightarrow> getName m' sys = None"
  by (auto simp: with_literal_def allocate_def release_def getName_def new_system_def)

lemma wrapper_name_lives:
  "st_alive m a = Some s \<Longrightarrow> getName m (new_wrapper f a) = Some s"
  by (simp add: getName_def new_wrapper_def)

text \<open>A function that is registered runs after the systems that are there.\<close>

lemma function_runs_last:
  "applyAllSystems (case_sum run (\<lambda>w e. put (wrapper_apply w (get e)) e)) (registerFunction f a e) =
   (let e1 = fold (case_sum run (\<lambda>w e. put (wrapper_apply w (get e)) e)) (e_systems e) (registerFunction f a e)
    in put (f (get e1)) e1)"
  by (simp add: applyAllSystems_def registerFunction_def registerSystem_def wrapper_apply_def new_wrapper_def Let_def)

end
