(* ===== verification/Spec2Isabelle.thy ===== *)
theory Spec2Isabelle
  imports SessionPair Queues Engine Handshake ServerApp Animations CommandLine Pace Statistics Systems
begin

text \<open>
  \<^bold>\<open>R-Type: a verification library.\<close>  The program is a networked shooter: a server runs lobbies, each
  with its own thread and its own copy of the game, and clients draw what their lobby tells them.  It
  stands on three libraries of the repository: \<^verbatim>\<open>lib/rtnt\<close> (packets and sessions over UDP),
  \<^verbatim>\<open>lib/rtecs\<close> (an entity-component store) and \<^verbatim>\<open>lib/rteng\<close> (the engine over the store).
  \<^verbatim>\<open>common\<close> holds the components and the packets that both sides share.

  \<^bold>\<open>How the parts interact.\<close>  A datagram reaches a \<open>Session\<close>, which acknowledges it, filters
  duplicates, restores the order and hands packets to the queue of its \<open>Server\<close> or \<open>Client\<close>; the periodic
  update of those takes them from the queue to the \<open>Dispatcher\<close>, whose handlers the applications
  registered.  On the server the handlers push tasks on the queue of a \<open>Lobby\<close> through the
  \<open>lobby::Manager\<close>; the thread of the lobby runs them and its ticks, and pushes messages for sessions
  on a queue that the main loop of \<open>server::App\<close> empties into the sessions.  On the client the handlers
  push tasks on a queue that the main loop of \<open>client::App\<close> runs before the systems of a frame; one of
  them sends what the keys and the menus asked for and runs the update of the client.

  \<^bold>\<open>Theories and code.\<close>  Every definition that models code is mapped to its lines in the manifest;
  definitions keep the names of the code, with a prefix where several classes share a name
  (\<open>ss_\<close> for \<open>SparseSet\<close>, \<open>bs_\<close> for \<open>DynamicBitSet\<close>, \<open>lobby_\<close>, \<open>client_\<close>, and so on).
  \<^item> \<open>Prelude\<close>: machine words, \<open>try_bind\<close> for computations that may fault, \<open>std::map\<close> as a sorted
    association list.  \<open>Queues\<close>: \<open>ThreadSafeQueue\<close> and \<open>ConcurrentQueue\<close> (locale \<open>fifo\<close>).
    \<open>Float32\<close>: the type \<open>float\<close> bit for bit, round to nearest, ties to even.
  \<^item> \<open>Endian\<close>, \<open>Packet\<close>, \<open>PacketStream\<close>: byte order, the wire header and its parser, the stream operators
    of packets with the locale \<open>wire_codec\<close> (what is written is read back), the compile-time checks.
  \<^item> \<open>Session\<close> is the class \<open>Session\<close>: numbering, acknowledgements, retransmission, reordering.
    \<open>SessionSend\<close>, \<open>ReplayFilter\<close> and \<open>SessionReceive\<close> hold the lemmas of its sending half, its
    duplicate filter (locale \<open>replay_protected\<close>) and its receiving half; \<open>SessionPair\<close> puts two
    sessions and a faulty network together as a step relation.
  \<^item> \<open>Dispatcher\<close>, \<open>Peer\<close>, \<open>NetServer\<close>, \<open>NetClient\<close>: the dispatcher and the packets of the protocol, the
    socket, the classes \<open>Server\<close> and \<open>Client\<close>.  Records are extended from the world of the network to the
    application, so that a callback can change all of it.  \<open>ServerLife\<close>, \<open>ClientLife\<close> and \<open>Handshake\<close>
    hold what they do over time and together; the locale \<open>server_user\<close> says what an application
    has to keep.
  \<^item> \<open>BitSet\<close>, \<open>SparseSet\<close>, \<open>SparseView\<close>, \<open>SparseGroup\<close>, \<open>Ecs\<close>, \<open>EcsCalls\<close>: the entity store, from the
    bits of a mask (locale \<open>index_bits\<close>) and the paged sparse sets (locale \<open>keyed_store\<close>) to the
    calls of a client of the store.  A C++ reference to an instance is its place in the dense
    vector of its set; reading through one that has become too large is a fault.
  \<^item> \<open>GamePackets\<close>, \<open>GameComponents\<close>, \<open>Engine\<close>: the packets and components of the game with their codecs,
    \<open>GameEngine\<close> and the component factory that rebuilds an entity from its mask and its bytes.
  \<^item> \<open>Movement\<close>, \<open>Director\<close>, \<open>Lobby\<close>: the movement systems, the level director and the lobby with its tasks,
    systems, ticks and rounds.  \<open>LobbyLife\<close>, \<open>DeadSweep\<close>, \<open>LobbyTick\<close> and \<open>LobbyTasks\<close> hold its invariant
    and what each task and system does.
  \<^item> \<open>Manager\<close>, \<open>ManagerLife\<close>, \<open>ServerApp\<close>: the lobby manager, its invariant under every interleaving with
    the threads of the lobbies, and the server application with its reachable states.
  \<^item> \<open>ClientHandlers\<close>, \<open>ClientSystems\<close>, \<open>ClientApp\<close>: the handlers, systems and menus of the client and its main
    loop.  \<open>ClientMirror\<close> defines what it is for a client to mirror a store; \<open>InSync\<close> and \<open>ClientWorld\<close> prove
    that it follows its lobby; \<open>ClientFrame\<close>, \<open>Graphics\<close> and \<open>ClientTurn\<close> add the systems, what a frame
    draws, the sprites and animations that the messages make, and the turns; \<open>TypedStores\<close> holds the
    types of the components over all runs of both sides, with a locale (\<open>toolbox_invariant\<close>) for what
    tasks and systems keep, and \<open>Animations\<close> the frames of the animations over all runs.
  \<^item> \<open>Decimal\<close>, \<open>CommandLine\<close>: decimal text, the parser of \<^verbatim>\<open>lib/cli_parser\<close> and the two \<open>main\<close> functions.
    \<open>Pace\<close>: the timer of the loops.  \<open>Statistics\<close>: the recorder of \<^verbatim>\<open>lib/rtnt/src/stat\<close> with its files,
    and the texts of bytes for the log.  \<open>Systems\<close>: the names of systems and the wrapper of a function.

  \<^bold>\<open>What the lemmas show.\<close>
  \<^item> Network: no loss of reliable packets while the sender keeps them, sound acknowledgements, delivery at
    most once and in order, the exact inputs of an undefined shift, completion of a handshake,
    giving up without one, the acknowledgement that blocks a client that has disconnected, and the round
    trip of every packet of the game.
  \<^item> Store: a sparse set refines a finite map, the mask of an entity tells its components, a group is exact,
    and an entity sent over the wire is rebuilt with the same components.
  \<^item> Server: every reachable state keeps its invariants, whatever the file of the waves holds; no thread of
    a lobby meets an empty optional, and none a missing key or an index out of bounds unless that file
    has a wave without a group or of unknown enemies or patterns (\<open>director_loads\<close> fails); the effect
    of every task and system, the delivery of messages; and the states where the code fails: a gap in
    the identifiers of the lobbies, a join of a stopping lobby.
  \<^item> Client: the abstraction \<open>in_sync\<close> relates the toolbox of a client to its lobby; a join establishes it,
    every round of the lobby and every turn of the client keep it (a turn runs to its end while there
    are at most four players, since a fifth cannot be drawn), packets carry messages across unchanged
    in both directions, a turn always returns, a frame draws the whole scene once, and every animation
    stays within its strip in every state that a client reaches.
  \<^item> Around them: the programs read their options as they were written, the timer of the loops does not
    drift, and the files of the recorder hold what it measured, the values of the sessions as mean and sum.

  \<^bold>\<open>Choices.\<close>  Time is the number of nanoseconds that the clock of the caller reads, an argument.  An exception,
  and a step whose behaviour C++ leaves undefined, is the left summand of a sum type, with one
  constructor per kind of fault.  \<open>std::mutex\<close> is left out: an operation under a lock is one step, and
  threads interleave between steps (\<open>link_step\<close>, \<open>managed\<close>, \<open>app_reachable\<close>).  \<open>unordered_map\<close> is an
  ordered map; where the order of iteration can be seen, the property does not depend on it.
  Containers are lists without a bound on memory; identifiers of entities and sessions in the
  model are natural numbers, and properties that send them say that they fit into 64 bits.
  Loops that can go on for ever are \<open>partial_function (option)\<close> (the event loops of client and server)
  or return the fault \<open>Never_returns\<close> (the choice of waves), and properties say when they end.  The
  loop of a lobby takes the lag of a round as an argument, since the clock decides it, and the loop
  over the active waves counts them down.  The timer of the loops takes the readings of the clock
  as a list, and a list that is too short is the result \<open>None\<close>.

  \<^bold>\<open>Outside the model.\<close>  The socket and its completion order (\<open>asio\<close>) are arguments of the steps of \<open>Peer\<close>; the JSON
  library, the random engine, \<open>cosf\<close> and what \<open>raylib\<close> reads in a frame are arguments with the
  behaviour that their documentation states as named hypotheses.  Left out are the window and
  the loading of images and fonts (calls to \<open>raylib\<close> only), the colours and widths of what is drawn,
  log output, the conversion of an option to \<open>double\<close> and \<open>getElapsedTime\<close> (nothing calls them), the
  tests, the build files and the assets.  The properties that tie a client to its
  lobby speak of the messages that the lobby pushes for the session, handled in that order and once
  each: a packet that the network loses is outside them, and \<open>Destroy\<close>, \<open>UpdatePosition\<close> and the other
  unreliable packets may be lost.
\<close>

end
